(* ===== verification/Prelude.thy ===== *)
theory Prelude
  imports Main "HOL-Library.Word"
begin

text \<open>
  Shared vocabulary of the development.

  \<^item> machine integers: \<open>u8\<close> to \<open>u64\<close> are words of their width; \<open>usize\<close> is a natural number
    with the 64-bit bound written out in \<open>checked_add\<close>;
  \<^item> a Rust \<open>Result<T, E>\<close> is the sum \<open>'e + 't\<close> (\<open>Inl\<close> is \<open>Err\<close>), sequenced with \<open>bindr\<close>,
    which is the question mark operator of the source;
  \<^item> \<open>to_le_bytes\<close> and \<open>from_le_bytes\<close> of the integer types are \<open>le_bytes\<close> and \<open>le_word\<close>;
  \<^item> \<open>&data[a..b]\<close> is \<open>slice a b data\<close>;
  \<^item> a Rust \<open>String\<close> is the list of its UTF-8 bytes, checked by \<open>utf8_valid\<close> where the code calls
    \<open>std::str::from_utf8\<close>.
\<close>

unbundle bit_operations_syntax

type_synonym u8 = "8 word"
type_synonym u16 = "16 word"
type_synonym u32 = "32 word"
type_synonym u64 = "64 word"
type_synonym bytes = "u8 list"
type_synonym rstring = "bytes"

named_theorems codec_simps \<open>little-endian encodings: lengths and round trips\<close>
named_theorems slice_simps \<open>slices of byte lists\<close>

subsection \<open>Results\<close>

definition bindr :: "'e + 'a \<Rightarrow> ('a \<Rightarrow> 'e + 'b) \<Rightarrow> 'e + 'b" where
  "bindr m f = (case m of Inl e \<Rightarrow> Inl e | Inr x \<Rightarrow> f x)"

lemma bindr_simps [simp]: "bindr (Inl e) f = Inl e" "bindr (Inr x) f = f x"
  by (simp_all add: bindr_def)

lemma bindr_cong [fundef_cong]:
  "m = m' \<Longrightarrow> (\<And>x. m' = Inr x \<Longrightarrow> f x = g x) \<Longrightarrow> bindr m f = bindr m' g"
  by (cases m') simp_all

lemma bindr_eq_Inr: "bindr m f = Inr y \<longleftrightarrow> (\<exists>x. m = Inr x \<and> f x = Inr y)"
  by (cases m) simp_all

lemma bindr_eq_Inl: "bindr m f = Inl e \<longleftrightarrow> m = Inl e \<or> (\<exists>x. m = Inr x \<and> f x = Inl e)"
  by (cases m) simp_all

lemma bindr_InrE:
  assumes "bindr m f = Inr y"
  obtains x where "m = Inr x" "f x = Inr y"
  using assms by (auto simp: bindr_eq_Inr)

definition map_err :: "('e \<Rightarrow> 'f) \<Rightarrow> 'e + 'a \<Rightarrow> 'f + 'a" where
  "map_err h m = (case m of Inl e \<Rightarrow> Inl (h e) | Inr x \<Rightarrow> Inr x)"

lemma map_err_simps [simp]: "map_err h (Inl e) = Inl (h e)" "map_err h (Inr x) = Inr x"
  by (simp_all add: map_err_def)

lemma map_err_eq_Inr [simp]: "map_err h m = Inr x \<longleftrightarrow> m = Inr x"
  by (cases m) simp_all

definition ok_or :: "'e \<Rightarrow> 'a option \<Rightarrow> 'e + 'a" where
  "ok_or e x = (case x of None \<Rightarrow> Inl e | Some v \<Rightarrow> Inr v)"

lemma ok_or_simps [simp]: "ok_or e None = Inl e" "ok_or e (Some v) = Inr v"
  by (simp_all add: ok_or_def)

lemma ok_or_eq_Inr [simp]: "ok_or e x = Inr v \<longleftrightarrow> x = Some v"
  by (cases x) simp_all

text \<open>\<open>Result::ok\<close>.\<close>

definition res_ok :: "'e + 'a \<Rightarrow> 'a option" where
  "res_ok m = (case m of Inl _ \<Rightarrow> None | Inr x \<Rightarrow> Some x)"

lemma res_ok_simps [simp]: "res_ok (Inl e) = None" "res_ok (Inr x) = Some x"
  by (simp_all add: res_ok_def)

text \<open>
  \<open>if !b { return Err(e) }\<close>, and the loops of the source that stop at the first error: \<open>each\<close> without
  and \<open>steps\<close> with a state.
\<close>

definition ensure :: "bool \<Rightarrow> 'e \<Rightarrow> 'e + unit" where
  "ensure b e = (if b then Inr () else Inl e)"

lemma ensure_eq_Inr [simp]: "ensure b e = Inr u \<longleftrightarrow> b"
  by (simp add: ensure_def)

fun each :: "('a \<Rightarrow> 'e + unit) \<Rightarrow> 'a list \<Rightarrow> 'e + unit" where
  "each f [] = Inr ()"
| "each f (x # xs) = bindr (f x) (\<lambda>_. each f xs)"

lemma each_cong [fundef_cong]:
  "xs = ys \<Longrightarrow> (\<And>x. x \<in> set ys \<Longrightarrow> f x = g x) \<Longrightarrow> each f xs = each g ys"
  by (induction xs arbitrary: ys) (auto intro: bindr_cong)

lemma each_eq_Inr [simp]: "each f xs = Inr u \<longleftrightarrow> (\<forall>x \<in> set xs. f x = Inr ())"
  by (induction xs) (auto simp: bindr_eq_Inr)

fun steps :: "('a \<Rightarrow> 's \<Rightarrow> 'e + 's) \<Rightarrow> 'a list \<Rightarrow> 's \<Rightarrow> 'e + 's" where
  "steps f [] s = Inr s"
| "steps f (x # xs) s = bindr (f x s) (steps f xs)"

lemma steps_cong [fundef_cong]:
  "xs = ys \<Longrightarrow> s = t \<Longrightarrow> (\<And>x s. x \<in> set ys \<Longrightarrow> f x s = g x s) \<Longrightarrow> steps f xs s = steps g ys t"
proof -
  have "(\<And>x s. x \<in> set ys \<Longrightarrow> f x s = g x s) \<Longrightarrow> steps f ys t = steps g ys t"
    by (induction ys arbitrary: t) (auto intro: bindr_cong)
  then show "xs = ys \<Longrightarrow> s = t \<Longrightarrow> (\<And>x s. x \<in> set ys \<Longrightarrow> f x s = g x s) \<Longrightarrow> steps f xs s = steps g ys t"
    by blast
qed

lemma steps_append: "steps f (xs @ ys) s = bindr (steps f xs s) (steps f ys)"
proof (induction xs arbitrary: s)
  case (Cons x xs)
  then show ?case by (cases "f x s") simp_all
qed simp

subsection \<open>Sizes\<close>

definition usize_max :: nat where
  "usize_max = 2 ^ 64 - 1"

definition isize_max :: nat where
  "isize_max = 2 ^ 63 - 1"

definition checked_add :: "nat \<Rightarrow> nat \<Rightarrow> nat option" where
  "checked_add a b = (if a + b \<le> usize_max then Some (a + b) else None)"

lemma checked_add_Some: "checked_add a b = Some c \<longleftrightarrow> c = a + b \<and> a + b \<le> usize_max"
  by (auto simp: checked_add_def)

lemma checked_add_small: "a \<le> isize_max \<Longrightarrow> b \<le> isize_max \<Longrightarrow> checked_add a b = Some (a + b)"
  by (simp add: checked_add_def usize_max_def isize_max_def)

subsection \<open>Slices\<close>

definition slice :: "nat \<Rightarrow> nat \<Rightarrow> 'a list \<Rightarrow> 'a list" where
  "slice s e xs = take (e - s) (drop s xs)"

lemma length_slice [simp]: "e \<le> length xs \<Longrightarrow> length (slice s e xs) = e - s"
  by (simp add: slice_def)

lemma slice_append:
  assumes "s \<le> m" "m \<le> e"
  shows "slice s m xs @ slice m e xs = slice s e xs"
proof -
  have "take (m - s) (drop s xs) @ take (e - m) (drop (m - s) (drop s xs)) = take ((m - s) + (e - m)) (drop s xs)"
    by (simp only: take_add)
  then show ?thesis using assms by (simp add: slice_def)
qed

lemma slice_all [simp]: "slice 0 (length xs) xs = xs"
  by (simp add: slice_def)

lemma slice_empty [simp]: "slice n n xs = []"
  by (simp add: slice_def)

lemma slice_in_append:
  "slice (length pre) (length pre + length xs) (pre @ xs @ post) = xs"
  by (simp add: slice_def)

lemma slice_in_append':
  "p = length pre \<Longrightarrow> n = length xs \<Longrightarrow> slice p (p + n) (pre @ xs @ post) = xs"
  by (simp add: slice_in_append)

lemma slice_nth: "i < e - s \<Longrightarrow> e \<le> length xs \<Longrightarrow> slice s e xs ! i = xs ! (s + i)"
  by (simp add: slice_def)

lemma slice_slice:
  assumes "a \<le> b" "s + b \<le> e"
  shows "slice a b (slice s e xs) = slice (s + a) (s + b) xs"
  using assms by (simp add: slice_def drop_take min_def add.commute)

lemma slice_slice_abs:
  assumes "a \<le> i" "i \<le> j" "j \<le> b"
  shows "slice (i - a) (j - a) (slice a b xs) = slice i j xs"
  using assms slice_slice [of "i - a" "j - a" a b xs] by simp

lemmas slice_concat = slice_append [symmetric]

text \<open>\<open>slice.get(a..b)\<close>: \<open>None\<close> when the range is out of bounds.\<close>

definition get_range :: "nat \<times> nat \<Rightarrow> 'a list \<Rightarrow> 'a list option" where
  "get_range r xs = (if fst r \<le> snd r \<and> snd r \<le> length xs then Some (slice (fst r) (snd r) xs) else None)"

lemma get_range_Some:
  "get_range (a, b) xs = Some ys \<longleftrightarrow> a \<le> b \<and> b \<le> length xs \<and> ys = slice a b xs"
  by (auto simp: get_range_def)

subsection \<open>Little-endian integers\<close>

definition le_bytes :: "nat \<Rightarrow> 'a::len word \<Rightarrow> bytes" where
  "le_bytes n w = map (\<lambda>i. ucast (drop_bit (8 * i) w)) [0..<n]"

fun le_word :: "bytes \<Rightarrow> 'a::len word" where
  "le_word [] = 0"
| "le_word (b # bs) = ucast b OR push_bit 8 (le_word bs)"

lemma length_le_bytes [simp, codec_simps]: "length (le_bytes n w) = n"
  by (simp add: le_bytes_def)

lemma le_bytes_unroll:
  "le_bytes 2 (w :: 'a::len word) = [ucast w, ucast (drop_bit 8 w)]"
  "le_bytes 4 w = [ucast w, ucast (drop_bit 8 w), ucast (drop_bit 16 w), ucast (drop_bit 24 w)]"
  by (simp_all add: le_bytes_def numeral_eq_Suc upt_rec)

lemma bit_u8_bound: "bit (b :: u8) k \<Longrightarrow> k < 8"
  using bit_imp_le_length [of b k] by simp

lemma bit_le_word:
  "bit (le_word bs :: 'a::len word) k \<longleftrightarrow>
     k < LENGTH('a) \<and> k div 8 < length bs \<and> bit (bs ! (k div 8)) (k mod 8)"
proof (induction bs arbitrary: k)
  case Nil
  then show ?case by simp
next
  case (Cons b bs)
  show ?case
  proof (cases "k < 8")
    case True
    then show ?thesis by (auto simp: bit_or_iff bit_push_bit_iff bit_ucast_iff)
  next
    case False
    then have "k div 8 = Suc ((k - 8) div 8)" "(k - 8) mod 8 = k mod 8"
      by (simp_all add: le_div_geq le_mod_geq)
    moreover have "\<not> bit b k" using False bit_u8_bound by blast
    ultimately show ?thesis using False Cons.IH [of "k - 8"]
      by (auto simp: bit_or_iff bit_push_bit_iff bit_ucast_iff)
  qed
qed

lemma le_word_le_bytes [codec_simps]:
  assumes "LENGTH('a) \<le> 8 * n"
  shows "le_word (le_bytes n w) = (w :: 'a::len word)"
proof (rule bit_word_eqI)
  fix k assume k: "k < LENGTH('a)"
  then have "k div 8 < n" using assms by linarith
  moreover have "8 * (k div 8) + k mod 8 = k" by simp
  ultimately show "bit (le_word (le_bytes n w) :: 'a word) k = bit w k"
    using k by (simp add: bit_le_word le_bytes_def bit_ucast_iff bit_drop_bit_eq)
qed

lemma le_bytes_le_word [codec_simps]:
  assumes "length bs = n" "8 * n \<le> LENGTH('a)"
  shows "le_bytes n (le_word bs :: 'a::len word) = bs"
proof (rule nth_equalityI)
  show "length (le_bytes n (le_word bs :: 'a word)) = length bs" using assms by simp
next
  fix i assume "i < length (le_bytes n (le_word bs :: 'a word))"
  then have i: "i < n" by simp
  show "le_bytes n (le_word bs :: 'a word) ! i = bs ! i"
  proof (rule bit_word_eqI)
    fix k assume k: "k < LENGTH(8)"
    then have k8: "k < 8" by simp
    then have "(8 * i + k) div 8 = i" "(8 * i + k) mod 8 = k" by simp_all
    moreover have "8 * i + k < LENGTH('a)" using i k8 assms(2) by linarith
    ultimately show "bit (le_bytes n (le_word bs :: 'a word) ! i) k = bit (bs ! i) k"
      using i k8 assms(1) by (simp add: le_bytes_def bit_ucast_iff bit_drop_bit_eq bit_le_word)
  qed
qed

text \<open>The widths of the source: \<open>u16\<close> is two bytes, \<open>u32\<close> four, \<open>u64\<close> eight.\<close>

lemma le_word_le_bytes_widths [simp, codec_simps]:
  "le_word (le_bytes 2 (a :: u16)) = a"
  "le_word (le_bytes 4 (b :: u32)) = b"
  "le_word (le_bytes 8 (c :: u64)) = c"
  by (simp_all add: le_word_le_bytes)

lemma le_bytes_le_word_widths [simp, codec_simps]:
  "length bs = 2 \<Longrightarrow> le_bytes 2 (le_word bs :: u16) = bs"
  "length bs = 4 \<Longrightarrow> le_bytes 4 (le_word bs :: u32) = bs"
  "length bs = 8 \<Longrightarrow> le_bytes 8 (le_word bs :: u64) = bs"
  by (simp_all add: le_bytes_le_word)

lemma le_bytes_inject:
  "LENGTH('a) \<le> 8 * n \<Longrightarrow> le_bytes n v = le_bytes n w \<longleftrightarrow> v = (w :: 'a::len word)"
  by (metis le_word_le_bytes)

text \<open>Casts: \<open>x as usize\<close> of a word is \<open>unat\<close>, \<open>n as u32\<close> of a size is \<open>of_nat\<close>, which truncates.\<close>

lemma unat_of_nat_u32 [simp]: "n < 4294967296 \<Longrightarrow> unat (of_nat n :: u32) = n"
  by (simp add: unat_of_nat take_bit_eq_mod)

lemma unat_of_nat_u16 [simp]: "n < 65536 \<Longrightarrow> unat (of_nat n :: u16) = n"
  by (simp add: unat_of_nat take_bit_eq_mod)

lemma unat_u32_bound: "unat (w :: u32) < 4294967296"
  using unsigned_less [of w] by simp

lemma unat_ucast_u64: "unat (ucast (w :: u32) :: u64) = unat w"
proof -
  have "unat w < 2 ^ 64" using unat_u32_bound [of w] by simp
  then show ?thesis unfolding unsigned_ucast_eq by (simp add: take_bit_nat_eq_self)
qed

lemma unat_u16_bound: "unat (w :: u16) < 65536"
  using unsigned_less [of w] by simp

lemma unat_u8_bound: "unat (w :: u8) < 256"
  using unsigned_less [of w] by simp

lemma unat_u32_le_isize [simp]: "unat (w :: u32) \<le> isize_max"
  using unat_u32_bound [of w] by (simp add: isize_max_def)

lemma unat_u16_le_isize [simp]: "unat (w :: u16) \<le> isize_max"
  using unat_u16_bound [of w] by (simp add: isize_max_def)

text \<open>\<open>u32::saturating_add\<close> and \<open>u32::try_from(n).unwrap_or(u32::MAX)\<close>.\<close>

definition saturating_add_u32 :: "u32 \<Rightarrow> u32 \<Rightarrow> u32" where
  "saturating_add_u32 a b = (if unat a + unat b < 2 ^ 32 then a + b else - 1)"

definition u32_try_from_or_max :: "nat \<Rightarrow> u32" where
  "u32_try_from_or_max n = (if n < 2 ^ 32 then of_nat n else - 1)"

subsection \<open>Text\<close>

text \<open>The bytes of an ASCII literal of the source.\<close>

definition ascii :: "string \<Rightarrow> bytes" where
  "ascii s = map of_char s"

lemma length_ascii [simp]: "length (ascii s) = length s"
  by (simp add: ascii_def)

definition to_ascii_lowercase :: "u8 \<Rightarrow> u8" where
  "to_ascii_lowercase b = (if 0x41 \<le> b \<and> b \<le> 0x5A then b + 0x20 else b)"

definition to_ascii_uppercase :: "u8 \<Rightarrow> u8" where
  "to_ascii_uppercase b = (if 0x61 \<le> b \<and> b \<le> 0x7A then b - 0x20 else b)"

lemma to_ascii_lowercase_idem [simp]: "to_ascii_lowercase (to_ascii_lowercase b) = to_ascii_lowercase b"
proof (cases "0x41 \<le> b \<and> b \<le> 0x5A")
  case True
  have n: "unat (0x41 :: u8) = 65" "unat (0x5A :: u8) = 90" "unat (0x20 :: u8) = 32" by simp_all
  have "unat (b + 0x20) = unat b + 32"
    using True n by (simp add: word_le_nat_alt unat_plus_if')
  then have "\<not> b + 0x20 \<le> 0x5A" using True n by (simp add: word_le_nat_alt)
  then show ?thesis by (simp add: to_ascii_lowercase_def)
qed (simp add: to_ascii_lowercase_def)

text \<open>
  \<open>std::str::from_utf8\<close>: well-formed UTF-8 byte sequences (no overlong forms, no surrogates,
  nothing above U+10FFFF).
\<close>

definition utf8_cont :: "u8 \<Rightarrow> bool" where
  "utf8_cont b \<longleftrightarrow> 0x80 \<le> b \<and> b \<le> 0xBF"

fun utf8_valid :: "bytes \<Rightarrow> bool" where
  "utf8_valid [] = True"
| "utf8_valid (b # bs) =
     (if b < 0x80 then utf8_valid bs
      else if 0xC2 \<le> b \<and> b \<le> 0xDF then
        (case bs of c # r \<Rightarrow> utf8_cont c \<and> utf8_valid r | _ \<Rightarrow> False)
      else if 0xE0 \<le> b \<and> b \<le> 0xEF then
        (case bs of c # d # r \<Rightarrow>
             (if b = 0xE0 then 0xA0 \<le> c \<and> c \<le> 0xBF
              else if b = 0xED then 0x80 \<le> c \<and> c \<le> 0x9F
              else utf8_cont c) \<and> utf8_cont d \<and> utf8_valid r
         | _ \<Rightarrow> False)
      else if 0xF0 \<le> b \<and> b \<le> 0xF4 then
        (case bs of c # d # e # r \<Rightarrow>
             (if b = 0xF0 then 0x90 \<le> c \<and> c \<le> 0xBF
              else if b = 0xF4 then 0x80 \<le> c \<and> c \<le> 0x8F
              else utf8_cont c) \<and> utf8_cont d \<and> utf8_cont e \<and> utf8_valid r
         | _ \<Rightarrow> False)
      else False)"

lemma utf8_valid_ascii: "(\<And>b. b \<in> set bs \<Longrightarrow> b < 0x80) \<Longrightarrow> utf8_valid bs"
  by (induction bs) auto

text \<open>Dropping every trailing NUL byte, the loop of \<open>SubRecord::as_zstring\<close>.\<close>

definition strip_nuls :: "bytes \<Rightarrow> bytes" where
  "strip_nuls bs = rev (dropWhile (\<lambda>b. b = 0) (rev bs))"

lemma strip_nuls_snoc_0 [simp]: "strip_nuls (bs @ [0]) = strip_nuls bs"
  by (simp add: strip_nuls_def)

lemma strip_nuls_id: "bs = [] \<or> last bs \<noteq> 0 \<Longrightarrow> strip_nuls bs = bs"
  by (cases bs rule: rev_cases) (auto simp: strip_nuls_def)

text \<open>The scan to the zero byte that ends a string, or to the end of the data.\<close>

function scan_nul :: "bytes \<Rightarrow> nat \<Rightarrow> nat" where
  "scan_nul bs e = (if e < length bs \<and> bs ! e \<noteq> 0 then scan_nul bs (e + 1) else e)"
  by pat_completeness auto
termination by (relation "measure (\<lambda>(bs, e). length bs - e)") auto

declare scan_nul.simps [simp del]

lemma scan_nul_written: "0 \<notin> set p \<Longrightarrow> scan_nul (pre @ p @ 0 # post) (length pre) = length pre + length p"
proof (induction p arbitrary: pre)
  case Nil
  then show ?case by (subst scan_nul.simps) simp
next
  case (Cons b p)
  then show ?case using Cons.IH [of "pre @ [b]"] by (subst scan_nul.simps) (simp add: nth_append)
qed

end
