(* ===== verification/Cursor.thy ===== *)
theory Cursor
  imports Prelude
begin

text \<open>
  \<open>bethkit-io\<close>: the bounds-checked little-endian cursor of \<open>src/cursor.rs\<close>, its error type, and
  the zlib wrapper of \<open>src/compression.rs\<close>. The decoder of the flate2 crate is a parameter.
\<close>

subsection \<open>Errors\<close>

text \<open>The operating-system error of \<open>IoError::Io\<close> carries the platform's message.\<close>

datatype io_error =
    IoOs string
  | IoUnexpectedEof nat
  | IoDecompress string
  | IoOffsetOverflow nat nat

subsection \<open>State\<close>

record cursor =
  cur_data :: bytes
  cur_pos :: nat

definition cursor_new :: "bytes \<Rightarrow> cursor" where
  "cursor_new d = \<lparr> cur_data = d, cur_pos = 0 \<rparr>"

definition cursor_from_offset :: "bytes \<Rightarrow> nat \<Rightarrow> io_error + cursor" where
  "cursor_from_offset d off =
     (if off > length d then Inl (IoUnexpectedEof off)
      else Inr \<lparr> cur_data = d, cur_pos = off \<rparr>)"

definition remaining :: "cursor \<Rightarrow> nat" where
  "remaining c = length (cur_data c) - cur_pos c"

definition cursor_is_empty :: "cursor \<Rightarrow> bool" where
  "cursor_is_empty c \<longleftrightarrow> cur_pos c \<ge> length (cur_data c)"

subsection \<open>Reads\<close>

definition read_array :: "nat \<Rightarrow> cursor \<Rightarrow> io_error + bytes \<times> cursor" where
  "read_array n c =
     (case checked_add (cur_pos c) n of
        None \<Rightarrow> Inl (IoOffsetOverflow (cur_pos c) n)
      | Some e \<Rightarrow>
          (if e > length (cur_data c) then Inl (IoUnexpectedEof (cur_pos c))
           else Inr (slice (cur_pos c) e (cur_data c), c\<lparr> cur_pos := e \<rparr>)))"

definition read_slice :: "nat \<Rightarrow> cursor \<Rightarrow> io_error + bytes \<times> cursor" where
  "read_slice n c =
     (case checked_add (cur_pos c) n of
        None \<Rightarrow> Inl (IoOffsetOverflow (cur_pos c) n)
      | Some e \<Rightarrow>
          (if e > length (cur_data c) then Inl (IoUnexpectedEof (cur_pos c))
           else Inr (slice (cur_pos c) e (cur_data c), c\<lparr> cur_pos := e \<rparr>)))"

definition read_u8 :: "cursor \<Rightarrow> io_error + u8 \<times> cursor" where
  "read_u8 c = bindr (read_array 1 c) (\<lambda>(b, c'). Inr (b ! 0, c'))"

definition read_u16 :: "cursor \<Rightarrow> io_error + u16 \<times> cursor" where
  "read_u16 c = bindr (read_array 2 c) (\<lambda>(b, c'). Inr (le_word b, c'))"

definition read_u32 :: "cursor \<Rightarrow> io_error + u32 \<times> cursor" where
  "read_u32 c = bindr (read_array 4 c) (\<lambda>(b, c'). Inr (le_word b, c'))"

text \<open>A signed or floating value is kept as its bit pattern; \<open>sint\<close> reads an \<open>i32\<close>.\<close>

definition read_i32 :: "cursor \<Rightarrow> io_error + u32 \<times> cursor" where
  "read_i32 c = bindr (read_array 4 c) (\<lambda>(b, c'). Inr (le_word b, c'))"

definition read_u64 :: "cursor \<Rightarrow> io_error + u64 \<times> cursor" where
  "read_u64 c = bindr (read_array 8 c) (\<lambda>(b, c'). Inr (le_word b, c'))"

definition read_f32 :: "cursor \<Rightarrow> io_error + u32 \<times> cursor" where
  "read_f32 c = bindr (read_array 4 c) (\<lambda>(b, c'). Inr (le_word b, c'))"

definition peek_bytes :: "cursor \<Rightarrow> nat \<Rightarrow> bytes option" where
  "peek_bytes c n =
     (case checked_add (cur_pos c) n of
        None \<Rightarrow> None
      | Some e \<Rightarrow> if e > length (cur_data c) then None else Some (slice (cur_pos c) e (cur_data c)))"

definition peek_u8 :: "cursor \<Rightarrow> u8 option" where
  "peek_u8 c = (if cur_pos c < length (cur_data c) then Some (cur_data c ! cur_pos c) else None)"

definition skip :: "nat \<Rightarrow> cursor \<Rightarrow> io_error + cursor" where
  "skip n c =
     (case checked_add (cur_pos c) n of
        None \<Rightarrow> Inl (IoOffsetOverflow (cur_pos c) n)
      | Some e \<Rightarrow>
          (if e > length (cur_data c) then Inl (IoUnexpectedEof (cur_pos c))
           else Inr (c\<lparr> cur_pos := e \<rparr>)))"

definition sub_cursor :: "nat \<Rightarrow> cursor \<Rightarrow> io_error + cursor \<times> cursor" where
  "sub_cursor n c = bindr (read_slice n c) (\<lambda>(s, c'). Inr (cursor_new s, c'))"

subsection \<open>Decompression\<close>

text \<open>
  \<open>inflate input\<close> stands for \<open>ZlibDecoder::read_to_end\<close>: the decoded bytes or the decoder's
  message. The expected size only sets the capacity of the output buffer.
\<close>

definition decompress_zlib :: "(bytes \<Rightarrow> string + bytes) \<Rightarrow> bytes \<Rightarrow> nat \<Rightarrow> io_error + bytes" where
  "decompress_zlib inflate input expected = map_err IoDecompress (inflate input)"

text \<open>The block and frame decoders of the lz4 crate; the block decoder is given the expected size.\<close>

definition decompress_lz4 :: "(bytes \<Rightarrow> nat \<Rightarrow> string + bytes) \<Rightarrow> bytes \<Rightarrow> nat \<Rightarrow> io_error + bytes" where
  "decompress_lz4 decode_block input expected = map_err IoDecompress (decode_block input expected)"

definition decompress_lz4_frame :: "(bytes \<Rightarrow> string + bytes) \<Rightarrow> bytes \<Rightarrow> nat \<Rightarrow> io_error + bytes" where
  "decompress_lz4_frame decode_frame input expected = map_err IoDecompress (decode_frame input)"

subsection \<open>The contract of a fixed-width read\<close>

text \<open>
  A cursor is well formed when its position lies inside its data and the data fit a Rust slice,
  whose length never exceeds \<open>isize::MAX\<close>.
\<close>

definition wf_cursor :: "cursor \<Rightarrow> bool" where
  "wf_cursor c \<longleftrightarrow> cur_pos c \<le> length (cur_data c) \<and> length (cur_data c) \<le> isize_max"

definition window :: "cursor \<Rightarrow> nat \<Rightarrow> bytes" where
  "window c n = slice (cur_pos c) (cur_pos c + n) (cur_data c)"

definition advance :: "nat \<Rightarrow> cursor \<Rightarrow> cursor" where
  "advance n c = c\<lparr> cur_pos := cur_pos c + n \<rparr>"

text \<open>The cursor over \<open>pre @ xs\<close> that stands before \<open>xs\<close>.\<close>

definition cursor_at :: "bytes \<Rightarrow> bytes \<Rightarrow> cursor" where
  "cursor_at pre xs = \<lparr> cur_data = pre @ xs, cur_pos = length pre \<rparr>"

lemma cursor_at_simps [simp]:
  "cur_data (cursor_at pre xs) = pre @ xs" "cur_pos (cursor_at pre xs) = length pre"
  "remaining (cursor_at pre xs) = length xs"
  by (simp_all add: cursor_at_def remaining_def)

lemma cursor_at_advance: "n = length xs \<Longrightarrow> advance n (cursor_at pre (xs @ post)) = cursor_at (pre @ xs) post"
  by (simp add: cursor_at_def advance_def)

lemma window_cursor_at: "n = length xs \<Longrightarrow> window (cursor_at pre (xs @ post)) n = xs"
  by (simp add: window_def slice_in_append)

lemma wf_cursor_at: "wf_cursor (cursor_at pre xs) \<longleftrightarrow> length pre + length xs \<le> isize_max"
  by (auto simp: wf_cursor_def)

lemma cursor_new_at: "cursor_new d = cursor_at [] d"
  by (simp add: cursor_new_def cursor_at_def)

lemma wf_cursor_new: "wf_cursor (cursor_new d) \<longleftrightarrow> length d \<le> isize_max"
  by (simp add: wf_cursor_def cursor_new_def)

lemma advance_simps [simp]:
  "cur_data (advance n c) = cur_data c" "cur_pos (advance n c) = cur_pos c + n"
  by (simp_all add: advance_def)

lemma advance_advance [simp]: "advance m (advance n c) = advance (n + m) c"
  by (simp add: advance_def)

lemma wf_advance: "wf_cursor c \<Longrightarrow> n \<le> remaining c \<Longrightarrow> wf_cursor (advance n c)"
  by (auto simp: wf_cursor_def remaining_def)

lemma remaining_advance: "remaining (advance n c) = remaining c - n"
  by (simp add: remaining_def)

lemma length_window: "wf_cursor c \<Longrightarrow> n \<le> remaining c \<Longrightarrow> length (window c n) = n"
  by (auto simp: window_def wf_cursor_def remaining_def)

lemma not_empty_remaining: "\<not> cursor_is_empty c \<longleftrightarrow> 0 < remaining c"
  by (auto simp: cursor_is_empty_def remaining_def)

lemma read_array_Inr:
  "read_array n c = Inr (b, c') \<longleftrightarrow>
     b = window c n \<and> c' = advance n c \<and> cur_pos c + n \<le> length (cur_data c) \<and> cur_pos c + n \<le> usize_max"
  by (auto simp: read_array_def checked_add_def window_def advance_def split: if_splits)

lemma read_slice_eq: "read_slice n c = read_array n c"
  by (simp add: read_slice_def read_array_def)

lemma read_array_wf:
  assumes "wf_cursor c" "n \<le> isize_max"
  shows "read_array n c =
    (if n \<le> remaining c then Inr (window c n, advance n c) else Inl (IoUnexpectedEof (cur_pos c)))"
proof -
  have "checked_add (cur_pos c) n = Some (cur_pos c + n)"
    using assms by (intro checked_add_small) (auto simp: wf_cursor_def)
  then show ?thesis using assms(1)
    by (auto simp: read_array_def window_def advance_def remaining_def wf_cursor_def)
qed

text \<open>
  The contract every primitive read of the cursor keeps: it returns the decoding of the next
  \<open>width\<close> bytes and moves past them, or reports the end of the data and leaves the cursor alone.
\<close>

locale fixed_read =
  fixes width :: nat
    and decode :: "bytes \<Rightarrow> 'a"
    and rd :: "cursor \<Rightarrow> io_error + 'a \<times> cursor"
  assumes rd_step: "rd c = Inr (v, c') \<Longrightarrow>
      v = decode (window c width) \<and> c' = advance width c \<and> cur_pos c + width \<le> length (cur_data c)"
    and rd_ok: "wf_cursor c \<Longrightarrow> width \<le> remaining c \<Longrightarrow> rd c = Inr (decode (window c width), advance width c)"
    and rd_eof: "wf_cursor c \<Longrightarrow> remaining c < width \<Longrightarrow> rd c = Inl (IoUnexpectedEof (cur_pos c))"
begin

lemma rd_progress: "rd c = Inr (v, c') \<Longrightarrow> remaining c' + width = remaining c"
  using rd_step by (fastforce simp: remaining_def)

lemma rd_data: "rd c = Inr (v, c') \<Longrightarrow> cur_data c' = cur_data c"
  using rd_step by fastforce

lemma rd_wf: "wf_cursor c \<Longrightarrow> rd c = Inr (v, c') \<Longrightarrow> wf_cursor c'"
  using rd_step by (fastforce simp: wf_cursor_def)

lemma rd_eq: "wf_cursor c \<Longrightarrow>
    rd c = (if width \<le> remaining c then Inr (decode (window c width), advance width c)
            else Inl (IoUnexpectedEof (cur_pos c)))"
  using rd_ok rd_eof by (simp add: not_le)

lemma rd_no_overflow: "wf_cursor c \<Longrightarrow> rd c \<noteq> Inl (IoOffsetOverflow a b)"
  by (simp add: rd_eq)

end

text \<open>A read that has an encoder: reading back an encoded value returns it.\<close>

locale fixed_codec = fixed_read +
  fixes encode :: "'a \<Rightarrow> bytes"
  assumes encode_length: "length (encode v) = width"
    and decode_encode: "decode (encode v) = v"
begin

lemma rd_encoded:
  assumes "wf_cursor (cursor_at pre (encode v @ post))"
  shows "rd (cursor_at pre (encode v @ post)) = Inr (v, cursor_at (pre @ encode v) post)"
  using assms
  by (simp add: rd_ok encode_length decode_encode window_cursor_at cursor_at_advance)

end

interpretation rd_u8: fixed_codec 1 "\<lambda>b. b ! 0" read_u8 "\<lambda>v. [v]"
  by unfold_locales
    (auto simp: read_u8_def read_array_wf bindr_eq_Inr read_array_Inr isize_max_def)

interpretation rd_u16: fixed_codec 2 le_word read_u16 "le_bytes 2"
  by unfold_locales
    (auto simp: read_u16_def read_array_wf bindr_eq_Inr read_array_Inr isize_max_def)

interpretation rd_u32: fixed_codec 4 le_word read_u32 "le_bytes 4"
  by unfold_locales
    (auto simp: read_u32_def read_array_wf bindr_eq_Inr read_array_Inr isize_max_def)

interpretation rd_i32: fixed_codec 4 le_word read_i32 "le_bytes 4"
  by unfold_locales
    (auto simp: read_i32_def read_array_wf bindr_eq_Inr read_array_Inr isize_max_def)

interpretation rd_u64: fixed_codec 8 le_word read_u64 "le_bytes 8"
  by unfold_locales
    (auto simp: read_u64_def read_array_wf bindr_eq_Inr read_array_Inr isize_max_def)

interpretation rd_f32: fixed_codec 4 le_word read_f32 "le_bytes 4"
  by unfold_locales
    (auto simp: read_f32_def read_array_wf bindr_eq_Inr read_array_Inr isize_max_def)

interpretation rd_array4: fixed_read 4 "\<lambda>b. b" "read_array 4"
  by unfold_locales (auto simp: read_array_wf read_array_Inr isize_max_def)

lemma read_array_encoded:
  "n = length xs \<Longrightarrow> wf_cursor (cursor_at pre (xs @ post)) \<Longrightarrow>
   read_array n (cursor_at pre (xs @ post)) = Inr (xs, cursor_at (pre @ xs) post)"
  by (simp add: read_array_wf wf_cursor_at window_cursor_at cursor_at_advance)

lemma read_array_progress: "read_array n c = Inr (v, c') \<Longrightarrow> remaining c' + n = remaining c"
  by (auto simp: read_array_Inr remaining_def)

text \<open>Encoded reads, as rewrite rules for the parsers.\<close>

lemmas read_encoded = read_array_encoded rd_u8.rd_encoded [simplified] rd_u16.rd_encoded rd_u32.rd_encoded
  rd_i32.rd_encoded rd_u64.rd_encoded rd_f32.rd_encoded

text \<open>The step of every read, for parser inversion.\<close>

lemmas read_steps = read_array_Inr [THEN iffD1] rd_u16.rd_step rd_u32.rd_step rd_i32.rd_step

lemmas read_progress = read_array_progress rd_u8.rd_progress rd_u16.rd_progress rd_u32.rd_progress
  rd_i32.rd_progress rd_u64.rd_progress rd_f32.rd_progress

lemma peek_bytes_wf:
  assumes "wf_cursor c" "n \<le> isize_max"
  shows "peek_bytes c n = (if n \<le> remaining c then Some (window c n) else None)"
proof -
  have "checked_add (cur_pos c) n = Some (cur_pos c + n)"
    using assms by (intro checked_add_small) (auto simp: wf_cursor_def)
  then show ?thesis using assms(1)
    by (auto simp: peek_bytes_def window_def remaining_def wf_cursor_def)
qed

lemma peek_bytes_Some: "peek_bytes c n = Some b \<Longrightarrow> b = window c n \<and> n \<le> remaining c"
  by (auto simp: peek_bytes_def window_def remaining_def checked_add_def split: if_splits)

lemma sub_cursor_wf:
  assumes "wf_cursor c" "n \<le> isize_max"
  shows "sub_cursor n c =
    (if n \<le> remaining c then Inr (cursor_new (window c n), advance n c) else Inl (IoUnexpectedEof (cur_pos c)))"
  using assms by (simp add: sub_cursor_def read_slice_eq read_array_wf)

lemma skip_eq_read: "skip n c = bindr (read_slice n c) (\<lambda>(_, c'). Inr c')"
  by (simp add: skip_def read_slice_def split: option.split)

end
