(* ===== verification/CoreTypes.thy ===== *)
theory CoreTypes
  imports Cursor "HOL-Library.List_Lexorder"
begin

text \<open>
  \<open>bethkit-core/src/types.rs\<close> and \<open>error.rs\<close>: signatures, FormIDs, record flags, the game context,
  and the error type of the crate. The fields of FormIDs and flags are \<open>u32\<close> words with the
  source's masks and shifts; \<open>f32\<close> constants are their bit patterns.
\<close>

subsection \<open>Signatures\<close>

datatype signature = Signature u8 u8 u8 u8

fun sig_bytes :: "signature \<Rightarrow> bytes" where
  "sig_bytes (Signature a b c d) = [a, b, c, d]"

definition sig_of :: "bytes \<Rightarrow> signature" where
  "sig_of bs = Signature (bs ! 0) (bs ! 1) (bs ! 2) (bs ! 3)"

lemma length_sig_bytes [simp, codec_simps]: "length (sig_bytes s) = 4"
  by (cases s) simp

lemma sig_of_bytes [simp, codec_simps]: "sig_of (sig_bytes s) = s"
  by (cases s) (simp add: sig_of_def)

lemma sig_bytes_of [simp, codec_simps]: "length bs = 4 \<Longrightarrow> sig_bytes (sig_of bs) = bs"
  by (auto simp: sig_of_def numeral_eq_Suc length_Suc_conv)

lemma sig_bytes_inject [simp]: "sig_bytes s = sig_bytes t \<longleftrightarrow> s = t"
  by (metis sig_of_bytes)

text \<open>\<open>Signature(*b"ABCD")\<close>, and the constants of \<open>impl Signature\<close>.\<close>

definition sig_lit :: "string \<Rightarrow> signature" where
  "sig_lit s = sig_of (ascii s)"

definition SIG_TES4 :: signature where "SIG_TES4 = sig_lit ''TES4''"
definition SIG_TES3 :: signature where "SIG_TES3 = sig_lit ''TES3''"
definition SIG_GRUP :: signature where "SIG_GRUP = sig_lit ''GRUP''"
definition SIG_EDID :: signature where "SIG_EDID = sig_lit ''EDID''"
definition SIG_MAST :: signature where "SIG_MAST = sig_lit ''MAST''"
definition SIG_HEDR :: signature where "SIG_HEDR = sig_lit ''HEDR''"
definition SIG_XXXX :: signature where "SIG_XXXX = sig_lit ''XXXX''"
definition SIG_SNAM :: signature where "SIG_SNAM = sig_lit ''SNAM''"
definition SIG_DATA :: signature where "SIG_DATA = sig_lit ''DATA''"

lemmas sig_consts = SIG_TES4_def SIG_TES3_def SIG_GRUP_def SIG_EDID_def SIG_MAST_def SIG_HEDR_def
  SIG_XXXX_def SIG_SNAM_def SIG_DATA_def sig_lit_def sig_of_def ascii_def

text \<open>The derived \<open>Ord\<close> of the wrapped array is lexicographic.\<close>

instantiation signature :: linorder
begin

definition less_eq_signature :: "signature \<Rightarrow> signature \<Rightarrow> bool" where
  "less_eq_signature s t \<longleftrightarrow> sig_bytes s \<le> sig_bytes t"

definition less_signature :: "signature \<Rightarrow> signature \<Rightarrow> bool" where
  "less_signature s t \<longleftrightarrow> sig_bytes s < sig_bytes t"

instance
proof
  fix s t u :: signature
  show "s < t \<longleftrightarrow> s \<le> t \<and> \<not> t \<le> s"
    by (simp only: less_eq_signature_def less_signature_def less_le_not_le)
  show "s \<le> s" by (simp add: less_eq_signature_def)
  show "s \<le> t \<Longrightarrow> t \<le> u \<Longrightarrow> s \<le> u" by (auto simp: less_eq_signature_def)
  show "s \<le> t \<Longrightarrow> t \<le> s \<Longrightarrow> s = t"
    unfolding less_eq_signature_def by (metis order_antisym sig_bytes_inject)
  show "s \<le> t \<or> t \<le> s" by (auto simp: less_eq_signature_def)
qed

end

text \<open>\<open>Display\<close>: printable bytes as they are, others as \<open>\x\<close> and two upper-case hex digits.\<close>

definition hex_digit :: "u8 \<Rightarrow> u8" where
  "hex_digit n = (if n < 10 then n + 0x30 else n + 0x37)"

fun fmt_sig_byte :: "u8 \<Rightarrow> bytes" where
  "fmt_sig_byte b =
     (if 0x21 \<le> b \<and> b \<le> 0x7E \<or> b = 0x20 then [b]
      else [0x5C, 0x78, hex_digit (drop_bit 4 b), hex_digit (b AND 0xF)])"

definition fmt_signature :: "signature \<Rightarrow> bytes" where
  "fmt_signature s = concat (map fmt_sig_byte (sig_bytes s))"

subsection \<open>FormIDs\<close>

datatype form_id = FormId (fid_raw: u32)

definition FORM_ID_NULL :: form_id where
  "FORM_ID_NULL = FormId 0"

definition file_index :: "form_id \<Rightarrow> u8" where
  "file_index f = ucast (drop_bit 24 (fid_raw f))"

definition object_id :: "form_id \<Rightarrow> u32" where
  "object_id f = fid_raw f AND 0x00FFFFFF"

definition is_null :: "form_id \<Rightarrow> bool" where
  "is_null f \<longleftrightarrow> fid_raw f = 0"

definition esl_slot :: "form_id \<Rightarrow> u16" where
  "esl_slot f = ucast (drop_bit 12 (fid_raw f) AND 0xFFF)"

definition esl_object :: "form_id \<Rightarrow> u16" where
  "esl_object f = ucast (fid_raw f AND 0xFFF)"

subsection \<open>Record flags\<close>

type_synonym record_flags = u32

definition FLAG_ESM :: record_flags where "FLAG_ESM = 0x00000001"
definition FLAG_LOCALIZED :: record_flags where "FLAG_LOCALIZED = 0x00000080"
definition FLAG_LIGHT :: record_flags where "FLAG_LIGHT = 0x00000200"
definition FLAG_DELETED :: record_flags where "FLAG_DELETED = 0x00000020"
definition FLAG_COMPRESSED :: record_flags where "FLAG_COMPRESSED = 0x00040000"

text \<open>\<open>bitflags\<close>' \<open>contains\<close>: every bit of the second argument is set in the first.\<close>

definition flags_contain :: "record_flags \<Rightarrow> record_flags \<Rightarrow> bool" where
  "flags_contain fs g \<longleftrightarrow> fs AND g = g"

subsection \<open>Games\<close>

datatype plugin_kind = KPlugin | KMaster | KLight | KMedium | KUpdate

fun fmt_plugin_kind :: "plugin_kind \<Rightarrow> bytes" where
  "fmt_plugin_kind KPlugin = ascii ''Plugin''"
| "fmt_plugin_kind KMaster = ascii ''Master''"
| "fmt_plugin_kind KLight = ascii ''Light''"
| "fmt_plugin_kind KMedium = ascii ''Medium''"
| "fmt_plugin_kind KUpdate = ascii ''Update''"

datatype game =
    SkyrimSE | SkyrimLE | SkyrimVR | Fallout4 | Fallout4VR | Fallout76 | Starfield
  | Oblivion | Fallout3 | FalloutNV | Morrowind

record game_context =
  ctx_game :: game

definition ctx_sse :: game_context where "ctx_sse = \<lparr> ctx_game = SkyrimSE \<rparr>"
definition ctx_skyrim_le :: game_context where "ctx_skyrim_le = \<lparr> ctx_game = SkyrimLE \<rparr>"
definition ctx_fallout4 :: game_context where "ctx_fallout4 = \<lparr> ctx_game = Fallout4 \<rparr>"
definition ctx_starfield :: game_context where "ctx_starfield = \<lparr> ctx_game = Starfield \<rparr>"
definition ctx_oblivion :: game_context where "ctx_oblivion = \<lparr> ctx_game = Oblivion \<rparr>"
definition ctx_morrowind :: game_context where "ctx_morrowind = \<lparr> ctx_game = Morrowind \<rparr>"

definition light_flag :: "game_context \<Rightarrow> u32" where
  "light_flag ctx = (case ctx_game ctx of Starfield \<Rightarrow> 0x00000100 | _ \<Rightarrow> 0x00000200)"

definition medium_flag :: "game_context \<Rightarrow> u32" where
  "medium_flag ctx = 0x00000400"

definition update_flag :: "game_context \<Rightarrow> u32" where
  "update_flag ctx = (case ctx_game ctx of Starfield \<Rightarrow> 0x00000200 | _ \<Rightarrow> 0x00100000)"

definition supports_light :: "game_context \<Rightarrow> bool" where
  "supports_light ctx =
     (ctx_game ctx \<in> {SkyrimSE, SkyrimVR, Fallout4, Fallout4VR, Fallout76, Starfield})"

definition supports_localization :: "game_context \<Rightarrow> bool" where
  "supports_localization ctx =
     (ctx_game ctx \<in> {SkyrimLE, SkyrimSE, SkyrimVR, Fallout4, Fallout4VR, Fallout76, Starfield})"

definition supports_medium :: "game_context \<Rightarrow> bool" where
  "supports_medium ctx = (ctx_game ctx = Starfield)"

definition supports_update :: "game_context \<Rightarrow> bool" where
  "supports_update ctx = (ctx_game ctx \<in> {Starfield, SkyrimVR})"

definition light_max_object_id :: "game_context \<Rightarrow> u32" where
  "light_max_object_id ctx = 0xFFF"

definition light_min_object_id :: "game_context \<Rightarrow> u32" where
  "light_min_object_id ctx = (case ctx_game ctx of SkyrimSE \<Rightarrow> 1 | _ \<Rightarrow> 0x800)"

definition medium_max_object_id :: "game_context \<Rightarrow> u32" where
  "medium_max_object_id ctx = 0xFFFF"

definition header_signature :: "game_context \<Rightarrow> signature" where
  "header_signature ctx = (case ctx_game ctx of Morrowind \<Rightarrow> SIG_TES3 | _ \<Rightarrow> SIG_TES4)"

text \<open>The IEEE-754 single-precision patterns of the source's literals.\<close>

definition ctx_hedr_version :: "game_context \<Rightarrow> u32" where
  "ctx_hedr_version ctx = (case ctx_game ctx of
      Morrowind \<Rightarrow> 0x3FA66666 | Oblivion \<Rightarrow> 0x3F800000 | Fallout3 \<Rightarrow> 0x3F70A3D7
    | FalloutNV \<Rightarrow> 0x3F70A3D7 | SkyrimLE \<Rightarrow> 0x3F70A3D7 | SkyrimSE \<Rightarrow> 0x3FD9999A
    | SkyrimVR \<Rightarrow> 0x3FD9999A | Fallout4 \<Rightarrow> 0x3F733333 | Fallout4VR \<Rightarrow> 0x3F733333
    | Fallout76 \<Rightarrow> 0x42880000 | Starfield \<Rightarrow> 0x3F75C28F)"

definition plugin_kind_from_flags :: "game_context \<Rightarrow> record_flags \<Rightarrow> plugin_kind" where
  "plugin_kind_from_flags ctx raw =
     (if supports_medium ctx \<and> raw AND medium_flag ctx \<noteq> 0 then KMedium
      else if supports_update ctx \<and> raw AND update_flag ctx \<noteq> 0 then KUpdate
      else if supports_light ctx \<and> raw AND light_flag ctx \<noteq> 0 then KLight
      else if raw AND FLAG_ESM \<noteq> 0 then KMaster
      else KPlugin)"

subsection \<open>Errors\<close>

text \<open>
  \<open>CoreError\<close>. A message built by \<open>format!\<close> keeps the format and its arguments as a constructor of
  \<open>message\<close>; a fixed message is its text.
\<close>

datatype message =
    Msg string
  | ExpectedBytes nat signature nat
  | InvalidUtf8In signature
  | XxxxUnexpectedSize u16
  | DuplicateInGroup form_id
  | DuplicateInOrder form_id
  | UnknownInOrder form_id
  | OrderIncomplete nat nat
  | NoLongerInGroup form_id

datatype core_error =
    CoreIo io_error
  | InvalidSignature bytes bytes
  | InvalidGroupType u32
  | InvalidGroupRecordOrder message
  | UnexpectedEof string
  | LightFormIdOverflow u32
  | LoadOrderIndexFull
  | LightSlotOverflow
  | EslRecordLimitExceeded nat
  | UnsupportedGame game
  | InvalidStringTable message
  | MissingLStringId u32
  | LocalizedFlagWithoutTables
  | InvalidEncoding message

text \<open>\<open>#[from] IoError\<close>: the conversion the question mark operator applies to a cursor read.\<close>

abbreviation io :: "io_error + 'a \<Rightarrow> core_error + 'a" where
  "io m \<equiv> map_err CoreIo m"

end
