(* ===== verification/Records.thy ===== *)
theory Records
  imports CoreTypes
begin

text \<open>
  \<open>bethkit-core/src/record.rs\<close>: subrecords and their typed accessors, the subrecord parser with its
  \<open>XXXX\<close> size override, record headers, and main records with their lazily filled caches. The two
  cells of the source (\<open>OnceCell\<close>, \<open>OnceLock\<close>) are option fields; the methods that fill them return
  the record they leave behind.
\<close>

subsection \<open>Subrecords\<close>

datatype sub_record_data =
    Borrowed bytes nat nat
  | Owned bytes

fun sd_bytes :: "sub_record_data \<Rightarrow> bytes" where
  "sd_bytes (Borrowed d s e) = slice s e d"
| "sd_bytes (Owned v) = v"

record sub_record =
  sr_signature :: signature
  sr_data :: sub_record_data

definition sr_bytes :: "sub_record \<Rightarrow> bytes" where
  "sr_bytes sr = sd_bytes (sr_data sr)"

definition as_u8 :: "sub_record \<Rightarrow> core_error + u8" where
  "as_u8 sr =
     (if length (sr_bytes sr) \<noteq> 1
      then Inl (InvalidEncoding (ExpectedBytes 1 (sr_signature sr) (length (sr_bytes sr))))
      else Inr (sr_bytes sr ! 0))"

definition as_u16 :: "sub_record \<Rightarrow> core_error + u16" where
  "as_u16 sr =
     (if length (sr_bytes sr) \<noteq> 2
      then Inl (InvalidEncoding (ExpectedBytes 2 (sr_signature sr) (length (sr_bytes sr))))
      else Inr (le_word (sr_bytes sr)))"

definition as_u32 :: "sub_record \<Rightarrow> core_error + u32" where
  "as_u32 sr =
     (if length (sr_bytes sr) \<noteq> 4
      then Inl (InvalidEncoding (ExpectedBytes 4 (sr_signature sr) (length (sr_bytes sr))))
      else Inr (le_word (sr_bytes sr)))"

definition as_f32 :: "sub_record \<Rightarrow> core_error + u32" where
  "as_f32 sr =
     (if length (sr_bytes sr) \<noteq> 4
      then Inl (InvalidEncoding (ExpectedBytes 4 (sr_signature sr) (length (sr_bytes sr))))
      else Inr (le_word (sr_bytes sr)))"

definition as_zstring :: "sub_record \<Rightarrow> core_error + rstring" where
  "as_zstring sr =
     (let trimmed = strip_nuls (sr_bytes sr)
      in if utf8_valid trimmed then Inr trimmed
         else Inl (InvalidEncoding (InvalidUtf8In (sr_signature sr))))"

text \<open>The signed accessors return the bit pattern; \<open>sint\<close> is its value.\<close>

definition as_i8 :: "sub_record \<Rightarrow> core_error + u8" where
  "as_i8 sr = as_u8 sr"

definition as_i16 :: "sub_record \<Rightarrow> core_error + u16" where
  "as_i16 sr =
     (if length (sr_bytes sr) \<noteq> 2
      then Inl (InvalidEncoding (ExpectedBytes 2 (sr_signature sr) (length (sr_bytes sr))))
      else Inr (le_word (sr_bytes sr)))"

definition as_i32 :: "sub_record \<Rightarrow> core_error + u32" where
  "as_i32 sr =
     (if length (sr_bytes sr) \<noteq> 4
      then Inl (InvalidEncoding (ExpectedBytes 4 (sr_signature sr) (length (sr_bytes sr))))
      else Inr (le_word (sr_bytes sr)))"

definition as_form_id :: "sub_record \<Rightarrow> core_error + form_id" where
  "as_form_id sr = bindr (as_u32 sr) (\<lambda>v. Inr (FormId v))"

subsection \<open>The subrecord parser\<close>

text \<open>
  The loop of \<open>parse_subrecords\<close>: \<open>pend\<close> is \<open>pending_xxxx_size\<close>. Each round consumes the six header
  bytes, so the recursion ends.
\<close>

function parse_subrecords_loop ::
    "bytes \<Rightarrow> cursor \<Rightarrow> u32 option \<Rightarrow> core_error + sub_record list" where
  "parse_subrecords_loop data c pend =
     (if cursor_is_empty c then Inr []
      else bindr (io (read_array 4 c)) (\<lambda>(sb, c1).
           bindr (io (read_u16 c1)) (\<lambda>(raw_size, c2).
             if sig_of sb = SIG_XXXX then
               (if raw_size \<noteq> 4 then Inl (InvalidEncoding (XxxxUnexpectedSize raw_size))
                else bindr (io (sub_cursor 4 c2)) (\<lambda>(xc, c3).
                     bindr (io (read_u32 xc)) (\<lambda>(real_size, _).
                       parse_subrecords_loop data c3 (Some real_size))))
             else
               (let data_size = (case pend of Some real \<Rightarrow> unat real | None \<Rightarrow> unat raw_size)
                in bindr (io (read_slice data_size c2)) (\<lambda>(_, c3).
                   bindr (parse_subrecords_loop data c3 None) (\<lambda>rest.
                     Inr (\<lparr> sr_signature = sig_of sb,
                            sr_data = Borrowed data (cur_pos c2) (cur_pos c3) \<rparr> # rest)))))))"
  by pat_completeness auto
termination
  by (relation "measure (\<lambda>(_, c, _). remaining c)")
    (auto simp: sub_cursor_def read_slice_eq bindr_eq_Inr dest!: read_progress)

definition parse_subrecords :: "bytes \<Rightarrow> core_error + sub_record list" where
  "parse_subrecords data = parse_subrecords_loop data (cursor_new data) None"

declare parse_subrecords_loop.simps [simp del]

subsection \<open>Record headers\<close>

record record_header =
  rh_signature :: signature
  rh_data_size :: u32
  rh_flags :: record_flags
  rh_form_id :: form_id
  rh_version_control :: u32
  rh_form_version :: u16
  rh_unknown :: u16

definition record_header_parse :: "cursor \<Rightarrow> core_error + record_header \<times> cursor" where
  "record_header_parse c =
     bindr (io (read_array 4 c)) (\<lambda>(sb, c1).
     bindr (io (read_u32 c1)) (\<lambda>(data_size, c2).
     bindr (io (read_u32 c2)) (\<lambda>(flags_raw, c3).
     bindr (io (read_u32 c3)) (\<lambda>(form_id_raw, c4).
     bindr (io (read_u32 c4)) (\<lambda>(version_control, c5).
     bindr (io (read_u16 c5)) (\<lambda>(form_version, c6).
     bindr (io (read_u16 c6)) (\<lambda>(unknown, c7).
       Inr (\<lparr> rh_signature = sig_of sb, rh_data_size = data_size, rh_flags = flags_raw,
              rh_form_id = FormId form_id_raw, rh_version_control = version_control,
              rh_form_version = form_version, rh_unknown = unknown \<rparr>, c7))))))))"

subsection \<open>Main records\<close>

text \<open>\<open>Compressed\<close> holds the payload, the declared size, and the \<open>OnceCell\<close> of decoded bytes.\<close>

datatype record_data =
    Raw bytes
  | Compressed bytes u32 "bytes option"

record main_record =
  rec_header :: record_header
  rec_source_range :: "(nat \<times> nat) option"
  rec_data :: record_data
  rec_parsed :: "sub_record list option"

definition uncompressed_data_size :: "main_record \<Rightarrow> nat" where
  "uncompressed_data_size r =
     (case rec_data r of Raw d \<Rightarrow> length d | Compressed _ dsize _ \<Rightarrow> unat dsize)"

definition record_parse_header :: "game_context \<Rightarrow> cursor \<Rightarrow> core_error + main_record \<times> cursor" where
  "record_parse_header ctx c =
     bindr (record_header_parse c) (\<lambda>(h, c1).
       if rh_signature h = SIG_GRUP
       then Inl (InvalidSignature (ascii ''non-GRUP'') (fmt_signature (rh_signature h)))
       else bindr (io (read_slice (unat (rh_data_size h)) c1)) (\<lambda>(raw, c2).
         bindr (if flags_contain (rh_flags h) FLAG_COMPRESSED
                then if length raw < 4
                     then Inl (UnexpectedEof ''compressed record decompressed_size field'')
                     else Inr (Compressed (drop 4 raw) (le_word (take 4 raw)) None)
                else Inr (Raw raw)) (\<lambda>rd.
           Inr (\<lparr> rec_header = h, rec_source_range = None, rec_data = rd, rec_parsed = None \<rparr>, c2))))"

text \<open>\<open>raw_data\<close>, with the record after the call: a successful decompression is kept.\<close>

definition raw_data ::
    "(bytes \<Rightarrow> string + bytes) \<Rightarrow> main_record \<Rightarrow> (core_error + bytes) \<times> main_record" where
  "raw_data inflate r =
     (case rec_data r of
        Raw d \<Rightarrow> (Inr d, r)
      | Compressed d dsize (Some cached) \<Rightarrow> (Inr cached, r)
      | Compressed d dsize None \<Rightarrow>
          (case decompress_zlib inflate d (unat dsize) of
             Inl e \<Rightarrow> (Inl (CoreIo e), r)
           | Inr b \<Rightarrow> (Inr b, r\<lparr> rec_data := Compressed d dsize (Some b) \<rparr>)))"

text \<open>\<open>subrecords\<close>, with the record after the call.\<close>

definition subrecords ::
    "(bytes \<Rightarrow> string + bytes) \<Rightarrow> main_record \<Rightarrow> (core_error + sub_record list) \<times> main_record" where
  "subrecords inflate r =
     (case rec_parsed r of
        Some cached \<Rightarrow> (Inr cached, r)
      | None \<Rightarrow>
          (case raw_data inflate r of
             (Inl e, r1) \<Rightarrow> (Inl e, r1)
           | (Inr d, r1) \<Rightarrow>
               (case parse_subrecords d of
                  Inl e \<Rightarrow> (Inl e, r1)
                | Inr srs \<Rightarrow> (Inr srs, r1\<lparr> rec_parsed := Some srs \<rparr>))))"

abbreviation subrecs :: "(bytes \<Rightarrow> string + bytes) \<Rightarrow> main_record \<Rightarrow> core_error + sub_record list" where
  "subrecs inflate r \<equiv> fst (subrecords inflate r)"

definition record_get ::
    "(bytes \<Rightarrow> string + bytes) \<Rightarrow> signature \<Rightarrow> main_record \<Rightarrow> core_error + sub_record option" where
  "record_get inflate sig r =
     bindr (subrecs inflate r) (\<lambda>srs. Inr (find (\<lambda>sr. sr_signature sr = sig) srs))"

definition record_get_all ::
    "(bytes \<Rightarrow> string + bytes) \<Rightarrow> signature \<Rightarrow> main_record \<Rightarrow> core_error + sub_record list" where
  "record_get_all inflate sig r =
     bindr (subrecs inflate r) (\<lambda>srs. Inr (filter (\<lambda>sr. sr_signature sr = sig) srs))"

definition editor_id ::
    "(bytes \<Rightarrow> string + bytes) \<Rightarrow> main_record \<Rightarrow> core_error + rstring option" where
  "editor_id inflate r =
     bindr (record_get inflate SIG_EDID r) (\<lambda>found.
       case found of
         Some sr \<Rightarrow> bindr (as_zstring sr) (\<lambda>s. Inr (Some s))
       | None \<Rightarrow> Inr None)"

definition record_plugin_kind :: "game_context \<Rightarrow> main_record \<Rightarrow> plugin_kind" where
  "record_plugin_kind ctx r = plugin_kind_from_flags ctx (rh_flags (rec_header r))"

definition record_source_bytes :: "bytes \<Rightarrow> main_record \<Rightarrow> bytes option" where
  "record_source_bytes source r =
     (case rec_source_range r of None \<Rightarrow> None | Some rng \<Rightarrow> get_range rng source)"

subsection \<open>Progress of the parsers\<close>

lemma record_header_parse_step:
  assumes "record_header_parse c = Inr (h, c')"
  shows "c' = advance 24 c \<and> cur_pos c + 24 \<le> length (cur_data c)"
  using assms unfolding record_header_parse_def
  by (auto simp: bindr_eq_Inr dest!: read_steps)

lemma record_parse_header_step:
  assumes "record_parse_header ctx c = Inr (r, c')"
  shows "c' = advance (24 + unat (rh_data_size (rec_header r))) c"
    and "cur_pos c + 24 + unat (rh_data_size (rec_header r)) \<le> length (cur_data c)"
    and "rec_source_range r = None" "rec_parsed r = None" "rh_signature (rec_header r) \<noteq> SIG_GRUP"
  using assms unfolding record_parse_header_def
  by (auto simp: bindr_eq_Inr read_slice_eq split: if_splits dest!: record_header_parse_step read_steps)

lemma record_parse_header_progress:
  "record_parse_header ctx c = Inr (r, c') \<Longrightarrow>
   remaining c' + 24 + unat (rh_data_size (rec_header r)) = remaining c"
  using record_parse_header_step by (fastforce simp: remaining_def)

end
