(* ===== verification/RecordTree.thy ===== *)
theory RecordTree
  imports Main
begin

text \<open>
  The tree of groups and records shared by the parsed side (\<open>Group\<close>/\<open>GroupChild\<close> of \<open>group.rs\<close>) and
  the writable side (\<open>WritableGroup\<close>/\<open>WritableGroupChild\<close> of \<open>writer.rs\<close>): a child is a record or a
  nested group, a group is a head and its children. The stack-based depth-first iterators of the
  two files (\<open>RecordsIter\<close>, \<open>WritableRecordIter\<close>) are the same code; they are shown to yield the
  records in document order.
\<close>

datatype ('r, 'h) child =
    Record 'r
  | Group "('r, 'h) grp"
and ('r, 'h) grp =
    Grp (grp_head: 'h) (grp_children: "('r, 'h) child list")

fun child_records :: "('r, 'h) child \<Rightarrow> 'r list"
  and grp_records :: "('r, 'h) grp \<Rightarrow> 'r list" where
  "child_records (Record r) = [r]"
| "child_records (Group g) = grp_records g"
| "grp_records (Grp h cs) = concat (map child_records cs)"

lemma grp_records_eq: "grp_records g = concat (map child_records (grp_children g))"
  by (cases g) simp

text \<open>\<open>children.iter().filter_map\<close>: the direct records and the direct subgroups.\<close>

definition direct_records :: "('r, 'h) grp \<Rightarrow> 'r list" where
  "direct_records g = List.map_filter (\<lambda>c. case c of Record r \<Rightarrow> Some r | Group _ \<Rightarrow> None) (grp_children g)"

definition direct_groups :: "('r, 'h) grp \<Rightarrow> ('r, 'h) grp list" where
  "direct_groups g = List.map_filter (\<lambda>c. case c of Record _ \<Rightarrow> None | Group s \<Rightarrow> Some s) (grp_children g)"

subsection \<open>The iterator\<close>

text \<open>
  \<open>stack\<close> and \<open>pos\<close> are the two vectors of the source, the top of the stack first. The loop of
  \<open>next\<close> pops a finished level, returns a record, or descends into a group.
\<close>

type_synonym ('r, 'h) tree_iter = "('r, 'h) child list list \<times> nat list"

definition iter_new :: "('r, 'h) grp \<Rightarrow> ('r, 'h) tree_iter" where
  "iter_new g = ([grp_children g], [0])"

fun child_weight :: "('r, 'h) child \<Rightarrow> nat"
  and grp_weight :: "('r, 'h) grp \<Rightarrow> nat" where
  "child_weight (Record r) = 1"
| "child_weight (Group g) = 2 + grp_weight g"
| "grp_weight (Grp h cs) = sum_list (map child_weight cs)"

definition iter_weight :: "('r, 'h) child list list \<Rightarrow> nat list \<Rightarrow> nat" where
  "iter_weight st ps = sum_list (map (\<lambda>(cs, i). 1 + sum_list (map child_weight (drop i cs))) (zip st ps))"

lemma iter_weight_Cons [simp]:
  "iter_weight (cs # st) (i # ps) = 1 + sum_list (map child_weight (drop i cs)) + iter_weight st ps"
  by (simp add: iter_weight_def)

lemma sum_list_drop_nth:
  "i < length cs \<Longrightarrow>
   sum_list (map child_weight (drop i cs)) = child_weight (cs ! i) + sum_list (map child_weight (drop (Suc i) cs))"
  by (simp add: Cons_nth_drop_Suc [symmetric])

lemma grp_weight_eq: "grp_weight g = sum_list (map child_weight (grp_children g))"
  by (cases g) simp

function iter_next :: "('r, 'h) child list list \<Rightarrow> nat list \<Rightarrow> 'r option \<times> ('r, 'h) tree_iter" where
  "iter_next (children # st) (idx # ps) =
     (if idx \<ge> length children then iter_next st ps
      else (case children ! idx of
              Record r \<Rightarrow> (Some r, (children # st, Suc idx # ps))
            | Group g \<Rightarrow> iter_next (grp_children g # children # st) (0 # Suc idx # ps)))"
| "iter_next [] ps = (None, ([], ps))"
| "iter_next (children # st) [] = (None, (children # st, []))"
  by pat_completeness auto
termination
  by (relation "measure (\<lambda>(st, ps). iter_weight st ps)")
    (auto simp: sum_list_drop_nth grp_weight_eq)

declare iter_next.simps [simp del]

text \<open>The records an iterator state has still to yield.\<close>

definition iter_pending :: "('r, 'h) child list list \<Rightarrow> nat list \<Rightarrow> 'r list" where
  "iter_pending st ps = concat (map (\<lambda>(cs, i). concat (map child_records (drop i cs))) (zip st ps))"

lemma iter_pending_Cons [simp]:
  "iter_pending (cs # st) (i # ps) = concat (map child_records (drop i cs)) @ iter_pending st ps"
  by (simp add: iter_pending_def)

lemma iter_pending_Nil [simp]: "iter_pending [] ps = []" "iter_pending st [] = []"
  by (simp_all add: iter_pending_def)

text \<open>
  The contract of an iterator: \<open>next\<close> returns the head of what is pending and leaves the tail, and
  \<open>None\<close> once nothing is pending. Collecting then yields exactly the pending items, in order.
\<close>

locale iterator =
  fixes next_item :: "'s \<Rightarrow> 'a option \<times> 's"
    and pending :: "'s \<Rightarrow> 'a list"
  assumes next_empty: "pending s = [] \<Longrightarrow> fst (next_item s) = None"
    and next_some: "pending s = x # xs \<Longrightarrow> fst (next_item s) = Some x \<and> pending (snd (next_item s)) = xs"
begin

lemma next_cases:
  "(pending s = [] \<and> fst (next_item s) = None) \<or>
   (\<exists>x. fst (next_item s) = Some x \<and> pending s = x # pending (snd (next_item s)))"
  using next_empty [of s] next_some [of s] by (cases "pending s") auto

lemma next_None_iff: "fst (next_item s) = None \<longleftrightarrow> pending s = []"
  using next_cases [of s] by auto

end

text \<open>Calling \<open>next\<close> up to \<open>n\<close> times, stopping at the first \<open>None\<close>.\<close>

fun iter_run :: "('s \<Rightarrow> 'a option \<times> 's) \<Rightarrow> nat \<Rightarrow> 's \<Rightarrow> 'a list" where
  "iter_run nxt 0 s = []"
| "iter_run nxt (Suc n) s =
     (case nxt s of (None, _) \<Rightarrow> [] | (Some x, s') \<Rightarrow> x # iter_run nxt n s')"

context iterator
begin

lemma iter_run_take: "iter_run next_item n s = take n (pending s)"
proof (induction n arbitrary: s)
  case 0
  then show ?case by simp
next
  case (Suc n)
  then show ?case using next_cases [of s] by (cases "next_item s") auto
qed

end

lemma drop_records_nth:
  "i < length cs \<Longrightarrow>
   concat (map child_records (drop i cs)) = child_records (cs ! i) @ concat (map child_records (drop (Suc i) cs))"
  by (simp add: Cons_nth_drop_Suc [symmetric])

lemma iter_next_pending:
  "case iter_next st ps of
     (None, _) \<Rightarrow> iter_pending st ps = []
   | (Some r, (st', ps')) \<Rightarrow> iter_pending st ps = r # iter_pending st' ps'"
proof (induction st ps rule: iter_next.induct)
  case (1 children st idx ps)
  then show ?case
    by (subst iter_next.simps)
      (auto simp: drop_records_nth grp_records_eq split: child.splits prod.splits option.splits)
qed (simp_all add: iter_next.simps)

interpretation tree_iter: iterator "\<lambda>(st, ps). iter_next st ps" "\<lambda>(st, ps). iter_pending st ps"
proof
  fix s :: "('r, 'h) tree_iter"
  obtain st ps where s: "s = (st, ps)" by (cases s)
  show "(case s of (st, ps) \<Rightarrow> iter_pending st ps) = [] \<Longrightarrow> fst (case s of (st, ps) \<Rightarrow> iter_next st ps) = None"
    using iter_next_pending [of st ps] s by (auto split: prod.splits option.splits)
  fix x xs
  show "(case s of (st, ps) \<Rightarrow> iter_pending st ps) = x # xs \<Longrightarrow>
      fst (case s of (st, ps) \<Rightarrow> iter_next st ps) = Some x \<and>
      (case snd (case s of (st, ps) \<Rightarrow> iter_next st ps) of (st, ps) \<Rightarrow> iter_pending st ps) = xs"
    using iter_next_pending [of st ps] s by (auto split: prod.splits option.splits)
qed

text \<open>
  Running the stack-based iterator of \<open>records_recursive\<close> (and of \<open>iter_writable_records\<close>) for any
  number of steps yields that many records of the group in depth-first document order, and stops
  after the last one: no record is skipped, repeated or reordered.
\<close>

theorem records_iter_depth_first:
  "iter_run (\<lambda>(st, ps). iter_next st ps) n (iter_new g) = take n (grp_records g)"
  by (simp add: tree_iter.iter_run_take iter_new_def grp_records_eq)

end
