(* ===== verification/GroupBlocks.thy ===== *)
theory GroupBlocks
  imports Records RecordTree
begin

text \<open>
  \<open>bethkit-core/src/group.rs\<close>: group types and labels, and the recursive GRUP parser. A group is a
  node of the shared tree whose head carries the parsed header and the source range.
\<close>

subsection \<open>Group types\<close>

datatype group_type =
    Normal | WorldChildren | InteriorCellBlock | InteriorCellSubBlock
  | ExteriorCellBlock | ExteriorCellSubBlock | CellChildren | TopicChildren
  | CellPersistentChildren | CellTemporaryChildren | CellVisibleDistantChildren

fun group_type_to_raw :: "group_type \<Rightarrow> u32" where
  "group_type_to_raw Normal = 0"
| "group_type_to_raw WorldChildren = 1"
| "group_type_to_raw InteriorCellBlock = 2"
| "group_type_to_raw InteriorCellSubBlock = 3"
| "group_type_to_raw ExteriorCellBlock = 4"
| "group_type_to_raw ExteriorCellSubBlock = 5"
| "group_type_to_raw CellChildren = 6"
| "group_type_to_raw TopicChildren = 7"
| "group_type_to_raw CellPersistentChildren = 8"
| "group_type_to_raw CellTemporaryChildren = 9"
| "group_type_to_raw CellVisibleDistantChildren = 10"

definition group_type_from_raw :: "u32 \<Rightarrow> core_error + group_type" where
  "group_type_from_raw v =
     (if v = 0 then Inr Normal
      else if v = 1 then Inr WorldChildren
      else if v = 2 then Inr InteriorCellBlock
      else if v = 3 then Inr InteriorCellSubBlock
      else if v = 4 then Inr ExteriorCellBlock
      else if v = 5 then Inr ExteriorCellSubBlock
      else if v = 6 then Inr CellChildren
      else if v = 7 then Inr TopicChildren
      else if v = 8 then Inr CellPersistentChildren
      else if v = 9 then Inr CellTemporaryChildren
      else if v = 10 then Inr CellVisibleDistantChildren
      else Inl (InvalidGroupType v))"

lemma group_type_from_to_raw [simp]: "group_type_from_raw (group_type_to_raw t) = Inr t"
  by (cases t) (simp_all add: group_type_from_raw_def)

lemma group_type_to_from_raw: "group_type_from_raw v = Inr t \<Longrightarrow> group_type_to_raw t = v"
  by (auto simp: group_type_from_raw_def split: if_splits)

subsection \<open>Labels\<close>

text \<open>\<open>LGridCell\<close> carries the \<open>i16\<close> patterns of x and y, \<open>LBlockNumber\<close> an \<open>i32\<close> pattern.\<close>

datatype group_label =
    LSignature signature
  | LFormId form_id
  | LGridCell u16 u16
  | LBlockNumber u32

fun group_label_from_raw :: "bytes \<Rightarrow> group_type \<Rightarrow> group_label" where
  "group_label_from_raw raw Normal = LSignature (sig_of raw)"
| "group_label_from_raw raw WorldChildren = LFormId (FormId (le_word raw))"
| "group_label_from_raw raw CellChildren = LFormId (FormId (le_word raw))"
| "group_label_from_raw raw TopicChildren = LFormId (FormId (le_word raw))"
| "group_label_from_raw raw CellPersistentChildren = LFormId (FormId (le_word raw))"
| "group_label_from_raw raw CellTemporaryChildren = LFormId (FormId (le_word raw))"
| "group_label_from_raw raw CellVisibleDistantChildren = LFormId (FormId (le_word raw))"
| "group_label_from_raw raw ExteriorCellBlock =
     LGridCell (le_word [raw ! 2, raw ! 3]) (le_word [raw ! 0, raw ! 1])"
| "group_label_from_raw raw ExteriorCellSubBlock =
     LGridCell (le_word [raw ! 2, raw ! 3]) (le_word [raw ! 0, raw ! 1])"
| "group_label_from_raw raw InteriorCellBlock = LBlockNumber (le_word raw)"
| "group_label_from_raw raw InteriorCellSubBlock = LBlockNumber (le_word raw)"

subsection \<open>Groups\<close>

record group_header =
  gh_group_size :: u32
  gh_label :: group_label
  gh_group_type :: group_type
  gh_version_control :: u32
  gh_unknown :: u32

record group_info =
  gi_header :: group_header
  gi_source_range :: "(nat \<times> nat) option"

type_synonym group = "(main_record, group_info) grp"
type_synonym group_child = "(main_record, group_info) child"

definition GROUP_HEADER_SIZE :: nat where
  "GROUP_HEADER_SIZE = 24"

text \<open>
  The part of \<open>Group::parse\<close> before its children: the header and the offset \<open>child_limit\<close> at which
  they stop.
\<close>

definition group_parse_head :: "cursor \<Rightarrow> core_error + group_header \<times> nat \<times> cursor" where
  "group_parse_head c =
     bindr (io (read_array 4 c)) (\<lambda>(sb, c1).
       if sig_of sb \<noteq> SIG_GRUP
       then Inl (InvalidSignature (fmt_signature SIG_GRUP) (fmt_signature (sig_of sb)))
       else
         bindr (io (read_u32 c1)) (\<lambda>(group_size, c2).
         bindr (io (read_array 4 c2)) (\<lambda>(label_raw, c3).
         bindr (io (read_i32 c3)) (\<lambda>(group_type_raw, c4).
         bindr (io (read_u32 c4)) (\<lambda>(version_control, c5).
         bindr (io (read_u32 c5)) (\<lambda>(unknown, c6).
         bindr (group_type_from_raw group_type_raw) (\<lambda>group_type.
         bindr (ok_or (UnexpectedEof ''group_size overflow'')
                  (checked_add (cur_pos c) (unat group_size))) (\<lambda>child_limit.
           Inr (\<lparr> gh_group_size = group_size,
                  gh_label = group_label_from_raw label_raw group_type,
                  gh_group_type = group_type,
                  gh_version_control = version_control,
                  gh_unknown = unknown \<rparr>, child_limit, c6)))))))))"

definition set_group_range :: "nat \<times> nat \<Rightarrow> group \<Rightarrow> group" where
  "set_group_range rng g = Grp ((grp_head g)\<lparr> gi_source_range := Some rng \<rparr>) (grp_children g)"

lemma group_parse_head_step:
  assumes "group_parse_head c = Inr (h, e, c')"
  shows "c' = advance 24 c \<and> cur_pos c + 24 \<le> length (cur_data c) \<and> e = cur_pos c + unat (gh_group_size h)"
  using assms unfolding group_parse_head_def
  by (auto simp: bindr_eq_Inr checked_add_Some split: if_splits dest!: read_steps)

lemma group_parse_head_progress: "group_parse_head c = Inr (h, e, c') \<Longrightarrow> remaining c' + 24 = remaining c"
  using group_parse_head_step by (fastforce simp: remaining_def)

text \<open>
  \<open>parse_children\<close>: the loop until \<open>end\<close>, with \<open>Group::parse\<close> written out in the GRUP branch (the
  two functions call each other). A child is parsed completely before the next one, so the first
  error met in the source order is the one returned.
\<close>

function parse_children :: "game_context \<Rightarrow> nat \<Rightarrow> cursor \<Rightarrow> core_error + group_child list \<times> cursor" where
  "parse_children ctx limit c =
     (if cur_pos c < limit then
        (case peek_bytes c 4 of
           None \<Rightarrow> Inl (UnexpectedEof ''group children ended before group boundary'')
         | Some b \<Rightarrow>
             if b = sig_bytes SIG_GRUP then
               bindr (group_parse_head c) (\<lambda>(h, child_limit, c1).
               bindr (parse_children ctx child_limit c1) (\<lambda>(kids, c2).
               bindr (parse_children ctx limit c2) (\<lambda>(rest, c3).
                 Inr (Group (Grp \<lparr> gi_header = h,
                                   gi_source_range = Some (cur_pos c, cur_pos c2) \<rparr> kids) # rest, c3))))
             else
               bindr (record_parse_header ctx c) (\<lambda>(r, c1).
               bindr (parse_children ctx limit c1) (\<lambda>(rest, c2).
                 Inr (Record (r\<lparr> rec_source_range := Some (cur_pos c, cur_pos c1) \<rparr>) # rest, c2))))
      else if cur_pos c > limit
      then Inl (UnexpectedEof ''group children overshot group boundary'')
      else Inr ([], c))"
  by pat_completeness auto

lemma parse_children_dom_progress:
  "parse_children_dom (ctx, e, c) \<Longrightarrow> parse_children ctx e c = Inr (kids, c') \<Longrightarrow> remaining c' \<le> remaining c"
proof (induction ctx e c arbitrary: kids c' rule: parse_children.pinduct)
  case (1 ctx e c)
  show ?case
  proof (cases "cur_pos c < e")
    case False
    with 1 show ?thesis by (auto simp: parse_children.psimps split: if_splits)
  next
    case True
    show ?thesis
    proof (cases "peek_bytes c 4")
      case None
      with 1 True show ?thesis by (simp add: parse_children.psimps)
    next
      case (Some b)
      show ?thesis
      proof (cases "b = sig_bytes SIG_GRUP")
        case grup: True
        from 1 True Some grup obtain h ce c1 ks c2 rest where
            h: "group_parse_head c = Inr (h, ce, c1)"
          and k: "parse_children ctx ce c1 = Inr (ks, c2)"
          and r: "parse_children ctx e c2 = Inr (rest, c')"
          by (auto simp: parse_children.psimps bindr_eq_Inr)
        have "remaining c1 + 24 = remaining c" using h by (rule group_parse_head_progress)
        moreover have "remaining c2 \<le> remaining c1"
          using "1.IH"(1) [OF True Some grup h] k by blast
        moreover have "remaining c' \<le> remaining c2"
          using "1.IH"(2) [OF True Some grup h refl refl k] r by blast
        ultimately show ?thesis by linarith
      next
        case rec: False
        from 1 True Some rec obtain r c1 rest where
            h: "record_parse_header ctx c = Inr (r, c1)"
          and r: "parse_children ctx e c1 = Inr (rest, c')"
          by (auto simp: parse_children.psimps bindr_eq_Inr)
        have "remaining c1 \<le> remaining c" using record_parse_header_progress [OF h] by linarith
        moreover have "remaining c' \<le> remaining c1"
          using "1.IH"(3) [OF True Some rec h] r by blast
        ultimately show ?thesis by linarith
      qed
    qed
  qed
qed

termination parse_children
proof (relation "measure (\<lambda>(_, _, c). remaining c)", goal_cases)
  case 1
  then show ?case by simp
next
  case (2 ctx e c b x h y ce c1)
  then show ?case using group_parse_head_progress [of c] by fastforce
next
  case (3 ctx e c b x h y ce c1 z ks c2)
  then show ?case
    using group_parse_head_progress [of c h ce c1] parse_children_dom_progress [of ctx ce c1 ks c2]
    by fastforce
next
  case (4 ctx e c b x r c1)
  then show ?case using record_parse_header_progress [of ctx c r c1] by fastforce
qed

declare parse_children.simps [simp del]

text \<open>\<open>Group::parse\<close>; the source range is set by the caller.\<close>

definition group_parse :: "game_context \<Rightarrow> cursor \<Rightarrow> core_error + group \<times> cursor" where
  "group_parse ctx c =
     bindr (group_parse_head c) (\<lambda>(h, child_limit, c1).
     bindr (parse_children ctx child_limit c1) (\<lambda>(kids, c2).
       Inr (Grp \<lparr> gi_header = h, gi_source_range = None \<rparr> kids, c2)))"

lemma cursor_eta: "\<lparr> cur_data = cur_data c, cur_pos = cur_pos c \<rparr> = c"
  by simp

lemma parse_children_eq:
  "parse_children ctx limit c =
     (if cur_pos c < limit then
        (case peek_bytes c 4 of
           None \<Rightarrow> Inl (UnexpectedEof ''group children ended before group boundary'')
         | Some b \<Rightarrow>
             if b = sig_bytes SIG_GRUP then
               bindr (group_parse ctx c) (\<lambda>(g, c1).
               bindr (parse_children ctx limit c1) (\<lambda>(rest, c2).
                 Inr (Group (set_group_range (cur_pos c, cur_pos c1) g) # rest, c2)))
             else
               bindr (record_parse_header ctx c) (\<lambda>(r, c1).
               bindr (parse_children ctx limit c1) (\<lambda>(rest, c2).
                 Inr (Record (r\<lparr> rec_source_range := Some (cur_pos c, cur_pos c1) \<rparr>) # rest, c2))))
      else if cur_pos c > limit
      then Inl (UnexpectedEof ''group children overshot group boundary'')
      else Inr ([], c))"
proof -
  have "bindr (group_parse_head c) (\<lambda>(h, child_limit, c1).
          bindr (parse_children ctx child_limit c1) (\<lambda>(kids, c2).
          bindr (parse_children ctx limit c2) (\<lambda>(rest, c3).
            Inr (Group (Grp \<lparr> gi_header = h, gi_source_range = Some (cur_pos c, cur_pos c2) \<rparr> kids) # rest, c3)))) =
        bindr (group_parse ctx c) (\<lambda>(g, c1).
          bindr (parse_children ctx limit c1) (\<lambda>(rest, c2).
            Inr (Group (set_group_range (cur_pos c, cur_pos c1) g) # rest, c2)))"
    by (auto simp: group_parse_def set_group_range_def bindr_def split: sum.splits prod.splits)
  then show ?thesis
    by (subst parse_children.simps) (simp cong: if_cong option.case_cong)
qed

subsection \<open>The grammar of group contents\<close>

text \<open>
  \<open>layout ctx d a b kids\<close>: the bytes of \<open>d\<close> from \<open>a\<close> to \<open>b\<close> are the records and groups \<open>kids\<close>, one
  after the other, each with the range it occupies; a group's range ends where its size field says,
  and its own children fill what follows its header.
\<close>

inductive layout :: "game_context \<Rightarrow> bytes \<Rightarrow> nat \<Rightarrow> nat \<Rightarrow> group_child list \<Rightarrow> bool"
  for ctx :: game_context and d :: bytes where
  layout_done: "layout ctx d a a []"
| layout_record:
    "record_parse_header ctx \<lparr> cur_data = d, cur_pos = a \<rparr> = Inr (r, \<lparr> cur_data = d, cur_pos = m \<rparr>) \<Longrightarrow>
     layout ctx d m b rest \<Longrightarrow>
     layout ctx d a b (Record (r\<lparr> rec_source_range := Some (a, m) \<rparr>) # rest)"
| layout_group:
    "group_parse_head \<lparr> cur_data = d, cur_pos = a \<rparr> = Inr (h, e, \<lparr> cur_data = d, cur_pos = a + 24 \<rparr>) \<Longrightarrow>
     layout ctx d (a + 24) e kids \<Longrightarrow>
     layout ctx d e b rest \<Longrightarrow>
     layout ctx d a b (Group (Grp \<lparr> gi_header = h, gi_source_range = Some (a, e) \<rparr> kids) # rest)"

inductive_cases layout_NilE: "layout ctx d a b []"
inductive_cases layout_RecordE: "layout ctx d a b (Record r # rest)"
inductive_cases layout_GroupE: "layout ctx d a b (Group g # rest)"
inductive_simps layout_Nil_iff: "layout ctx d a b []"
inductive_simps layout_Cons_iff: "layout ctx d a b (k # rest)"

lemma layout_le: "layout ctx d a b kids \<Longrightarrow> a \<le> b"
proof (induction a b kids rule: layout.induct)
  case (layout_record a r m b rest)
  then show ?case using record_parse_header_step(1) [OF layout_record.hyps(1)]
    by (simp add: advance_def)
qed simp_all

lemma layout_bound: "layout ctx d a b kids \<Longrightarrow> a \<le> length d \<Longrightarrow> b \<le> length d"
proof (induction a b kids rule: layout.induct)
  case (layout_record a r m b rest)
  then show ?case
    using record_parse_header_step(1,2) [OF layout_record.hyps(1)] by (simp add: advance_def)
next
  case (layout_group a h e kids b rest)
  then show ?case using group_parse_head_step [OF layout_group.hyps(1)] by simp
qed simp_all

lemma parse_children_layout:
  "parse_children ctx limit c = Inr (kids, c') \<Longrightarrow>
   c' = c\<lparr> cur_pos := limit \<rparr> \<and> layout ctx (cur_data c) (cur_pos c) limit kids"
proof (induction ctx limit c arbitrary: kids c' rule: parse_children.induct)
  case (1 ctx limit c)
  note prem = "1.prems" [unfolded parse_children.simps [of ctx limit c]]
  show ?case
  proof (cases "cur_pos c < limit")
    case False
    with prem show ?thesis by (auto split: if_splits intro: layout_done)
  next
    case True
    then obtain b where Some: "peek_bytes c 4 = Some b" using prem by (cases "peek_bytes c 4") auto
    show ?thesis
    proof (cases "b = sig_bytes SIG_GRUP")
      case grup: True
      from prem True Some grup obtain h e c1 ks c2 rest where
          h: "group_parse_head c = Inr (h, e, c1)"
        and k: "parse_children ctx e c1 = Inr (ks, c2)"
        and r: "parse_children ctx limit c2 = Inr (rest, c')"
        and kids: "kids = Group (Grp \<lparr> gi_header = h, gi_source_range = Some (cur_pos c, cur_pos c2) \<rparr> ks) # rest"
        by (auto simp: bindr_eq_Inr)
      have c1: "c1 = advance 24 c" using group_parse_head_step [OF h] by simp
      have k': "c2 = c1\<lparr> cur_pos := e \<rparr> \<and> layout ctx (cur_data c1) (cur_pos c1) e ks"
        using "1.IH"(1) [OF True Some grup h refl refl k] .
      have r': "c' = c2\<lparr> cur_pos := limit \<rparr> \<and> layout ctx (cur_data c2) (cur_pos c2) limit rest"
        using "1.IH"(2) [OF True Some grup h refl refl k refl r] .
      show ?thesis using h k' r' c1 kids
        by (cases c) (auto simp: advance_def intro: layout_group)
    next
      case rec: False
      from prem True Some rec obtain r c1 rest where
          h: "record_parse_header ctx c = Inr (r, c1)"
        and r: "parse_children ctx limit c1 = Inr (rest, c')"
        and kids: "kids = Record (r\<lparr> rec_source_range := Some (cur_pos c, cur_pos c1) \<rparr>) # rest"
        by (auto simp: bindr_eq_Inr)
      have c1: "cur_data c1 = cur_data c" using record_parse_header_step(1) [OF h] by simp
      have "c' = c1\<lparr> cur_pos := limit \<rparr> \<and> layout ctx (cur_data c1) (cur_pos c1) limit rest"
        using "1.IH"(3) [OF True Some rec h refl r] .
      then show ?thesis using h c1 kids by (cases c; cases c1) (auto intro: layout_record)
    qed
  qed
qed
lemma record_parse_header_peek:
  assumes "wf_cursor c" "record_parse_header ctx c = Inr (r, c')"
  shows "\<exists>b. peek_bytes c 4 = Some b \<and> b \<noteq> sig_bytes SIG_GRUP"
proof -
  have "cur_pos c + 24 \<le> length (cur_data c)" using record_parse_header_step(2) [OF assms(2)] by simp
  then have rem: "4 \<le> remaining c" by (simp add: remaining_def)
  have "rh_signature (rec_header r) = sig_of (window c 4)"
    using assms(2) unfolding record_parse_header_def record_header_parse_def
    by (auto simp: bindr_eq_Inr read_array_Inr split: if_splits)
  moreover have "rh_signature (rec_header r) \<noteq> SIG_GRUP" using record_parse_header_step(5) [OF assms(2)] .
  ultimately have "window c 4 \<noteq> sig_bytes SIG_GRUP" by auto
  then show ?thesis using assms(1) rem by (simp add: peek_bytes_wf isize_max_def)
qed

lemma group_parse_head_peek:
  assumes "wf_cursor c" "group_parse_head c = Inr (h, e, c')"
  shows "peek_bytes c 4 = Some (sig_bytes SIG_GRUP)"
proof -
  have "cur_pos c + 24 \<le> length (cur_data c)" using group_parse_head_step [OF assms(2)] by simp
  then have rem: "4 \<le> remaining c" by (simp add: remaining_def)
  have "sig_of (window c 4) = SIG_GRUP"
    using assms(2) unfolding group_parse_head_def
    by (auto simp: bindr_eq_Inr read_array_Inr split: if_splits)
  then have "window c 4 = sig_bytes SIG_GRUP"
    using length_window [OF assms(1) rem] by (metis sig_bytes_of)
  then show ?thesis using assms(1) rem by (simp add: peek_bytes_wf isize_max_def)
qed

lemma layout_parse_children:
  "layout ctx d a b kids \<Longrightarrow> a \<le> length d \<Longrightarrow> length d \<le> isize_max \<Longrightarrow>
   parse_children ctx b \<lparr> cur_data = d, cur_pos = a \<rparr> = Inr (kids, \<lparr> cur_data = d, cur_pos = b \<rparr>)"
proof (induction a b kids rule: layout.induct)
  case (layout_done a)
  then show ?case by (simp add: parse_children.simps)
next
  case (layout_record a r m b rest)
  let ?c = "\<lparr> cur_data = d, cur_pos = a \<rparr>"
  have wf: "wf_cursor ?c" using layout_record.prems by (simp add: wf_cursor_def)
  note step = record_parse_header_step(1,2) [OF layout_record.hyps(1)]
  have m: "a < m" "m \<le> length d" using step by (simp_all add: advance_def)
  then have "a < b" using layout_le [OF layout_record.hyps(2)] by simp
  moreover obtain x where "peek_bytes ?c 4 = Some x" "x \<noteq> sig_bytes SIG_GRUP"
    using record_parse_header_peek [OF wf layout_record.hyps(1)] by blast
  ultimately show ?case using layout_record m
    by (subst parse_children.simps) simp
next
  case (layout_group a h e kids b rest)
  let ?c = "\<lparr> cur_data = d, cur_pos = a \<rparr>"
  have wf: "wf_cursor ?c" using layout_group.prems by (simp add: wf_cursor_def)
  have m: "a + 24 \<le> length d" using group_parse_head_step [OF layout_group.hyps(1)] by simp
  have e: "a + 24 \<le> e" "e \<le> b" using layout_le layout_group.hyps(2,3) by blast+
  have "e \<le> length d" using layout_bound [OF layout_group.hyps(2)] m by simp
  then show ?case
    using layout_group m e group_parse_head_peek [OF wf layout_group.hyps(1)]
    by (subst parse_children.simps) simp
qed

text \<open>
  C2: On data of legal size, the recursive GRUP parser accepts the bytes from
  the cursor up to the group boundary exactly when they are a sequence of records and nested groups
  in the sense of the layout grammar, returns exactly that tree with the byte range of every node,
  and stops at the boundary.
\<close>

theorem parse_children_iff_layout:
  assumes "wf_cursor c"
  shows "parse_children ctx limit c = Inr (kids, c') \<longleftrightarrow>
    layout ctx (cur_data c) (cur_pos c) limit kids \<and> c' = c\<lparr> cur_pos := limit \<rparr>"
proof
  show "parse_children ctx limit c = Inr (kids, c') \<Longrightarrow>
    layout ctx (cur_data c) (cur_pos c) limit kids \<and> c' = c\<lparr> cur_pos := limit \<rparr>"
    using parse_children_layout by blast
  assume "layout ctx (cur_data c) (cur_pos c) limit kids \<and> c' = c\<lparr> cur_pos := limit \<rparr>"
  then show "parse_children ctx limit c = Inr (kids, c')"
    using layout_parse_children [of ctx "cur_data c" "cur_pos c" limit kids] assms
    by (cases c) (auto simp: wf_cursor_def)
qed

lemma group_parse_layout:
  assumes "wf_cursor c"
  shows "group_parse ctx c = Inr (g, c') \<longleftrightarrow>
    (\<exists>h kids e. g = Grp \<lparr> gi_header = h, gi_source_range = None \<rparr> kids \<and>
       c' = c\<lparr> cur_pos := e \<rparr> \<and>
       layout ctx (cur_data c) (cur_pos c) e [Group (set_group_range (cur_pos c, e) g)])"
proof
  assume "group_parse ctx c = Inr (g, c')"
  then obtain h e c1 kids where h: "group_parse_head c = Inr (h, e, c1)"
    and k: "parse_children ctx e c1 = Inr (kids, c')"
    and g: "g = Grp \<lparr> gi_header = h, gi_source_range = None \<rparr> kids"
    by (auto simp: group_parse_def bindr_eq_Inr)
  have c1: "c1 = advance 24 c" using group_parse_head_step [OF h] by simp
  have "c' = c1\<lparr> cur_pos := e \<rparr>" "layout ctx (cur_data c1) (cur_pos c1) e kids"
    using parse_children_layout [OF k] by auto
  moreover have "layout ctx (cur_data c) e e []" by (rule layout_done)
  ultimately show "\<exists>h kids e. g = Grp \<lparr> gi_header = h, gi_source_range = None \<rparr> kids \<and>
       c' = c\<lparr> cur_pos := e \<rparr> \<and>
       layout ctx (cur_data c) (cur_pos c) e [Group (set_group_range (cur_pos c, e) g)]"
    using h g c1
    by (intro exI [of _ h] exI [of _ kids] exI [of _ e])
      (cases c, auto simp: set_group_range_def advance_def intro: layout_group)
next
  assume "\<exists>h kids e. g = Grp \<lparr> gi_header = h, gi_source_range = None \<rparr> kids \<and>
       c' = c\<lparr> cur_pos := e \<rparr> \<and>
       layout ctx (cur_data c) (cur_pos c) e [Group (set_group_range (cur_pos c, e) g)]"
  then obtain h kids e where g: "g = Grp \<lparr> gi_header = h, gi_source_range = None \<rparr> kids"
    and c': "c' = c\<lparr> cur_pos := e \<rparr>"
    and l: "layout ctx (cur_data c) (cur_pos c) e
        [Group (Grp \<lparr> gi_header = h, gi_source_range = Some (cur_pos c, e) \<rparr> kids)]"
    by (auto simp: set_group_range_def)
  from l obtain c1 where h: "group_parse_head c = Inr (h, e, c1)" "c1 = advance 24 c"
    and k: "layout ctx (cur_data c) (cur_pos c + 24) e kids"
    by (cases c) (auto elim!: layout_GroupE simp: advance_def)
  have "cur_pos c + 24 \<le> length (cur_data c)" using group_parse_head_step [OF h(1)] by simp
  then have "parse_children ctx e c1 = Inr (kids, c1\<lparr> cur_pos := e \<rparr>)"
    using layout_parse_children [OF k] assms h(2)
    by (cases c) (auto simp: wf_cursor_def advance_def)
  then show "group_parse ctx c = Inr (g, c')"
    using h g c' by (cases c) (simp add: group_parse_def advance_def)
qed

subsection \<open>Writing a header back\<close>

text \<open>
  The header bytes of \<open>write_group_header\<close> in \<open>patcher.rs\<close>: a parsed header, with the size that is
  passed in.
\<close>

fun label_to_bytes :: "group_label \<Rightarrow> bytes" where
  "label_to_bytes (LSignature s) = sig_bytes s"
| "label_to_bytes (LFormId f) = le_bytes 4 (fid_raw f)"
| "label_to_bytes (LGridCell x y) =
     [le_bytes 2 y ! 0, le_bytes 2 y ! 1, le_bytes 2 x ! 0, le_bytes 2 x ! 1]"
| "label_to_bytes (LBlockNumber n) = le_bytes 4 n"

lemma label_round_trip:
  assumes "length raw = 4"
  shows "label_to_bytes (group_label_from_raw raw t) = raw"
proof -
  obtain a b c d where raw: "raw = [a, b, c, d]"
    using assms by (auto simp: numeral_eq_Suc length_Suc_conv)
  have "le_bytes 4 (le_word raw :: u32) = raw" "sig_bytes (sig_of raw) = raw"
    "le_bytes 2 (le_word [a, b] :: u16) = [a, b]" "le_bytes 2 (le_word [c, d] :: u16) = [c, d]"
    using assms by (simp_all del: le_word.simps)
  then show ?thesis by (cases t) (simp_all add: raw del: le_word.simps)
qed

lemma length_label_to_bytes [simp]: "length (label_to_bytes l) = 4"
  by (cases l) simp_all

definition write_group_header :: "group_header \<Rightarrow> u32 \<Rightarrow> bytes" where
  "write_group_header h new_group_size =
     ascii ''GRUP'' @ le_bytes 4 new_group_size @ label_to_bytes (gh_label h) @
     le_bytes 4 (group_type_to_raw (gh_group_type h)) @ le_bytes 4 (gh_version_control h) @
     le_bytes 4 (gh_unknown h)"

end
