(* ===== verification/PluginFile.thy ===== *)
theory PluginFile
  imports GroupBlocks
begin

text \<open>
  \<open>bethkit-core/src/plugin.rs\<close>: the header record, the plugin, and the top-level parse. The two
  backings of the source bytes (memory map, heap buffer) hold the same bytes and are one field.
\<close>

subsection \<open>The plugin header\<close>

record plugin_header =
  ph_record :: main_record
  ph_hedr_version :: u32
  ph_record_count :: u32
  ph_next_object_id :: form_id
  ph_masters :: "rstring list"
  ph_description :: "rstring option"

definition hedr_fields :: "game_context \<Rightarrow> sub_record option \<Rightarrow> u32 \<times> u32 \<times> form_id" where
  "hedr_fields ctx found =
     (case found of
        None \<Rightarrow> (ctx_hedr_version ctx, 0, FORM_ID_NULL)
      | Some hedr \<Rightarrow>
          (let data = sr_bytes hedr
           in if length data \<ge> 12
              then (le_word (slice 0 4 data), le_word (slice 4 8 data), FormId (le_word (slice 8 12 data)))
              else (ctx_hedr_version ctx, 0, FORM_ID_NULL)))"

definition plugin_header_parse ::
    "(bytes \<Rightarrow> string + bytes) \<Rightarrow> game_context \<Rightarrow> cursor \<Rightarrow> core_error + plugin_header \<times> cursor" where
  "plugin_header_parse inflate ctx c =
     bindr (record_parse_header ctx c) (\<lambda>(r, c1).
       if rh_signature (rec_header r) \<noteq> header_signature ctx
       then Inl (InvalidSignature (fmt_signature (header_signature ctx))
                                  (fmt_signature (rh_signature (rec_header r))))
       else
         bindr (record_get inflate SIG_HEDR r) (\<lambda>hedr.
         bindr (record_get_all inflate SIG_MAST r) (\<lambda>masts.
         bindr (record_get inflate SIG_SNAM r) (\<lambda>snam.
           case hedr_fields ctx hedr of (version, num_records, next_id) \<Rightarrow>
           Inr (\<lparr> ph_record = snd (subrecords inflate r),
                  ph_hedr_version = version,
                  ph_record_count = num_records,
                  ph_next_object_id = next_id,
                  ph_masters = List.map_filter (\<lambda>sr. res_ok (as_zstring sr)) masts,
                  ph_description =
                    (case snam of
                       None \<Rightarrow> None
                     | Some sr \<Rightarrow>
                         (case as_zstring sr of
                            Inl _ \<Rightarrow> None
                          | Inr s \<Rightarrow> if s = [] then None else Some s)) \<rparr>, c1)))))"

subsection \<open>Plugins\<close>

record plugin =
  pl_source :: bytes
  pl_ctx :: game_context
  pl_header :: plugin_header
  pl_header_range :: "nat \<times> nat"
  pl_groups :: "group list"

lemma group_parse_step:
  assumes "group_parse ctx c = Inr (g, c')"
  shows "cur_data c' = cur_data c" "cur_pos c + 24 \<le> length (cur_data c)" "cur_pos c + 24 \<le> cur_pos c'"
proof -
  from assms obtain h e c1 kids where h: "group_parse_head c = Inr (h, e, c1)"
    and k: "parse_children ctx e c1 = Inr (kids, c')"
    by (auto simp: group_parse_def bindr_eq_Inr)
  have c1: "c1 = advance 24 c" "cur_pos c + 24 \<le> length (cur_data c)"
    using group_parse_head_step [OF h] by auto
  have "c' = c1\<lparr> cur_pos := e \<rparr>" "layout ctx (cur_data c1) (cur_pos c1) e kids"
    using parse_children_layout [OF k] by auto
  with c1 layout_le show "cur_data c' = cur_data c" "cur_pos c + 24 \<le> length (cur_data c)"
    "cur_pos c + 24 \<le> cur_pos c'" by fastforce+
qed

text \<open>The loop of \<open>parse_bytes\<close>: top-level groups until the cursor is empty.\<close>

function parse_groups :: "game_context \<Rightarrow> cursor \<Rightarrow> core_error + group list" where
  "parse_groups ctx c =
     (if cursor_is_empty c then Inr []
      else bindr (group_parse ctx c) (\<lambda>(g, c1).
           bindr (parse_groups ctx c1) (\<lambda>rest.
             Inr (set_group_range (cur_pos c, cur_pos c1) g # rest))))"
  by pat_completeness auto
termination
proof (relation "measure (\<lambda>(_, c). remaining c)", goal_cases)
  case 1
  then show ?case by simp
next
  case (2 ctx c x g c1)
  then show ?case using group_parse_step [of ctx c g c1] by (auto simp: remaining_def)
qed

declare parse_groups.simps [simp del]

definition plugin_parse_bytes ::
    "(bytes \<Rightarrow> string + bytes) \<Rightarrow> game_context \<Rightarrow> bytes \<Rightarrow>
     core_error + plugin_header \<times> (nat \<times> nat) \<times> group list" where
  "plugin_parse_bytes inflate ctx data =
     (let c = cursor_new data
      in bindr (plugin_header_parse inflate ctx c) (\<lambda>(h, c1).
         bindr (parse_groups ctx c1) (\<lambda>groups.
           Inr (h, (cur_pos c, cur_pos c1), groups))))"

definition plugin_from_bytes ::
    "(bytes \<Rightarrow> string + bytes) \<Rightarrow> game_context \<Rightarrow> bytes \<Rightarrow> core_error + plugin" where
  "plugin_from_bytes inflate ctx data =
     bindr (plugin_parse_bytes inflate ctx data) (\<lambda>(h, rng, groups).
       Inr \<lparr> pl_source = data, pl_ctx = ctx, pl_header = h, pl_header_range = rng, pl_groups = groups \<rparr>)"

definition plugin_kind_of :: "plugin \<Rightarrow> plugin_kind" where
  "plugin_kind_of p = record_plugin_kind (pl_ctx p) (ph_record (pl_header p))"

definition is_localized :: "plugin \<Rightarrow> bool" where
  "is_localized p = flags_contain (rh_flags (rec_header (ph_record (pl_header p)))) FLAG_LOCALIZED"

definition group_count :: "plugin \<Rightarrow> nat" where
  "group_count p = length (pl_groups p)"

definition pl_masters :: "plugin \<Rightarrow> rstring list" where
  "pl_masters p = ph_masters (pl_header p)"

definition plugin_records :: "plugin \<Rightarrow> main_record list" where
  "plugin_records p = concat (map grp_records (pl_groups p))"

definition records_of :: "signature \<Rightarrow> plugin \<Rightarrow> main_record list" where
  "records_of sig p = filter (\<lambda>r. rh_signature (rec_header r) = sig) (plugin_records p)"

definition find_record :: "form_id \<Rightarrow> plugin \<Rightarrow> main_record option" where
  "find_record f p = find (\<lambda>r. rh_form_id (rec_header r) = f) (plugin_records p)"

lemma parse_groups_layout:
  assumes "wf_cursor c"
  shows "parse_groups ctx c = Inr gs \<Longrightarrow>
    layout ctx (cur_data c) (cur_pos c) (length (cur_data c)) (map Group gs)"
  using assms
proof (induction ctx c arbitrary: gs rule: parse_groups.induct)
  case (1 ctx c)
  note prem = "1.prems"(1) [unfolded parse_groups.simps [of ctx c]]
  show ?case
  proof (cases "cursor_is_empty c")
    case True
    then have "cur_pos c = length (cur_data c)"
      using "1.prems"(2) by (simp add: cursor_is_empty_def wf_cursor_def)
    with True prem show ?thesis by (simp add: layout_Nil_iff)
  next
    case False
    then obtain g c1 rest where g: "group_parse ctx c = Inr (g, c1)"
      and r: "parse_groups ctx c1 = Inr rest"
      and gs: "gs = set_group_range (cur_pos c, cur_pos c1) g # rest"
      using prem by (auto simp: bindr_eq_Inr)
    obtain h kids e where g': "g = Grp \<lparr> gi_header = h, gi_source_range = None \<rparr> kids"
      and c1: "c1 = c\<lparr> cur_pos := e \<rparr>"
      and l: "layout ctx (cur_data c) (cur_pos c) e [Group (set_group_range (cur_pos c, e) g)]"
      using g group_parse_layout [OF "1.prems"(2), of ctx g c1] by blast
    have "e \<le> length (cur_data c)"
      using layout_bound [OF l] "1.prems"(2) by (simp add: wf_cursor_def)
    then have wf: "wf_cursor c1" using "1.prems"(2) c1 by (simp add: wf_cursor_def)
    have "layout ctx (cur_data c1) (cur_pos c1) (length (cur_data c1)) (map Group rest)"
      using "1.IH" [OF False g refl r wf] .
    then show ?thesis using l g' gs c1
      by (auto simp: set_group_range_def elim!: layout_GroupE layout_NilE intro: layout_group)
  qed
qed

end
