(* ===== verification/PluginWriter.thy ===== *)
theory PluginWriter
  imports PluginFile
begin

text \<open>
  \<open>bethkit-core/src/writer.rs\<close>: writable subrecords, records and groups, the plugin writer with its
  counters and header, and the ESL conversion. A \<open>write_to(&self, buf)\<close> that appends to a buffer is
  the list of bytes it appends. Casts such as \<open>len as u32\<close> truncate, as they do in the source.
  Also \<open>Record::from_writable\<close> of \<open>record.rs\<close>, which consumes these types.
\<close>

subsection \<open>Writable data\<close>

record writable_sub_record =
  ws_signature :: signature
  ws_data :: bytes

definition write_sub_record :: "writable_sub_record \<Rightarrow> bytes" where
  "write_sub_record sr =
     (let data_len = length (ws_data sr) in
      (if data_len > 65535
       then sig_bytes SIG_XXXX @ le_bytes 2 (4 :: u16) @ le_bytes 4 (of_nat data_len :: u32) @
            sig_bytes (ws_signature sr) @ le_bytes 2 (0 :: u16)
       else sig_bytes (ws_signature sr) @ le_bytes 2 (of_nat data_len :: u16)) @ ws_data sr)"

record writable_record =
  wr_signature :: signature
  wr_flags :: record_flags
  wr_form_id :: form_id
  wr_form_version :: u16
  wr_subrecords :: "writable_sub_record list"

definition write_sub_records :: "writable_sub_record list \<Rightarrow> bytes" where
  "write_sub_records srs = concat (map write_sub_record srs)"

definition write_record :: "writable_record \<Rightarrow> bytes" where
  "write_record r =
     (let data_buf = write_sub_records (wr_subrecords r)
      in sig_bytes (wr_signature r) @ le_bytes 4 (of_nat (length data_buf) :: u32) @
         le_bytes 4 (wr_flags r) @ le_bytes 4 (fid_raw (wr_form_id r)) @ le_bytes 4 (0 :: u32) @
         le_bytes 2 (wr_form_version r) @ le_bytes 2 (0 :: u16) @ data_buf)"

text \<open>The head of a writable group: its four label bytes and its group type (an \<open>i32\<close> pattern).\<close>

record writable_head =
  wg_label :: signature
  wg_group_type :: u32

type_synonym writable_group = "(writable_record, writable_head) grp"
type_synonym writable_child = "(writable_record, writable_head) child"

definition group_frame :: "writable_head \<Rightarrow> bytes \<Rightarrow> bytes" where
  "group_frame h children_buf =
     ascii ''GRUP'' @ le_bytes 4 (24 + of_nat (length children_buf) :: u32) @
     sig_bytes (wg_label h) @ le_bytes 4 (wg_group_type h) @ le_bytes 4 (0 :: u32) @
     le_bytes 4 (0 :: u32) @ children_buf"

fun write_child :: "writable_child \<Rightarrow> bytes"
  and write_group :: "writable_group \<Rightarrow> bytes" where
  "write_child (Record r) = write_record r"
| "write_child (Group g) = write_group g"
| "write_group (Grp h children) = group_frame h (concat (map write_child children))"

subsection \<open>Counters\<close>

definition count_new_records :: "writable_group list \<Rightarrow> u8 \<Rightarrow> nat" where
  "count_new_records groups master_count =
     length (filter (\<lambda>r. file_index (wr_form_id r) = master_count) (concat (map grp_records groups)))"

definition count_all_records :: "writable_group list \<Rightarrow> nat" where
  "count_all_records groups = length (concat (map grp_records groups))"

definition next_object_id :: "writable_group list \<Rightarrow> u8 \<Rightarrow> u32" where
  "next_object_id groups master_count =
     (let ids = map (\<lambda>r. object_id (wr_form_id r))
                  (filter (\<lambda>r. file_index (wr_form_id r) = master_count) (concat (map grp_records groups)))
      in if ids = [] then 0x800 else foldr max (tl ids) (hd ids) + 1)"

subsection \<open>FormID remapping\<close>

type_synonym fid_map = "u32 \<rightharpoonup> u32"

text \<open>The loop of \<open>remap_form_ids_in_bytes\<close> over the offsets 0, 4, 8, \<dots>\<close>

function remap_loop :: "fid_map \<Rightarrow> nat \<Rightarrow> bytes \<Rightarrow> bytes" where
  "remap_loop m i data =
     (if i + 4 \<le> length data
      then remap_loop m (i + 4)
             (case m (le_word (slice i (i + 4) data)) of
                Some new_fid \<Rightarrow> take i data @ le_bytes 4 new_fid @ drop (i + 4) data
              | None \<Rightarrow> data)
      else data)"
  by pat_completeness auto
termination
  by (relation "measure (\<lambda>(_, i, data). length data - i)") (auto split: option.splits)

declare remap_loop.simps [simp del]

definition remap_form_ids_in_bytes :: "fid_map \<Rightarrow> bytes \<Rightarrow> bytes" where
  "remap_form_ids_in_bytes m data = remap_loop m 0 data"

definition apply_fid_remap_in_record :: "fid_map \<Rightarrow> writable_record \<Rightarrow> writable_record" where
  "apply_fid_remap_in_record m r =
     r\<lparr> wr_form_id := (case m (fid_raw (wr_form_id r)) of Some n \<Rightarrow> FormId n | None \<Rightarrow> wr_form_id r),
        wr_subrecords := map (\<lambda>sr. sr\<lparr> ws_data := remap_form_ids_in_bytes m (ws_data sr) \<rparr>) (wr_subrecords r) \<rparr>"

fun apply_fid_remap_in_child :: "fid_map \<Rightarrow> writable_child \<Rightarrow> writable_child"
  and apply_fid_remap_in_group :: "fid_map \<Rightarrow> writable_group \<Rightarrow> writable_group" where
  "apply_fid_remap_in_child m (Record r) = Record (apply_fid_remap_in_record m r)"
| "apply_fid_remap_in_child m (Group g) = Group (apply_fid_remap_in_group m g)"
| "apply_fid_remap_in_group m (Grp h children) = Grp h (map (apply_fid_remap_in_child m) children)"

definition apply_fid_remap :: "fid_map \<Rightarrow> writable_group list \<Rightarrow> writable_group list" where
  "apply_fid_remap m groups = map (apply_fid_remap_in_group m) groups"

subsection \<open>The plugin writer\<close>

record writable_header =
  wh_masters :: "rstring list"
  wh_description :: "rstring option"
  wh_version :: u32

record plugin_writer =
  pw_ctx :: game_context
  pw_header :: writable_header
  pw_groups :: "writable_group list"
  pw_light_flag_set :: bool
  pw_localized :: bool

definition writer_new :: "game_context \<Rightarrow> u32 \<Rightarrow> plugin_writer" where
  "writer_new ctx version =
     \<lparr> pw_ctx = ctx,
       pw_header = \<lparr> wh_masters = [], wh_description = None, wh_version = version \<rparr>,
       pw_groups = [], pw_light_flag_set = False, pw_localized = False \<rparr>"

definition add_master :: "rstring \<Rightarrow> plugin_writer \<Rightarrow> plugin_writer" where
  "add_master name w = w\<lparr> pw_header := (pw_header w)\<lparr> wh_masters := wh_masters (pw_header w) @ [name] \<rparr> \<rparr>"

definition set_description :: "rstring \<Rightarrow> plugin_writer \<Rightarrow> plugin_writer" where
  "set_description desc w = w\<lparr> pw_header := (pw_header w)\<lparr> wh_description := Some desc \<rparr> \<rparr>"

definition add_group :: "writable_group \<Rightarrow> plugin_writer \<Rightarrow> plugin_writer" where
  "add_group g w = w\<lparr> pw_groups := pw_groups w @ [g] \<rparr>"

definition set_localized :: "bool \<Rightarrow> plugin_writer \<Rightarrow> plugin_writer" where
  "set_localized b w = w\<lparr> pw_localized := b \<rparr>"

text \<open>The table built from the old FormIDs in iteration order; a later insert of the same key wins.\<close>

definition esl_remap :: "u32 \<Rightarrow> u32 list \<Rightarrow> fid_map" where
  "esl_remap esl_min old_fids =
     foldl (\<lambda>m (i, old_fid). m(old_fid \<mapsto> (push_bit 24 0xFE OR (esl_min + of_nat i))))
       Map.empty (enumerate 0 old_fids)"

definition eslify :: "plugin_writer \<Rightarrow> core_error + plugin_writer" where
  "eslify w =
     (if \<not> supports_light (pw_ctx w) then Inl (UnsupportedGame (ctx_game (pw_ctx w)))
      else
        let master_count = (of_nat (length (wh_masters (pw_header w))) :: u8);
            new_count = count_new_records (pw_groups w) master_count;
            esl_min = light_min_object_id (pw_ctx w);
            esl_max = light_max_object_id (pw_ctx w);
            esl_capacity = unat (esl_max - esl_min + 1)
        in if new_count > esl_capacity then Inl (EslRecordLimitExceeded new_count)
           else
             let old_fids = map (\<lambda>r. fid_raw (wr_form_id r))
                   (filter (\<lambda>r. file_index (wr_form_id r) = master_count)
                     (concat (map grp_records (pw_groups w))))
             in Inr (w\<lparr> pw_groups := apply_fid_remap (esl_remap esl_min old_fids) (pw_groups w),
                        pw_light_flag_set := True \<rparr>))"

subsection \<open>Serialisation\<close>

definition hedr_sub_record :: "plugin_writer \<Rightarrow> writable_sub_record" where
  "hedr_sub_record w =
     \<lparr> ws_signature = SIG_HEDR,
       ws_data =
         le_bytes 4 (wh_version (pw_header w)) @
         le_bytes 4 (of_nat (count_all_records (pw_groups w)) :: u32) @
         le_bytes 4 (next_object_id (pw_groups w) (of_nat (length (wh_masters (pw_header w))))) \<rparr>"

definition master_sub_records :: "rstring \<Rightarrow> writable_sub_record list" where
  "master_sub_records name =
     [\<lparr> ws_signature = SIG_MAST, ws_data = name @ [0] \<rparr>,
      \<lparr> ws_signature = SIG_DATA, ws_data = replicate 8 0 \<rparr>]"

definition tes4_sub_records :: "plugin_writer \<Rightarrow> writable_sub_record list" where
  "tes4_sub_records w =
     hedr_sub_record w # concat (map master_sub_records (wh_masters (pw_header w))) @
     (case wh_description (pw_header w) of
        None \<Rightarrow> []
      | Some desc \<Rightarrow> [\<lparr> ws_signature = SIG_SNAM, ws_data = desc @ [0] \<rparr>])"

definition tes4_flags :: "plugin_writer \<Rightarrow> record_flags" where
  "tes4_flags w =
     (if pw_light_flag_set w then light_flag (pw_ctx w) else 0) OR
     (if pw_localized w then FLAG_LOCALIZED else 0)"

definition write_tes4 :: "plugin_writer \<Rightarrow> bytes" where
  "write_tes4 w =
     (let tes4_data = write_sub_records (tes4_sub_records w)
      in sig_bytes (header_signature (pw_ctx w)) @ le_bytes 4 (of_nat (length tes4_data) :: u32) @
         le_bytes 4 (tes4_flags w) @ le_bytes 4 (0 :: u32) @ le_bytes 4 (0 :: u32) @
         le_bytes 2 (0 :: u16) @ le_bytes 2 (0 :: u16) @ tes4_data)"

definition write_to_vec :: "plugin_writer \<Rightarrow> bytes" where
  "write_to_vec w = write_tes4 w @ concat (map write_group (pw_groups w))"

text \<open>
  \<open>write_to_file\<close> hands the buffered writer the header and then one buffer per group; the list of
  those chunks, in order.
\<close>

definition write_to_file_chunks :: "plugin_writer \<Rightarrow> bytes list" where
  "write_to_file_chunks w = write_tes4 w # map write_group (pw_groups w)"

subsection \<open>Snapshots of writable records\<close>

definition record_from_writable :: "writable_record \<Rightarrow> main_record" where
  "record_from_writable r =
     \<lparr> rec_header =
         \<lparr> rh_signature = wr_signature r,
           rh_data_size =
             foldl (\<lambda>total sr.
                 let header_size = (if length (ws_data sr) > 65535 then 16 else 6)
                 in saturating_add_u32 total (u32_try_from_or_max (header_size + length (ws_data sr))))
               0 (wr_subrecords r),
           rh_flags = wr_flags r,
           rh_form_id = wr_form_id r,
           rh_version_control = 0,
           rh_form_version = wr_form_version r,
           rh_unknown = 0 \<rparr>,
       rec_source_range = None,
       rec_data = Raw [],
       rec_parsed = Some (map (\<lambda>sr. \<lparr> sr_signature = ws_signature sr, sr_data = Owned (ws_data sr) \<rparr>)
                            (wr_subrecords r)) \<rparr>"

end
