(* ===== verification/WriterRoundTrip.thy ===== *)
theory WriterRoundTrip
  imports PluginWriter
begin

text \<open>
  The parser reads back what the writer writes: subrecords (with and without the XXXX override),
  records, groups at any depth, and whole plugin files.
\<close>

subsection \<open>Reading back what the writer writes\<close>

text \<open>What a reader sees of a subrecord, and what a writer is given.\<close>

definition sub_view :: "sub_record \<Rightarrow> signature \<times> bytes" where
  "sub_view sr = (sr_signature sr, sr_bytes sr)"

definition writable_view :: "writable_sub_record \<Rightarrow> signature \<times> bytes" where
  "writable_view sr = (ws_signature sr, ws_data sr)"

text \<open>A writable subrecord is writable when its length fits the 32-bit override and it is no override itself.\<close>

definition wf_sub :: "writable_sub_record \<Rightarrow> bool" where
  "wf_sub sr \<longleftrightarrow> ws_signature sr \<noteq> SIG_XXXX \<and> length (ws_data sr) < 2 ^ 32"

definition sub_header_len :: "writable_sub_record \<Rightarrow> nat" where
  "sub_header_len sr = (if length (ws_data sr) > 65535 then 16 else 6)"

lemma view_simps [simp]:
  "sub_view \<lparr> sr_signature = s, sr_data = Borrowed d a b \<rparr> = (s, slice a b d)"
  "sub_view \<lparr> sr_signature = s, sr_data = Owned v \<rparr> = (s, v)"
  "writable_view \<lparr> ws_signature = s, ws_data = v \<rparr> = (s, v)"
  by (simp_all add: sub_view_def writable_view_def sr_bytes_def)

lemma length_write_sub_record: "length (write_sub_record sr) = sub_header_len sr + length (ws_data sr)"
  by (simp add: write_sub_record_def sub_header_len_def Let_def)

lemma write_sub_records_Cons: "write_sub_records (sr # srs) = write_sub_record sr @ write_sub_records srs"
  by (simp add: write_sub_records_def)

lemma cursor_is_empty_at [simp]: "cursor_is_empty (cursor_at pre xs) \<longleftrightarrow> xs = []"
  by (auto simp: cursor_is_empty_def)

lemma sig_bytes_not_Nil [simp]: "sig_bytes s \<noteq> []"
  by (cases s) simp

lemma parse_loop_small:
  fixes sz :: u16
  assumes "length pre + (6 + (length payload + length post)) \<le> isize_max"
    and "s \<noteq> SIG_XXXX"
    and "length payload = (case pend of Some real \<Rightarrow> unat real | None \<Rightarrow> unat sz)"
  shows "parse_subrecords_loop data (cursor_at pre (sig_bytes s @ le_bytes 2 sz @ payload @ post)) pend =
    bindr (parse_subrecords_loop data (cursor_at (pre @ sig_bytes s @ le_bytes 2 sz @ payload) post) None) (\<lambda>rest.
      Inr (\<lparr> sr_signature = s,
             sr_data = Borrowed data (length pre + 6) (length pre + 6 + length payload) \<rparr> # rest))"
  using assms
  by (subst parse_subrecords_loop.simps)
    (simp add: read_encoded read_slice_eq wf_cursor_at Let_def add.assoc)

lemma parse_loop_xxxx:
  fixes real :: u32
  assumes "length pre + (10 + length post) \<le> isize_max"
  shows "parse_subrecords_loop data
      (cursor_at pre (sig_bytes SIG_XXXX @ le_bytes 2 (4 :: u16) @ le_bytes 4 real @ post)) pend =
    parse_subrecords_loop data
      (cursor_at (pre @ sig_bytes SIG_XXXX @ le_bytes 2 (4 :: u16) @ le_bytes 4 real) post) (Some real)"
proof -
  have "read_u32 (cursor_new (le_bytes 4 real)) = Inr (real, cursor_at (le_bytes 4 real) [])"
    using rd_u32.rd_encoded [of "[]" real "[]"] by (simp add: cursor_new_at wf_cursor_at isize_max_def)
  then show ?thesis using assms
    by (subst parse_subrecords_loop.simps)
      (simp add: read_encoded sub_cursor_def read_slice_eq wf_cursor_at)
qed

lemma parse_loop_write_sub_record:
  assumes "length pre + (length (write_sub_record sr) + length post) \<le> isize_max" "wf_sub sr"
  shows "parse_subrecords_loop data (cursor_at pre (write_sub_record sr @ post)) None =
    bindr (parse_subrecords_loop data (cursor_at (pre @ write_sub_record sr) post) None) (\<lambda>rest.
      Inr (\<lparr> sr_signature = ws_signature sr,
             sr_data = Borrowed data (length pre + sub_header_len sr)
               (length pre + sub_header_len sr + length (ws_data sr)) \<rparr> # rest))"
proof (cases "length (ws_data sr) > 65535")
  case True
  have "unat (of_nat (length (ws_data sr)) :: u32) = length (ws_data sr)"
    using assms(2) by (simp add: wf_sub_def)
  with True assms show ?thesis
    by (simp add: write_sub_record_def parse_loop_xxxx parse_loop_small wf_sub_def sub_header_len_def
        add.assoc)
next
  case False
  then have "unat (of_nat (length (ws_data sr)) :: u16) = length (ws_data sr)" by simp
  with False assms show ?thesis
    by (simp add: write_sub_record_def parse_loop_small wf_sub_def sub_header_len_def Let_def)
qed

lemma parse_loop_write_sub_records:
  assumes "length pre + length (write_sub_records srs) \<le> isize_max" "list_all wf_sub srs"
    and "data = pre @ write_sub_records srs"
  shows "\<exists>out. parse_subrecords_loop data (cursor_at pre (write_sub_records srs)) None = Inr out \<and>
    map sub_view out = map writable_view srs"
  using assms
proof (induction srs arbitrary: pre)
  case Nil
  then show ?case
    by (subst parse_subrecords_loop.simps) (simp add: write_sub_records_def cursor_is_empty_def)
next
  case (Cons sr srs)
  let ?w = "write_sub_record sr"
  obtain out where out:
      "parse_subrecords_loop data (cursor_at (pre @ ?w) (write_sub_records srs)) None = Inr out"
      "map sub_view out = map writable_view srs"
    using Cons.IH [of "pre @ ?w"] Cons.prems by (auto simp: write_sub_records_Cons)
  have "slice (length pre + sub_header_len sr) (length pre + sub_header_len sr + length (ws_data sr)) data = ws_data sr"
    using Cons.prems(3)
    by (simp add: write_sub_records_Cons write_sub_record_def sub_header_len_def Let_def slice_def)
  then show ?case
    using out Cons.prems parse_loop_write_sub_record [of pre sr "write_sub_records srs" data]
    by (auto simp: write_sub_records_Cons writable_view_def [of sr])
qed

text \<open>
  C10: Parsing the serialised form of any list of subrecords, small or with the XXXX
  override, returns the same signatures and payloads in the same order, as long as no subrecord is
  itself an XXXX, every payload fits the 32-bit size, and the block is a legal slice.
\<close>

theorem subrecords_roundtrip:
  assumes "list_all wf_sub srs" "length (write_sub_records srs) \<le> isize_max"
  shows "\<exists>out. parse_subrecords (write_sub_records srs) = Inr out \<and> map sub_view out = map writable_view srs"
  using parse_loop_write_sub_records [of "[]" srs] assms
  by (simp add: parse_subrecords_def cursor_new_at)

subsection \<open>Records\<close>

text \<open>
  A record the format can carry: it is not a group, its flags do not announce compression (the
  writer never compresses), and its payload fits the 32-bit size field.
\<close>

definition wf_record :: "writable_record \<Rightarrow> bool" where
  "wf_record r \<longleftrightarrow> wr_signature r \<noteq> SIG_GRUP \<and> \<not> flags_contain (wr_flags r) FLAG_COMPRESSED \<and>
     list_all wf_sub (wr_subrecords r) \<and> length (write_sub_records (wr_subrecords r)) < 2 ^ 32"

text \<open>The record the parser builds from the bytes of a writable record.\<close>

definition reread_record :: "writable_record \<Rightarrow> main_record" where
  "reread_record r =
     \<lparr> rec_header =
         \<lparr> rh_signature = wr_signature r,
           rh_data_size = of_nat (length (write_sub_records (wr_subrecords r))),
           rh_flags = wr_flags r, rh_form_id = wr_form_id r, rh_version_control = 0,
           rh_form_version = wr_form_version r, rh_unknown = 0 \<rparr>,
       rec_source_range = None,
       rec_data = Raw (write_sub_records (wr_subrecords r)),
       rec_parsed = None \<rparr>"

lemma length_write_record: "length (write_record r) = 24 + length (write_sub_records (wr_subrecords r))"
  by (simp add: write_record_def Let_def)

lemma record_parse_write_record:
  assumes "wf_cursor (cursor_at pre (write_record r @ post))"
    and "wr_signature r \<noteq> SIG_GRUP" "\<not> flags_contain (wr_flags r) FLAG_COMPRESSED"
    and "length (write_sub_records (wr_subrecords r)) < 2 ^ 32"
  shows "record_parse_header ctx (cursor_at pre (write_record r @ post)) =
    Inr (reread_record r, cursor_at (pre @ write_record r) post)"
proof -
  define p where "p = write_sub_records (wr_subrecords r)"
  have len: "length pre + (24 + (length p + length post)) \<le> isize_max"
    using assms(1) by (simp add: wf_cursor_at length_write_record p_def)
  have "unat (of_nat (length p) :: u32) = length p" using assms(4) by (simp add: p_def)
  then show ?thesis
    using len assms(2,3)
    unfolding write_record_def Let_def p_def [symmetric]
    by (simp add: record_parse_header_def record_header_parse_def read_encoded read_slice_eq
        wf_cursor_at reread_record_def p_def)
qed

text \<open>What a reader of a parsed record sees, and what was written.\<close>

type_synonym record_view =
  "signature \<times> record_flags \<times> form_id \<times> u16 \<times> (core_error + (signature \<times> bytes) list)"

definition record_view :: "(bytes \<Rightarrow> string + bytes) \<Rightarrow> main_record \<Rightarrow> record_view" where
  "record_view inflate r =
     (rh_signature (rec_header r), rh_flags (rec_header r), rh_form_id (rec_header r),
      rh_form_version (rec_header r),
      bindr (subrecs inflate r) (\<lambda>srs. Inr (map sub_view srs)))"

definition writable_record_view :: "writable_record \<Rightarrow> record_view" where
  "writable_record_view r =
     (wr_signature r, wr_flags r, wr_form_id r, wr_form_version r, Inr (map writable_view (wr_subrecords r)))"

lemma subrecs_raw: "rec_parsed r = None \<Longrightarrow> rec_data r = Raw d \<Longrightarrow> subrecs inflate r = parse_subrecords d"
  by (simp add: subrecords_def raw_data_def split: sum.split)

lemma subrecs_range [simp]: "subrecs inflate (r\<lparr> rec_source_range := x \<rparr>) = subrecs inflate r"
  by (simp add: subrecords_def raw_data_def split: sum.split option.split record_data.split)

lemma record_view_range [simp]: "record_view inflate (r\<lparr> rec_source_range := x \<rparr>) = record_view inflate r"
  by (simp add: record_view_def)

lemma reread_record_view:
  assumes "wf_record r"
  shows "record_view inflate (reread_record r) = writable_record_view r"
proof -
  let ?srs = "wr_subrecords r"
  have "length (write_sub_records ?srs) \<le> isize_max"
    using assms by (simp add: wf_record_def isize_max_def)
  then obtain out where "parse_subrecords (write_sub_records ?srs) = Inr out" "map sub_view out = map writable_view ?srs"
    using parse_loop_write_sub_records [of "[]" ?srs] assms
    by (auto simp: parse_subrecords_def cursor_new_at wf_record_def)
  then show ?thesis
    by (simp add: record_view_def writable_record_view_def reread_record_def subrecs_raw)
qed

subsection \<open>Groups\<close>

text \<open>The bytes of a list of children, and the groups the format can carry.\<close>

abbreviation write_children :: "writable_child list \<Rightarrow> bytes" where
  "write_children cs \<equiv> concat (map write_child cs)"

fun wf_wchild :: "writable_child \<Rightarrow> bool"
  and wf_wgroup :: "writable_group \<Rightarrow> bool" where
  "wf_wchild (Record r) = wf_record r"
| "wf_wchild (Group g) = wf_wgroup g"
| "wf_wgroup (Grp h cs) =
     (res_ok (group_type_from_raw (wg_group_type h)) \<noteq> None \<and>
      24 + length (write_children cs) < 2 ^ 32 \<and> list_all wf_wchild cs)"

definition wtype_of :: "writable_head \<Rightarrow> group_type" where
  "wtype_of h = (case group_type_from_raw (wg_group_type h) of Inr t \<Rightarrow> t | Inl _ \<Rightarrow> Normal)"

text \<open>The header the parser builds for a group with the given head and content length.\<close>

definition reread_header :: "writable_head \<Rightarrow> nat \<Rightarrow> group_header" where
  "reread_header h n =
     \<lparr> gh_group_size = 24 + of_nat n,
       gh_label = group_label_from_raw (sig_bytes (wg_label h)) (wtype_of h),
       gh_group_type = wtype_of h, gh_version_control = 0, gh_unknown = 0 \<rparr>"

text \<open>The tree the parser builds, with the offset at which it starts.\<close>

fun reread_child :: "nat \<Rightarrow> writable_child \<Rightarrow> group_child"
  and reread_group :: "nat \<Rightarrow> writable_group \<Rightarrow> group"
  and reread_children :: "nat \<Rightarrow> writable_child list \<Rightarrow> group_child list" where
  "reread_child a (Record r) =
     Record ((reread_record r)\<lparr> rec_source_range := Some (a, a + length (write_record r)) \<rparr>)"
| "reread_child a (Group g) = Group (reread_group a g)"
| "reread_group a (Grp h cs) =
     Grp \<lparr> gi_header = reread_header h (length (write_children cs)),
           gi_source_range = Some (a, a + 24 + length (write_children cs)) \<rparr> (reread_children (a + 24) cs)"
| "reread_children a [] = []"
| "reread_children a (c # cs) = reread_child a c # reread_children (a + length (write_child c)) cs"

lemma ascii_GRUP: "ascii ''GRUP'' = sig_bytes SIG_GRUP"
  by (simp add: sig_consts)

lemma length_group_frame [simp]: "length (group_frame h b) = 24 + length b"
  by (simp add: group_frame_def)

lemma unat_24_of_nat: "24 + n < 4294967296 \<Longrightarrow> unat (24 + of_nat n :: u32) = 24 + n"
  using unat_of_nat_u32 [of "24 + n"] by simp

lemma group_parse_head_frame:
  assumes "wf_cursor (cursor_at pre (group_frame h b @ post))"
    and "group_type_from_raw (wg_group_type h) = Inr t" "24 + length b < 2 ^ 32"
  shows "group_parse_head (cursor_at pre (group_frame h b @ post)) =
    Inr (reread_header h (length b), length pre + 24 + length b,
      \<lparr> cur_data = pre @ group_frame h b @ post, cur_pos = length pre + 24 \<rparr>)"
proof -
  have len: "length pre + (24 + (length b + length post)) \<le> isize_max"
    using assms(1) by (simp add: wf_cursor_at)
  have u: "unat (24 + of_nat (length b) :: u32) = 24 + length b"
    using assms(3) by (intro unat_24_of_nat) simp
  have "checked_add (length pre) (24 + length b) = Some (length pre + (24 + length b))"
    using len by (intro checked_add_small) simp_all
  with len u assms(2) show ?thesis
    by (simp add: group_parse_head_def group_frame_def ascii_GRUP read_encoded wf_cursor_at
        reread_header_def wtype_of_def cursor_at_def [of _ b])
qed

lemma reread_layout:
  "wf_wchild c \<Longrightarrow> d = pre @ write_child c @ post \<Longrightarrow> length d \<le> isize_max \<Longrightarrow>
     layout ctx d (length pre + length (write_child c)) b rest \<Longrightarrow>
     layout ctx d (length pre) b (reread_child (length pre) c # rest)"
  "wf_wgroup g \<Longrightarrow> d = pre @ write_group g @ post \<Longrightarrow> length d \<le> isize_max \<Longrightarrow>
     layout ctx d (length pre + length (write_group g)) b rest \<Longrightarrow>
     layout ctx d (length pre) b (Group (reread_group (length pre) g) # rest)"
  "list_all wf_wchild cs \<Longrightarrow> d = pre @ write_children cs @ post \<Longrightarrow> length d \<le> isize_max \<Longrightarrow>
     layout ctx d (length pre) (length pre + length (write_children cs)) (reread_children (length pre) cs)"
proof (induction "length pre" c and "length pre" g and "length pre" cs arbitrary: pre post b rest and pre post b rest and pre post
    rule: reread_child_reread_group_reread_children.induct)
  case (1 r)
  have "record_parse_header ctx (cursor_at pre (write_record r @ post)) =
      Inr (reread_record r, cursor_at (pre @ write_record r) post)"
    using 1 by (intro record_parse_write_record) (auto simp: wf_record_def wf_cursor_at)
  then show ?case using 1 by (auto simp: cursor_at_def intro: layout_record)
next
  case (2 g)
  then show ?case by simp
next
  case (3 h cs)
  let ?b = "write_children cs"
  obtain t where t: "group_type_from_raw (wg_group_type h) = Inr t"
    using "3.prems"(1) by (cases "group_type_from_raw (wg_group_type h)") auto
  have head: "group_parse_head (cursor_at pre (group_frame h ?b @ post)) =
      Inr (reread_header h (length ?b), length pre + 24 + length ?b,
        \<lparr> cur_data = pre @ group_frame h ?b @ post, cur_pos = length pre + 24 \<rparr>)"
    using "3.prems" t by (intro group_parse_head_frame) (auto simp: wf_cursor_at)
  define hd where "hd = take 24 (group_frame h ?b)"
  have split: "group_frame h ?b = hd @ ?b" "length hd = 24"
    by (simp_all add: hd_def group_frame_def)
  have "layout ctx d (length (pre @ hd)) (length (pre @ hd) + length ?b) (reread_children (length (pre @ hd)) cs)"
    using "3.hyps" [of "pre @ hd" post] "3.prems" split by simp
  then show ?case using head "3.prems" split
    by (auto simp: cursor_at_def add.commute add.left_commute intro: layout_group)
next
  case 4
  then show ?case by (simp add: layout_done)
next
  case (5 c cs)
  have "layout ctx d (length (pre @ write_child c)) (length (pre @ write_child c) + length (write_children cs))
      (reread_children (length (pre @ write_child c)) cs)"
    using "5.hyps"(2) [of "pre @ write_child c" post] "5.prems" by simp
  then show ?case using "5.hyps"(1) [of pre "write_children cs @ post"] "5.prems"
    by (simp add: add.assoc)
qed

text \<open>The offset-free views of the two trees.\<close>

definition info_view :: "group_info \<Rightarrow> bytes \<times> u32" where
  "info_view i = (label_to_bytes (gh_label (gi_header i)), group_type_to_raw (gh_group_type (gi_header i)))"

definition whead_view :: "writable_head \<Rightarrow> bytes \<times> u32" where
  "whead_view h = (sig_bytes (wg_label h), wg_group_type h)"

definition group_view :: "(bytes \<Rightarrow> string + bytes) \<Rightarrow> group \<Rightarrow> (record_view, bytes \<times> u32) grp" where
  "group_view inflate g = map_grp (record_view inflate) info_view g"

definition writable_group_view :: "writable_group \<Rightarrow> (record_view, bytes \<times> u32) grp" where
  "writable_group_view g = map_grp writable_record_view whead_view g"

lemma reread_views:
  "wf_wchild c \<Longrightarrow>
     map_child (record_view inflate) info_view (reread_child a c) = map_child writable_record_view whead_view c"
  "wf_wgroup g \<Longrightarrow>
     map_grp (record_view inflate) info_view (reread_group a g) = map_grp writable_record_view whead_view g"
  "list_all wf_wchild cs \<Longrightarrow>
     map (map_child (record_view inflate) info_view) (reread_children a cs) =
     map (map_child writable_record_view whead_view) cs"
proof (induction a c and a g and a cs rule: reread_child_reread_group_reread_children.induct)
  case (3 a h cs)
  obtain t where t: "group_type_from_raw (wg_group_type h) = Inr t"
    using "3.prems" by (cases "group_type_from_raw (wg_group_type h)") auto
  then have "info_view \<lparr> gi_header = reread_header h n, gi_source_range = x \<rparr> = whead_view h" for n x
    by (simp add: info_view_def whead_view_def reread_header_def wtype_of_def label_round_trip
        group_type_to_from_raw)
  then show ?case using 3 by simp
qed (simp_all add: reread_record_view)

lemma group_parse_write_group:
  assumes "wf_wgroup g" "wf_cursor (cursor_at pre (write_group g @ post))"
  shows "group_parse ctx (cursor_at pre (write_group g @ post)) =
    Inr (Grp ((grp_head (reread_group (length pre) g))\<lparr> gi_source_range := None \<rparr>)
           (grp_children (reread_group (length pre) g)),
         cursor_at (pre @ write_group g) post)"
proof -
  let ?d = "pre @ write_group g @ post" and ?e = "length pre + length (write_group g)"
  let ?g = "Grp ((grp_head (reread_group (length pre) g))\<lparr> gi_source_range := None \<rparr>)
           (grp_children (reread_group (length pre) g))"
  obtain h cs where g: "g = Grp h cs" by (cases g)
  have "layout ctx ?d (length pre) ?e (Group (reread_group (length pre) g) # [])"
    using assms by (intro reread_layout(2)) (auto simp: wf_cursor_at intro: layout_done)
  moreover have "set_group_range (length pre, ?e) ?g = reread_group (length pre) g"
    by (simp add: set_group_range_def g)
  ultimately show ?thesis
    using assms(2)
    by (intro group_parse_layout [THEN iffD2]) (auto simp: g cursor_at_def)
qed

lemma parse_groups_write_groups:
  assumes "list_all wf_wgroup gs" "wf_cursor (cursor_at pre (concat (map write_group gs)))"
  shows "\<exists>out. parse_groups ctx (cursor_at pre (concat (map write_group gs))) = Inr out \<and>
    map (group_view inflate) out = map writable_group_view gs"
  using assms
proof (induction gs arbitrary: pre)
  case Nil
  then show ?case by (subst parse_groups.simps) simp
next
  case (Cons g gs)
  obtain h cs where g: "g = Grp h cs" by (cases g)
  have wfg: "wf_wgroup g" using Cons.prems(1) by simp
  have "wf_cursor (cursor_at (pre @ write_group g) (concat (map write_group gs)))"
    using Cons.prems(2) by (simp add: wf_cursor_at)
  then obtain out where out: "parse_groups ctx (cursor_at (pre @ write_group g) (concat (map write_group gs))) = Inr out"
    "map (group_view inflate) out = map writable_group_view gs"
    using Cons.IH [of "pre @ write_group g"] Cons.prems(1) by auto
  have gp: "group_parse ctx (cursor_at pre (write_group g @ concat (map write_group gs))) =
      Inr (Grp ((grp_head (reread_group (length pre) g))\<lparr> gi_source_range := None \<rparr>)
             (grp_children (reread_group (length pre) g)),
           cursor_at (pre @ write_group g) (concat (map write_group gs)))"
    using wfg Cons.prems(2) by (intro group_parse_write_group) simp_all
  have ne: "write_group g \<noteq> []" by (simp add: g group_frame_def ascii_GRUP)
  have "set_group_range (length pre, length pre + length (write_group g))
      (Grp ((grp_head (reread_group (length pre) g))\<lparr> gi_source_range := None \<rparr>)
             (grp_children (reread_group (length pre) g))) = reread_group (length pre) g"
    by (simp add: set_group_range_def g)
  moreover have "group_view inflate (reread_group (length pre) g) = writable_group_view g"
    using reread_views(2) [OF wfg] by (simp add: group_view_def writable_group_view_def)
  ultimately show ?case
    using out gp ne by (subst parse_groups.simps) simp
qed

subsection \<open>The header record\<close>

definition tes4_record :: "plugin_writer \<Rightarrow> writable_record" where
  "tes4_record w =
     \<lparr> wr_signature = header_signature (pw_ctx w), wr_flags = tes4_flags w, wr_form_id = FormId 0,
       wr_form_version = 0, wr_subrecords = tes4_sub_records w \<rparr>"

lemma write_tes4_record: "write_tes4 w = write_record (tes4_record w)"
  by (simp add: write_tes4_def write_record_def tes4_record_def Let_def)

lemma sig_const_values:
  "SIG_TES4 = Signature 0x54 0x45 0x53 0x34" "SIG_TES3 = Signature 0x54 0x45 0x53 0x33"
  "SIG_GRUP = Signature 0x47 0x52 0x55 0x50" "SIG_EDID = Signature 0x45 0x44 0x49 0x44"
  "SIG_MAST = Signature 0x4D 0x41 0x53 0x54" "SIG_HEDR = Signature 0x48 0x45 0x44 0x52"
  "SIG_XXXX = Signature 0x58 0x58 0x58 0x58" "SIG_SNAM = Signature 0x53 0x4E 0x41 0x4D"
  "SIG_DATA = Signature 0x44 0x41 0x54 0x41"
  by (simp_all add: sig_consts)

lemma header_signature_not_GRUP: "header_signature ctx \<noteq> SIG_GRUP"
  by (simp add: header_signature_def sig_const_values split: game.split)

lemma light_flag_cases: "light_flag ctx = 0x100 \<or> light_flag ctx = 0x200"
  by (simp add: light_flag_def split: game.split)

lemma tes4_flags_not_compressed: "\<not> flags_contain (tes4_flags w) FLAG_COMPRESSED"
  using light_flag_cases [of "pw_ctx w"]
  by (auto simp: flags_contain_def tes4_flags_def FLAG_COMPRESSED_def FLAG_LOCALIZED_def)

lemma tes4_flags_localized: "flags_contain (tes4_flags w) FLAG_LOCALIZED \<longleftrightarrow> pw_localized w"
  using light_flag_cases [of "pw_ctx w"]
  by (auto simp: flags_contain_def tes4_flags_def FLAG_LOCALIZED_def)

lemma tes4_flags_kind:
  "plugin_kind_from_flags (pw_ctx w) (tes4_flags w) =
     (if pw_light_flag_set w \<and> supports_light (pw_ctx w) then KLight else KPlugin)"
  by (cases "ctx_game (pw_ctx w)"; cases "pw_light_flag_set w"; cases "pw_localized w")
    (simp_all add: plugin_kind_from_flags_def tes4_flags_def light_flag_def medium_flag_def update_flag_def
      supports_light_def supports_medium_def supports_update_def FLAG_LOCALIZED_def FLAG_ESM_def)

text \<open>Lookups by signature only depend on the views.\<close>

lemma find_sub_view:
  "map_option sub_view (find (\<lambda>sr. sr_signature sr = s) out) = find (\<lambda>v. fst v = s) (map sub_view out)"
  by (induction out) (simp_all add: sub_view_def)

lemma filter_sub_view:
  "map sub_view (filter (\<lambda>sr. sr_signature sr = s) out) = filter (\<lambda>v. fst v = s) (map sub_view out)"
  by (induction out) (simp_all add: sub_view_def)

definition zstring_of_view :: "signature \<times> bytes \<Rightarrow> core_error + rstring" where
  "zstring_of_view v =
     (if utf8_valid (strip_nuls (snd v)) then Inr (strip_nuls (snd v))
      else Inl (InvalidEncoding (InvalidUtf8In (fst v))))"

lemma as_zstring_view: "as_zstring sr = zstring_of_view (sub_view sr)"
  by (simp add: as_zstring_def zstring_of_view_def sub_view_def Let_def)

text \<open>A name that survives the NUL terminator: valid UTF-8 that does not itself end in NUL.\<close>

definition wf_name :: "rstring \<Rightarrow> bool" where
  "wf_name s \<longleftrightarrow> utf8_valid s \<and> (s = [] \<or> last s \<noteq> 0)"

lemma zstring_of_name: "wf_name s \<Longrightarrow> zstring_of_view (sig, s @ [0]) = Inr s"
  by (simp add: zstring_of_view_def wf_name_def strip_nuls_id)

lemma zstring_of_nul [simp]: "zstring_of_view (sig, [0]) = Inr []"
  by (simp add: zstring_of_view_def strip_nuls_def)

definition tes4_views :: "plugin_writer \<Rightarrow> (signature \<times> bytes) list" where
  "tes4_views w = map writable_view (tes4_sub_records w)"

lemma tes4_views_HEDR:
  "find (\<lambda>v. fst v = SIG_HEDR) (tes4_views w) = Some (SIG_HEDR, ws_data (hedr_sub_record w))"
  by (simp add: tes4_views_def tes4_sub_records_def hedr_sub_record_def)

lemma master_views:
  "filter (\<lambda>v. fst v = SIG_MAST) (map writable_view (concat (map master_sub_records ms))) =
     map (\<lambda>m. (SIG_MAST, m @ [0])) ms"
  "find (\<lambda>v. fst v = SIG_SNAM) (map writable_view (concat (map master_sub_records ms)) @ vs) =
     find (\<lambda>v. fst v = SIG_SNAM) vs"
  by (induction ms) (simp_all add: master_sub_records_def sig_const_values)

lemma tes4_views_MAST:
  "filter (\<lambda>v. fst v = SIG_MAST) (tes4_views w) = map (\<lambda>m. (SIG_MAST, m @ [0])) (wh_masters (pw_header w))"
proof -
  have "filter (\<lambda>v. fst v = SIG_MAST) (tes4_views w) =
      filter (\<lambda>v. fst v = SIG_MAST) (map writable_view (concat (map master_sub_records (wh_masters (pw_header w)))))"
    by (simp add: tes4_views_def tes4_sub_records_def hedr_sub_record_def sig_const_values split: option.split)
  then show ?thesis by (simp only: master_views)
qed

lemma tes4_views_SNAM:
  "find (\<lambda>v. fst v = SIG_SNAM) (tes4_views w) =
     map_option (\<lambda>d. (SIG_SNAM, d @ [0])) (wh_description (pw_header w))"
proof -
  have "find (\<lambda>v. fst v = SIG_SNAM) (tes4_views w) =
    find (\<lambda>v. fst v = SIG_SNAM)
      (map writable_view (concat (map master_sub_records (wh_masters (pw_header w)))) @
       (case wh_description (pw_header w) of None \<Rightarrow> [] | Some d \<Rightarrow> [(SIG_SNAM, d @ [0])]))"
    by (simp add: tes4_views_def tes4_sub_records_def hedr_sub_record_def sig_const_values split: option.split)
  then show ?thesis by (simp only: master_views) (simp split: option.split)
qed

lemma tes4_sub_records_wf:
  assumes "length (write_sub_records (tes4_sub_records w)) < 2 ^ 32"
  shows "list_all wf_sub (tes4_sub_records w)"
proof -
  have bound: "length (ws_data sr) \<le> length (write_sub_records srs)" if "sr \<in> set srs" for sr srs
    using that by (induction srs) (auto simp: write_sub_records_def length_write_sub_record)
  have sigs: "ws_signature sr \<noteq> SIG_XXXX" if "sr \<in> set (tes4_sub_records w)" for sr
    using that
    by (auto simp: tes4_sub_records_def hedr_sub_record_def master_sub_records_def sig_const_values
        split: option.splits)
  show ?thesis using bound [of _ "tes4_sub_records w"] sigs assms
    by (fastforce simp: list_all_iff wf_sub_def)
qed

text \<open>The state of a writer whose file the parser can read.\<close>

definition wf_writer :: "plugin_writer \<Rightarrow> bool" where
  "wf_writer w \<longleftrightarrow>
     list_all wf_wgroup (pw_groups w) \<and>
     length (write_sub_records (tes4_sub_records w)) < 2 ^ 32 \<and>
     length (write_to_vec w) \<le> isize_max \<and>
     list_all wf_name (wh_masters (pw_header w)) \<and>
     pred_option wf_name (wh_description (pw_header w))"

definition expected_header :: "plugin_writer \<Rightarrow> main_record \<Rightarrow> plugin_header" where
  "expected_header w r =
     \<lparr> ph_record = r,
       ph_hedr_version = wh_version (pw_header w),
       ph_record_count = of_nat (count_all_records (pw_groups w)),
       ph_next_object_id =
         FormId (next_object_id (pw_groups w) (of_nat (length (wh_masters (pw_header w))))),
       ph_masters = wh_masters (pw_header w),
       ph_description = (if wh_description (pw_header w) = Some [] then None
                         else wh_description (pw_header w)) \<rparr>"

lemma hedr_fields_written:
  assumes "sub_view sr = (s, ws_data (hedr_sub_record w))"
  shows "hedr_fields ctx (Some sr) =
    (wh_version (pw_header w), of_nat (count_all_records (pw_groups w)),
     FormId (next_object_id (pw_groups w) (of_nat (length (wh_masters (pw_header w))))))"
proof -
  have "sr_bytes sr = ws_data (hedr_sub_record w)" using assms by (simp add: sub_view_def)
  then show ?thesis by (simp add: hedr_fields_def hedr_sub_record_def slice_def)
qed

lemma map_filter_names:
  "list_all wf_name ms \<Longrightarrow>
   List.map_filter (\<lambda>v. res_ok (zstring_of_view v)) (map (\<lambda>m. (s, m @ [0])) ms) = ms"
  by (induction ms) (simp_all add: List.map_filter_simps zstring_of_name)

lemma map_filter_map: "List.map_filter f (map g xs) = List.map_filter (\<lambda>x. f (g x)) xs"
  by (induction xs) (simp_all add: List.map_filter_simps split: option.split)

lemma header_parse_written:
  assumes "wf_writer w" "wf_cursor (cursor_at [] (write_tes4 w @ post))"
  shows "\<exists>r. plugin_header_parse inflate (pw_ctx w) (cursor_at [] (write_tes4 w @ post)) =
      Inr (expected_header w r, cursor_at (write_tes4 w) post) \<and> rh_flags (rec_header r) = tes4_flags w"
proof -
  let ?t = "tes4_record w" and ?r = "reread_record (tes4_record w)"
  have len: "length (write_sub_records (tes4_sub_records w)) < 2 ^ 32"
    using assms(1) by (simp add: wf_writer_def)
  have wf: "wf_record ?t"
    using len tes4_sub_records_wf [OF len]
    by (simp add: wf_record_def tes4_record_def header_signature_not_GRUP tes4_flags_not_compressed)
  have rec: "record_parse_header (pw_ctx w) (cursor_at [] (write_tes4 w @ post)) =
      Inr (?r, cursor_at (write_tes4 w) post)"
    using record_parse_write_record [of "[]" ?t post "pw_ctx w"] wf assms(2)
    by (simp add: write_tes4_record wf_record_def)
  obtain out where out: "subrecs inflate ?r = Inr out" "map sub_view out = tes4_views w"
    using reread_record_view [OF wf, of inflate]
    by (cases "subrecs inflate ?r")
      (auto simp: record_view_def writable_record_view_def tes4_views_def tes4_record_def)
  obtain hedr where hedr: "find (\<lambda>sr. sr_signature sr = SIG_HEDR) out = Some hedr"
    "sub_view hedr = (SIG_HEDR, ws_data (hedr_sub_record w))"
    using find_sub_view [of SIG_HEDR out] out(2) tes4_views_HEDR [of w] by auto
  have masts: "List.map_filter (\<lambda>sr. res_ok (as_zstring sr)) (filter (\<lambda>sr. sr_signature sr = SIG_MAST) out) =
      wh_masters (pw_header w)"
  proof -
    let ?L = "filter (\<lambda>sr. sr_signature sr = SIG_MAST) out"
    have "List.map_filter (\<lambda>sr. res_ok (as_zstring sr)) ?L =
        List.map_filter (\<lambda>v. res_ok (zstring_of_view v)) (map sub_view ?L)"
      by (simp add: as_zstring_view map_filter_map)
    also have "map sub_view ?L = map (\<lambda>m. (SIG_MAST, m @ [0])) (wh_masters (pw_header w))"
      using filter_sub_view [of SIG_MAST out] out(2) tes4_views_MAST [of w] by simp
    finally show ?thesis using map_filter_names [of "wh_masters (pw_header w)" SIG_MAST] assms(1)
      by (simp add: wf_writer_def)
  qed
  have snam: "map_option sub_view (find (\<lambda>sr. sr_signature sr = SIG_SNAM) out) =
      map_option (\<lambda>d. (SIG_SNAM, d @ [0])) (wh_description (pw_header w))"
    using find_sub_view [of SIG_SNAM out] out(2) tes4_views_SNAM [of w] by simp
  have desc: "(case find (\<lambda>sr. sr_signature sr = SIG_SNAM) out of
        None \<Rightarrow> None
      | Some sr \<Rightarrow> (case as_zstring sr of Inl _ \<Rightarrow> None | Inr s \<Rightarrow> if s = [] then None else Some s)) =
      ph_description (expected_header w x)" for x
    using snam assms(1)
    by (cases "wh_description (pw_header w)")
      (auto simp: as_zstring_view expected_header_def wf_writer_def zstring_of_name)
  have sig: "rh_signature (rec_header ?r) = header_signature (pw_ctx w)"
    by (simp add: reread_record_def tes4_record_def)
  have flags: "rh_flags (rec_header (snd (subrecords inflate ?r))) = tes4_flags w"
    by (simp add: subrecords_def raw_data_def reread_record_def tes4_record_def split: sum.split)
  show ?thesis
    using rec sig out(1) hedr(1) masts desc hedr_fields_written [OF hedr(2), of "pw_ctx w"] flags
    by (intro exI [of _ "snd (subrecords inflate ?r)"])
      (simp add: plugin_header_parse_def record_get_def record_get_all_def expected_header_def)
qed

text \<open>
  C1: Writing a plugin and parsing the file gives the plugin back: the parse succeeds,
  the groups, records and subrecords are those that were added, in order and at every nesting depth,
  the header carries the masters, the description, the version, the record count and the next object
  id the writer computed, and the flags tell localisation and the light kind.
\<close>

theorem plugin_roundtrip:
  assumes "wf_writer w"
  shows "\<exists>p r. plugin_from_bytes inflate (pw_ctx w) (write_to_vec w) = Inr p \<and>
    map (group_view inflate) (pl_groups p) = map writable_group_view (pw_groups w) \<and>
    pl_header p = expected_header w r \<and>
    is_localized p = pw_localized w \<and>
    plugin_kind_of p = (if pw_light_flag_set w \<and> supports_light (pw_ctx w) then KLight else KPlugin)"
proof -
  let ?gs = "concat (map write_group (pw_groups w))"
  have wf: "wf_cursor (cursor_at [] (write_tes4 w @ ?gs))" "wf_cursor (cursor_at (write_tes4 w) ?gs)"
    using assms by (simp_all add: wf_writer_def wf_cursor_at write_to_vec_def)
  obtain r where h: "plugin_header_parse inflate (pw_ctx w) (cursor_at [] (write_tes4 w @ ?gs)) =
      Inr (expected_header w r, cursor_at (write_tes4 w) ?gs)" "rh_flags (rec_header r) = tes4_flags w"
    using header_parse_written [OF assms wf(1)] by blast
  obtain out where g: "parse_groups (pw_ctx w) (cursor_at (write_tes4 w) ?gs) = Inr out"
    "map (group_view inflate) out = map writable_group_view (pw_groups w)"
    using parse_groups_write_groups [OF _ wf(2)] assms by (auto simp: wf_writer_def)
  show ?thesis using h g
    by (simp add: plugin_from_bytes_def plugin_parse_bytes_def cursor_new_at write_to_vec_def
        is_localized_def plugin_kind_of_def record_plugin_kind_def expected_header_def
        tes4_flags_localized tes4_flags_kind exI [of _ r])
qed

end
