(* ===== verification/WriterLaws.thy ===== *)
theory WriterLaws
  imports WriterRoundTrip
begin

text \<open>
  Properties of the writer beyond the round trip: the in-place FormID remapping against its
  word-by-word reference, record snapshots against the serialised record, the next object id, and
  the ESL conversion.
\<close>

subsection \<open>FormID remapping in payloads\<close>

text \<open>The reference: the payload cut into four-byte words, each replaced when it is in the table.\<close>

definition remap_word :: "fid_map \<Rightarrow> bytes \<Rightarrow> bytes" where
  "remap_word m ws = (case m (le_word ws) of Some n \<Rightarrow> le_bytes 4 n | None \<Rightarrow> ws)"

fun remap_words :: "fid_map \<Rightarrow> bytes \<Rightarrow> bytes" where
  "remap_words m (a # b # c # d # rest) = remap_word m [a, b, c, d] @ remap_words m rest"
| "remap_words m xs = xs"

lemma length_remap_word [simp]: "length ws = 4 \<Longrightarrow> length (remap_word m ws) = 4"
  by (simp add: remap_word_def split: option.split)

lemma remap_words_unfold:
  "remap_words m xs =
     (if 4 \<le> length xs then remap_word m (take 4 xs) @ remap_words m (drop 4 xs) else xs)"
  by (cases "(m, xs)" rule: remap_words.cases) (simp_all add: numeral_eq_Suc)

lemma remap_loop_words:
  "i \<le> length data \<Longrightarrow> remap_loop m i data = take i data @ remap_words m (drop i data)"
proof (induction m i data rule: remap_loop.induct)
  case (1 m i data)
  show ?case
  proof (cases "i + 4 \<le> length data")
    case False
    then have "\<not> 4 \<le> length (drop i data)" by simp
    then show ?thesis using False
      by (subst remap_loop.simps) (simp add: remap_words_unfold [of m "drop i data"] del: length_drop)
  next
    case True
    let ?d = "take i data @ remap_word m (slice i (i + 4) data) @ drop (i + 4) data"
    have "(case m (le_word (slice i (i + 4) data)) of
        Some n \<Rightarrow> take i data @ le_bytes 4 n @ drop (i + 4) data | None \<Rightarrow> data) = ?d"
    proof -
      have "data = take i data @ slice i (i + 4) data @ drop (i + 4) data"
        by (simp add: slice_def) (metis add.commute append_take_drop_id drop_drop)
      then show ?thesis by (simp add: remap_word_def split: option.split)
    qed
    moreover have "i + 4 \<le> length ?d" using True by simp
    ultimately have "remap_loop m (i + 4)
        (case m (le_word (slice i (i + 4) data)) of
          Some n \<Rightarrow> take i data @ le_bytes 4 n @ drop (i + 4) data | None \<Rightarrow> data) =
        take (i + 4) ?d @ remap_words m (drop (i + 4) ?d)"
      using "1.IH" [OF True] by simp
    moreover have "take (i + 4) ?d = take i data @ remap_word m (slice i (i + 4) data)" "drop (i + 4) ?d = drop (i + 4) data"
      using True by simp_all
    moreover have "remap_words m (drop i data) =
        remap_word m (slice i (i + 4) data) @ remap_words m (drop (i + 4) data)"
      using True by (subst remap_words_unfold) (auto simp: slice_def add.commute)
    ultimately show ?thesis using True
      by (subst remap_loop.simps) simp
  qed
qed

text \<open>
  The in-place scan of \<open>remap_form_ids_in_bytes\<close> rewrites exactly the four-byte words
  at offsets 0, 4, 8, \<dots> that are in the table, each from the value it had before the call, and leaves
  the length and a trailing partial word alone.
\<close>

theorem remap_in_place:
  "remap_form_ids_in_bytes m data = remap_words m data \<and>
   length (remap_form_ids_in_bytes m data) = length data"
proof -
  have "length (remap_words m xs) = length xs" for xs
    by (induction m xs rule: remap_words.induct) simp_all
  then show ?thesis by (simp add: remap_form_ids_in_bytes_def remap_loop_words)
qed

subsection \<open>Snapshots\<close>

definition saturate_u32 :: "nat \<Rightarrow> u32" where
  "saturate_u32 n = (if n < 2 ^ 32 then of_nat n else - 1)"

lemma unat_saturate: "unat (saturate_u32 n) = min n (2 ^ 32 - 1)"
proof -
  have "unat (- 1 :: u32) = 2 ^ 32 - 1" by (simp add: unsigned_minus_1_eq_mask mask_eq_exp_minus_1)
  then show ?thesis by (simp add: saturate_u32_def)
qed

lemma saturating_add_saturate:
  "0 < m \<Longrightarrow> saturating_add_u32 (saturate_u32 n) (u32_try_from_or_max m) = saturate_u32 (n + m)"
proof -
  assume m: "0 < m"
  have "u32_try_from_or_max m = saturate_u32 m" by (simp add: u32_try_from_or_max_def saturate_u32_def)
  moreover have "saturate_u32 n + saturate_u32 m = saturate_u32 (n + m)" if "n + m < 2 ^ 32"
    using that by (simp add: saturate_u32_def)
  ultimately show ?thesis using m
    by (auto simp: saturating_add_u32_def unat_saturate) (auto simp: saturate_u32_def)
qed

lemma snapshot_size_fold:
  "foldl (\<lambda>total sr. let header_size = (if length (ws_data sr) > 65535 then 16 else 6)
       in saturating_add_u32 total (u32_try_from_or_max (header_size + length (ws_data sr))))
     (saturate_u32 n) srs = saturate_u32 (n + length (write_sub_records srs))"
proof (induction srs arbitrary: n)
  case Nil
  then show ?case by (simp add: write_sub_records_def)
next
  case (Cons sr srs)
  have "saturating_add_u32 (saturate_u32 n) (u32_try_from_or_max (sub_header_len sr + length (ws_data sr))) =
      saturate_u32 (n + length (write_sub_record sr))"
    by (simp add: saturating_add_saturate length_write_sub_record sub_header_len_def)
  then show ?case using Cons.IH [of "n + length (write_sub_record sr)"]
    by (simp add: write_sub_records_Cons Let_def sub_header_len_def add.assoc)
qed

lemma record_from_writable_size:
  "rh_data_size (rec_header (record_from_writable r)) =
     saturate_u32 (length (write_sub_records (wr_subrecords r)))"
  using snapshot_size_fold [of 0 "wr_subrecords r"]
  by (simp add: record_from_writable_def saturate_u32_def [of 0])

lemma record_from_writable_view: "record_view inflate (record_from_writable r) = writable_record_view r"
  by (simp add: record_view_def record_from_writable_def writable_record_view_def subrecords_def
      comp_def writable_view_def)

text \<open>
  C11: The snapshot \<open>Record::from_writable\<close> takes of a writable record agrees with
  what serialising the record and parsing the bytes gives: the same header, data size included, and
  the same subrecords.
\<close>

theorem from_writable_agrees:
  assumes "wf_record r" "wf_cursor (cursor_at pre (write_record r @ post))"
  shows "\<exists>r'. record_parse_header ctx (cursor_at pre (write_record r @ post)) =
      Inr (r', cursor_at (pre @ write_record r) post) \<and>
    rec_header r' = rec_header (record_from_writable r) \<and>
    record_view inflate r' = record_view inflate (record_from_writable r)"
proof (intro exI conjI)
  show "record_parse_header ctx (cursor_at pre (write_record r @ post)) =
      Inr (reread_record r, cursor_at (pre @ write_record r) post)"
    using assms by (intro record_parse_write_record) (simp_all add: wf_record_def)
  have "saturate_u32 (length (write_sub_records (wr_subrecords r))) =
      of_nat (length (write_sub_records (wr_subrecords r)))"
    using assms(1) by (simp add: wf_record_def saturate_u32_def)
  then show "rec_header (reread_record r) = rec_header (record_from_writable r)"
    using record_from_writable_size [of r] by (simp add: reread_record_def record_from_writable_def)
  show "record_view inflate (reread_record r) = record_view inflate (record_from_writable r)"
    using assms(1) by (simp add: reread_record_view record_from_writable_view)
qed

subsection \<open>The next object id\<close>

definition own_records :: "u8 \<Rightarrow> writable_group list \<Rightarrow> writable_record list" where
  "own_records mc gs = filter (\<lambda>r. file_index (wr_form_id r) = mc) (concat (map grp_records gs))"

lemma object_id_bound: "object_id f \<le> 0xFFFFFF"
  unfolding object_id_def by (rule word_and_le1)

lemma foldr_max_ge: "foldr max xs a \<ge> (a :: 'a :: linorder) \<and> (\<forall>x \<in> set xs. x \<le> foldr max xs a)"
  by (induction xs) (auto simp: le_max_iff_disj)

lemma foldr_max_in: "foldr max xs (a :: 'a :: linorder) \<in> insert a (set xs)"
  by (induction xs) (auto simp: max_def)

text \<open>
  The HEDR next object id a writer computes lies above the object id of every
  record the plugin owns, is one above the highest of them when there are any and 0x800 otherwise,
  and never overflows.
\<close>

theorem next_object_id_fresh:
  "(\<forall>r \<in> set (own_records mc gs). object_id (wr_form_id r) < next_object_id gs mc) \<and>
   (own_records mc gs = [] \<longrightarrow> next_object_id gs mc = 0x800) \<and>
   (own_records mc gs \<noteq> [] \<longrightarrow>
      (\<exists>r \<in> set (own_records mc gs). unat (next_object_id gs mc) = unat (object_id (wr_form_id r)) + 1))"
proof -
  define ids where "ids = map (\<lambda>r. object_id (wr_form_id r)) (own_records mc gs)"
  have n: "next_object_id gs mc = (if ids = [] then 0x800 else foldr max (tl ids) (hd ids) + 1)"
    by (simp add: next_object_id_def ids_def own_records_def Let_def)
  have b: "x \<le> 0xFFFFFF" if "x \<in> set ids" for x using that object_id_bound by (auto simp: ids_def)
  show ?thesis
  proof (cases "ids = []")
    case True
    then show ?thesis using n by (simp add: ids_def)
  next
    case False
    define m where "m = foldr max (tl ids) (hd ids)"
    have "m \<in> set ids" using foldr_max_in [of "tl ids" "hd ids"] False by (cases ids) (auto simp: m_def)
    then have mb: "m \<le> 0xFFFFFF" and ex: "\<exists>r \<in> set (own_records mc gs). m = object_id (wr_form_id r)"
      using b by (auto simp: ids_def)
    have ge: "x \<le> m" if "x \<in> set ids" for x
      using foldr_max_ge [of "hd ids" "tl ids"] that False by (cases ids) (auto simp: m_def)
    have "unat m \<le> 0xFFFFFF" using mb by (simp add: word_le_nat_alt)
    then have "unat (m + 1) = unat m + 1" by (simp add: unat_word_ariths)
    then have "unat (m + 1) = unat m + 1" "\<And>x. x \<in> set ids \<Longrightarrow> x < m + 1"
      using ge by (auto simp: word_less_nat_alt word_le_nat_alt dest!: ge)
    then show ?thesis using n False ex by (auto simp: m_def [symmetric]) (auto simp: ids_def)
  qed
qed

subsection \<open>The ESL conversion\<close>

lemma grp_records_apply:
  "child_records (apply_fid_remap_in_child m c) = map (apply_fid_remap_in_record m) (child_records c)"
  "grp_records (apply_fid_remap_in_group m g) = map (apply_fid_remap_in_record m) (grp_records g)"
proof (induction c and g rule: child_records_grp_records.induct)
  case (3 h cs)
  then show ?case by (simp add: map_concat comp_def) (metis (mono_tags, lifting) map_eq_conv)
qed simp_all

lemma records_apply_fid_remap:
  "concat (map grp_records (apply_fid_remap m gs)) =
   map (apply_fid_remap_in_record m) (concat (map grp_records gs))"
  by (induction gs) (simp_all add: apply_fid_remap_def grp_records_apply)

abbreviation esl_fid :: "u32 \<Rightarrow> nat \<Rightarrow> u32" where
  "esl_fid esl_min i \<equiv> push_bit 24 0xFE OR (esl_min + of_nat i)"

lemma esl_remap_snoc:
  "esl_remap esl_min (fids @ [f]) = (esl_remap esl_min fids)(f \<mapsto> esl_fid esl_min (length fids))"
  by (simp add: esl_remap_def enumerate_append_eq)

lemma esl_remap_dom: "dom (esl_remap esl_min fids) = set fids"
proof (induction fids rule: rev_induct)
  case Nil
  then show ?case by (simp add: esl_remap_def)
next
  case (snoc f fids)
  then show ?case by (simp only: esl_remap_snoc dom_fun_upd) simp
qed

lemma esl_remap_nth:
  "distinct fids \<Longrightarrow> i < length fids \<Longrightarrow> esl_remap esl_min fids (fids ! i) = Some (esl_fid esl_min i)"
proof (induction fids rule: rev_induct)
  case Nil
  then show ?case by simp
next
  case (snoc f fids)
  then show ?case
    by (cases "i = length fids") (auto simp: esl_remap_snoc nth_append)
qed

lemma eslify_Inr:
  assumes "eslify w = Inr w'"
  shows "supports_light (pw_ctx w)"
    and "length (own_records (of_nat (length (wh_masters (pw_header w)))) (pw_groups w))
      \<le> unat (light_max_object_id (pw_ctx w) - light_min_object_id (pw_ctx w) + 1)"
    and "w' = w\<lparr> pw_groups := apply_fid_remap (esl_remap (light_min_object_id (pw_ctx w))
        (map (\<lambda>r. fid_raw (wr_form_id r))
          (own_records (of_nat (length (wh_masters (pw_header w)))) (pw_groups w)))) (pw_groups w),
      pw_light_flag_set := True \<rparr>"
  using assms
  by (auto simp: eslify_def Let_def count_new_records_def own_records_def split: if_splits)

lemma esl_capacity:
  "unat (light_max_object_id ctx - light_min_object_id ctx + 1) = (if ctx_game ctx = SkyrimSE then 4095 else 2048)"
  by (simp add: light_max_object_id_def light_min_object_id_def split: game.split)

text \<open>The object id handed out stays inside the range of the game: it fits the low 12 bits.\<close>

lemma esl_object_small:
  assumes "i < (if ctx_game ctx = SkyrimSE then 4095 else 2048)"
  shows "light_min_object_id ctx + of_nat i \<le> light_max_object_id ctx"
    and "unat (light_min_object_id ctx + of_nat i) = unat (light_min_object_id ctx) + i"
proof -
  have u: "unat (of_nat i :: u32) = i" using assms by (simp split: if_splits)
  have m: "unat (light_min_object_id ctx) = (if ctx_game ctx = SkyrimSE then 1 else 2048)"
    by (simp add: light_min_object_id_def split: game.split)
  show v: "unat (light_min_object_id ctx + of_nat i) = unat (light_min_object_id ctx) + i"
    using u m assms by (simp add: unat_word_ariths split: if_splits)
  show "light_min_object_id ctx + of_nat i \<le> light_max_object_id ctx"
    using v m assms by (simp add: word_le_nat_alt light_max_object_id_def split: if_splits)
qed

lemma take_bit_12: "x \<le> (0xFFF :: u32) \<Longrightarrow> take_bit 12 x = x"
proof -
  assume "x \<le> 0xFFF"
  then have "unat x < 2 ^ 12" by (simp add: word_le_nat_alt)
  then have "unat (take_bit 12 x) = unat x" by (simp add: unsigned_take_bit_eq take_bit_nat_eq_self)
  then show ?thesis by (simp add: word_unat_eq_iff)
qed

lemma and_mask_bits: "(x :: u32) AND 0xFFF = take_bit 12 x" "x AND 0xFFFFFF = take_bit 24 x"
  by (simp_all add: take_bit_eq_mask mask_eq_exp_minus_1)

lemma esl_fid_fields:
  assumes "x \<le> (0xFFF :: u32)"
  shows "file_index (FormId (push_bit 24 0xFE OR x)) = 0xFE"
    and "esl_slot (FormId (push_bit 24 0xFE OR x)) = 0"
    and "object_id (FormId (push_bit 24 0xFE OR x)) = x"
    and "esl_object (FormId (push_bit 24 0xFE OR x)) = ucast x"
proof -
  have x: "take_bit 12 x = x" using assms by (rule take_bit_12)
  have "drop_bit 12 (take_bit 12 x) = 0" "drop_bit 24 (take_bit 12 x) = 0" by (simp_all add: drop_bit_take_bit)
  then have d: "drop_bit 12 x = 0" "drop_bit 24 x = 0" using x by simp_all
  have "take_bit 24 (take_bit 12 x) = take_bit 12 x" by simp
  then have t: "take_bit 24 x = x" using x by simp
  show "file_index (FormId (push_bit 24 0xFE OR x)) = 0xFE"
    using d by (simp add: file_index_def)
  show "esl_slot (FormId (push_bit 24 0xFE OR x)) = 0"
    using d by (simp add: esl_slot_def)
  show "object_id (FormId (push_bit 24 0xFE OR x)) = x"
    using t by (simp add: object_id_def and_mask_bits)
  show "esl_object (FormId (push_bit 24 0xFE OR x)) = ucast x"
    using x by (simp add: esl_object_def and_mask_bits)
qed

text \<open>The number of records the conversion accepts.\<close>

lemma eslify_ok_iff:
  "(\<exists>w'. eslify w = Inr w') \<longleftrightarrow>
     supports_light (pw_ctx w) \<and>
     length (own_records (of_nat (length (wh_masters (pw_header w)))) (pw_groups w))
       \<le> (if ctx_game (pw_ctx w) = SkyrimSE then 4095 else 2048)"
  by (simp add: eslify_def Let_def count_new_records_def own_records_def esl_capacity)

definition all_records :: "plugin_writer \<Rightarrow> writable_record list" where
  "all_records w = concat (map grp_records (pw_groups w))"

definition master_index :: "plugin_writer \<Rightarrow> u8" where
  "master_index w = of_nat (length (wh_masters (pw_header w)))"

lemma filter_zip_map:
  "map (\<lambda>(x, y). f y) (filter (\<lambda>(x, y). P x) (zip xs (map g xs))) = map (\<lambda>x. f (g x)) (filter P xs)"
  by (induction xs) simp_all

text \<open>
  C9: A successful ESL conversion of a writer whose own FormIDs are distinct gives the
  plugin's own records, in document order, the FormIDs 0xFE000000 plus consecutive object ids from
  the game's minimum on, all within the game's ESL range and pairwise distinct; every record of
  another plugin keeps its FormID; and the header will carry the light flag.
\<close>

theorem eslify_assigns:
  assumes "eslify w = Inr w'"
    and "distinct (map (\<lambda>r. fid_raw (wr_form_id r)) (own_records (master_index w) (pw_groups w)))"
  defines "n \<equiv> length (own_records (master_index w) (pw_groups w))"
  shows "map (\<lambda>(r, r'). wr_form_id r')
        (filter (\<lambda>(r, r'). file_index (wr_form_id r) = master_index w) (zip (all_records w) (all_records w'))) =
      map (\<lambda>i. FormId (esl_fid (light_min_object_id (pw_ctx w)) i)) [0..<n] \<and>
    list_all (\<lambda>(r, r'). file_index (wr_form_id r) = master_index w \<or> wr_form_id r' = wr_form_id r)
      (zip (all_records w) (all_records w')) \<and>
    list_all (\<lambda>i. unat (object_id (FormId (esl_fid (light_min_object_id (pw_ctx w)) i))) =
        unat (light_min_object_id (pw_ctx w)) + i \<and>
      object_id (FormId (esl_fid (light_min_object_id (pw_ctx w)) i)) \<le> light_max_object_id (pw_ctx w)) [0..<n] \<and>
    pw_light_flag_set w'"
proof -
  let ?own = "own_records (master_index w) (pw_groups w)" and ?min = "light_min_object_id (pw_ctx w)"
  let ?fids = "map (\<lambda>r. fid_raw (wr_form_id r)) ?own"
  let ?m = "esl_remap ?min ?fids"
  have w': "w' = w\<lparr> pw_groups := apply_fid_remap ?m (pw_groups w), pw_light_flag_set := True \<rparr>"
    using eslify_Inr(3) [OF assms(1)] by (simp add: master_index_def)
  have cap: "n \<le> (if ctx_game (pw_ctx w) = SkyrimSE then 4095 else 2048)"
    using eslify_Inr(2) [OF assms(1)] by (simp add: n_def master_index_def esl_capacity)
  have all': "all_records w' = map (apply_fid_remap_in_record ?m) (all_records w)"
    by (simp add: w' all_records_def records_apply_fid_remap)
  have own: "filter (\<lambda>r. file_index (wr_form_id r) = master_index w) (all_records w) = ?own"
    by (simp add: all_records_def own_records_def)
  have "map (\<lambda>r. wr_form_id (apply_fid_remap_in_record ?m r)) ?own = map (\<lambda>i. FormId (esl_fid ?min i)) [0..<n]"
  proof (rule nth_equalityI)
    fix i assume "i < length (map (\<lambda>r. wr_form_id (apply_fid_remap_in_record ?m r)) ?own)"
    then have i: "i < length ?own" by simp
    then have "?m (fid_raw (wr_form_id (?own ! i))) = Some (esl_fid ?min i)"
      using esl_remap_nth [OF assms(2), of i ?min] by simp
    then show "map (\<lambda>r. wr_form_id (apply_fid_remap_in_record ?m r)) ?own ! i = map (\<lambda>i. FormId (esl_fid ?min i)) [0..<n] ! i"
      using i by (simp add: apply_fid_remap_in_record_def n_def)
  qed (simp add: n_def)
  then have 1: "map (\<lambda>(r, r'). wr_form_id r')
        (filter (\<lambda>(r, r'). file_index (wr_form_id r) = master_index w) (zip (all_records w) (all_records w'))) =
      map (\<lambda>i. FormId (esl_fid ?min i)) [0..<n]"
    unfolding all' filter_zip_map own .
  have foreign: "?m (fid_raw (wr_form_id r)) = None"
    if "file_index (wr_form_id r) \<noteq> master_index w" for r
  proof -
    have "fid_raw (wr_form_id r) \<notin> set ?fids"
      using that by (auto simp: own_records_def) (metis form_id.collapse)
    then show ?thesis using esl_remap_dom [of ?min ?fids] by blast
  qed
  have 2: "list_all (\<lambda>(r, r'). file_index (wr_form_id r) = master_index w \<or> wr_form_id r' = wr_form_id r)
      (zip (all_records w) (all_records w'))"
  proof (simp only: list_all_iff all', clarify)
    fix r r'
    assume "(r, r') \<in> set (zip (all_records w) (map (apply_fid_remap_in_record ?m) (all_records w)))"
      and "wr_form_id r' \<noteq> wr_form_id r"
    moreover from this have "r' = apply_fid_remap_in_record ?m r" by (auto simp: set_zip)
    ultimately show "file_index (wr_form_id r) = master_index w"
      using foreign [of r]
      by (cases "file_index (wr_form_id r) = master_index w") (auto simp: apply_fid_remap_in_record_def)
  qed
  have 3: "list_all (\<lambda>i. unat (object_id (FormId (esl_fid ?min i))) = unat ?min + i \<and>
      object_id (FormId (esl_fid ?min i)) \<le> light_max_object_id (pw_ctx w)) [0..<n]"
  proof (simp only: list_all_iff, intro ballI)
    fix i assume "i \<in> set [0..<n]"
    then have "i < (if ctx_game (pw_ctx w) = SkyrimSE then 4095 else 2048)" using cap by simp
    note small = esl_object_small [OF this]
    have "object_id (FormId (esl_fid ?min i)) = ?min + of_nat i"
      using esl_fid_fields(3) small(1) by (simp add: light_max_object_id_def)
    then show "unat (object_id (FormId (esl_fid ?min i))) = unat ?min + i \<and>
      object_id (FormId (esl_fid ?min i)) \<le> light_max_object_id (pw_ctx w)"
      using small by simp
  qed
  show ?thesis using 1 2 3 by (simp add: w')
qed

subsection \<open>A sample plugin\<close>

text \<open>One master, a top-level group with a record and a nested group with another, both new.\<close>

definition sample_record :: "u32 \<Rightarrow> bytes \<Rightarrow> writable_record" where
  "sample_record fid edid =
     \<lparr> wr_signature = SIG_EDID, wr_flags = 0, wr_form_id = FormId fid, wr_form_version = 44,
       wr_subrecords = [\<lparr> ws_signature = SIG_EDID, ws_data = edid @ [0] \<rparr>] \<rparr>"

definition sample_groups :: "writable_group list" where
  "sample_groups =
     [Grp \<lparr> wg_label = SIG_EDID, wg_group_type = 0 \<rparr>
        [Record (sample_record 0x01000900 (ascii ''Foo'')),
         Group (Grp \<lparr> wg_label = SIG_EDID, wg_group_type = 1 \<rparr> [Record (sample_record 0x01000801 (ascii ''Bar''))])]]"

definition sample_writer :: plugin_writer where
  "sample_writer =
     \<lparr> pw_ctx = ctx_sse,
       pw_header = \<lparr> wh_masters = [ascii ''A.esm''], wh_description = None, wh_version = 0x3FD9999A \<rparr>,
       pw_groups = sample_groups, pw_light_flag_set = False, pw_localized = False \<rparr>"

lemma sig_EDID_distinct: "SIG_EDID \<noteq> SIG_GRUP" "SIG_EDID \<noteq> SIG_XXXX"
  by code_simp+

lemma length_sample_record: "length edid < 1000 \<Longrightarrow> length (write_record (sample_record fid edid)) = 31 + length edid"
  by (simp add: length_write_record sample_record_def write_sub_records_def length_write_sub_record sub_header_len_def)

lemma wf_sample_record: "length edid < 1000 \<Longrightarrow> wf_record (sample_record fid edid)"
  by (simp add: wf_record_def sample_record_def wf_sub_def flags_contain_def FLAG_COMPRESSED_def
      length_write_sub_record write_sub_records_def sub_header_len_def sig_EDID_distinct)

lemma sample_name_ok: "wf_name (ascii ''A.esm'')"
  by code_simp

lemma wf_sample_writer: "wf_writer sample_writer"
  using sample_name_ok
  by (simp add: wf_writer_def sample_writer_def sample_groups_def wf_sample_record length_sample_record
      group_type_from_raw_def tes4_sub_records_def hedr_sub_record_def master_sub_records_def write_to_vec_def
      write_tes4_def group_frame_def write_sub_records_def length_write_sub_record sub_header_len_def isize_max_def)

theorem plugin_roundtrip_witness:
  "\<exists>p r. plugin_from_bytes Inr ctx_sse (write_to_vec sample_writer) = Inr p \<and>
     map (group_view Inr) (pl_groups p) = map writable_group_view sample_groups \<and>
     pl_header p = expected_header sample_writer r \<and> \<not> is_localized p \<and> plugin_kind_of p = KPlugin"
  using plugin_roundtrip [OF wf_sample_writer, of Inr] by (simp add: sample_writer_def)

theorem subrecords_roundtrip_witness:
  "\<exists>out. parse_subrecords (write_sub_records [\<lparr> ws_signature = SIG_EDID, ws_data = [7, 0] \<rparr>]) = Inr out \<and>
     map sub_view out = [(SIG_EDID, [7, 0])]"
  using subrecords_roundtrip [of "[\<lparr> ws_signature = SIG_EDID, ws_data = [7, 0] \<rparr>]"]
  by (simp add: wf_sub_def sig_EDID_distinct write_sub_records_def length_write_sub_record sub_header_len_def isize_max_def)

theorem from_writable_agrees_witness:
  "\<exists>r'. record_parse_header ctx_sse (cursor_at [] (write_record (sample_record 0x800 [65]) @ [1])) =
      Inr (r', cursor_at (write_record (sample_record 0x800 [65])) [1]) \<and>
    rec_header r' = rec_header (record_from_writable (sample_record 0x800 [65])) \<and>
    record_view Inr r' = record_view Inr (record_from_writable (sample_record 0x800 [65]))"
  using from_writable_agrees [of "sample_record 0x800 [65]" "[]" "[1]" ctx_sse Inr]
  by (simp add: wf_sample_record wf_cursor_at length_sample_record isize_max_def)

lemma own_sample: "own_records 1 sample_groups =
    [sample_record 0x01000900 (ascii ''Foo''), sample_record 0x01000801 (ascii ''Bar'')]"
  by (simp add: own_records_def sample_groups_def sample_record_def file_index_def)

theorem next_object_id_fresh_witness:
  "object_id (FormId 0x01000900) < next_object_id sample_groups 1"
  using next_object_id_fresh [of 1 sample_groups] by (simp add: own_sample) (simp add: sample_record_def)

lemma master_index_sample: "master_index sample_writer = 1"
  by (simp add: master_index_def sample_writer_def)

theorem eslify_assigns_witness:
  "\<exists>w'. eslify sample_writer = Inr w' \<and> pw_light_flag_set w' \<and>
     map (\<lambda>(r, r'). wr_form_id r')
        (filter (\<lambda>(r, r'). file_index (wr_form_id r) = 1) (zip (all_records sample_writer) (all_records w'))) =
       [FormId 0xFE000001, FormId 0xFE000002]"
proof -
  have "\<exists>w'. eslify sample_writer = Inr w'"
    by (simp add: eslify_def Let_def sample_writer_def supports_light_def ctx_sse_def count_new_records_def
        sample_groups_def light_max_object_id_def light_min_object_id_def sample_record_def file_index_def)
  then obtain w' where w': "eslify sample_writer = Inr w'" by blast
  have d: "distinct (map (\<lambda>r. fid_raw (wr_form_id r)) (own_records (master_index sample_writer) (pw_groups sample_writer)))"
    using own_sample by (simp add: master_index_sample) (simp add: sample_writer_def sample_record_def)
  show ?thesis using eslify_assigns [OF w' d] w' own_sample
    by (simp add: master_index_sample)
      (simp add: sample_writer_def light_min_object_id_def ctx_sse_def)
qed

theorem parse_children_iff_layout_witness:
  "\<exists>r c. parse_children ctx_sse 34 (cursor_new (write_record (sample_record 0x800 [65, 66, 67]))) = Inr ([Record r], c) \<and>
     cur_pos c = 34 \<and> rec_source_range r = Some (0, 34)"
proof -
  let ?r = "sample_record 0x800 [65, 66, 67]"
  let ?c = "cursor_new (write_record ?r)"
  have len: "length (write_record ?r) = 34" by (simp add: length_sample_record)
  then have wf: "wf_cursor ?c" by (simp add: wf_cursor_def cursor_new_def isize_max_def)
  have "layout ctx_sse (write_record ?r) 0 34 (reread_children 0 [Record ?r])"
    using reread_layout(3) [of "[Record ?r]" "write_record ?r" "[]" "[]" ctx_sse] len
    by (simp add: wf_sample_record isize_max_def)
  then show ?thesis using parse_children_iff_layout [OF wf, of ctx_sse 34]
    by (auto simp: cursor_new_def len intro!: exI [of _ "(reread_record ?r)\<lparr> rec_source_range := Some (0, 34) \<rparr>"])
qed

end
