(* ===== verification/LoadOrder.thy ===== *)
theory LoadOrder
  imports CoreTypes
begin

text \<open>
  \<open>bethkit-core/src/load_order.rs\<close>: the load order with its two index spaces (file indices for
  regular plugins, ESL slots for light ones) and the resolution of raw FormIDs. Rust's Unicode
  \<open>str::to_lowercase\<close> is the parameter \<open>lower\<close>. The two hash maps are HOL maps.
\<close>

subsection \<open>State\<close>

record global_form_id =
  gf_plugin_name :: rstring
  gf_object_id :: u32

record load_order_entry =
  le_name :: rstring
  le_index :: u8
  le_kind :: plugin_kind
  le_light_slot :: "u16 option"

record load_order =
  lo_entries :: "load_order_entry list"
  lo_by_name :: "rstring \<rightharpoonup> nat"
  lo_regular_index :: u8
  lo_light_slot_counter :: u16
  lo_by_light_slot :: "u16 \<rightharpoonup> nat"

definition load_order_new :: load_order where
  "load_order_new =
     \<lparr> lo_entries = [], lo_by_name = Map.empty, lo_regular_index = 0,
       lo_light_slot_counter = 0, lo_by_light_slot = Map.empty \<rparr>"

subsection \<open>Operations\<close>

definition load_order_push ::
    "(rstring \<Rightarrow> rstring) \<Rightarrow> rstring \<Rightarrow> plugin_kind \<Rightarrow> load_order \<Rightarrow>
     core_error + load_order_entry \<times> load_order" where
  "load_order_push lower name kind lo =
     (let canonical = lower name;
          entry_index = length (lo_entries lo)
      in bindr
           (if kind = KLight then
              (if lo_light_slot_counter lo > 0xFFF then Inl LightSlotOverflow
               else
                 let slot = lo_light_slot_counter lo
                 in Inr (0xFE, Some slot,
                      lo\<lparr> lo_by_light_slot := (lo_by_light_slot lo)(slot \<mapsto> entry_index),
                          lo_light_slot_counter := lo_light_slot_counter lo + 1 \<rparr>))
            else
              (if lo_regular_index lo \<ge> 0xFE then Inl LoadOrderIndexFull
               else
                 let idx = lo_regular_index lo
                 in Inr (idx, None, lo\<lparr> lo_regular_index := lo_regular_index lo + 1 \<rparr>)))
           (\<lambda>(index, light_slot, lo1).
              let entry = \<lparr> le_name = canonical, le_index = index, le_kind = kind, le_light_slot = light_slot \<rparr>
              in Inr (entry,
                   lo1\<lparr> lo_entries := lo_entries lo1 @ [entry],
                        lo_by_name := (lo_by_name lo1)(canonical \<mapsto> entry_index) \<rparr>)))"

definition load_order_len :: "load_order \<Rightarrow> nat" where
  "load_order_len lo = length (lo_entries lo)"

definition load_order_is_empty :: "load_order \<Rightarrow> bool" where
  "load_order_is_empty lo \<longleftrightarrow> lo_entries lo = []"

definition load_order_resolve ::
    "(rstring \<Rightarrow> rstring) \<Rightarrow> form_id \<Rightarrow> rstring \<Rightarrow> rstring list \<Rightarrow> load_order \<Rightarrow> global_form_id option" where
  "load_order_resolve lower f source_plugin masters lo =
     (if file_index f = 0xFE then
        (case lo_by_light_slot lo (esl_slot f) of
           None \<Rightarrow> None
         | Some entry_index \<Rightarrow>
             Some \<lparr> gf_plugin_name = le_name (lo_entries lo ! entry_index),
                    gf_object_id = ucast (esl_object f) \<rparr>)
      else
        let fi = unat (file_index f)
        in if fi < length masters
           then Some \<lparr> gf_plugin_name = lower (masters ! fi), gf_object_id = object_id f \<rparr>
           else if fi = length masters
           then Some \<lparr> gf_plugin_name = lower source_plugin, gf_object_id = object_id f \<rparr>
           else None)"

subsection \<open>Invariant\<close>

definition light_count :: "load_order_entry list \<Rightarrow> nat" where
  "light_count es = length (filter (\<lambda>e. le_kind e = KLight) es)"

definition regular_count :: "load_order_entry list \<Rightarrow> nat" where
  "regular_count es = length (filter (\<lambda>e. le_kind e \<noteq> KLight) es)"

lemma counts_snoc [simp]:
  "light_count (es @ [e]) = light_count es + (if le_kind e = KLight then 1 else 0)"
  "regular_count (es @ [e]) = regular_count es + (if le_kind e = KLight then 0 else 1)"
  by (simp_all add: light_count_def regular_count_def)

lemma counts_Nil [simp]: "light_count [] = 0" "regular_count [] = 0"
  by (simp_all add: light_count_def regular_count_def)

text \<open>An entry numbered as the entries before it demand.\<close>

definition entry_ok :: "load_order_entry list \<Rightarrow> load_order_entry \<Rightarrow> bool" where
  "entry_ok before e \<longleftrightarrow>
     (if le_kind e = KLight
      then le_index e = 0xFE \<and> le_light_slot e = Some (of_nat (light_count before)) \<and> light_count before < 4096
      else unat (le_index e) = regular_count before \<and> regular_count before < 254 \<and> le_light_slot e = None)"

definition entries_ok :: "load_order_entry list \<Rightarrow> bool" where
  "entries_ok es \<longleftrightarrow> (\<forall>k < length es. entry_ok (take k es) (es ! k))"

definition slots_ok :: "load_order \<Rightarrow> bool" where
  "slots_ok lo \<longleftrightarrow>
     (\<forall>s k. lo_by_light_slot lo s = Some k \<longleftrightarrow>
        k < length (lo_entries lo) \<and> le_light_slot (lo_entries lo ! k) = Some s)"

definition names_ok :: "load_order \<Rightarrow> bool" where
  "names_ok lo \<longleftrightarrow>
     (\<forall>n k. lo_by_name lo n = Some k \<longleftrightarrow>
        k < length (lo_entries lo) \<and> le_name (lo_entries lo ! k) = n \<and>
        (\<forall>j. k < j \<and> j < length (lo_entries lo) \<longrightarrow> le_name (lo_entries lo ! j) \<noteq> n))"

definition lo_inv :: "load_order \<Rightarrow> bool" where
  "lo_inv lo \<longleftrightarrow>
     unat (lo_regular_index lo) = regular_count (lo_entries lo) \<and> regular_count (lo_entries lo) \<le> 254 \<and>
     unat (lo_light_slot_counter lo) = light_count (lo_entries lo) \<and> light_count (lo_entries lo) \<le> 4096 \<and>
     entries_ok (lo_entries lo) \<and> slots_ok lo \<and> names_ok lo"

lemma lo_inv_new: "lo_inv load_order_new"
  by (simp add: lo_inv_def load_order_new_def entries_ok_def slots_ok_def names_ok_def)

lemma entries_ok_snoc: "entries_ok es \<Longrightarrow> entry_ok es e \<Longrightarrow> entries_ok (es @ [e])"
  by (auto simp: entries_ok_def nth_append less_Suc_eq)

lemma entries_ok_slot:
  assumes "entries_ok es" "k < length es" "le_light_slot (es ! k) = Some s"
  shows "unat s < light_count es"
proof -
  have ok: "entry_ok (take k es) (es ! k)" using assms by (simp add: entries_ok_def)
  then have l: "le_kind (es ! k) = KLight" "s = of_nat (light_count (take k es))" "light_count (take k es) < 4096"
    using assms(3) by (auto simp: entry_ok_def split: if_splits)
  have "light_count es = light_count (take k es @ es ! k # drop (Suc k) es)"
    using assms(2) by (simp add: id_take_nth_drop [symmetric])
  also have "\<dots> = light_count (take k es) + 1 + light_count (drop (Suc k) es)"
    using l(1) by (simp add: light_count_def)
  finally have "light_count (take k es) < light_count es" by simp
  then show ?thesis using l by simp
qed

lemma lo_push_spec:
  assumes "lo_inv lo"
  shows "load_order_push lower name kind lo =
    (if kind = KLight \<and> light_count (lo_entries lo) = 4096 then Inl LightSlotOverflow
     else if kind \<noteq> KLight \<and> regular_count (lo_entries lo) = 254 then Inl LoadOrderIndexFull
     else
       let e = \<lparr> le_name = lower name, le_index = (if kind = KLight then 0xFE else lo_regular_index lo),
                 le_kind = kind, le_light_slot = (if kind = KLight then Some (lo_light_slot_counter lo) else None) \<rparr>
       in Inr (e, \<lparr> lo_entries = lo_entries lo @ [e],
                    lo_by_name = (lo_by_name lo)(lower name \<mapsto> length (lo_entries lo)),
                    lo_regular_index = (if kind = KLight then lo_regular_index lo else lo_regular_index lo + 1),
                    lo_light_slot_counter = (if kind = KLight then lo_light_slot_counter lo + 1 else lo_light_slot_counter lo),
                    lo_by_light_slot = (if kind = KLight
                      then (lo_by_light_slot lo)(lo_light_slot_counter lo \<mapsto> length (lo_entries lo))
                      else lo_by_light_slot lo) \<rparr>))"
proof -
  have 1: "lo_light_slot_counter lo > 0xFFF \<longleftrightarrow> light_count (lo_entries lo) = 4096"
    using assms by (auto simp: lo_inv_def word_less_nat_alt)
  have 2: "lo_regular_index lo \<ge> 0xFE \<longleftrightarrow> regular_count (lo_entries lo) = 254"
    using assms by (auto simp: lo_inv_def word_le_nat_alt)
  show ?thesis unfolding load_order_push_def Let_def 1 2 by (cases "kind = KLight") auto
qed

lemma lo_push_entry_ok:
  assumes "lo_inv lo" "load_order_push lower name kind lo = Inr (e, lo')"
  shows "entry_ok (lo_entries lo) e" and "lo_entries lo' = lo_entries lo @ [e]"
    and "le_name e = lower name" and "le_kind e = kind"
proof -
  have "of_nat (unat (lo_light_slot_counter lo)) = lo_light_slot_counter lo" by simp
  then have "lo_light_slot_counter lo = of_nat (light_count (lo_entries lo))"
    using assms(1) by (simp only: lo_inv_def)
  then show "entry_ok (lo_entries lo) e" "lo_entries lo' = lo_entries lo @ [e]"
    "le_name e = lower name" "le_kind e = kind"
    using assms by (auto simp: lo_push_spec Let_def entry_ok_def lo_inv_def split: if_splits)
qed

lemma slots_ok_snoc:
  assumes "slots_ok lo" "lo_entries lo' = lo_entries lo @ [e]"
    and "case le_light_slot e of
           None \<Rightarrow> lo_by_light_slot lo' = lo_by_light_slot lo
         | Some s \<Rightarrow> lo_by_light_slot lo' = (lo_by_light_slot lo)(s \<mapsto> length (lo_entries lo)) \<and>
             (\<forall>k < length (lo_entries lo). le_light_slot (lo_entries lo ! k) \<noteq> Some s)"
  shows "slots_ok lo'"
  using assms by (auto simp: slots_ok_def nth_append less_Suc_eq split: option.splits)

lemma names_ok_snoc:
  assumes "names_ok lo" "lo_entries lo' = lo_entries lo @ [e]"
    and "lo_by_name lo' = (lo_by_name lo)(le_name e \<mapsto> length (lo_entries lo))"
  shows "names_ok lo'"
proof -
  let ?es = "lo_entries lo"
  have last: "le_name ((?es @ [e]) ! length ?es) = le_name e" by simp
  have "(if n = le_name e then Some (length ?es) else lo_by_name lo n) = Some k \<longleftrightarrow>
      k < Suc (length ?es) \<and> le_name ((?es @ [e]) ! k) = n \<and>
      (\<forall>j. k < j \<and> j < Suc (length ?es) \<longrightarrow> le_name ((?es @ [e]) ! j) \<noteq> n)" for n k
  proof (cases "n = le_name e")
    case True
    then show ?thesis using last by (auto simp: less_Suc_eq)
  next
    case False
    have eq: "k < length ?es \<Longrightarrow> (\<forall>j. k < j \<and> j < Suc (length ?es) \<longrightarrow> le_name ((?es @ [e]) ! j) \<noteq> n) \<longleftrightarrow>
        (\<forall>j. k < j \<and> j < length ?es \<longrightarrow> le_name (?es ! j) \<noteq> n)"
      using False by (auto simp: nth_append less_Suc_eq)
    show ?thesis
    proof (cases "k < length ?es")
      case True
      then show ?thesis using False assms(1) eq by (simp add: names_ok_def nth_append)
    next
      case k: False
      then show ?thesis using False assms(1) last
        by (auto simp: names_ok_def less_Suc_eq)
    qed
  qed
  then have "names_ok lo'" using assms(2,3) by (simp add: names_ok_def)
  then show ?thesis .
qed

lemma lo_inv_push:
  assumes inv: "lo_inv lo" and push: "load_order_push lower name kind lo = Inr (e, lo')"
  shows "lo_inv lo'"
proof -
  note step = lo_push_entry_ok [OF inv push]
  have e: "entries_ok (lo_entries lo')"
    using inv step by (auto simp: lo_inv_def intro: entries_ok_snoc)
  have n: "names_ok lo'"
    using inv push step by (intro names_ok_snoc [of lo lo' e]) (auto simp: lo_inv_def lo_push_spec [OF inv] Let_def split: if_splits)
  have "unat (of_nat (light_count (lo_entries lo)) :: u16) = light_count (lo_entries lo)"
    using inv by (simp add: lo_inv_def)
  then have "le_light_slot (lo_entries lo ! k) \<noteq> Some (lo_light_slot_counter lo)" if "k < length (lo_entries lo)" for k
    using entries_ok_slot [OF _ that] inv by (auto simp: lo_inv_def)
  then have s: "slots_ok lo'"
    using inv push step(2)
    by (intro slots_ok_snoc [of lo lo' e]) (auto simp: lo_inv_def lo_push_spec [OF inv] Let_def split: if_splits)
  have "unat (lo_regular_index lo + 1) = unat (lo_regular_index lo) + 1" if "regular_count (lo_entries lo) < 254"
    using that inv by (simp add: lo_inv_def unat_word_ariths)
  moreover have "unat (lo_light_slot_counter lo + 1) = unat (lo_light_slot_counter lo) + 1"
    if "light_count (lo_entries lo) < 4096"
    using that inv by (simp add: lo_inv_def unat_word_ariths)
  ultimately show ?thesis using inv push e n s
    by (auto simp: lo_inv_def lo_push_spec [OF inv] Let_def split: if_splits)
qed

text \<open>The load orders a program can build: \<open>new\<close> followed by successful pushes.\<close>

inductive lo_reachable :: "(rstring \<Rightarrow> rstring) \<Rightarrow> load_order \<Rightarrow> bool" for lower where
  lo_start: "lo_reachable lower load_order_new"
| lo_step: "lo_reachable lower lo \<Longrightarrow> load_order_push lower name kind lo = Inr (e, lo') \<Longrightarrow> lo_reachable lower lo'"

text \<open>
  C6: In every load order built by pushes, regular plugins are numbered 0, 1, \<dots> in
  push order below 0xFE, light plugins carry the index 0xFE and consecutive ESL slots below 4096,
  the counters count them, the slot table maps each slot to the one entry that owns it, and the name
  table maps each name to the last entry with that name.
\<close>

theorem load_order_invariant:
  assumes "lo_reachable lower lo"
  shows "lo_inv lo"
  using assms by induction (auto intro: lo_inv_new lo_inv_push)

text \<open>
  C7: Pushing onto a reachable load order fails exactly when its index space is
  exhausted: with \<open>LightSlotOverflow\<close> when 4096 light plugins are present and a light one is pushed,
  with \<open>LoadOrderIndexFull\<close> when 254 regular plugins are present and a regular one is pushed;
  otherwise it appends one entry with the canonical name and the kind.
\<close>

theorem load_order_capacity:
  assumes "lo_reachable lower lo"
  shows "(load_order_push lower name kind lo = Inl LightSlotOverflow \<longleftrightarrow>
       kind = KLight \<and> light_count (lo_entries lo) = 4096) \<and>
    (load_order_push lower name kind lo = Inl LoadOrderIndexFull \<longleftrightarrow>
       kind \<noteq> KLight \<and> regular_count (lo_entries lo) = 254) \<and>
    (\<forall>e. load_order_push lower name kind lo = Inl e \<longrightarrow> e \<in> {LightSlotOverflow, LoadOrderIndexFull}) \<and>
    (\<forall>e lo'. load_order_push lower name kind lo = Inr (e, lo') \<longrightarrow>
       lo_entries lo' = lo_entries lo @ [e] \<and> le_name e = lower name \<and> le_kind e = kind)"
proof -
  have inv: "lo_inv lo" using assms by induction (auto intro: lo_inv_new lo_inv_push)
  show ?thesis by (auto simp: lo_push_spec [OF inv] Let_def split: if_splits)
qed

lemma entries_ok_prefix_counts:
  assumes "entries_ok es" "j < k" "k < length es"
  shows "(le_kind (es ! j) = KLight \<longrightarrow> light_count (take j es) < light_count (take k es)) \<and>
         (le_kind (es ! j) \<noteq> KLight \<longrightarrow> regular_count (take j es) < regular_count (take k es))"
proof -
  have t: "take k es = take j es @ es ! j # drop (Suc j) (take k es)"
    using assms id_take_nth_drop [of j "take k es"] by (simp add: min_def)
  have "light_count (take k es) = light_count (take j es @ es ! j # drop (Suc j) (take k es))"
    "regular_count (take k es) = regular_count (take j es @ es ! j # drop (Suc j) (take k es))"
    using t by simp_all
  then show ?thesis by (simp add: light_count_def regular_count_def)
qed

text \<open>
  No two entries of a reachable load order share their place: two different
  entries with the same file index are both light and have different ESL slots.
\<close>

theorem load_order_unique:
  assumes "lo_reachable lower lo" "j < k" "k < length (lo_entries lo)"
  shows "le_index (lo_entries lo ! j) \<noteq> le_index (lo_entries lo ! k) \<or>
    (le_kind (lo_entries lo ! j) = KLight \<and> le_kind (lo_entries lo ! k) = KLight \<and>
     le_light_slot (lo_entries lo ! j) \<noteq> le_light_slot (lo_entries lo ! k))"
proof -
  let ?es = "lo_entries lo"
  have "lo_inv lo" using assms(1) by induction (auto intro: lo_inv_new lo_inv_push)
  then have eok: "entries_ok ?es" by (simp add: lo_inv_def)
  then have j: "entry_ok (take j ?es) (?es ! j)" and k: "entry_ok (take k ?es) (?es ! k)"
    using assms(2,3) by (simp_all add: entries_ok_def)
  note pc = entries_ok_prefix_counts [OF eok assms(2,3)]
  have fe: "unat (0xFE :: u8) = 254" by simp
  have inj: "a < b \<Longrightarrow> b < 4096 \<Longrightarrow> (of_nat a :: u16) \<noteq> of_nat b" for a b
    by (rule notI, drule arg_cong [where f = unat]) simp
  show ?thesis
    using j k pc fe inj by (auto simp: entry_ok_def split: if_splits)
qed

lemma slots_okD:
  "slots_ok lo \<Longrightarrow> lo_by_light_slot lo s = Some k \<longleftrightarrow>
     k < length (lo_entries lo) \<and> le_light_slot (lo_entries lo ! k) = Some s"
  by (simp add: slots_ok_def)

lemma esl_object_u32: "ucast (esl_object f) = fid_raw f AND 0xFFF"
proof -
  have "(x :: u32) AND 0xFFF = take_bit 12 x" for x by (simp add: take_bit_eq_mask mask_eq_exp_minus_1)
  then show ?thesis
    by (auto simp: esl_object_def intro!: bit_word_eqI simp: bit_ucast_iff bit_take_bit_iff)
qed

text \<open>
  C8: Resolution over a reachable load order. A FormID whose top byte is 0xFE resolves to
  the one light entry that owns the slot in bits 12 to 23, with the low 12 bits as object id, and to
  nothing when no entry owns it. Any other FormID resolves through the list of the source's masters
  followed by the source itself, indexed by the top byte, and to nothing past its end.
\<close>

theorem resolve_spec:
  assumes "lo_reachable lower lo"
  shows "load_order_resolve lower f source_plugin masters lo =
    (if file_index f = 0xFE
     then map_option (\<lambda>e. \<lparr> gf_plugin_name = le_name e, gf_object_id = fid_raw f AND 0xFFF \<rparr>)
            (find (\<lambda>e. le_light_slot e = Some (esl_slot f)) (lo_entries lo))
     else if unat (file_index f) < length (masters @ [source_plugin])
     then Some \<lparr> gf_plugin_name = lower ((masters @ [source_plugin]) ! unat (file_index f)),
                 gf_object_id = object_id f \<rparr>
     else None)"
proof (cases "file_index f = 0xFE")
  case False
  then show ?thesis by (auto simp: load_order_resolve_def Let_def nth_append)
next
  case True
  have "lo_inv lo" using assms by induction (auto intro: lo_inv_new lo_inv_push)
  then have slots: "slots_ok lo" by (simp add: lo_inv_def)
  show ?thesis
  proof (cases "lo_by_light_slot lo (esl_slot f)")
    case None
    then have "le_light_slot (lo_entries lo ! k) \<noteq> Some (esl_slot f)" if "k < length (lo_entries lo)" for k
      using slots_okD [OF slots, of "esl_slot f" k] that None by simp
    then have "find (\<lambda>e. le_light_slot e = Some (esl_slot f)) (lo_entries lo) = None"
      by (auto simp: find_None_iff in_set_conv_nth)
    then show ?thesis using True None by (simp add: load_order_resolve_def)
  next
    case (Some k)
    then have k: "k < length (lo_entries lo)" "le_light_slot (lo_entries lo ! k) = Some (esl_slot f)"
      using slots_okD [OF slots] by auto
    have unique: "j = k" if "j < length (lo_entries lo)" "le_light_slot (lo_entries lo ! j) = Some (esl_slot f)" for j
      using slots_okD [OF slots, of "esl_slot f" j] that Some by simp
    have "le_light_slot (lo_entries lo ! j) \<noteq> Some (esl_slot f)" if "j < k" for j
      using unique [of j] that k(1) by auto
    then have "find (\<lambda>e. le_light_slot e = Some (esl_slot f)) (lo_entries lo) = Some (lo_entries lo ! k)"
      using k by (intro find_Some_iff [THEN iffD2] exI [of _ k]) simp
    then show ?thesis using True Some by (simp add: load_order_resolve_def esl_object_u32)
  qed
qed

subsection \<open>A sample load order\<close>

definition sample_load_order :: load_order where
  "sample_load_order =
     \<lparr> lo_entries = [\<lparr> le_name = [97], le_index = 0, le_kind = KMaster, le_light_slot = None \<rparr>,
                     \<lparr> le_name = [98], le_index = 0xFE, le_kind = KLight, le_light_slot = Some 0 \<rparr>,
                     \<lparr> le_name = [99], le_index = 0xFE, le_kind = KLight, le_light_slot = Some 1 \<rparr>],
       lo_by_name = [[97] \<mapsto> 0, [98] \<mapsto> 1, [99] \<mapsto> Suc 1],
       lo_regular_index = 1, lo_light_slot_counter = 2, lo_by_light_slot = [0 \<mapsto> 1, 1 \<mapsto> Suc 1] \<rparr>"

lemma sample_load_order_reachable: "lo_reachable (\<lambda>s. s) sample_load_order"
proof -
  have "\<exists>e lo. load_order_push (\<lambda>s. s) [97] KMaster load_order_new = Inr (e, lo) \<and>
      (\<exists>e lo'. load_order_push (\<lambda>s. s) [98] KLight lo = Inr (e, lo') \<and>
        (\<exists>e. load_order_push (\<lambda>s. s) [99] KLight lo' = Inr (e, sample_load_order)))"
    by (simp add: load_order_push_def load_order_new_def sample_load_order_def Let_def)
  then show ?thesis by (blast intro: lo_start lo_step)
qed

theorem load_order_invariant_witness: "lo_inv sample_load_order"
  by (rule load_order_invariant [OF sample_load_order_reachable])

theorem load_order_capacity_witness:
  "load_order_push (\<lambda>s. s) [100] KLight sample_load_order \<noteq> Inl LightSlotOverflow"
  using load_order_capacity [OF sample_load_order_reachable, of "[100]" KLight]
  by (simp add: sample_load_order_def light_count_def)

theorem load_order_unique_witness:
  "le_light_slot (lo_entries sample_load_order ! 1) \<noteq> le_light_slot (lo_entries sample_load_order ! 2)"
  using load_order_unique [OF sample_load_order_reachable, of 1 2] by (simp add: sample_load_order_def)

theorem resolve_spec_witness:
  "load_order_resolve (\<lambda>s. s) (FormId 0xFE001ABC) [] [] sample_load_order =
     Some \<lparr> gf_plugin_name = [99], gf_object_id = 0xABC \<rparr>"
  using resolve_spec [OF sample_load_order_reachable, of "FormId 0xFE001ABC" "[]" "[]"]
  by (simp add: sample_load_order_def file_index_def esl_slot_def)

end
