(* ===== verification/PluginCache.thy ===== *)
theory PluginCache
  imports LoadOrder PluginWriter "HOL-Library.AList"
begin

text \<open>
  \<open>bethkit-core/src/cache.rs\<close>: the multi-plugin cache with winning overrides. The hash map from global
  FormIDs, which the code iterates over, is an association list with distinct keys; its iteration
  order is unspecified in the source and the results are shown not to depend on it. The lazily built
  editor-id index is an option field that \<open>find_by_editor_id\<close> fills and \<open>add\<close> clears.
\<close>

subsection \<open>State\<close>

record cache_entry =
  ce_name :: rstring
  ce_plugin :: plugin

type_synonym winner = "nat \<times> form_id \<times> signature"

record plugin_cache =
  pc_entries :: "cache_entry list"
  pc_load_order :: load_order
  pc_by_global_id :: "(global_form_id \<times> winner) list"
  pc_by_signature :: "signature \<rightharpoonup> global_form_id list"
  pc_by_editor_id :: "(rstring \<rightharpoonup> global_form_id) option"

definition cache_new :: plugin_cache where
  "cache_new =
     \<lparr> pc_entries = [], pc_load_order = load_order_new, pc_by_global_id = [],
       pc_by_signature = Map.empty, pc_by_editor_id = None \<rparr>"

definition record_count :: "plugin_cache \<Rightarrow> nat" where
  "record_count pc = length (pc_by_global_id pc)"

definition cache_len :: "plugin_cache \<Rightarrow> nat" where
  "cache_len pc = length (pc_entries pc)"

subsection \<open>Adding a plugin\<close>

text \<open>One round of the loop of \<open>add\<close>: the global FormID leaves the bucket of the signature it had
  and joins the bucket of its new one, and the winner is replaced.\<close>

fun index_triple ::
    "nat \<Rightarrow> global_form_id \<times> form_id \<times> signature \<Rightarrow>
     (global_form_id \<times> winner) list \<times> (signature \<rightharpoonup> global_form_id list) \<Rightarrow>
     (global_form_id \<times> winner) list \<times> (signature \<rightharpoonup> global_form_id list)" where
  "index_triple entry_index (gfid, raw_fid, sig) (by_gid, by_sig) =
     (let by_sig1 =
            (case map_of by_gid gfid of
               None \<Rightarrow> by_sig
             | Some (_, _, old_sig) \<Rightarrow>
                 (case by_sig old_sig of
                    None \<Rightarrow> by_sig
                  | Some sig_list \<Rightarrow> by_sig(old_sig \<mapsto> filter (\<lambda>g. g \<noteq> gfid) sig_list)));
          bucket = (case by_sig1 sig of None \<Rightarrow> [] | Some l \<Rightarrow> l)
      in (AList.update gfid (entry_index, raw_fid, sig) by_gid, by_sig1(sig \<mapsto> bucket @ [gfid])))"

definition record_triple ::
    "(rstring \<Rightarrow> rstring) \<Rightarrow> load_order \<Rightarrow> rstring \<Rightarrow> rstring list \<Rightarrow> main_record \<Rightarrow>
     (global_form_id \<times> form_id \<times> signature) option" where
  "record_triple lower lo canonical masters r =
     map_option (\<lambda>gfid. (gfid, rh_form_id (rec_header r), rh_signature (rec_header r)))
       (load_order_resolve lower (rh_form_id (rec_header r)) canonical masters lo)"

definition plugin_triples ::
    "(rstring \<Rightarrow> rstring) \<Rightarrow> load_order \<Rightarrow> rstring \<Rightarrow> plugin \<Rightarrow>
     (global_form_id \<times> form_id \<times> signature) list" where
  "plugin_triples lower lo canonical p =
     List.map_filter (record_triple lower lo canonical (pl_masters p))
       (filter (\<lambda>r. \<not> is_null (rh_form_id (rec_header r))) (plugin_records p))"

definition cache_add ::
    "(rstring \<Rightarrow> rstring) \<Rightarrow> rstring \<Rightarrow> plugin \<Rightarrow> plugin_cache \<Rightarrow> core_error + plugin_cache" where
  "cache_add lower name p pc =
     (let canonical = lower name;
          entry_index = length (pc_entries pc)
      in bindr (load_order_push lower name (plugin_kind_of p) (pc_load_order pc)) (\<lambda>(_, lo').
           let (by_gid, by_sig) =
                 foldl (\<lambda>st t. index_triple entry_index t st)
                   (pc_by_global_id pc, pc_by_signature pc) (plugin_triples lower lo' canonical p)
           in Inr \<lparr> pc_entries = pc_entries pc @ [\<lparr> ce_name = canonical, ce_plugin = p \<rparr>],
                    pc_load_order = lo',
                    pc_by_global_id = by_gid,
                    pc_by_signature = by_sig,
                    pc_by_editor_id = None \<rparr>))"

subsection \<open>Lookups\<close>

definition resolve_record :: "global_form_id \<Rightarrow> plugin_cache \<Rightarrow> main_record option" where
  "resolve_record gfid pc =
     (case map_of (pc_by_global_id pc) gfid of
        None \<Rightarrow> None
      | Some (entry_idx, raw_fid, _) \<Rightarrow> find_record raw_fid (ce_plugin (pc_entries pc ! entry_idx)))"

text \<open>\<open>winning_by_entry\<close>: the nested map, keyed by entry index and raw FormID.\<close>

definition winning_by_entry :: "(global_form_id \<times> winner) list \<Rightarrow> (nat \<times> form_id \<rightharpoonup> global_form_id)" where
  "winning_by_entry by_gid = foldl (\<lambda>m (gfid, entry_idx, raw_fid, _). m((entry_idx, raw_fid) \<mapsto> gfid)) Map.empty by_gid"

definition index_editor_id ::
    "(bytes \<Rightarrow> string + bytes) \<Rightarrow> (form_id \<rightharpoonup> global_form_id) \<Rightarrow> (rstring \<rightharpoonup> global_form_id) \<Rightarrow>
     main_record \<Rightarrow> (rstring \<rightharpoonup> global_form_id)" where
  "index_editor_id inflate winning m r =
     (case winning (rh_form_id (rec_header r)) of
        None \<Rightarrow> m
      | Some gfid \<Rightarrow>
          (case editor_id inflate r of
             Inr (Some eid) \<Rightarrow> m(eid \<mapsto> gfid)
           | _ \<Rightarrow> m))"

definition build_editor_index ::
    "(bytes \<Rightarrow> string + bytes) \<Rightarrow> plugin_cache \<Rightarrow> (rstring \<rightharpoonup> global_form_id)" where
  "build_editor_index inflate pc =
     foldl (\<lambda>m (entry_idx, entry).
         foldl (index_editor_id inflate (\<lambda>f. winning_by_entry (pc_by_global_id pc) (entry_idx, f))) m
           (plugin_records (ce_plugin entry)))
       Map.empty (enumerate 0 (pc_entries pc))"

definition find_by_editor_id ::
    "(bytes \<Rightarrow> string + bytes) \<Rightarrow> rstring \<Rightarrow> plugin_cache \<Rightarrow>
     (global_form_id \<times> main_record) option \<times> plugin_cache" where
  "find_by_editor_id inflate edid pc =
     (let index = (case pc_by_editor_id pc of Some m \<Rightarrow> m | None \<Rightarrow> build_editor_index inflate pc);
          pc' = pc\<lparr> pc_by_editor_id := Some index \<rparr>
      in (case index edid of
            None \<Rightarrow> None
          | Some gfid \<Rightarrow> map_option (\<lambda>r. (gfid, r)) (resolve_record gfid pc), pc'))"

definition records_of_type :: "signature \<Rightarrow> plugin_cache \<Rightarrow> (global_form_id \<times> main_record) list" where
  "records_of_type sig pc =
     List.map_filter (\<lambda>gfid. map_option (\<lambda>r. (gfid, r)) (resolve_record gfid pc))
       (case pc_by_signature pc sig of None \<Rightarrow> [] | Some gfids \<Rightarrow> gfids)"

subsection \<open>The two indices agree\<close>

definition sig_bucket :: "(signature \<rightharpoonup> global_form_id list) \<Rightarrow> signature \<Rightarrow> global_form_id list" where
  "sig_bucket by_sig s = (case by_sig s of None \<Rightarrow> [] | Some l \<Rightarrow> l)"

definition index_ok :: "(global_form_id \<times> winner) list \<Rightarrow> (signature \<rightharpoonup> global_form_id list) \<Rightarrow> bool" where
  "index_ok by_gid by_sig \<longleftrightarrow>
     distinct (map fst by_gid) \<and>
     (\<forall>s. distinct (sig_bucket by_sig s)) \<and>
     (\<forall>g s. g \<in> set (sig_bucket by_sig s) \<longleftrightarrow> (\<exists>e f. map_of by_gid g = Some (e, f, s)))"

lemma index_triple_map_of:
  "map_of (fst (index_triple e (g, f, s) (by_gid, by_sig))) = (map_of by_gid)(g \<mapsto> (e, f, s))"
  by (simp add: Let_def update_conv')

lemma index_triple_bucket:
  assumes "index_ok by_gid by_sig"
  shows "sig_bucket (snd (index_triple e (g, f, s) (by_gid, by_sig))) t =
    filter (\<lambda>h. h \<noteq> g) (sig_bucket by_sig t) @ (if t = s then [g] else [])"
proof -
  have in_b: "h \<in> set (sig_bucket by_sig u) \<longleftrightarrow> (\<exists>e f. map_of by_gid h = Some (e, f, u))" for h u
    using assms by (simp add: index_ok_def)
  have keep: "filter (\<lambda>h. h \<noteq> g) (sig_bucket by_sig u) = sig_bucket by_sig u"
    if "\<And>e f. map_of by_gid g \<noteq> Some (e, f, u)" for u
    using in_b [of g u] that by (auto intro!: filter_True)
  show ?thesis
  proof (cases "map_of by_gid g")
    case None
    then show ?thesis using keep [of t] by (auto simp: sig_bucket_def Let_def)
  next
    case (Some w)
    then obtain e' f' old where w: "map_of by_gid g = Some (e', f', old)" by (cases w) auto
    then have "g \<in> set (sig_bucket by_sig old)" using in_b by blast
    then obtain l where l: "by_sig old = Some l" by (cases "by_sig old") (auto simp: sig_bucket_def)
    have k: "u \<noteq> old \<Longrightarrow> filter (\<lambda>h. h \<noteq> g) (sig_bucket by_sig u) = sig_bucket by_sig u" for u
      using keep [of u] w by simp
    show ?thesis using w l k [of t] by (cases "t = old"; cases "s = old"; cases "t = s") (auto simp: sig_bucket_def Let_def)
  qed
qed

lemma index_triple_ok:
  assumes "index_ok by_gid by_sig"
  shows "index_ok (fst (index_triple e t (by_gid, by_sig))) (snd (index_triple e t (by_gid, by_sig)))"
proof -
  obtain g f s where t: "t = (g, f, s)" by (cases t) auto
  have "distinct (map fst (fst (index_triple e t (by_gid, by_sig))))"
    using assms by (simp add: t Let_def index_ok_def distinct_update)
  then show ?thesis
    using assms unfolding t index_ok_def index_triple_map_of index_triple_bucket [OF assms]
    by (auto simp: index_ok_def)
qed

lemma fold_index_ok:
  "index_ok (fst st) (snd st) \<Longrightarrow>
   index_ok (fst (foldl (\<lambda>st t. index_triple e t st) st ts)) (snd (foldl (\<lambda>st t. index_triple e t st) st ts))"
proof (induction ts arbitrary: st)
  case (Cons t ts)
  then show ?case using index_triple_ok [of "fst st" "snd st" e t] by simp
qed simp

subsection \<open>Reachable caches\<close>

text \<open>What indexing the triples of one plugin does to the winner table: every FormID they mention
  points to its last triple, the others keep their winner.\<close>

definition triple_winners ::
    "nat \<Rightarrow> (global_form_id \<times> form_id \<times> signature) list \<Rightarrow> (global_form_id \<rightharpoonup> winner)" where
  "triple_winners e ts = map_of (map (\<lambda>(g, f, s). (g, (e, f, s))) (rev ts))"

lemma fold_index_map_of:
  "map_of (fst (foldl (\<lambda>st t. index_triple e t st) st ts)) = map_of (fst st) ++ triple_winners e ts"
proof (induction ts arbitrary: st)
  case (Cons t ts)
  obtain g f s where t: "t = (g, f, s)" by (cases t) auto
  have "map_of (fst (index_triple e t st)) = (map_of (fst st))(g \<mapsto> (e, f, s))"
    using index_triple_map_of [of e g f s "fst st" "snd st"] by (simp add: t)
  then show ?case by (simp only: foldl_Cons Cons.IH) (simp add: t triple_winners_def fun_eq_iff map_add_def split: option.splits)
qed (simp add: triple_winners_def)

lemma triple_winners_Some:
  "triple_winners e ts g = Some (e', f, s) \<Longrightarrow> e' = e \<and> (g, f, s) \<in> set ts"
  by (auto simp: triple_winners_def dest!: map_of_SomeD)

lemma triple_winners_None: "triple_winners e ts g = None \<longleftrightarrow> g \<notin> fst ` set ts"
  by (force simp: triple_winners_def map_of_eq_None_iff)

lemma plugin_triples_iff:
  "(g, f, s) \<in> set (plugin_triples lower lo canonical p) \<longleftrightarrow>
   \<not> is_null f \<and> load_order_resolve lower f canonical (pl_masters p) lo = Some g \<and>
   (\<exists>r \<in> set (plugin_records p). rh_form_id (rec_header r) = f \<and> rh_signature (rec_header r) = s)"
  by (auto simp: plugin_triples_def record_triple_def map_filter_def image_iff)

text \<open>The effect of a successful \<open>add\<close>, with the two index maps described by what they contain.\<close>

lemma cache_add_Inr:
  assumes "cache_add lower name p pc = Inr pc'"
  shows "\<exists>e. load_order_push lower name (plugin_kind_of p) (pc_load_order pc) = Inr (e, pc_load_order pc')"
    and "pc_entries pc' = pc_entries pc @ [\<lparr> ce_name = lower name, ce_plugin = p \<rparr>]"
    and "map_of (pc_by_global_id pc') =
      map_of (pc_by_global_id pc) ++
        triple_winners (length (pc_entries pc)) (plugin_triples lower (pc_load_order pc') (lower name) p)"
    and "pc_by_editor_id pc' = None"
    and "index_ok (pc_by_global_id pc) (pc_by_signature pc) \<Longrightarrow> index_ok (pc_by_global_id pc') (pc_by_signature pc')"
proof -
  obtain e lo' where push: "load_order_push lower name (plugin_kind_of p) (pc_load_order pc) = Inr (e, lo')"
    using assms by (auto simp: cache_add_def Let_def bindr_eq_Inr)
  let ?ts = "plugin_triples lower lo' (lower name) p"
  let ?st = "foldl (\<lambda>st t. index_triple (length (pc_entries pc)) t st) (pc_by_global_id pc, pc_by_signature pc) ?ts"
  have pc': "pc' = \<lparr> pc_entries = pc_entries pc @ [\<lparr> ce_name = lower name, ce_plugin = p \<rparr>],
      pc_load_order = lo', pc_by_global_id = fst ?st, pc_by_signature = snd ?st, pc_by_editor_id = None \<rparr>"
    using assms push by (simp add: cache_add_def Let_def split_beta)
  show "\<exists>e. load_order_push lower name (plugin_kind_of p) (pc_load_order pc) = Inr (e, pc_load_order pc')"
    using push pc' by simp
  show "pc_entries pc' = pc_entries pc @ [\<lparr> ce_name = lower name, ce_plugin = p \<rparr>]"
    "pc_by_editor_id pc' = None"
    using pc' by simp_all
  show "map_of (pc_by_global_id pc') = map_of (pc_by_global_id pc) ++
      triple_winners (length (pc_entries pc)) (plugin_triples lower (pc_load_order pc') (lower name) p)"
    using pc' fold_index_map_of [of "length (pc_entries pc)" "(pc_by_global_id pc, pc_by_signature pc)" ?ts] by simp
  show "index_ok (pc_by_global_id pc) (pc_by_signature pc) \<Longrightarrow> index_ok (pc_by_global_id pc') (pc_by_signature pc')"
    using pc' fold_index_ok [of "(pc_by_global_id pc, pc_by_signature pc)" "length (pc_entries pc)" ?ts] by simp
qed

inductive cache_reachable :: "(rstring \<Rightarrow> rstring) \<Rightarrow> (bytes \<Rightarrow> string + bytes) \<Rightarrow> plugin_cache \<Rightarrow> bool"
  for lower inflate where
  cr_new: "cache_reachable lower inflate cache_new"
| cr_add: "cache_reachable lower inflate pc \<Longrightarrow> cache_add lower name p pc = Inr pc' \<Longrightarrow>
    cache_reachable lower inflate pc'"
| cr_find: "cache_reachable lower inflate pc \<Longrightarrow>
    cache_reachable lower inflate (snd (find_by_editor_id inflate edid pc))"

text \<open>A winner points into an entry, at a record of that FormID and signature.\<close>

definition winner_ok :: "cache_entry list \<Rightarrow> winner \<Rightarrow> bool" where
  "winner_ok es w = (case w of (e, f, s) \<Rightarrow>
     e < length es \<and> \<not> is_null f \<and>
     (\<exists>r \<in> set (plugin_records (ce_plugin (es ! e))).
        rh_form_id (rec_header r) = f \<and> rh_signature (rec_header r) = s))"

definition cache_inv :: "(bytes \<Rightarrow> string + bytes) \<Rightarrow> plugin_cache \<Rightarrow> bool" where
  "cache_inv inflate pc \<longleftrightarrow>
     index_ok (pc_by_global_id pc) (pc_by_signature pc) \<and>
     (\<forall>g w. map_of (pc_by_global_id pc) g = Some w \<longrightarrow> winner_ok (pc_entries pc) w) \<and>
     (\<forall>g h e f s t. map_of (pc_by_global_id pc) g = Some (e, f, s) \<longrightarrow>
        map_of (pc_by_global_id pc) h = Some (e, f, t) \<longrightarrow> g = h) \<and>
     (\<forall>m. pc_by_editor_id pc = Some m \<longrightarrow> m = build_editor_index inflate pc) \<and>
     lo_inv (pc_load_order pc) \<and>
     map le_name (lo_entries (pc_load_order pc)) = map ce_name (pc_entries pc)"

lemma cache_inv_new: "cache_inv inflate cache_new"
  by (simp add: cache_inv_def cache_new_def index_ok_def sig_bucket_def lo_inv_new)
     (simp add: load_order_new_def)

lemma winner_ok_snoc: "winner_ok es w \<Longrightarrow> winner_ok (es @ [x]) w"
  by (auto simp: winner_ok_def nth_append)

lemma cache_inv_add:
  assumes inv: "cache_inv inflate pc" and add: "cache_add lower name p pc = Inr pc'"
  shows "cache_inv inflate pc'"
proof -
  note add' = cache_add_Inr [OF add]
  let ?n = "length (pc_entries pc)"
  let ?ts = "plugin_triples lower (pc_load_order pc') (lower name) p"
  obtain e where push: "load_order_push lower name (plugin_kind_of p) (pc_load_order pc) = Inr (e, pc_load_order pc')"
    using add'(1) by blast
  have lo: "lo_inv (pc_load_order pc)" using inv by (simp add: cache_inv_def)
  have win: "(map_of (pc_by_global_id pc) g = Some (e, f, s) \<and> e < ?n \<and> winner_ok (pc_entries pc) (e, f, s)) \<or>
      (e = ?n \<and> (g, f, s) \<in> set ?ts)"
    if "map_of (pc_by_global_id pc') g = Some (e, f, s)" for g e f s
    using that inv unfolding add'(3) map_add_Some_iff
    by (auto simp: cache_inv_def winner_ok_def dest!: triple_winners_Some)
  have 1: "winner_ok (pc_entries pc') w" if "map_of (pc_by_global_id pc') g = Some w" for g w
  proof -
    obtain e f s where w: "w = (e, f, s)" by (cases w)
    show ?thesis using win [OF that [unfolded w]]
    proof
      assume "e = ?n \<and> (g, f, s) \<in> set ?ts"
      then show ?thesis by (auto simp: w add'(2) winner_ok_def plugin_triples_iff)
    qed (auto simp: w add'(2) intro: winner_ok_snoc)
  qed
  have 2: "g = h" if "map_of (pc_by_global_id pc') g = Some (e, f, s)"
    "map_of (pc_by_global_id pc') h = Some (e, f, t)" for g h e f s t
    using win [OF that(1)] win [OF that(2)] inv
    by (auto simp: cache_inv_def plugin_triples_iff)
  have 3: "lo_inv (pc_load_order pc')" by (rule lo_inv_push [OF lo push])
  have 4: "map le_name (lo_entries (pc_load_order pc')) = map ce_name (pc_entries pc')"
    using inv lo_push_entry_ok [OF lo push] by (simp add: cache_inv_def add'(2))
  show ?thesis
    unfolding cache_inv_def using 1 2 3 4 add'(4) add'(5) inv by (auto simp: cache_inv_def)
qed

lemma build_editor_index_memo [simp]:
  "build_editor_index inflate (pc\<lparr> pc_by_editor_id := m \<rparr>) = build_editor_index inflate pc"
  by (simp add: build_editor_index_def)

lemma find_by_editor_id_state:
  assumes "cache_inv inflate pc"
  shows "snd (find_by_editor_id inflate edid pc) = pc\<lparr> pc_by_editor_id := Some (build_editor_index inflate pc) \<rparr>"
  using assms by (auto simp: find_by_editor_id_def Let_def cache_inv_def split: option.splits)

lemma cache_inv_find:
  assumes "cache_inv inflate pc"
  shows "cache_inv inflate (snd (find_by_editor_id inflate edid pc))"
  using assms by (simp add: find_by_editor_id_state [OF assms]) (simp add: cache_inv_def)

lemma cache_inv_reachable: "cache_reachable lower inflate pc \<Longrightarrow> cache_inv inflate pc"
  by (induction rule: cache_reachable.induct) (auto intro: cache_inv_new cache_inv_add cache_inv_find)


subsection \<open>Lookups in reachable caches\<close>

lemma resolve_record_Some:
  assumes "cache_inv inflate pc" "map_of (pc_by_global_id pc) g = Some (e, f, s)"
  shows "\<exists>r. resolve_record g pc = Some r \<and> r \<in> set (plugin_records (ce_plugin (pc_entries pc ! e))) \<and>
    rh_form_id (rec_header r) = f"
proof -
  let ?p = "ce_plugin (pc_entries pc ! e)"
  have "winner_ok (pc_entries pc) (e, f, s)" using assms unfolding cache_inv_def by blast
  then have "find_record f ?p \<noteq> None"
    by (auto simp: winner_ok_def find_record_def find_None_iff)
  then obtain r where r: "find_record f ?p = Some r" by blast
  have "r \<in> set (plugin_records ?p) \<and> rh_form_id (rec_header r) = f"
    using r by (auto simp: find_record_def find_Some_iff)
  then show ?thesis using r assms(2) by (simp add: resolve_record_def)
qed

lemma resolve_record_iff:
  "cache_inv inflate pc \<Longrightarrow> (\<exists>r. resolve_record g pc = Some r) \<longleftrightarrow> map_of (pc_by_global_id pc) g \<noteq> None"
  using resolve_record_Some [of inflate pc g] by (auto simp: resolve_record_def split: option.splits)

text \<open>The record \<open>r\<close> of the plugin \<open>p\<close>, added under \<open>name\<close>, is a version of the global record \<open>g\<close>.\<close>

definition defines_gfid ::
    "(rstring \<Rightarrow> rstring) \<Rightarrow> load_order \<Rightarrow> rstring \<Rightarrow> plugin \<Rightarrow> global_form_id \<Rightarrow> main_record \<Rightarrow> bool" where
  "defines_gfid lower lo name p g r \<longleftrightarrow>
     r \<in> set (plugin_records p) \<and> \<not> is_null (rh_form_id (rec_header r)) \<and>
     load_order_resolve lower (rh_form_id (rec_header r)) (lower name) (pl_masters p) lo = Some g"

lemma defines_gfid_triples:
  "(\<exists>r. defines_gfid lower lo name p g r) \<longleftrightarrow> (\<exists>f s. (g, f, s) \<in> set (plugin_triples lower lo (lower name) p))"
  by (auto simp: plugin_triples_iff defines_gfid_def)

text \<open>
  C3: After a successful \<open>add\<close>, a global FormID that some non-null record of the new
  plugin resolves to is answered with such a record of that plugin; every other global FormID is
  answered as before.
\<close>

theorem winning_override:
  assumes "cache_reachable lower inflate pc" "cache_add lower name p pc = Inr pc'"
  shows "if \<exists>r. defines_gfid lower (pc_load_order pc') name p g r
    then \<exists>r. resolve_record g pc' = Some r \<and> defines_gfid lower (pc_load_order pc') name p g r
    else resolve_record g pc' = resolve_record g pc"
proof (cases "\<exists>r. defines_gfid lower (pc_load_order pc') name p g r")
  let ?ts = "plugin_triples lower (pc_load_order pc') (lower name) p"
  let ?n = "length (pc_entries pc)"
  note inv = cache_inv_reachable [OF assms(1)] and add = cache_add_Inr [OF assms(2)]
  case True
  then obtain w where w: "triple_winners ?n ?ts g = Some w"
    unfolding defines_gfid_triples by (cases "triple_winners ?n ?ts g") (force simp: triple_winners_None)+
  obtain f s where fs: "triple_winners ?n ?ts g = Some (?n, f, s)" and ts: "(g, f, s) \<in> set ?ts"
    using w triple_winners_Some [of ?n ?ts g] by (cases w) auto
  have "map_of (pc_by_global_id pc') g = Some (?n, f, s)" using fs by (simp add: add(3) map_add_Some_iff)
  from resolve_record_Some [OF cache_inv_add [OF inv assms(2)] this] ts True show ?thesis
    by (auto simp: add(2) plugin_triples_iff defines_gfid_def)
next
  let ?ts = "plugin_triples lower (pc_load_order pc') (lower name) p"
  note inv = cache_inv_reachable [OF assms(1)] and add = cache_add_Inr [OF assms(2)]
  case False
  then have "g \<notin> fst ` set ?ts" unfolding defines_gfid_triples by auto
  then have m: "map_of (pc_by_global_id pc') g = map_of (pc_by_global_id pc) g"
    by (simp add: add(3) map_add_def triple_winners_None [THEN iffD2])
  have "resolve_record g pc' = resolve_record g pc"
  proof (cases "map_of (pc_by_global_id pc) g")
    case (Some w)
    then have "winner_ok (pc_entries pc) w" using inv unfolding cache_inv_def by blast
    then show ?thesis using Some m by (auto simp: resolve_record_def add(2) winner_ok_def nth_append split: prod.splits)
  qed (simp add: resolve_record_def m)
  then show ?thesis using False by simp
qed

lemma records_of_type_eq:
  "records_of_type s pc =
     List.map_filter (\<lambda>g. map_option (\<lambda>r. (g, r)) (resolve_record g pc)) (sig_bucket (pc_by_signature pc) s)"
  by (simp add: records_of_type_def sig_bucket_def)

lemma distinct_map_filter_key:
  "distinct gs \<Longrightarrow> distinct (map fst (List.map_filter (\<lambda>g. map_option (\<lambda>r. (g, r)) (h g)) gs))"
  by (induction gs) (auto simp: map_filter_simps map_filter_def split: option.splits)

text \<open>
  C5: The signature index of a reachable cache lists each winning global FormID
  exactly once, under the signature its winner was indexed with and under no other, and answers it
  with the same record as \<open>resolve_record\<close>.
\<close>

theorem signature_index_exact:
  assumes "cache_reachable lower inflate pc"
  shows "distinct (map fst (records_of_type s pc)) \<and>
    (\<forall>g r. (g, r) \<in> set (records_of_type s pc) \<longleftrightarrow>
       resolve_record g pc = Some r \<and> (\<exists>e f. map_of (pc_by_global_id pc) g = Some (e, f, s)))"
proof -
  have inv: "cache_inv inflate pc" using cache_inv_reachable [OF assms] .
  then have ok: "index_ok (pc_by_global_id pc) (pc_by_signature pc)" by (simp add: cache_inv_def)
  then have "distinct (sig_bucket (pc_by_signature pc) s)" by (simp add: index_ok_def)
  then have 1: "distinct (map fst (records_of_type s pc))"
    unfolding records_of_type_eq by (rule distinct_map_filter_key)
  have "(g, r) \<in> set (records_of_type s pc) \<longleftrightarrow>
       resolve_record g pc = Some r \<and> g \<in> set (sig_bucket (pc_by_signature pc) s)" for g r
    by (force simp: records_of_type_eq map_filter_def)
  then show ?thesis using 1 ok by (simp add: index_ok_def)
qed

subsection \<open>The editor-id index\<close>

lemma foldl_update_map_of:
  "foldl (\<lambda>m x. m(k x \<mapsto> v x)) m xs = m ++ map_of (rev (map (\<lambda>x. (k x, v x)) xs))"
  by (induction xs arbitrary: m) (auto simp: fun_eq_iff map_add_def split: option.splits)

text \<open>The inverse index does not depend on the order of the winner table.\<close>

lemma winning_by_entry_iff:
  assumes "cache_inv inflate pc"
  shows "winning_by_entry (pc_by_global_id pc) (e, f) = Some g \<longleftrightarrow>
    (\<exists>s. map_of (pc_by_global_id pc) g = Some (e, f, s))"
proof -
  let ?B = "pc_by_global_id pc"
  let ?W = "map_of (rev (map (\<lambda>(g, e, f, s). ((e, f), g)) ?B))"
  have d: "distinct (map fst ?B)" and u: "\<And>g h e f s t. map_of ?B g = Some (e, f, s) \<Longrightarrow>
      map_of ?B h = Some (e, f, t) \<Longrightarrow> g = h"
    using assms unfolding cache_inv_def index_ok_def by blast+
  have "winning_by_entry ?B = ?W"
    using foldl_update_map_of [of "\<lambda>(g, e, f, s). (e, f)" "\<lambda>(g, e, f, s). g" Map.empty ?B]
    by (simp add: winning_by_entry_def split_def)
  moreover have "?W (e, f) = Some h \<Longrightarrow> \<exists>s. map_of ?B h = Some (e, f, s)" for h
    using d by (auto dest!: map_of_SomeD)
  moreover have "?W (e, f) = Some g" if s: "map_of ?B g = Some (e, f, s)" for s
  proof -
    have "((e, f), g) \<in> set (rev (map (\<lambda>(g, e, f, s). ((e, f), g)) ?B))"
      using map_of_SomeD [OF s] by (auto intro: rev_image_eqI)
    then obtain h where h: "?W (e, f) = Some h" using weak_map_of_SomeI by fastforce
    then have "\<exists>t. map_of ?B h = Some (e, f, t)" using calculation(2) by blast
    then show ?thesis using u s h by blast
  qed
  ultimately show ?thesis by auto
qed

lemma index_editor_fold:
  "(foldl (index_editor_id inflate W) m rs edid = Some g \<longrightarrow> m edid = Some g \<or>
      (\<exists>r \<in> set rs. W (rh_form_id (rec_header r)) = Some g \<and> editor_id inflate r = Inr (Some edid))) \<and>
   (foldl (index_editor_id inflate W) m rs edid = None \<longleftrightarrow> m edid = None \<and>
      (\<forall>r \<in> set rs. editor_id inflate r = Inr (Some edid) \<longrightarrow> W (rh_form_id (rec_header r)) = None))"
proof (induction rs arbitrary: m)
  case (Cons r rs)
  show ?case using Cons.IH [of "index_editor_id inflate W m r"]
    by (auto simp: index_editor_id_def split: option.splits sum.splits if_splits)
qed simp

lemma build_editor_fold:
  fixes E and R and W and inflate
  defines "E m es \<equiv> foldl (\<lambda>m (i, x). foldl (index_editor_id inflate (\<lambda>f. W (i, f))) m (R x)) m es"
  shows
    "(E m es edid = Some g \<longrightarrow> m edid = Some g \<or>
       (\<exists>(i, x) \<in> set es. \<exists>r \<in> set (R x). W (i, rh_form_id (rec_header r)) = Some g \<and>
          editor_id inflate r = Inr (Some edid))) \<and>
     (E m es edid = None \<longleftrightarrow> m edid = None \<and>
       (\<forall>(i, x) \<in> set es. \<forall>r \<in> set (R x). editor_id inflate r = Inr (Some edid) \<longrightarrow>
          W (i, rh_form_id (rec_header r)) = None))"
proof (induction es arbitrary: m)
  case (Cons p es)
  obtain i x where p: "p = (i, x)" by (cases p)
  let ?m = "foldl (index_editor_id inflate (\<lambda>f. W (i, f))) m (R x)"
  have "E m (p # es) = E ?m es" by (simp add: E_def p)
  then show ?case
    using Cons.IH [of ?m] index_editor_fold [of inflate "\<lambda>f. W (i, f)" m "R x" edid g] by (auto simp: p)
qed (simp add: E_def)

text \<open>A winning global record: some record its winner names carries the editor id.\<close>

definition winner_has_editor_id ::
    "(bytes \<Rightarrow> string + bytes) \<Rightarrow> plugin_cache \<Rightarrow> global_form_id \<Rightarrow> rstring \<Rightarrow> bool" where
  "winner_has_editor_id inflate pc g edid \<longleftrightarrow>
     (\<exists>e f s. map_of (pc_by_global_id pc) g = Some (e, f, s) \<and>
        (\<exists>r \<in> set (plugin_records (ce_plugin (pc_entries pc ! e))).
           rh_form_id (rec_header r) = f \<and> editor_id inflate r = Inr (Some edid)))"

lemma build_editor_index_spec:
  assumes "cache_inv inflate pc"
  shows "build_editor_index inflate pc edid = Some g \<Longrightarrow> winner_has_editor_id inflate pc g edid"
    and "build_editor_index inflate pc edid = None \<longleftrightarrow> (\<forall>g. \<not> winner_has_editor_id inflate pc g edid)"
proof -
  let ?W = "winning_by_entry (pc_by_global_id pc)"
  have mem: "(i, x) \<in> set (enumerate 0 (pc_entries pc)) \<longleftrightarrow> i < length (pc_entries pc) \<and> x = pc_entries pc ! i" for i x
    by (auto simp: in_set_enumerate_eq)
  have ei: "Ball (set (enumerate 0 (pc_entries pc))) Q \<longleftrightarrow> (\<forall>i < length (pc_entries pc). Q (i, pc_entries pc ! i))"
    "Bex (set (enumerate 0 (pc_entries pc))) Q \<longleftrightarrow> (\<exists>i < length (pc_entries pc). Q (i, pc_entries pc ! i))" for Q
    using mem by (auto 0 4 simp: Ball_def Bex_def split_paired_All split_paired_Ex)
  have wf: "e < length (pc_entries pc)" if "map_of (pc_by_global_id pc) g = Some (e, f, s)" for g e f s
    using assms that by (auto simp: cache_inv_def winner_ok_def)
  have W: "?W (e, f) = Some g \<longleftrightarrow> (\<exists>s. map_of (pc_by_global_id pc) g = Some (e, f, s))" for e f g
    using winning_by_entry_iff [OF assms] .
  have WN: "?W (e, f) = None \<longleftrightarrow> (\<forall>g s. map_of (pc_by_global_id pc) g \<noteq> Some (e, f, s))" for e f
    using W [of e f] by (metis not_None_eq)
  note F = build_editor_fold [of inflate ?W "\<lambda>x. plugin_records (ce_plugin x)" Map.empty
      "enumerate 0 (pc_entries pc)" edid]
  show "build_editor_index inflate pc edid = Some g \<Longrightarrow> winner_has_editor_id inflate pc g edid"
  proof -
    assume "build_editor_index inflate pc edid = Some g"
    then have "\<exists>i < length (pc_entries pc). \<exists>r \<in> set (plugin_records (ce_plugin (pc_entries pc ! i))).
        ?W (i, rh_form_id (rec_header r)) = Some g \<and> editor_id inflate r = Inr (Some edid)"
      using F [of g] by (simp add: build_editor_index_def ei)
    then show "winner_has_editor_id inflate pc g edid"
      unfolding W winner_has_editor_id_def by blast
  qed
  have "build_editor_index inflate pc edid = None \<longleftrightarrow>
      (\<forall>i < length (pc_entries pc). \<forall>r \<in> set (plugin_records (ce_plugin (pc_entries pc ! i))).
         editor_id inflate r = Inr (Some edid) \<longrightarrow>
         (\<forall>g s. map_of (pc_by_global_id pc) g \<noteq> Some (i, rh_form_id (rec_header r), s)))"
    using F by (auto simp: build_editor_index_def ei WN)
  also have "\<dots> \<longleftrightarrow> (\<forall>g. \<not> winner_has_editor_id inflate pc g edid)"
    using wf unfolding winner_has_editor_id_def by blast
  finally show "build_editor_index inflate pc edid = None \<longleftrightarrow> (\<forall>g. \<not> winner_has_editor_id inflate pc g edid)" .
qed

lemma find_by_editor_id_result:
  assumes "cache_inv inflate pc"
  shows "fst (find_by_editor_id inflate edid pc) =
    (case build_editor_index inflate pc edid of
       None \<Rightarrow> None
     | Some g \<Rightarrow> map_option (\<lambda>r. (g, r)) (resolve_record g pc))"
  using assms by (auto simp: find_by_editor_id_def Let_def cache_inv_def split: option.splits)

lemma distinct_form_ids:
  "distinct (map (\<lambda>r. rh_form_id (rec_header r)) rs) \<Longrightarrow> r \<in> set rs \<Longrightarrow> q \<in> set rs \<Longrightarrow>
   rh_form_id (rec_header r) = rh_form_id (rec_header q) \<Longrightarrow> r = q"
  by (auto simp: distinct_map dest: inj_onD)

lemma winner_has_editor_id_iff:
  assumes "cache_inv inflate pc"
    and "\<forall>x \<in> set (pc_entries pc). distinct (map (\<lambda>r. rh_form_id (rec_header r)) (plugin_records (ce_plugin x)))"
  shows "winner_has_editor_id inflate pc g edid \<longleftrightarrow>
    (\<exists>r. resolve_record g pc = Some r \<and> editor_id inflate r = Inr (Some edid))"
proof (cases "map_of (pc_by_global_id pc) g")
  case (Some w)
  then obtain e f s where w: "map_of (pc_by_global_id pc) g = Some (e, f, s)" by (cases w) auto
  obtain q where q: "resolve_record g pc = Some q" "q \<in> set (plugin_records (ce_plugin (pc_entries pc ! e)))"
    "rh_form_id (rec_header q) = f"
    using resolve_record_Some [OF assms(1) w] by blast
  have "winner_ok (pc_entries pc) (e, f, s)" using assms(1) w unfolding cache_inv_def by blast
  then have "distinct (map (\<lambda>r. rh_form_id (rec_header r)) (plugin_records (ce_plugin (pc_entries pc ! e))))"
    using assms(2) by (simp add: winner_ok_def)
  from distinct_form_ids [OF this] show ?thesis
    unfolding winner_has_editor_id_def w using q by auto
qed (simp add: winner_has_editor_id_def resolve_record_def)

text \<open>
  C4: In a reachable cache of plugins that repeat no FormID, the editor-id lookup
  answers a winning record that carries the id whenever there is one, and nothing otherwise; the lazily
  built index it leaves behind changes no later answer of any lookup.
\<close>

theorem editor_id_lookup:
  assumes "cache_reachable lower inflate pc"
    and "\<forall>x \<in> set (pc_entries pc). distinct (map (\<lambda>r. rh_form_id (rec_header r)) (plugin_records (ce_plugin x)))"
  shows "(case fst (find_by_editor_id inflate edid pc) of
       Some (g, r) \<Rightarrow> resolve_record g pc = Some r \<and> editor_id inflate r = Inr (Some edid)
     | None \<Rightarrow> \<forall>g r. resolve_record g pc = Some r \<longrightarrow> editor_id inflate r \<noteq> Inr (Some edid)) \<and>
    fst (find_by_editor_id inflate other (snd (find_by_editor_id inflate edid pc))) =
      fst (find_by_editor_id inflate other pc) \<and>
    resolve_record g (snd (find_by_editor_id inflate edid pc)) = resolve_record g pc"
proof -
  note inv = cache_inv_reachable [OF assms(1)]
  note W = winner_has_editor_id_iff [OF inv assms(2)]
  have rr: "resolve_record g (pc\<lparr> pc_by_editor_id := m \<rparr>) = resolve_record g pc" for g m
    by (cases "map_of (pc_by_global_id pc) g") (auto simp: resolve_record_def)
  have "case fst (find_by_editor_id inflate edid pc) of
       Some (g, r) \<Rightarrow> resolve_record g pc = Some r \<and> editor_id inflate r = Inr (Some edid)
     | None \<Rightarrow> \<forall>g r. resolve_record g pc = Some r \<longrightarrow> editor_id inflate r \<noteq> Inr (Some edid)"
  proof (cases "build_editor_index inflate pc edid")
    case None
    then show ?thesis using build_editor_index_spec(2) [OF inv, of edid] W
      by (simp add: find_by_editor_id_result [OF inv])
  next
    case (Some g)
    then show ?thesis using build_editor_index_spec(1) [OF inv Some] W [of g edid]
      by (auto simp: find_by_editor_id_result [OF inv])
  qed
  moreover have "fst (find_by_editor_id inflate other (snd (find_by_editor_id inflate edid pc))) =
      fst (find_by_editor_id inflate other pc)"
    using find_by_editor_id_result [OF cache_inv_find [OF inv, of edid], of other]
    by (simp add: find_by_editor_id_state [OF inv] find_by_editor_id_result [OF inv] rr cong: option.case_cong)
  ultimately show ?thesis by (simp add: find_by_editor_id_state [OF inv] rr)
qed

subsection \<open>A sample cache\<close>

text \<open>Two plugins with one record each, the second overriding the first's.\<close>

definition sample_plugin :: "rstring list \<Rightarrow> bytes \<Rightarrow> plugin" where
  "sample_plugin masters edid =
     (let r = record_from_writable
            \<lparr> wr_signature = SIG_EDID, wr_flags = 0, wr_form_id = FormId 0x00000800, wr_form_version = 44,
              wr_subrecords = [\<lparr> ws_signature = SIG_EDID, ws_data = edid @ [0] \<rparr>] \<rparr>
      in \<lparr> pl_source = [], pl_ctx = ctx_sse,
           pl_header = \<lparr> ph_record = r, ph_hedr_version = 0, ph_record_count = 1, ph_next_object_id = FormId 0x801,
                         ph_masters = masters, ph_description = None \<rparr>,
           pl_header_range = (0, 0),
           pl_groups = [Grp \<lparr> gi_header = \<lparr> gh_group_size = 0, gh_label = LSignature SIG_EDID,
                                            gh_group_type = Normal, gh_version_control = 0, gh_unknown = 0 \<rparr>,
                              gi_source_range = None \<rparr> [Record r]] \<rparr>)"

definition sample_first :: plugin where "sample_first = sample_plugin [] [70]"
definition sample_second :: plugin where "sample_second = sample_plugin [[65]] [71]"

definition sample_gfid :: global_form_id where
  "sample_gfid = \<lparr> gf_plugin_name = [65], gf_object_id = 0x800 \<rparr>"

definition sample_cache :: plugin_cache where
  "sample_cache = projr (cache_add (\<lambda>s. s) [65] sample_first cache_new)"

lemma sample_plugin_records [simp]:
  "plugin_records (sample_plugin ms e) =
     [record_from_writable
        \<lparr> wr_signature = SIG_EDID, wr_flags = 0, wr_form_id = FormId 0x00000800, wr_form_version = 44,
          wr_subrecords = [\<lparr> ws_signature = SIG_EDID, ws_data = e @ [0] \<rparr>] \<rparr>]"
  "pl_masters (sample_plugin ms e) = ms"
  "plugin_kind_of (sample_plugin ms e) = KPlugin"
  by (simp_all add: plugin_records_def sample_plugin_def Let_def pl_masters_def plugin_kind_of_def
      record_plugin_kind_def record_from_writable_def plugin_kind_from_flags_def)

lemma sample_push [simp]:
  "\<exists>e lo'. load_order_push (\<lambda>s. s) n KPlugin load_order_new = Inr (e, lo') \<and> lo_regular_index lo' = 1"
  by (simp add: load_order_push_def load_order_new_def Let_def)

lemma sample_add: "cache_add (\<lambda>s. s) [65] sample_first cache_new = Inr sample_cache"
proof -
  have "\<exists>pc. cache_add (\<lambda>s. s) [65] sample_first cache_new = Inr pc"
    by (simp add: cache_add_def cache_new_def sample_first_def load_order_push_def load_order_new_def Let_def split_beta)
  then show ?thesis by (auto simp: sample_cache_def)
qed

lemma sample_reachable: "cache_reachable (\<lambda>s. s) inflate sample_cache"
  using cr_add [OF cr_new sample_add] .

lemma sample_cache_facts:
  "pc_entries sample_cache = [\<lparr> ce_name = [65], ce_plugin = sample_first \<rparr>]"
  "lo_regular_index (pc_load_order sample_cache) = 1"
  "map_of (pc_by_global_id sample_cache) sample_gfid = Some (0, FormId 0x800, SIG_EDID)"
proof -
  obtain e where "load_order_push (\<lambda>s. s) [65] KPlugin load_order_new = Inr (e, pc_load_order sample_cache)"
    using cache_add_Inr(1) [OF sample_add] by (auto simp: sample_first_def cache_new_def)
  then show "lo_regular_index (pc_load_order sample_cache) = 1"
    using sample_push [of "[65]"] by auto
  show "pc_entries sample_cache = [\<lparr> ce_name = [65], ce_plugin = sample_first \<rparr>]"
    using cache_add_Inr(2) [OF sample_add] by (simp add: cache_new_def)
  show "map_of (pc_by_global_id sample_cache) sample_gfid = Some (0, FormId 0x800, SIG_EDID)"
    unfolding cache_add_Inr(3) [OF sample_add]
    by (simp add: cache_new_def sample_first_def plugin_triples_def record_triple_def map_filter_simps
        record_from_writable_def load_order_resolve_def file_index_def object_id_def is_null_def
        triple_winners_def sample_gfid_def Let_def)
qed

lemma sample_defines:
  "defines_gfid (\<lambda>s. s) lo [66] sample_second sample_gfid r \<longleftrightarrow> r \<in> set (plugin_records sample_second)"
  by (auto simp: defines_gfid_def sample_second_def record_from_writable_def load_order_resolve_def
      file_index_def object_id_def is_null_def sample_gfid_def Let_def)

theorem winning_override_witness:
  "\<exists>pc'. cache_add (\<lambda>s. s) [66] sample_second sample_cache = Inr pc' \<and>
     resolve_record sample_gfid pc' = Some (hd (plugin_records sample_second))"
proof -
  have "\<exists>pc'. cache_add (\<lambda>s. s) [66] sample_second sample_cache = Inr pc'"
    using sample_cache_facts(2)
    by (simp add: cache_add_def sample_second_def load_order_push_def Let_def split_beta word_le_nat_alt)
  then obtain pc' where pc': "cache_add (\<lambda>s. s) [66] sample_second sample_cache = Inr pc'" by blast
  let ?r = "hd (plugin_records sample_second)"
  have one: "set (plugin_records sample_second) = {?r}" by (simp add: sample_second_def)
  have d: "defines_gfid (\<lambda>s. s) lo [66] sample_second sample_gfid r \<longleftrightarrow> r = ?r" for lo r
    unfolding sample_defines one by simp
  from winning_override [OF sample_reachable [of Inr] pc', of sample_gfid]
  have "resolve_record sample_gfid pc' = Some ?r" unfolding d by simp
  with pc' show ?thesis by blast
qed

theorem signature_index_exact_witness:
  "\<exists>r. (sample_gfid, r) \<in> set (records_of_type SIG_EDID sample_cache)"
proof -
  obtain r where "resolve_record sample_gfid sample_cache = Some r"
    using resolve_record_Some [OF cache_inv_reachable [OF sample_reachable [of Inr]] sample_cache_facts(3)] by blast
  then show ?thesis using signature_index_exact [OF sample_reachable [of Inr], of SIG_EDID] sample_cache_facts(3) by auto
qed

theorem editor_id_lookup_witness:
  "map_option snd (fst (find_by_editor_id Inr [70] sample_cache)) = Some (hd (plugin_records sample_first))"
proof -
  let ?r = "hd (plugin_records sample_first)"
  have rr: "resolve_record sample_gfid sample_cache = Some ?r"
    using sample_cache_facts by (simp add: resolve_record_def find_record_def sample_first_def record_from_writable_def)
  have e: "editor_id Inr ?r = Inr (Some [70])"
    by (simp add: sample_first_def editor_id_def record_get_def subrecords_def record_from_writable_def
        as_zstring_def sr_bytes_def strip_nuls_def)
  have only: "resolve_record g sample_cache = Some r \<Longrightarrow> r = ?r" for g r
  proof -
    assume r: "resolve_record g sample_cache = Some r"
    note inv = cache_inv_reachable [OF sample_reachable [of Inr]]
    obtain e f s where w: "map_of (pc_by_global_id sample_cache) g = Some (e, f, s)"
      using r by (cases "map_of (pc_by_global_id sample_cache) g") (auto simp: resolve_record_def)
    then have "winner_ok (pc_entries sample_cache) (e, f, s)" using inv unfolding cache_inv_def by blast
    then show "r = ?r" using resolve_record_Some [OF inv w] r sample_cache_facts(1)
      by (auto simp: winner_ok_def sample_first_def)
  qed
  have "\<forall>x \<in> set (pc_entries sample_cache).
      distinct (map (\<lambda>r. rh_form_id (rec_header r)) (plugin_records (ce_plugin x)))"
    by (simp add: sample_cache_facts(1) sample_first_def)
  note L = editor_id_lookup [OF sample_reachable this, THEN conjunct1, of Inr "[70]"]
  show ?thesis
  proof (cases "fst (find_by_editor_id Inr [70] sample_cache)")
    case None
    then show ?thesis using L rr e by simp
  next
    case (Some x)
    then show ?thesis using L only by (cases x) auto
  qed
qed

end
