(* ===== verification/OrderedMaps.thy ===== *)
theory OrderedMaps
  imports Main
begin

text \<open>
  Rust's \<open>BTreeMap\<close>, as far as the library uses it: an association list in ascending key order. The
  locale \<open>ordered_map\<close> is the interface its clients rely on; the list operations implement it.
\<close>

lemma sorted_alist_unique:
  fixes xs ys :: "('k::linorder \<times> 'v) list"
  assumes "sorted_wrt (<) (map fst xs)" "sorted_wrt (<) (map fst ys)" "map_of xs = map_of ys"
  shows "xs = ys"
proof (rule map_sorted_distinct_set_unique [of fst])
  have d: "distinct (map fst xs)" "distinct (map fst ys)" using assms by (simp_all add: strict_sorted_iff)
  have mem: "(k, v) \<in> set xs \<longleftrightarrow> (k, v) \<in> set ys" for k v
    using map_of_eq_Some_iff [OF d(1), of k v] map_of_eq_Some_iff [OF d(2), of k v] assms(3) by metis
  then show eq: "set xs = set ys" by auto
  show "inj_on fst (set xs \<union> set ys)" using d(1) unfolding eq [symmetric] by (simp add: distinct_map)
qed (use assms in \<open>simp_all add: strict_sorted_iff\<close>)

lemma map_of_rev_distinct: "distinct (map fst xs) \<Longrightarrow> map_of (rev xs) = map_of xs"
  by (rule map_of_inject_set [THEN iffD2]) (simp_all add: rev_map [symmetric])

subsection \<open>The interface\<close>

locale ordered_map =
  fixes emp :: 'm
    and lookup :: "'m \<Rightarrow> 'k::linorder \<Rightarrow> 'v option"
    and upd :: "'k \<Rightarrow> 'v \<Rightarrow> 'm \<Rightarrow> 'm"
    and del :: "'k \<Rightarrow> 'm \<Rightarrow> 'm"
    and items :: "'m \<Rightarrow> ('k \<times> 'v) list"
    and ok :: "'m \<Rightarrow> bool"
  assumes emp_ok: "ok emp"
    and upd_ok: "ok m \<Longrightarrow> ok (upd k v m)"
    and del_ok: "ok m \<Longrightarrow> ok (del k m)"
    and lookup_emp: "lookup emp k = None"
    and lookup_upd: "ok m \<Longrightarrow> lookup (upd k v m) = (lookup m)(k \<mapsto> v)"
    and lookup_del: "ok m \<Longrightarrow> lookup (del k m) = (lookup m)(k := None)"
    and items_sorted: "ok m \<Longrightarrow> sorted_wrt (<) (map fst (items m))"
    and items_lookup: "ok m \<Longrightarrow> map_of (items m) = lookup m"
begin

lemma items_distinct: "ok m \<Longrightarrow> distinct (map fst (items m))"
  using items_sorted by (simp add: strict_sorted_iff)

lemma mem_items: "ok m \<Longrightarrow> (k, v) \<in> set (items m) \<longleftrightarrow> lookup m k = Some v"
  using items_distinct items_lookup by (metis map_of_eq_Some_iff)

lemma keys_items: "ok m \<Longrightarrow> fst ` set (items m) = dom (lookup m)"
  by (metis dom_map_of_conv_image_fst items_lookup)

text \<open>The order of iteration is determined by the contents.\<close>

lemma items_unique:
  "ok m \<Longrightarrow> ok n \<Longrightarrow> lookup m = lookup n \<Longrightarrow> items m = items n"
  by (simp add: sorted_alist_unique items_sorted items_lookup)

text \<open>Inserting a list of bindings in order, the shape of the loaders' loops.\<close>

definition load :: "('k \<times> 'v) list \<Rightarrow> 'm" where
  "load kvs = foldl (\<lambda>m (k, v). upd k v m) emp kvs"

lemma load_snoc: "load (kvs @ [(k, v)]) = upd k v (load kvs)"
  by (simp add: load_def)

lemma load_ok: "ok (load kvs)"
  by (induction kvs rule: rev_induct) (auto simp: load_snoc upd_ok emp_ok, simp add: load_def emp_ok)

lemma lookup_load: "lookup (load kvs) = map_of (rev kvs)"
proof (induction kvs rule: rev_induct)
  case Nil
  then show ?case by (simp add: load_def lookup_emp fun_eq_iff)
next
  case (snoc kv kvs)
  obtain k v where "kv = (k, v)" by (cases kv)
  then show ?case using snoc by (simp add: load_snoc lookup_upd load_ok)
qed

lemma items_load:
  assumes "sorted_wrt (<) (map fst kvs)"
  shows "items (load kvs) = kvs"
proof (rule sorted_alist_unique)
  have "distinct (map fst kvs)" using assms by (simp add: strict_sorted_iff)
  then show "map_of (items (load kvs)) = map_of kvs"
    by (simp add: items_lookup load_ok lookup_load map_of_rev_distinct)
qed (simp_all add: assms items_sorted load_ok)

end

subsection \<open>The implementation\<close>

fun om_insert :: "'k::linorder \<Rightarrow> 'v \<Rightarrow> ('k \<times> 'v) list \<Rightarrow> ('k \<times> 'v) list" where
  "om_insert k v [] = [(k, v)]"
| "om_insert k v ((k', v') # m) =
     (if k < k' then (k, v) # (k', v') # m
      else if k = k' then (k, v) # m
      else (k', v') # om_insert k v m)"

definition om_remove :: "'k \<Rightarrow> ('k \<times> 'v) list \<Rightarrow> ('k \<times> 'v) list" where
  "om_remove k m = filter (\<lambda>p. fst p \<noteq> k) m"

definition om_ok :: "('k::linorder \<times> 'v) list \<Rightarrow> bool" where
  "om_ok m \<longleftrightarrow> sorted_wrt (<) (map fst m)"

lemma om_insert_keys: "fst ` set (om_insert k v m) = insert k (fst ` set m)"
  by (induction k v m rule: om_insert.induct) auto

lemma om_insert_ok: "om_ok m \<Longrightarrow> om_ok (om_insert k v m)"
proof (induction k v m rule: om_insert.induct)
  case (2 k v k' v' m)
  have "x \<in> fst ` set (om_insert k v m) \<Longrightarrow> x = k \<or> x \<in> fst ` set m" for x
    by (simp add: om_insert_keys)
  then show ?case using 2 by (fastforce simp: om_ok_def)
qed (simp add: om_ok_def)

lemma om_insert_lookup: "om_ok m \<Longrightarrow> map_of (om_insert k v m) = (map_of m)(k \<mapsto> v)"
  by (induction k v m rule: om_insert.induct) (auto simp: om_ok_def)

lemma om_remove_ok: "om_ok m \<Longrightarrow> om_ok (om_remove k m)"
  by (auto simp: om_ok_def om_remove_def sorted_wrt_map intro: sorted_wrt_filter)

lemma om_remove_lookup: "map_of (om_remove k m) = (map_of m)(k := None)"
  by (induction m) (auto simp: om_remove_def)

interpretation btree: ordered_map "[]" map_of om_insert om_remove "\<lambda>m. m" om_ok
  by unfold_locales
    (auto simp: om_insert_ok om_insert_lookup om_remove_ok om_remove_lookup, auto simp: om_ok_def)

end
