(* ===== verification/StringTables.thy ===== *)
theory StringTables
  imports CoreTypes OrderedMaps
begin

text \<open>
  \<open>bethkit-core/src/strings.rs\<close>: the three localisation file formats. A table is its kind, a
  \<open>BTreeMap\<close> from identifiers to entries (the ordered map of \<open>OrderedMaps\<close>) and the next identifier.
  A subslice of the file, which the source keeps as a reference, is its range. Paths and the mapping of
  files are not modelled: \<open>from_path\<close> takes the extension and \<open>parse\<close> the mapped bytes.
\<close>

subsection \<open>Kinds and entries\<close>

datatype string_file_kind = KStrings | KDLStrings | KILStrings

fun kind_extension :: "string_file_kind \<Rightarrow> bytes" where
  "kind_extension KStrings = ascii ''STRINGS''"
| "kind_extension KDLStrings = ascii ''DLSTRINGS''"
| "kind_extension KILStrings = ascii ''ILSTRINGS''"

text \<open>The argument is \<open>path.extension()\<close> as UTF-8, \<open>None\<close> when there is none.\<close>

definition kind_from_extension :: "bytes option \<Rightarrow> string_file_kind option" where
  "kind_from_extension ext =
     (case ext of
        None \<Rightarrow> None
      | Some e \<Rightarrow>
          (let u = map to_ascii_uppercase e
           in if u = ascii ''STRINGS'' then Some KStrings
              else if u = ascii ''DLSTRINGS'' then Some KDLStrings
              else if u = ascii ''ILSTRINGS'' then Some KILStrings
              else None))"

definition is_length_prefixed :: "string_file_kind \<Rightarrow> bool" where
  "is_length_prefixed k \<longleftrightarrow> k = KDLStrings \<or> k = KILStrings"

datatype entry_bytes =
    EntryBorrowed bytes nat nat
  | EntryOwned bytes

fun entry_slice :: "entry_bytes \<Rightarrow> bytes" where
  "entry_slice (EntryBorrowed src a b) = slice a b src"
| "entry_slice (EntryOwned v) = v"

record string_table =
  st_kind :: string_file_kind
  st_entries :: "(u32 \<times> entry_bytes) list"
  st_next_id :: u32

definition table_new :: "string_file_kind \<Rightarrow> string_table" where
  "table_new k = \<lparr> st_kind = k, st_entries = [], st_next_id = 1 \<rparr>"

definition table_len :: "string_table \<Rightarrow> nat" where
  "table_len t = length (st_entries t)"

definition table_get :: "string_table \<Rightarrow> u32 \<Rightarrow> bytes option" where
  "table_get t n = map_option entry_slice (map_of (st_entries t) n)"

definition table_items :: "string_table \<Rightarrow> (u32 \<times> bytes) list" where
  "table_items t = map (\<lambda>(n, e). (n, entry_slice e)) (st_entries t)"

subsection \<open>Edits\<close>

text \<open>\<open>id.saturating_add(1) > next_id\<close>, the update both the loaders and \<open>insert\<close> make.\<close>

definition bump_next :: "u32 \<Rightarrow> u32 \<Rightarrow> u32" where
  "bump_next n next = (if saturating_add_u32 n 1 > next then saturating_add_u32 n 1 else next)"

definition table_insert :: "u32 \<Rightarrow> bytes \<Rightarrow> string_table \<Rightarrow> string_table" where
  "table_insert n payload t =
     t\<lparr> st_entries := om_insert n (EntryOwned payload) (st_entries t),
        st_next_id := bump_next n (st_next_id t) \<rparr>"

text \<open>The search for the lowest unused identifier over the ascending keys.\<close>

fun gap_loop :: "u32 list \<Rightarrow> u32 \<Rightarrow> core_error + u32" where
  "gap_loop [] n = Inr n"
| "gap_loop (existing # keys) n =
     (if existing < n then gap_loop keys n
      else if existing > n then Inr n
      else if n = - 1 then Inl (InvalidStringTable (Msg ''string identifier space exhausted''))
      else gap_loop keys (n + 1))"

definition try_insert_new :: "bytes \<Rightarrow> string_table \<Rightarrow> core_error + u32 \<times> string_table" where
  "try_insert_new payload t =
     (let n = max (st_next_id t) 1
      in bindr (if map_of (st_entries t) n \<noteq> None then gap_loop (map fst (st_entries t)) 1 else Inr n) (\<lambda>n.
           Inr (n, table_insert n payload t)))"

text \<open>\<open>insert_new\<close>; \<open>None\<close> is its panic.\<close>

definition insert_new :: "bytes \<Rightarrow> string_table \<Rightarrow> (u32 \<times> string_table) option" where
  "insert_new payload t = res_ok (try_insert_new payload t)"

definition table_remove :: "u32 \<Rightarrow> string_table \<Rightarrow> bytes option \<times> string_table" where
  "table_remove n t = (table_get t n, t\<lparr> st_entries := om_remove n (st_entries t) \<rparr>)"

subsection \<open>Reading\<close>

fun read_directory :: "nat \<Rightarrow> cursor \<Rightarrow> core_error + (u32 \<times> u32) list" where
  "read_directory 0 c = Inr []"
| "read_directory (Suc n) c =
     bindr (io (read_u32 c)) (\<lambda>(i, c1).
     bindr (io (read_u32 c1)) (\<lambda>(offset, c2).
     bindr (read_directory n c2) (\<lambda>rest. Inr ((i, offset) # rest))))"

definition parse_directory :: "bytes \<Rightarrow> core_error + (u32 \<times> u32) list" where
  "parse_directory bs =
     (if length bs < 8 then Inl (InvalidStringTable (Msg ''file shorter than 8-byte header''))
      else
        bindr (io (read_u32 (cursor_new bs))) (\<lambda>(count, c1).
        bindr (io (read_u32 c1)) (\<lambda>(_, c2).
          if 8 + min (unat count * 8) usize_max > length bs
          then Inl (InvalidStringTable (Msg ''directory exceeds file size''))
          else read_directory (unat count) c2)))"

text \<open>\<open>read_payload\<close> returns the range of the payload in the file.\<close>

definition read_payload :: "bytes \<Rightarrow> nat \<Rightarrow> string_file_kind \<Rightarrow> core_error + nat \<times> nat" where
  "read_payload bs start kind =
     (if start \<ge> length bs then Inl (InvalidStringTable (Msg ''payload offset out of range''))
      else if is_length_prefixed kind then
        (if start + 4 > length bs then Inl (InvalidStringTable (Msg ''truncated length prefix''))
         else
           let len = (le_word (slice start (start + 4) bs) :: u32)
           in if len = 0 then Inr (start + 4, start + 4)
              else
                let payload_start = start + 4
                in bindr (ok_or (InvalidStringTable (Msg ''length overflow''))
                            (checked_add payload_start (unat len))) (\<lambda>payload_end_with_nul.
                     if payload_end_with_nul > length bs
                     then Inl (InvalidStringTable (Msg ''payload exceeds file''))
                     else Inr (payload_start, payload_end_with_nul - 1)))
      else
        let e = scan_nul bs start
        in if e \<ge> length bs then Inl (InvalidStringTable (Msg ''zstring missing NUL''))
           else Inr (start, e))"

text \<open>The common loop of \<open>from_bytes\<close> and \<open>parse\<close>; they differ in the entry made of a payload's range.\<close>

fun load_entries ::
    "(nat \<times> nat \<Rightarrow> entry_bytes) \<Rightarrow> bytes \<Rightarrow> nat \<Rightarrow> string_file_kind \<Rightarrow> (u32 \<times> u32) list \<Rightarrow>
     (u32 \<times> entry_bytes) list \<times> u32 \<Rightarrow> core_error + (u32 \<times> entry_bytes) list \<times> u32" where
  "load_entries mk bs blob_start kind [] st = Inr st"
| "load_entries mk bs blob_start kind ((i, offset) # directory) (entries, next) =
     bindr (ok_or (InvalidStringTable (Msg ''offset overflow'')) (checked_add blob_start (unat offset))) (\<lambda>entry_start.
     bindr (read_payload bs entry_start kind) (\<lambda>r.
       load_entries mk bs blob_start kind directory (om_insert i (mk r) entries, bump_next i next)))"

definition load_table :: "(nat \<times> nat \<Rightarrow> entry_bytes) \<Rightarrow> bytes \<Rightarrow> string_file_kind \<Rightarrow> core_error + string_table" where
  "load_table mk bs kind =
     bindr (parse_directory bs) (\<lambda>directory.
       let blob_start = 8 + length directory * 8
       in bindr (load_entries mk bs blob_start kind directory ([], 1)) (\<lambda>(entries, next).
            Inr \<lparr> st_kind = kind, st_entries = entries, st_next_id = next \<rparr>))"

definition table_from_bytes :: "bytes \<Rightarrow> string_file_kind \<Rightarrow> core_error + string_table" where
  "table_from_bytes bs kind = load_table (\<lambda>(a, b). EntryOwned (slice a b bs)) bs kind"

definition table_parse :: "bytes \<Rightarrow> string_file_kind \<Rightarrow> core_error + string_table" where
  "table_parse source kind = load_table (\<lambda>(a, b). EntryBorrowed source a b) source kind"

subsection \<open>Writing\<close>

definition write_entry :: "string_file_kind \<Rightarrow> bytes \<times> bytes \<Rightarrow> u32 \<times> entry_bytes \<Rightarrow> bytes \<times> bytes" where
  "write_entry kind = (\<lambda>(blob, directory) (i, e).
     let offset = (of_nat (length blob) :: u32);
         payload = entry_slice e;
         blob1 = (if is_length_prefixed kind
                  then blob @ le_bytes 4 (of_nat (length payload) + 1 :: u32) else blob)
     in (blob1 @ payload @ [0], directory @ le_bytes 4 i @ le_bytes 4 offset))"

definition table_write_to :: "string_table \<Rightarrow> bytes" where
  "table_write_to t =
     (let count = (of_nat (length (st_entries t)) :: u32);
          (blob, directory) = foldl (write_entry (st_kind t)) ([], []) (st_entries t)
      in le_bytes 4 count @ le_bytes 4 (of_nat (length blob) :: u32) @ directory @ blob)"

subsection \<open>Identifier allocation\<close>

lemma u32_inc: "n \<noteq> - 1 \<Longrightarrow> unat ((n :: u32) + 1) = unat n + 1"
  by (metis Suc_eq_plus1 add.commute add_eq_0_iff unatSuc)

lemma unat_u32_max: "unat (- 1 :: u32) = 4294967295"
  by (simp add: unsigned_minus_1_eq_mask mask_eq_exp_minus_1)

lemma unat_saturating_inc: "unat (saturating_add_u32 n 1) = min (unat n + 1) (2 ^ 32 - 1)"
proof (cases "n = - 1")
  case False
  have "unat (n + 1) < 2 ^ 32" using unat_u32_bound [of "n + 1"] by simp
  with False show ?thesis by (simp add: saturating_add_u32_def u32_inc)
qed (simp add: saturating_add_u32_def unat_u32_max)

lemma unat_bump_next: "unat (bump_next n m) = max (unat m) (min (unat n + 1) (2 ^ 32 - 1))"
  by (auto simp: bump_next_def word_less_nat_alt unat_saturating_inc)

lemma gap_loop_spec:
  assumes "sorted_wrt (<) ks"
  shows "(gap_loop ks n = Inr m \<longrightarrow> n \<le> m \<and> m \<notin> set ks \<and> (\<forall>j. n \<le> j \<longrightarrow> j < m \<longrightarrow> j \<in> set ks)) \<and>
    (gap_loop ks n = Inl e \<longrightarrow> (\<forall>j \<ge> n. j \<in> set ks))"
  using assms
proof (induction ks n rule: gap_loop.induct)
  case (2 k ks n)
  have gt: "\<forall>x \<in> set ks. k < x" using "2.prems" by simp
  consider "k < n" | "k > n" | "k = n" "n = - 1" | "k = n" "n \<noteq> - 1" using linorder_less_linear by blast
  then show ?case
  proof cases
    case 1
    have "sorted_wrt (<) ks" using "2.prems" by simp
    note IH = "2.IH"(1) [OF 1 this]
    have "j \<in> set ks \<longleftrightarrow> j \<in> set (k # ks)" if "n \<le> j" for j using 1 that by auto
    then show ?thesis using IH 1 by auto
  next
    case 2
    then show ?thesis using gt by auto
  next
    case 3
    then show ?thesis by (auto simp: word_order.extremum_unique)
  next
    case 4
    have up: "n \<le> j \<longleftrightarrow> j = n \<or> n + 1 \<le> j" for j
      using u32_inc [OF 4(2)] by (auto simp: word_le_nat_alt word_unat_eq_iff)
    have lt: "n < n + 1" using u32_inc [OF 4(2)] by (simp add: word_less_nat_alt)
    have "\<not> k < n" "\<not> n < k" using 4 by simp_all
    note IH = "2.IH"(2) [OF this 4(2)]
    show ?thesis using IH 4 gt lt "2.prems" up by (auto intro: order_less_le_trans)
  qed
qed auto

definition st_inv :: "string_table \<Rightarrow> bool" where
  "st_inv t \<longleftrightarrow> om_ok (st_entries t) \<and> st_next_id t \<noteq> 0 \<and>
     (\<forall>k \<in> fst ` set (st_entries t). k < st_next_id t \<or> st_next_id t = - 1)"

lemma st_inv_new: "st_inv (table_new k)"
  by (simp add: st_inv_def table_new_def om_ok_def)

lemma bump_next_ok:
  assumes "m \<noteq> 0" "\<forall>k \<in> K. k < m \<or> m = - 1"
  shows "bump_next n m \<noteq> 0 \<and> (\<forall>k \<in> insert n K. k < bump_next n m \<or> bump_next n m = - 1)"
proof -
  have m1: "unat (- 1 :: u32) = 2 ^ 32 - 1" by (simp add: unat_u32_max)
  have b: "unat k < 2 ^ 32" for k :: u32 using unat_u32_bound [of k] by simp
  have eq: "x = - 1 \<longleftrightarrow> unat x = 2 ^ 32 - 1" for x :: u32 by (metis m1 word_unat_eq_iff)
  show ?thesis using assms b [of n] b [of m]
    unfolding eq word_less_nat_alt unat_bump_next word_unat_eq_iff [of _ 0]
    by (fastforce simp: unat_bump_next)
qed

lemma st_inv_insert: "st_inv t \<Longrightarrow> st_inv (table_insert n p t)"
  using bump_next_ok [of "st_next_id t" "fst ` set (st_entries t)" n]
  by (simp add: st_inv_def table_insert_def om_insert_keys om_insert_ok)

lemma st_inv_remove: "st_inv t \<Longrightarrow> st_inv (snd (table_remove n t))"
  by (auto simp: st_inv_def table_remove_def om_remove_ok) (auto simp: om_remove_def)

lemma load_entries_inv:
  "load_entries mk bs b kind dir (es, next) = Inr (es', next') \<Longrightarrow>
   st_inv \<lparr> st_kind = kind, st_entries = es, st_next_id = next \<rparr> \<Longrightarrow>
   st_inv \<lparr> st_kind = kind, st_entries = es', st_next_id = next' \<rparr>"
proof (induction mk bs b kind dir "(es, next)" arbitrary: es "next" rule: load_entries.induct)
  case (2 mk bs b kind i off dir es "next")
  then obtain s r where s: "checked_add b (unat off) = Some s" and r: "read_payload bs s kind = Inr r"
    and l: "load_entries mk bs b kind dir (om_insert i (mk r) es, bump_next i next) = Inr (es', next')"
    by (auto simp: bindr_eq_Inr)
  have "st_inv \<lparr> st_kind = kind, st_entries = om_insert i (mk r) es, st_next_id = bump_next i next \<rparr>"
    using 2(3) bump_next_ok [of "next" "fst ` set es" i] by (simp add: st_inv_def om_insert_keys om_insert_ok)
  then show ?case using "2.hyps" s r l by simp
qed simp

lemma load_table_inv: "load_table mk bs kind = Inr t \<Longrightarrow> st_inv t"
  using st_inv_new [of kind]
  by (auto simp: load_table_def bindr_eq_Inr table_new_def Let_def dest: load_entries_inv)

lemma try_insert_new_Inr:
  "try_insert_new p t = Inr (n, t') \<Longrightarrow> t' = table_insert n p t"
  by (auto simp: try_insert_new_def Let_def bindr_eq_Inr)

text \<open>The tables a program can hold.\<close>

inductive table_reachable :: "string_table \<Rightarrow> bool" where
  tr_new: "table_reachable (table_new k)"
| tr_from_bytes: "table_from_bytes bs k = Inr t \<Longrightarrow> table_reachable t"
| tr_parse: "table_parse bs k = Inr t \<Longrightarrow> table_reachable t"
| tr_insert: "table_reachable t \<Longrightarrow> table_reachable (table_insert n p t)"
| tr_insert_new: "table_reachable t \<Longrightarrow> try_insert_new p t = Inr (n, t') \<Longrightarrow> table_reachable t'"
| tr_remove: "table_reachable t \<Longrightarrow> table_reachable (snd (table_remove n t))"

lemma st_inv_reachable: "table_reachable t \<Longrightarrow> st_inv t"
  by (induction rule: table_reachable.induct)
    (auto simp: st_inv_new st_inv_insert st_inv_remove table_from_bytes_def table_parse_def
      dest: load_table_inv try_insert_new_Inr)

text \<open>
  C13: In a reachable table \<open>try_insert_new\<close> stores the payload under a nonzero
  identifier that was free and touches no other entry; it fails exactly when all nonzero identifiers
  are taken. The identifier is the next one in sequence while that is free, and otherwise the lowest
  free one.
\<close>

theorem try_insert_new_fresh:
  assumes "table_reachable t"
  shows "case try_insert_new p t of
      Inl e \<Rightarrow> \<forall>j. j \<noteq> 0 \<longrightarrow> table_get t j \<noteq> None
    | Inr (n, t') \<Rightarrow> n \<noteq> 0 \<and> table_get t n = None \<and> table_get t' = (table_get t)(n \<mapsto> p) \<and>
        (if table_get t (st_next_id t) = None then n = st_next_id t
         else \<forall>j. 0 < j \<longrightarrow> j < n \<longrightarrow> table_get t j \<noteq> None)"
proof -
  have inv: "om_ok (st_entries t)" "st_next_id t \<noteq> 0"
    using st_inv_reachable [OF assms] by (simp_all add: st_inv_def)
  have mx: "max (st_next_id t) 1 = st_next_id t"
    using inv(2) inc_le [of 0 "st_next_id t"] by (simp add: word_gt_0 max_def)
  have get: "table_get t j = None \<longleftrightarrow> j \<notin> set (map fst (st_entries t))" for j
    by (force simp: table_get_def map_of_eq_None_iff)
  have ins: "table_get (table_insert n p t) = (table_get t)(n \<mapsto> p)" for n
    by (simp add: table_get_def table_insert_def om_insert_lookup [OF inv(1)] fun_eq_iff)
  have pos: "j \<noteq> 0 \<longleftrightarrow> 1 \<le> j" for j :: u32 using inc_le [of 0 j] by (auto simp: word_gt_0)
  note G = gap_loop_spec [OF inv(1) [unfolded om_ok_def], of 1]
  show ?thesis
  proof (cases "table_get t (st_next_id t) = None")
    case True
    then have "try_insert_new p t = Inr (st_next_id t, table_insert (st_next_id t) p t)"
      by (simp add: try_insert_new_def Let_def mx table_get_def)
    then show ?thesis using True inv(2) ins by simp
  next
    case False
    then have t: "try_insert_new p t =
        bindr (gap_loop (map fst (st_entries t)) 1) (\<lambda>n. Inr (n, table_insert n p t))"
      by (simp add: try_insert_new_def Let_def mx table_get_def)
    show ?thesis
    proof (cases "gap_loop (map fst (st_entries t)) 1")
      case (Inl e)
      then show ?thesis using G [of _ e] t get pos by simp
    next
      case (Inr n)
      then show ?thesis using G [of n] t get pos ins False by (auto simp: word_gt_0)
    qed
  qed
qed

subsection \<open>Round trip\<close>

definition encode_payload :: "string_file_kind \<Rightarrow> bytes \<Rightarrow> bytes" where
  "encode_payload kind p =
     (if is_length_prefixed kind then le_bytes 4 (of_nat (length p) + 1 :: u32) else []) @ p @ [0]"

definition blob_of :: "string_file_kind \<Rightarrow> (u32 \<times> bytes) list \<Rightarrow> bytes" where
  "blob_of kind xs = concat (map (\<lambda>(i, p). encode_payload kind p) xs)"

fun offsets_of :: "string_file_kind \<Rightarrow> nat \<Rightarrow> (u32 \<times> bytes) list \<Rightarrow> (u32 \<times> u32) list" where
  "offsets_of kind off [] = []"
| "offsets_of kind off ((i, p) # xs) = (i, of_nat off) # offsets_of kind (off + length (encode_payload kind p)) xs"

definition directory_bytes :: "(u32 \<times> u32) list \<Rightarrow> bytes" where
  "directory_bytes ds = concat (map (\<lambda>(i, off). le_bytes 4 i @ le_bytes 4 off) ds)"

lemma blob_of_simps [simp]:
  "blob_of kind [] = []" "blob_of kind ((i, p) # xs) = encode_payload kind p @ blob_of kind xs"
  by (simp_all add: blob_of_def)

lemma directory_bytes_simps [simp]:
  "directory_bytes [] = []" "directory_bytes ((i, off) # ds) = le_bytes 4 i @ le_bytes 4 off @ directory_bytes ds"
  by (simp_all add: directory_bytes_def)

lemma length_offsets_of [simp]: "length (offsets_of kind off xs) = length xs"
  by (induction kind off xs rule: offsets_of.induct) auto

lemma length_directory_bytes [simp]: "length (directory_bytes ds) = 8 * length ds"
  by (induction ds) (auto simp: directory_bytes_def)

lemma length_blob_of: "length xs \<le> length (blob_of kind xs)"
  by (induction xs) (auto simp: blob_of_def encode_payload_def)

lemma write_entries:
  "foldl (write_entry kind) (blob, dir) es =
     (let xs = map (\<lambda>(i, e). (i, entry_slice e)) es
      in (blob @ blob_of kind xs, dir @ directory_bytes (offsets_of kind (length blob) xs)))"
proof (induction es arbitrary: blob dir)
  case (Cons e es)
  obtain i x where "e = (i, x)" by (cases e)
  then show ?case using Cons.IH by (simp add: write_entry_def encode_payload_def Let_def)
qed simp

lemma table_write_to_eq:
  "table_write_to t =
     le_bytes 4 (of_nat (length (table_items t)) :: u32) @
     le_bytes 4 (of_nat (length (blob_of (st_kind t) (table_items t))) :: u32) @
     directory_bytes (offsets_of (st_kind t) 0 (table_items t)) @ blob_of (st_kind t) (table_items t)"
  by (simp add: table_write_to_def write_entries table_items_def Let_def)

lemma read_directory_written:
  assumes "length pre + 8 * length ds + length post \<le> isize_max"
  shows "read_directory (length ds) (cursor_at pre (directory_bytes ds @ post)) = Inr ds"
  using assms
proof (induction ds arbitrary: pre)
  case (Cons d ds)
  obtain i off where d: "d = (i, off)" by (cases d)
  have "read_directory (length ds) (cursor_at (pre @ le_bytes 4 i @ le_bytes 4 off) (directory_bytes ds @ post)) = Inr ds"
    using Cons.prems by (intro Cons.IH) simp
  then show ?case using Cons.prems by (simp add: d read_encoded wf_cursor_at)
qed simp

lemma parse_directory_written:
  assumes "length ds < 2 ^ 32" "8 + 8 * length ds + length post \<le> isize_max"
  shows "parse_directory (le_bytes 4 (of_nat (length ds) :: u32) @ le_bytes 4 (x :: u32) @ directory_bytes ds @ post) = Inr ds"
proof -
  have "length ds * 8 \<le> usize_max" using assms(2) by (simp add: isize_max_def usize_max_def)
  then show ?thesis
    using assms read_directory_written [of "le_bytes 4 (of_nat (length ds) :: u32) @ le_bytes 4 x" ds post]
    by (simp add: parse_directory_def cursor_new_at read_encoded wf_cursor_at)
qed

lemma read_payload_written:
  assumes "length pre + length (encode_payload kind p) + length post \<le> isize_max"
    and "length p + 1 < 2 ^ 32" "\<not> is_length_prefixed kind \<Longrightarrow> 0 \<notin> set p"
  shows "\<exists>a b. read_payload (pre @ encode_payload kind p @ post) (length pre) kind = Inr (a, b) \<and>
    slice a b (pre @ encode_payload kind p @ post) = p"
proof (cases "is_length_prefixed kind")
  case False
  then show ?thesis using scan_nul_written [of p pre post] assms(3) slice_in_append [of pre p "0 # post"]
    by (simp add: read_payload_def encode_payload_def Let_def)
next
  case True
  let ?n = "of_nat (length p) + 1 :: u32"
  have n: "unat ?n = length p + 1"
    using unat_of_nat_u32 [of "length p + 1"] assms(2) by (simp add: add.commute)
  then have nz: "?n \<noteq> 0" by (metis Suc_eq_plus1 nat.distinct(1) unat_0)
  have s: "slice (length pre) (length pre + 4) (pre @ le_bytes 4 ?n @ p @ 0 # post) = le_bytes 4 ?n"
    by (rule slice_in_append') simp_all
  have "checked_add (length pre + 4) (length p + 1) = Some (length pre + 4 + (length p + 1))"
    using assms(1) True by (intro checked_add_small) (simp_all add: encode_payload_def)
  then have "read_payload (pre @ encode_payload kind p @ post) (length pre) kind =
      Inr (length pre + 4, length pre + 4 + length p)"
    using True s n nz by (simp add: read_payload_def encode_payload_def Let_def)
  moreover have "slice (length pre + 4) (length pre + 4 + length p) ((pre @ le_bytes 4 ?n) @ p @ 0 # post) = p"
    by (rule slice_in_append') simp_all
  ultimately show ?thesis using True by (simp add: encode_payload_def)
qed

definition payload_ok :: "string_file_kind \<Rightarrow> bytes \<Rightarrow> bool" where
  "payload_ok kind p \<longleftrightarrow> length p + 1 < 2 ^ 32 \<and> (is_length_prefixed kind \<or> 0 \<notin> set p)"

lemma load_entries_written:
  assumes "bs = pre @ blob_of kind xs" "length pre = b + off" "length bs \<le> isize_max"
    and "off + length (blob_of kind xs) < 2 ^ 32" "\<forall>(i, p) \<in> set xs. payload_ok kind p"
    and mk: "\<And>a b. entry_slice (mk (a, b)) = slice a b bs"
  shows "\<exists>vs next'. load_entries mk bs b kind (offsets_of kind off xs) (es, next) =
      Inr (foldl (\<lambda>m (k, v). om_insert k v m) es vs, next') \<and>
    map (\<lambda>(i, e). (i, entry_slice e)) vs = xs"
  using assms(1-5)
proof (induction xs arbitrary: pre off es "next")
  case Nil
  then show ?case by (auto intro: exI [of _ "[]"])
next
  case (Cons x xs)
  obtain i p where x: "x = (i, p)" by (cases x)
  have off: "unat (of_nat off :: u32) = off" using Cons.prems(4) by simp
  have b: "b \<le> isize_max" "off \<le> isize_max" "b + off = length pre"
    using Cons.prems(1-3) arg_cong [OF Cons.prems(1), of length] by (simp_all only: length_append)
  have bs: "bs = pre @ encode_payload kind p @ blob_of kind xs" using Cons.prems(1) by (simp add: x)
  obtain a c where r: "read_payload bs (length pre) kind = Inr (a, c)" "slice a c bs = p"
  proof -
    have "length pre + length (encode_payload kind p) + length (blob_of kind xs) \<le> isize_max"
      using Cons.prems(3) arg_cong [OF bs, of length] by simp
    moreover have "payload_ok kind p" using Cons.prems(5) by (simp add: x)
    ultimately show ?thesis
      using read_payload_written [of pre kind p "blob_of kind xs", folded bs] that by (auto simp: payload_ok_def)
  qed
  have "checked_add b off = Some (length pre)"
    using checked_add_small [OF b(1,2)] b(3) by simp
  moreover have "\<exists>vs next'.
    load_entries mk bs b kind (offsets_of kind (off + length (encode_payload kind p)) xs)
       (om_insert i (mk (a, c)) es, bump_next i next) =
      Inr (foldl (\<lambda>m (k, v). om_insert k v m) (om_insert i (mk (a, c)) es) vs, next') \<and>
    map (\<lambda>(i, e). (i, entry_slice e)) vs = xs"
  proof (rule Cons.IH [of "pre @ encode_payload kind p"])
    show "length (pre @ encode_payload kind p) = b + (off + length (encode_payload kind p))"
      using Cons.prems(2) by simp
    show "off + length (encode_payload kind p) + length (blob_of kind xs) < 2 ^ 32"
      using Cons.prems(4) by (simp add: x)
  qed (use Cons.prems(3,5) in \<open>simp_all add: bs\<close>)
  then obtain vs next' where
    "load_entries mk bs b kind (offsets_of kind (off + length (encode_payload kind p)) xs)
       (om_insert i (mk (a, c)) es, bump_next i next) =
      Inr (foldl (\<lambda>m (k, v). om_insert k v m) (om_insert i (mk (a, c)) es) vs, next')"
    "map (\<lambda>(i, e). (i, entry_slice e)) vs = xs" by blast
  ultimately show ?case using r
    by (intro exI [of _ "(i, mk (a, c)) # vs"] exI [of _ next']) (simp add: x off mk)
qed

lemma load_table_written:
  assumes ok: "om_ok (st_entries t)" and p: "\<forall>(i, p) \<in> set (table_items t). payload_ok (st_kind t) p"
    and small: "length (blob_of (st_kind t) (table_items t)) < 2 ^ 32"
    and mk: "\<And>a b. entry_slice (mk (a, b)) = slice a b (table_write_to t)"
  shows "\<exists>t'. load_table mk (table_write_to t) (st_kind t) = Inr t' \<and>
    st_kind t' = st_kind t \<and> table_items t' = table_items t"
proof -
  let ?k = "st_kind t" and ?xs = "table_items t" and ?bs = "table_write_to t"
  let ?ds = "offsets_of ?k 0 ?xs"
  let ?hd = "le_bytes 4 (of_nat (length ?ds) :: u32) @ le_bytes 4 (of_nat (length (blob_of ?k ?xs)) :: u32)"
  have bs: "?bs = (?hd @ directory_bytes ?ds) @ blob_of ?k ?xs" by (simp add: table_write_to_eq)
  have n: "length ?xs < 2 ^ 32" using length_blob_of [of ?xs ?k] small by simp
  have size: "length ?bs \<le> isize_max" using n small by (simp add: bs isize_max_def)
  have dir: "parse_directory ?bs = Inr ?ds"
    using parse_directory_written [of ?ds "blob_of ?k ?xs"] n size unfolding bs by simp
  obtain vs next' where l: "load_entries mk ?bs (8 + length ?ds * 8) ?k ?ds ([], 1) =
      Inr (btree.load vs, next')" "map (\<lambda>(i, e). (i, entry_slice e)) vs = ?xs"
    using load_entries_written [OF bs _ size, of "8 + length ?ds * 8" 0 mk "[]" 1] small p mk
    by (auto simp: btree.load_def)
  have "map fst vs = map fst (st_entries t)"
    using arg_cong [OF l(2), of "map fst"] by (simp add: table_items_def split_def comp_def)
  then have "btree.load vs = vs" using ok by (intro btree.items_load) (simp add: om_ok_def)
  then show ?thesis using dir l by (simp add: load_table_def Let_def table_items_def)
qed

text \<open>
  Writing a reachable table and loading the bytes, copied (\<open>from_bytes\<close>) or
  borrowed from the mapping (\<open>parse\<close>), gives a table of the same kind with the same identifiers and
  payloads in the same order, as long as the data blob fits its 32-bit size field and, in the
  zero-terminated format, no payload contains a NUL. Writing the loaded table gives the same bytes.
\<close>

theorem string_table_roundtrip:
  assumes "table_reachable t" "\<forall>(i, p) \<in> set (table_items t). payload_ok (st_kind t) p"
    and "length (blob_of (st_kind t) (table_items t)) < 2 ^ 32"
  shows "(\<exists>t'. table_from_bytes (table_write_to t) (st_kind t) = Inr t' \<and> st_kind t' = st_kind t \<and>
      table_items t' = table_items t \<and> table_write_to t' = table_write_to t) \<and>
    (\<exists>t'. table_parse (table_write_to t) (st_kind t) = Inr t' \<and> st_kind t' = st_kind t \<and>
      table_items t' = table_items t \<and> table_write_to t' = table_write_to t)"
proof (intro conjI)
  have ok: "om_ok (st_entries t)" using st_inv_reachable [OF assms(1)] by (simp add: st_inv_def)
  note L = load_table_written [OF ok assms(2,3)]
  show "\<exists>t'. table_from_bytes (table_write_to t) (st_kind t) = Inr t' \<and> st_kind t' = st_kind t \<and>
      table_items t' = table_items t \<and> table_write_to t' = table_write_to t"
    using L [of "\<lambda>(a, b). EntryOwned (slice a b (table_write_to t))"]
    by (auto simp: table_from_bytes_def table_write_to_eq)
  show "\<exists>t'. table_parse (table_write_to t) (st_kind t) = Inr t' \<and> st_kind t' = st_kind t \<and>
      table_items t' = table_items t \<and> table_write_to t' = table_write_to t"
    using L [of "\<lambda>(a, b). EntryBorrowed (table_write_to t) a b"]
    by (auto simp: table_parse_def table_write_to_eq)
qed

subsection \<open>A sample table\<close>

definition sample_table :: string_table where
  "sample_table = table_insert 9 [65] (table_insert 4 [66, 67] (table_new KStrings))"

lemma sample_table_facts:
  "table_reachable sample_table" "table_items sample_table = [(4, [66, 67]), (9, [65])]"
  "st_kind sample_table = KStrings" "st_next_id sample_table = 10"
  by (auto simp: sample_table_def intro: tr_insert tr_new)
    (simp_all add: table_insert_def table_new_def table_items_def bump_next_def saturating_add_u32_def)

theorem try_insert_new_fresh_witness:
  "\<exists>t'. try_insert_new [1] sample_table = Inr (10, t') \<and> table_get t' 10 = Some [1]"
proof -
  have n: "table_get sample_table 10 = None" 
    by (simp add: sample_table_def table_insert_def table_new_def table_get_def)
  have "\<exists>n t'. try_insert_new [1] sample_table = Inr (n, t')"
    using n by (simp add: try_insert_new_def sample_table_facts table_get_def max_def word_le_nat_alt)
  then obtain m t' where t': "try_insert_new [1] sample_table = Inr (m, t')" by blast
  from try_insert_new_fresh [OF sample_table_facts(1), of "[1]"] show ?thesis
    by (auto simp: t' n sample_table_facts)
qed

theorem string_table_roundtrip_witness:
  "\<exists>t'. table_from_bytes (table_write_to sample_table) KStrings = Inr t' \<and> st_kind t' = KStrings \<and>
     table_items t' = [(4, [66, 67]), (9, [65])]"
  using string_table_roundtrip [OF sample_table_facts(1)]
  by (auto simp: sample_table_facts payload_ok_def is_length_prefixed_def encode_payload_def)

end
