(* ===== verification/Localized.thy ===== *)
theory Localized
  imports StringTables PluginWriter
begin

text \<open>
  \<open>bethkit-core/src/localized.rs\<close>: which subrecords hold string identifiers, the set of three string
  tables, extraction of the strings a plugin refers to, and batch edits. Paths and files are outside
  the model: \<open>set_open\<close> takes what opening each sibling file gives and \<open>set_write\<close> returns the file
  contents in the order they are written.
\<close>

subsection \<open>Localised subrecords\<close>

definition string_records_entries :: "(signature \<times> signature list) list" where
  "string_records_entries =
     [(sig_lit ''ACTI'', [sig_lit ''FULL'', sig_lit ''RNAM'']),
      (sig_lit ''ALCH'', [sig_lit ''FULL'']),
      (sig_lit ''AMMO'', [sig_lit ''FULL'', sig_lit ''DESC'']),
      (sig_lit ''APPA'', [sig_lit ''FULL'', sig_lit ''DESC'']),
      (sig_lit ''ARMO'', [sig_lit ''FULL'', sig_lit ''DESC'']),
      (sig_lit ''AVIF'', [sig_lit ''FULL'', sig_lit ''DESC'']),
      (sig_lit ''BOOK'', [sig_lit ''FULL'', sig_lit ''DESC'', sig_lit ''CNAM'']),
      (sig_lit ''CELL'', [sig_lit ''FULL'']),
      (sig_lit ''CONT'', [sig_lit ''FULL'']),
      (sig_lit ''DIAL'', [sig_lit ''FULL'']),
      (sig_lit ''DOOR'', [sig_lit ''FULL'']),
      (sig_lit ''ENCH'', [sig_lit ''FULL'']),
      (sig_lit ''EXPL'', [sig_lit ''FULL'']),
      (sig_lit ''FLOR'', [sig_lit ''FULL'', sig_lit ''RNAM'']),
      (sig_lit ''FURN'', [sig_lit ''FULL'']),
      (sig_lit ''HAZD'', [sig_lit ''FULL'']),
      (sig_lit ''INFO'', [sig_lit ''NAM1'', sig_lit ''RNAM'']),
      (sig_lit ''INGR'', [sig_lit ''FULL'']),
      (sig_lit ''KEYM'', [sig_lit ''FULL'']),
      (sig_lit ''LCTN'', [sig_lit ''FULL'']),
      (sig_lit ''LIGH'', [sig_lit ''FULL'']),
      (sig_lit ''LSCR'', [sig_lit ''DESC'']),
      (sig_lit ''MESG'', [sig_lit ''DESC'', sig_lit ''FULL'', sig_lit ''ITXT'']),
      (sig_lit ''MGEF'', [sig_lit ''FULL'', sig_lit ''DNAM'']),
      (sig_lit ''MISC'', [sig_lit ''FULL'']),
      (sig_lit ''NPC_'', [sig_lit ''FULL'', sig_lit ''SHRT'']),
      (sig_lit ''NOTE'', [sig_lit ''FULL'', sig_lit ''TNAM'']),
      (sig_lit ''PERK'', [sig_lit ''FULL'', sig_lit ''DESC'', sig_lit ''EPF2'', sig_lit ''EPFD'']),
      (sig_lit ''PROJ'', [sig_lit ''FULL'']),
      (sig_lit ''QUST'', [sig_lit ''FULL'', sig_lit ''CNAM'', sig_lit ''NNAM'']),
      (sig_lit ''RACE'', [sig_lit ''FULL'', sig_lit ''DESC'']),
      (sig_lit ''REFR'', [sig_lit ''FULL'']),
      (sig_lit ''REGN'', [sig_lit ''RDMP'']),
      (sig_lit ''SCRL'', [sig_lit ''FULL'', sig_lit ''DESC'']),
      (sig_lit ''SHOU'', [sig_lit ''FULL'', sig_lit ''DESC'']),
      (sig_lit ''SLGM'', [sig_lit ''FULL'']),
      (sig_lit ''SPEL'', [sig_lit ''FULL'', sig_lit ''DESC'']),
      (sig_lit ''TACT'', [sig_lit ''FULL'']),
      (sig_lit ''TREE'', [sig_lit ''FULL'']),
      (sig_lit ''WEAP'', [sig_lit ''DESC'', sig_lit ''FULL'']),
      (sig_lit ''WOOP'', [sig_lit ''FULL'', sig_lit ''TNAM'']),
      (sig_lit ''WRLD'', [sig_lit ''FULL''])]"

definition string_records_table :: "signature \<rightharpoonup> signature list" where
  "string_records_table = foldl (\<lambda>m (k, v). m(k \<mapsto> v)) Map.empty string_records_entries"

definition localized_subrecords :: "signature \<Rightarrow> signature list" where
  "localized_subrecords record_sig =
     (case string_records_table record_sig of None \<Rightarrow> [] | Some l \<Rightarrow> l)"

definition resolve_string_kind :: "signature \<Rightarrow> signature \<Rightarrow> string_file_kind" where
  "resolve_string_kind record_sig sub_sig =
     (if sub_sig = sig_lit ''DESC'' then KDLStrings
      else if (record_sig, sub_sig) \<in>
          {(sig_lit ''BOOK'', sig_lit ''CNAM''), (sig_lit ''QUST'', sig_lit ''CNAM''),
           (sig_lit ''MGEF'', sig_lit ''DNAM''), (sig_lit ''MESG'', sig_lit ''ITXT'')}
      then KDLStrings
      else if (record_sig, sub_sig) \<in>
          {(sig_lit ''INFO'', sig_lit ''NAM1''), (sig_lit ''INFO'', sig_lit ''RNAM'')}
      then KILStrings
      else KStrings)"

subsection \<open>Sets of tables\<close>

record localization_set =
  lset_strings :: string_table
  lset_dlstrings :: string_table
  lset_ilstrings :: string_table

definition set_new :: localization_set where
  "set_new =
     \<lparr> lset_strings = table_new KStrings, lset_dlstrings = table_new KDLStrings,
       lset_ilstrings = table_new KILStrings \<rparr>"

fun set_table :: "string_file_kind \<Rightarrow> localization_set \<Rightarrow> string_table" where
  "set_table KStrings s = lset_strings s"
| "set_table KDLStrings s = lset_dlstrings s"
| "set_table KILStrings s = lset_ilstrings s"

text \<open>\<open>table_mut\<close>: the set after the borrowed table is changed by \<open>f\<close>.\<close>

fun set_table_mut :: "string_file_kind \<Rightarrow> (string_table \<Rightarrow> string_table) \<Rightarrow> localization_set \<Rightarrow> localization_set" where
  "set_table_mut KStrings f s = s\<lparr> lset_strings := f (lset_strings s) \<rparr>"
| "set_table_mut KDLStrings f s = s\<lparr> lset_dlstrings := f (lset_dlstrings s) \<rparr>"
| "set_table_mut KILStrings f s = s\<lparr> lset_ilstrings := f (lset_ilstrings s) \<rparr>"

definition set_get :: "string_file_kind \<Rightarrow> u32 \<Rightarrow> localization_set \<Rightarrow> bytes option" where
  "set_get kind i s = table_get (set_table kind s) i"

definition set_set :: "string_file_kind \<Rightarrow> u32 \<Rightarrow> bytes \<Rightarrow> localization_set \<Rightarrow> localization_set" where
  "set_set kind i payload s = set_table_mut kind (table_insert i payload) s"

text \<open>\<open>file = None\<close>: the sibling file does not exist; otherwise the result of mapping it.\<close>

definition open_sibling :: "string_file_kind \<Rightarrow> (core_error + bytes) option \<Rightarrow> core_error + string_table" where
  "open_sibling kind file =
     (case file of
        None \<Rightarrow> Inr (table_new kind)
      | Some m \<Rightarrow> bindr m (\<lambda>bs. table_parse bs kind))"

definition set_open :: "(string_file_kind \<Rightarrow> (core_error + bytes) option) \<Rightarrow> core_error + localization_set" where
  "set_open files =
     bindr (open_sibling KStrings (files KStrings)) (\<lambda>s.
     bindr (open_sibling KDLStrings (files KDLStrings)) (\<lambda>dl.
     bindr (open_sibling KILStrings (files KILStrings)) (\<lambda>il.
       Inr \<lparr> lset_strings = s, lset_dlstrings = dl, lset_ilstrings = il \<rparr>)))"

definition set_write :: "localization_set \<Rightarrow> (string_file_kind \<times> bytes) list" where
  "set_write s =
     [(KStrings, table_write_to (lset_strings s)),
      (KDLStrings, table_write_to (lset_dlstrings s)),
      (KILStrings, table_write_to (lset_ilstrings s))]"

subsection \<open>Extraction\<close>

record localized_string =
  ls_form_id :: form_id
  ls_editor_id :: "rstring option"
  ls_record_type :: signature
  ls_subrecord_type :: signature
  ls_index :: nat
  ls_kind :: string_file_kind
  ls_string_id :: u32
  ls_bytes :: bytes

text \<open>\<open>for_each_record\<close> with a visitor that changes a state.\<close>

fun walk_child :: "('r \<Rightarrow> 's \<Rightarrow> 's) \<Rightarrow> ('r, 'h) child \<Rightarrow> 's \<Rightarrow> 's"
  and walk_group :: "('r \<Rightarrow> 's \<Rightarrow> 's) \<Rightarrow> ('r, 'h) grp \<Rightarrow> 's \<Rightarrow> 's" where
  "walk_child f (Record r) s = f r s"
| "walk_child f (Group g) s = walk_group f g s"
| "walk_group f (Grp h children) s = fold (walk_child f) children s"

definition for_each_record :: "(main_record \<Rightarrow> 's \<Rightarrow> 's) \<Rightarrow> plugin \<Rightarrow> 's \<Rightarrow> 's" where
  "for_each_record f p s = fold (walk_group f) (pl_groups p) s"

text \<open>The loop over the subrecords of one record, with the counters and the output.\<close>

fun extract_subs ::
    "localization_set \<Rightarrow> record_header \<Rightarrow> rstring option \<Rightarrow> signature list \<Rightarrow> sub_record list \<Rightarrow>
     (signature \<rightharpoonup> nat) \<Rightarrow> localized_string list \<Rightarrow> localized_string list" where
  "extract_subs lset h edid wanted [] counter out = out"
| "extract_subs lset h edid wanted (sr # srs) counter out =
     (if sr_signature sr \<notin> set wanted then extract_subs lset h edid wanted srs counter out
      else
        let payload = sr_bytes sr
        in if length payload < 4 then extract_subs lset h edid wanted srs counter out
           else
             let string_id = le_word (take 4 payload);
                 kind = resolve_string_kind (rh_signature h) (sr_signature sr);
                 bytes = (case set_get kind string_id lset of None \<Rightarrow> [] | Some b \<Rightarrow> b);
                 index = (case counter (sr_signature sr) of None \<Rightarrow> 0 | Some i \<Rightarrow> i)
             in extract_subs lset h edid wanted srs (counter(sr_signature sr \<mapsto> index + 1))
                  (out @ [\<lparr> ls_form_id = rh_form_id h, ls_editor_id = edid, ls_record_type = rh_signature h,
                           ls_subrecord_type = sr_signature sr, ls_index = index, ls_kind = kind,
                           ls_string_id = string_id, ls_bytes = bytes \<rparr>]))"

text \<open>The visitor: the first error seen stops the collection.\<close>

definition extract_visit ::
    "(bytes \<Rightarrow> string + bytes) \<Rightarrow> localization_set \<Rightarrow> main_record \<Rightarrow>
     core_error option \<times> localized_string list \<Rightarrow> core_error option \<times> localized_string list" where
  "extract_visit inflate lset r = (\<lambda>(err, out).
     if err \<noteq> None then (err, out)
     else
       let wanted = localized_subrecords (rh_signature (rec_header r))
       in if wanted = [] then (err, out)
          else
            let edid = (case editor_id inflate r of Inr opt \<Rightarrow> opt | Inl _ \<Rightarrow> None)
            in (case subrecs inflate r of
                  Inl e \<Rightarrow> (Some e, out)
                | Inr srs \<Rightarrow> (err, extract_subs lset (rec_header r) edid wanted srs Map.empty out)))"

definition extract_strings ::
    "(bytes \<Rightarrow> string + bytes) \<Rightarrow> plugin \<Rightarrow> localization_set \<Rightarrow> bool \<Rightarrow> core_error + localized_string list" where
  "extract_strings inflate p lset require_localized =
     (if \<not> supports_localization (pl_ctx p) then Inl (UnsupportedGame (ctx_game (pl_ctx p)))
      else if \<not> is_localized p then
        (if require_localized then Inl LocalizedFlagWithoutTables else Inr [])
      else (case for_each_record (extract_visit inflate lset) p (None, []) of
              (Some e, _) \<Rightarrow> Inl e
            | (None, out) \<Rightarrow> Inr out))"

definition apply_edits :: "(string_file_kind \<times> u32 \<times> bytes) list \<Rightarrow> localization_set \<Rightarrow> localization_set" where
  "apply_edits edits lset = foldl (\<lambda>s (kind, i, bs). set_set kind i bs s) lset edits"

subsection \<open>What extraction returns\<close>

lemma walk_fold:
  fixes c :: "('r, 'h) child" and g :: "('r, 'h) grp"
  shows "walk_child f c s = fold f (child_records c) s"
    "walk_group f g s = fold f (grp_records g) s"
proof (induction f c s and f g s rule: walk_child_walk_group.induct)
  case (3 f h children s)
  have "fold (walk_child f) cs s = fold f (concat (map child_records cs)) s"
    if "set cs \<subseteq> set children" for cs s
    using that 3 by (induction cs arbitrary: s) auto
  then show ?case by simp
qed simp_all

lemma for_each_record_fold: "for_each_record f p s = fold f (plugin_records p) s"
proof -
  have "fold (walk_group f) gs s = fold f (concat (map grp_records gs)) s" for gs
    by (induction gs arbitrary: s) (simp_all add: walk_fold)
  then show ?thesis by (simp add: for_each_record_def plugin_records_def)
qed

text \<open>The strings of one record: its wanted subrecords of at least four bytes, numbered per signature.\<close>

definition kept_subs :: "signature \<Rightarrow> sub_record list \<Rightarrow> sub_record list" where
  "kept_subs s srs = filter (\<lambda>sr. sr_signature sr \<in> set (localized_subrecords s) \<and> 4 \<le> length (sr_bytes sr)) srs"

definition string_at ::
    "localization_set \<Rightarrow> record_header \<Rightarrow> rstring option \<Rightarrow> sub_record list \<Rightarrow> nat \<Rightarrow> localized_string" where
  "string_at lset h edid kept i =
     (let sr = kept ! i;
          kind = resolve_string_kind (rh_signature h) (sr_signature sr);
          string_id = le_word (take 4 (sr_bytes sr))
      in \<lparr> ls_form_id = rh_form_id h, ls_editor_id = edid, ls_record_type = rh_signature h,
           ls_subrecord_type = sr_signature sr,
           ls_index = length (filter (\<lambda>q. sr_signature q = sr_signature sr) (take i kept)),
           ls_kind = kind, ls_string_id = string_id,
           ls_bytes = (case set_get kind string_id lset of None \<Rightarrow> [] | Some b \<Rightarrow> b) \<rparr>)"

definition record_strings ::
    "(bytes \<Rightarrow> string + bytes) \<Rightarrow> localization_set \<Rightarrow> main_record \<Rightarrow> core_error + localized_string list" where
  "record_strings inflate lset r =
     (if localized_subrecords (rh_signature (rec_header r)) = [] then Inr []
      else bindr (subrecs inflate r) (\<lambda>srs.
        let kept = kept_subs (rh_signature (rec_header r)) srs;
            edid = (case editor_id inflate r of Inr opt \<Rightarrow> opt | Inl _ \<Rightarrow> None)
        in Inr (map (string_at lset (rec_header r) edid kept) [0..<length kept])))"

lemma string_at_prefix: "i < length kept \<Longrightarrow> string_at lset h edid (kept @ rest) i = string_at lset h edid kept i"
  by (simp add: string_at_def Let_def nth_append)

lemma extract_subs_spec:
  assumes "\<forall>s. (case counter s of None \<Rightarrow> 0 | Some n \<Rightarrow> n) = length (filter (\<lambda>q. sr_signature q = s) seen)"
    and "out = pre @ map (string_at lset h edid seen) [0..<length seen]"
  shows "extract_subs lset h edid (localized_subrecords (rh_signature h)) srs counter out =
    (let kept = seen @ kept_subs (rh_signature h) srs
     in pre @ map (string_at lset h edid kept) [0..<length kept])"
  using assms
proof (induction srs arbitrary: counter out seen)
  case Nil
  then show ?case by (simp add: kept_subs_def)
next
  case (Cons sr srs)
  show ?case
  proof (cases "sr_signature sr \<in> set (localized_subrecords (rh_signature h)) \<and> 4 \<le> length (sr_bytes sr)")
    case False
    then show ?thesis using Cons.IH [OF Cons.prems] by (auto simp: kept_subs_def Let_def)
  next
    case True
    let ?seen = "seen @ [sr]"
    have "map (string_at lset h edid ?seen) [0..<length ?seen] =
        map (string_at lset h edid seen) [0..<length seen] @ [string_at lset h edid ?seen (length seen)]"
      by (simp add: string_at_prefix)
    moreover have "kept_subs (rh_signature h) (sr # srs) = sr # kept_subs (rh_signature h) srs"
      using True by (simp add: kept_subs_def)
    moreover have "extract_subs lset h edid (localized_subrecords (rh_signature h)) (sr # srs) counter out =
        extract_subs lset h edid (localized_subrecords (rh_signature h)) srs
          (counter(sr_signature sr \<mapsto> length (filter (\<lambda>q. sr_signature q = sr_signature sr) seen) + 1))
          (out @ [string_at lset h edid ?seen (length seen)])"
      using True Cons.prems(1) by (simp add: Let_def string_at_def nth_append not_less)
    ultimately show ?thesis using Cons.prems
      by (simp only:) (subst Cons.IH [of _ ?seen], simp_all)
  qed
qed

fun collect_results :: "('a \<Rightarrow> 'e + 'b list) \<Rightarrow> 'a list \<Rightarrow> 'e + 'b list" where
  "collect_results f [] = Inr []"
| "collect_results f (x # xs) =
     bindr (f x) (\<lambda>a. bindr (collect_results f xs) (\<lambda>b. Inr (a @ b)))"

lemma extract_visit_None:
  "extract_visit inflate lset r (None, out) =
     (case record_strings inflate lset r of
        Inl e \<Rightarrow> (Some e, out)
      | Inr strs \<Rightarrow> (None, out @ strs))"
  using extract_subs_spec [of Map.empty "[]" out out lset "rec_header r"]
  by (auto simp: extract_visit_def record_strings_def Let_def split: sum.splits)

lemma fold_extract_visit_Some: "fold (extract_visit inflate lset) rs (Some e, out) = (Some e, out)"
  by (induction rs) (simp_all add: extract_visit_def)

lemma fold_extract_visit:
  "(case collect_results (record_strings inflate lset) rs of
      Inl e \<Rightarrow> \<exists>o'. fold (extract_visit inflate lset) rs (None, out) = (Some e, o')
    | Inr strs \<Rightarrow> fold (extract_visit inflate lset) rs (None, out) = (None, out @ strs))"
proof (induction rs arbitrary: out)
  case (Cons r rs)
  show ?case
  proof (cases "record_strings inflate lset r")
    case (Inl e)
    then show ?thesis by (simp add: extract_visit_None fold_extract_visit_Some)
  next
    case (Inr strs)
    then show ?thesis using Cons.IH [of "out @ strs"]
      by (cases "collect_results (record_strings inflate lset) rs") (simp_all add: extract_visit_None)
  qed
qed simp

lemma extract_strings_eq:
  "extract_strings inflate p lset req =
     (if \<not> supports_localization (pl_ctx p) then Inl (UnsupportedGame (ctx_game (pl_ctx p)))
      else if \<not> is_localized p then (if req then Inl LocalizedFlagWithoutTables else Inr [])
      else collect_results (record_strings inflate lset) (plugin_records p))"
  using fold_extract_visit [of inflate lset "plugin_records p" "[]"]
  by (auto simp: extract_strings_def for_each_record_fold split: sum.splits)

text \<open>
  \<open>extract_strings\<close> rejects games without string tables and, on request, plugins
  without the LOCALIZED flag; otherwise it returns, in document order, the strings of every record of a
  type with localised subrecords (its wanted subrecords of at least four bytes, each numbered among
  those of the same signature, looked up in the table its kind selects, empty when absent), or the
  error of the first such record whose subrecords do not parse.
\<close>

theorem extract_strings_spec:
  "extract_strings inflate p lset req =
     (if \<not> supports_localization (pl_ctx p) then Inl (UnsupportedGame (ctx_game (pl_ctx p)))
      else if \<not> is_localized p then (if req then Inl LocalizedFlagWithoutTables else Inr [])
      else collect_results (record_strings inflate lset) (plugin_records p))"
  by (rule extract_strings_eq)

subsection \<open>Edits\<close>

definition refresh :: "localization_set \<Rightarrow> localized_string \<Rightarrow> localized_string" where
  "refresh lset ls =
     ls\<lparr> ls_bytes := (case set_get (ls_kind ls) (ls_string_id ls) lset of None \<Rightarrow> [] | Some b \<Rightarrow> b) \<rparr>"

lemma record_strings_refresh:
  "record_strings inflate lset' r = map_sum id (map (refresh lset')) (record_strings inflate lset r)"
  by (cases "subrecs inflate r") (simp_all add: record_strings_def Let_def string_at_def refresh_def comp_def)

lemma collect_results_map:
  assumes "\<And>x. g x = map_sum id (map h) (f x)"
  shows "collect_results g xs = map_sum id (map h) (collect_results f xs)"
proof (induction xs)
  case (Cons x xs)
  then show ?case by (cases "f x"; cases "collect_results f xs") (simp_all add: assms)
qed simp

lemma set_table_mut_same: "set_table k (set_table_mut k' f s) = (if k = k' then f (set_table k s) else set_table k s)"
  by (cases k; cases k') simp_all

lemma set_get_set:
  assumes "om_ok (st_entries (set_table k s))"
  shows "set_get k' i' (set_set k i b s) = (if (k', i') = (k, i) then Some b else set_get k' i' s)"
  using assms by (auto simp: set_get_def set_set_def set_table_mut_same table_get_def table_insert_def om_insert_lookup)

lemma set_get_edits:
  assumes "\<forall>k. om_ok (st_entries (set_table k s))"
  shows "(\<forall>k. om_ok (st_entries (set_table k (apply_edits edits s)))) \<and>
    set_get k i (apply_edits edits s) =
      (case map_of (rev (map (\<lambda>(k, i, b). ((k, i), b)) edits)) (k, i) of Some b \<Rightarrow> Some b | None \<Rightarrow> set_get k i s)"
proof (induction edits rule: rev_induct)
  case Nil
  then show ?case using assms by (simp add: apply_edits_def)
next
  case (snoc x xs)
  obtain k' i' b where x: "x = (k', i', b)" by (cases x)
  have step: "apply_edits (xs @ [x]) s = set_set k' i' b (apply_edits xs s)" by (simp add: apply_edits_def x)
  have "\<forall>k. om_ok (st_entries (set_table k (set_set k' i' b (apply_edits xs s))))"
    using snoc by (simp add: set_set_def set_table_mut_same table_insert_def om_insert_ok)
  then show ?case using snoc by (simp add: step set_get_set) (simp add: x)
qed

text \<open>
  C14: Translating by editing the tables. After a batch of edits, extracting the
  plugin's strings again gives the same list, except that a string whose kind and identifier were edited
  carries the payload of the last edit of that pair; no record, order or index changes.
\<close>

theorem edits_reach_strings:
  assumes "\<forall>k. table_reachable (set_table k lset)" "extract_strings inflate p lset req = Inr strs"
  shows "extract_strings inflate p (apply_edits edits lset) req =
    Inr (map (\<lambda>s. s\<lparr> ls_bytes :=
        (case map_of (rev (map (\<lambda>(k, i, b). ((k, i), b)) edits)) (ls_kind s, ls_string_id s) of
           Some b \<Rightarrow> b | None \<Rightarrow> ls_bytes s) \<rparr>) strs)"
proof -
  have R: "extract_strings inflate p lset' req = Inr (map (refresh lset') strs)" for lset'
    using collect_results_map [of "record_strings inflate lset'" "refresh lset'", OF record_strings_refresh [of _ lset' _ lset], of "plugin_records p"] assms(2)
    by (auto simp: extract_strings_eq split: if_splits)
  have same: "refresh lset s = s" if "s \<in> set strs" for s
    using R [of lset] assms(2) that by (simp add: map_idI) (metis map_eq_conv map_ident)
  have ok: "\<forall>k. om_ok (st_entries (set_table k lset))"
    using assms(1) st_inv_reachable by (auto simp: st_inv_def)
  have "refresh (apply_edits edits lset) s = s\<lparr> ls_bytes :=
        (case map_of (rev (map (\<lambda>(k, i, b). ((k, i), b)) edits)) (ls_kind s, ls_string_id s) of
           Some b \<Rightarrow> b | None \<Rightarrow> ls_bytes s) \<rparr>" if "s \<in> set strs" for s
    using same [OF that] set_get_edits [OF ok, of edits "ls_kind s" "ls_string_id s"]
    by (auto simp: refresh_def split: option.splits)
  then show ?thesis by (simp add: R)
qed

subsection \<open>Writing and opening a set\<close>

text \<open>
  C12: Writing a set of reachable tables and opening the three files it wrote gives
  back the identifiers and payloads of each table, as long as every table is in the slot of its kind,
  every blob fits its size field and no zero-terminated payload contains a NUL.
\<close>

theorem localization_roundtrip:
  assumes "\<forall>k. table_reachable (set_table k s) \<and> st_kind (set_table k s) = k"
    and "\<forall>k. \<forall>(i, p) \<in> set (table_items (set_table k s)). payload_ok k p"
    and "\<forall>k. length (blob_of k (table_items (set_table k s))) < 2 ^ 32"
  shows "\<exists>s'. set_open (\<lambda>k. map_option Inr (map_of (set_write s) k)) = Inr s' \<and>
    (\<forall>k. table_items (set_table k s') = table_items (set_table k s) \<and>
      (\<forall>i. set_get k i s' = set_get k i s))"
proof -
  have "\<exists>t'. table_parse (table_write_to (set_table k s)) k = Inr t' \<and> table_items t' = table_items (set_table k s)" for k
  proof -
    have "om_ok (st_entries (set_table k s))" using assms(1) st_inv_reachable by (auto simp: st_inv_def)
    then show ?thesis
      using load_table_written [of "set_table k s" "\<lambda>(a, b). EntryBorrowed (table_write_to (set_table k s)) a b"] assms
      by (auto simp: table_parse_def)
  qed
  then obtain t where t: "\<And>k. table_parse (table_write_to (set_table k s)) k = Inr (t k)"
    "\<And>k. table_items (t k) = table_items (set_table k s)" by metis
  have get: "table_get u i = map_of (table_items u) i" for u i
    by (simp add: table_get_def table_items_def map_of_map)
  let ?s = "\<lparr> lset_strings = t KStrings, lset_dlstrings = t KDLStrings, lset_ilstrings = t KILStrings \<rparr>"
  have all: "set_table k ?s = t k" for k by (cases k) simp_all
  have "set_open (\<lambda>k. map_option Inr (map_of (set_write s) k)) = Inr ?s"
    using t(1) [of KStrings] t(1) [of KDLStrings] t(1) [of KILStrings]
    by (simp add: set_open_def open_sibling_def set_write_def)
  then show ?thesis using t(2) by (auto simp: all set_get_def get)
qed

subsection \<open>A sample\<close>

definition sample_set :: localization_set where
  "sample_set = set_set KStrings 7 [65] set_new"

lemma sample_set_tables:
  "set_table k sample_set = (if k = KStrings then table_insert 7 [65] (table_new k) else table_new k)"
  by (cases k) (simp_all add: sample_set_def set_set_def set_new_def)

lemma sample_set_reachable: "\<forall>k. table_reachable (set_table k sample_set) \<and> st_kind (set_table k sample_set) = k"
  by (auto simp: sample_set_tables intro: tr_new tr_insert) (simp_all add: table_insert_def table_new_def)

lemma sample_set_items: "table_items (set_table k sample_set) = (if k = KStrings then [(7, [65])] else [])"
  by (simp add: sample_set_tables table_items_def table_insert_def table_new_def)

theorem localization_roundtrip_witness:
  "\<exists>s'. set_open (\<lambda>k. map_option Inr (map_of (set_write sample_set) k)) = Inr s' \<and> set_get KStrings 7 s' = Some [65]"
proof -
  have "set_get KStrings 7 sample_set = Some [65]"
    by (simp add: set_get_def sample_set_tables table_get_def table_insert_def table_new_def)
  then show ?thesis using localization_roundtrip [OF sample_set_reachable]
    by (fastforce simp: sample_set_items payload_ok_def encode_payload_def is_length_prefixed_def)
qed

definition sample_localized :: plugin where
  "sample_localized =
     (let r = record_from_writable
            \<lparr> wr_signature = sig_lit ''NPC_'', wr_flags = FLAG_LOCALIZED, wr_form_id = FormId 0x800, wr_form_version = 44,
              wr_subrecords = [\<lparr> ws_signature = sig_lit ''FULL'', ws_data = [7, 0, 0, 0] \<rparr>] \<rparr>
      in \<lparr> pl_source = [], pl_ctx = ctx_sse,
           pl_header = \<lparr> ph_record = r, ph_hedr_version = 0, ph_record_count = 1, ph_next_object_id = FormId 0x801,
                         ph_masters = [], ph_description = None \<rparr>,
           pl_header_range = (0, 0),
           pl_groups = [Grp \<lparr> gi_header = \<lparr> gh_group_size = 0, gh_label = LSignature (sig_lit ''NPC_''),
                                            gh_group_type = Normal, gh_version_control = 0, gh_unknown = 0 \<rparr>,
                              gi_source_range = None \<rparr> [Record r]] \<rparr>)"

lemma npc_localized: "localized_subrecords (sig_lit ''NPC_'') = [sig_lit ''FULL'', sig_lit ''SHRT'']"
  by code_simp

lemma full_kind: "resolve_string_kind (sig_lit ''NPC_'') (sig_lit ''FULL'') = KStrings"
  by code_simp

lemma sample_extract:
  "\<exists>ls. extract_strings Inr sample_localized sample_set True = Inr [ls] \<and> ls_kind ls = KStrings \<and> ls_string_id ls = 7"
  by (simp add: extract_strings_eq sample_localized_def supports_localization_def ctx_sse_def is_localized_def
      flags_contain_def FLAG_LOCALIZED_def plugin_records_def record_strings_def npc_localized subrecords_def
      record_from_writable_def kept_subs_def sr_bytes_def string_at_def full_kind Let_def)

theorem edits_reach_strings_witness:
  "\<exists>ls. extract_strings Inr sample_localized (apply_edits [(KStrings, 7, [1]), (KStrings, 7, [2])] sample_set) True = Inr [ls] \<and>
     ls_bytes ls = [2]"
proof -
  obtain ls where ls: "extract_strings Inr sample_localized sample_set True = Inr [ls]" "ls_kind ls = KStrings"
    "ls_string_id ls = 7"
    using sample_extract by blast
  have "\<forall>k. table_reachable (set_table k sample_set)" using sample_set_reachable by blast
  from edits_reach_strings [OF this ls(1), of "[(KStrings, 7, [1]), (KStrings, 7, [2])]"] ls(2,3)
  show ?thesis by simp
qed

end
