(* ===== verification/CodePages.thy ===== *)
theory CodePages
  imports Prelude
begin

text \<open>
  \<open>bethkit-core/src/encoding.rs\<close>: the legacy code pages of the string tables and the page of a language
  tag. Labels and tags are their ASCII bytes.
\<close>

datatype code_page = Windows1252 | Windows1251 | Windows1250 | ShiftJis | Gbk | Big5

fun windows_id :: "code_page \<Rightarrow> u32" where
  "windows_id Windows1252 = 1252"
| "windows_id Windows1251 = 1251"
| "windows_id Windows1250 = 1250"
| "windows_id ShiftJis = 932"
| "windows_id Gbk = 936"
| "windows_id Big5 = 950"

fun whatwg_label :: "code_page \<Rightarrow> bytes" where
  "whatwg_label Windows1252 = ascii ''windows-1252''"
| "whatwg_label Windows1251 = ascii ''windows-1251''"
| "whatwg_label Windows1250 = ascii ''windows-1250''"
| "whatwg_label ShiftJis = ascii ''shift_jis''"
| "whatwg_label Gbk = ascii ''gbk''"
| "whatwg_label Big5 = ascii ''big5''"

definition code_page_for_language :: "bytes \<Rightarrow> code_page" where
  "code_page_for_language language =
     (let l = map to_ascii_lowercase language
      in if l = ascii ''russian'' then Windows1251
         else if l = ascii ''polish'' \<or> l = ascii ''czech'' \<or> l = ascii ''hungarian'' then Windows1250
         else if l = ascii ''japanese'' then ShiftJis
         else if l = ascii ''chinese'' then Gbk
         else if l = ascii ''traditionalchinese'' \<or> l = ascii ''traditional_chinese'' then Big5
         else Windows1252)"

text \<open>The page depends on the tag only up to ASCII case, and distinct pages have distinct names.\<close>

lemma code_page_case_insensitive:
  "map to_ascii_lowercase a = map to_ascii_lowercase b \<Longrightarrow> code_page_for_language a = code_page_for_language b"
  by (simp add: code_page_for_language_def)

lemma windows_id_inject: "windows_id a = windows_id b \<longleftrightarrow> a = b"
  by (cases a; cases b) simp_all

end
