(* ===== verification/Implicits.thy ===== *)
theory Implicits
  imports LoadOrder
begin

text \<open>
  \<open>bethkit-core/src/implicits.rs\<close>: the FormIDs the Skyrim engine provides itself. The hash set is a
  HOL set.
\<close>

record implicit_records =
  ir_inner :: "global_form_id set"

definition implicit_object_ids :: "u32 list" where
  "implicit_object_ids =
     [0x3F5, 0x5E0, 0x5E1, 0x5E6, 0x5EA, 0x5EE, 0x5EF, 0x5FC, 0x60B, 0x62F, 0x63C, 0x644,
      0x647, 0x648, 0x649, 0x1C, 0x1A, 0x63, 0x164, 0x166, 0x276, 0x14, 0x28]"

definition implicits_sse :: implicit_records where
  "implicits_sse =
     \<lparr> ir_inner = set (map (\<lambda>i. \<lparr> gf_plugin_name = ascii ''skyrim.esm'', gf_object_id = i \<rparr>) implicit_object_ids) \<rparr>"

definition implicits_contains :: "implicit_records \<Rightarrow> global_form_id \<Rightarrow> bool" where
  "implicits_contains ir gfid \<longleftrightarrow> gfid \<in> ir_inner ir"

definition implicits_len :: "implicit_records \<Rightarrow> nat" where
  "implicits_len ir = card (ir_inner ir)"

definition implicits_is_empty :: "implicit_records \<Rightarrow> bool" where
  "implicits_is_empty ir \<longleftrightarrow> ir_inner ir = {}"

definition implicits_sse_player :: global_form_id where
  "implicits_sse_player = \<lparr> gf_plugin_name = ascii ''skyrim.esm'', gf_object_id = 0x14 \<rparr>"

lemma distinct_implicit_object_ids: "distinct implicit_object_ids"
  by (simp add: implicit_object_ids_def)

lemma implicits_sse_len: "implicits_len implicits_sse = 23"
proof -
  have "implicits_len implicits_sse = card ((\<lambda>i. \<lparr> gf_plugin_name = ascii ''skyrim.esm'', gf_object_id = i \<rparr>) ` set implicit_object_ids)"
    by (simp add: implicits_len_def implicits_sse_def)
  also have "\<dots> = card (set implicit_object_ids)"
    by (intro card_image inj_onI) simp
  also have "\<dots> = 23"
    using distinct_card [OF distinct_implicit_object_ids] by (simp add: implicit_object_ids_def)
  finally show ?thesis .
qed

text \<open>
  The Skyrim set has the 23 documented members, the player reference among them; a global FormID is
  implicit exactly when it belongs to \<open>skyrim.esm\<close> and its object id is listed. All listed ids lie below
  0x800, the first id a writer hands out.
\<close>

lemma implicits_contains_iff:
  "implicits_contains implicits_sse gfid \<longleftrightarrow>
      gf_plugin_name gfid = ascii ''skyrim.esm'' \<and> gf_object_id gfid \<in> set implicit_object_ids"
  by (cases gfid) (auto simp: implicits_contains_def implicits_sse_def)

lemma implicits_player: "implicits_contains implicits_sse implicits_sse_player"
  unfolding implicits_contains_iff by (simp add: implicits_sse_player_def implicit_object_ids_def)

lemma implicit_ids_reserved: "list_all (\<lambda>i. i < 0x800) implicit_object_ids"
  by (simp add: implicit_object_ids_def)

end
