(* ===== verification/Patcher.thy ===== *)
theory Patcher
  imports PluginWriter "HOL-Library.AList"
begin

text \<open>
  \<open>bethkit-core/src/patcher.rs\<close> and \<open>patcher_header.rs\<close>: sparse edits of a parsed plugin. The two hash
  maps are association lists with distinct keys, the set of touched groups is a HOL set of source
  ranges, and writing to a \<open>Write\<close> is the list of bytes written: errors of the underlying writer are
  outside the model. \<open>write_group_header\<close> is in \<open>GroupBlocks\<close>.
\<close>

subsection \<open>Edits\<close>

record plugin_header_patch =
  hp_masters :: "rstring list option"
  hp_description :: "rstring option"
  hp_flags_set :: "record_flags option"
  hp_flags_clear :: "record_flags option"

datatype record_patch = RawBytes (patch_bytes: bytes)

definition patch_from_writable :: "writable_record \<Rightarrow> record_patch" where
  "patch_from_writable r = RawBytes (write_record r)"

definition patch_from_verbatim :: "main_record \<Rightarrow> bytes \<Rightarrow> record_patch option" where
  "patch_from_verbatim r source = map_option RawBytes (record_source_bytes source r)"

definition patch_byte_len :: "record_patch \<Rightarrow> nat" where
  "patch_byte_len p = length (patch_bytes p)"

record plugin_patcher =
  pt_plugin :: plugin
  pt_patches :: "(form_id \<times> record_patch) list"
  pt_group_orders :: "((nat \<times> nat) \<times> form_id list) list"
  pt_header_patch :: "plugin_header_patch option"

definition patcher_new :: "plugin \<Rightarrow> plugin_patcher" where
  "patcher_new p = \<lparr> pt_plugin = p, pt_patches = [], pt_group_orders = [], pt_header_patch = None \<rparr>"

definition replace_record :: "form_id \<Rightarrow> record_patch \<Rightarrow> plugin_patcher \<Rightarrow> plugin_patcher" where
  "replace_record f patch pt = pt\<lparr> pt_patches := AList.update f patch (pt_patches pt) \<rparr>"

definition patch_header :: "plugin_header_patch \<Rightarrow> plugin_patcher \<Rightarrow> plugin_patcher" where
  "patch_header patch pt = pt\<lparr> pt_header_patch := Some patch \<rparr>"

definition patch_count :: "plugin_patcher \<Rightarrow> nat" where
  "patch_count pt = length (pt_patches pt)"

definition group_reorder_count :: "plugin_patcher \<Rightarrow> nat" where
  "group_reorder_count pt = length (pt_group_orders pt)"

subsection \<open>Registering an order\<close>

abbreviation group_range :: "group \<Rightarrow> (nat \<times> nat) option" where
  "group_range g \<equiv> gi_source_range (grp_head g)"

abbreviation record_fid :: "main_record \<Rightarrow> form_id" where
  "record_fid r \<equiv> rh_form_id (rec_header r)"

text \<open>The two loops of \<open>reorder_group_records\<close>; the sets are the lists of what was inserted.\<close>

fun expected_ids :: "group_child list \<Rightarrow> form_id list \<Rightarrow> core_error + form_id list" where
  "expected_ids [] expected = Inr expected"
| "expected_ids (Group g # cs) expected =
     Inl (InvalidGroupRecordOrder (Msg ''group contains nested groups''))"
| "expected_ids (Record r # cs) expected =
     (if record_fid r \<in> set expected then Inl (InvalidGroupRecordOrder (DuplicateInGroup (record_fid r)))
      else expected_ids cs (record_fid r # expected))"

fun supplied_ids :: "form_id list \<Rightarrow> form_id list \<Rightarrow> form_id list \<Rightarrow> core_error + form_id list" where
  "supplied_ids expected [] supplied = Inr supplied"
| "supplied_ids expected (f # fs) supplied =
     (if f \<in> set supplied then Inl (InvalidGroupRecordOrder (DuplicateInOrder f))
      else if f \<notin> set expected then Inl (InvalidGroupRecordOrder (UnknownInOrder f))
      else supplied_ids expected fs (f # supplied))"

definition reorder_group_records ::
    "group \<Rightarrow> form_id list \<Rightarrow> plugin_patcher \<Rightarrow> core_error + plugin_patcher" where
  "reorder_group_records g form_ids pt =
     bindr (ok_or (UnexpectedEof ''group source range'') (group_range g)) (\<lambda>rng.
     bindr (expected_ids (grp_children g) []) (\<lambda>expected.
     bindr (supplied_ids expected form_ids []) (\<lambda>supplied.
       if length supplied \<noteq> length expected
       then Inl (InvalidGroupRecordOrder (OrderIncomplete (length supplied) (length expected)))
       else Inr (pt\<lparr> pt_group_orders := AList.update rng form_ids (pt_group_orders pt) \<rparr>))))"

subsection \<open>Touched groups\<close>

text \<open>\<open>touched.insert(range)\<close> when the group has a range.\<close>

definition touch :: "group_info \<Rightarrow> (nat \<times> nat) set \<Rightarrow> (nat \<times> nat) set" where
  "touch h t = (case gi_source_range h of None \<Rightarrow> t | Some rng \<Rightarrow> insert rng t)"

fun mark_touched_children ::
    "(form_id \<times> record_patch) list \<Rightarrow> group_child list \<Rightarrow> bool \<Rightarrow> (nat \<times> nat) set \<Rightarrow> bool \<times> (nat \<times> nat) set"
  and mark_touched ::
    "(form_id \<times> record_patch) list \<Rightarrow> group \<Rightarrow> (nat \<times> nat) set \<Rightarrow> bool \<times> (nat \<times> nat) set" where
  "mark_touched_children patches [] any t = (any, t)"
| "mark_touched_children patches (Record r # cs) any t =
     mark_touched_children patches cs (any \<or> map_of patches (record_fid r) \<noteq> None) t"
| "mark_touched_children patches (Group g # cs) any t =
     (case mark_touched patches g t of (b, t1) \<Rightarrow> mark_touched_children patches cs (any \<or> b) t1)"
| "mark_touched patches (Grp h children) t =
     (case mark_touched_children patches children False t of
        (any, t1) \<Rightarrow> (any, if any then touch h t1 else t1))"

text \<open>\<open>iter().any(\<dots>)\<close> stops at the first child that answers true.\<close>

fun mark_reordered_any ::
    "((nat \<times> nat) \<times> form_id list) list \<Rightarrow> group_child list \<Rightarrow> (nat \<times> nat) set \<Rightarrow> bool \<times> (nat \<times> nat) set"
  and mark_reordered ::
    "((nat \<times> nat) \<times> form_id list) list \<Rightarrow> group \<Rightarrow> (nat \<times> nat) set \<Rightarrow> bool \<times> (nat \<times> nat) set" where
  "mark_reordered_any orders [] t = (False, t)"
| "mark_reordered_any orders (Record r # cs) t = mark_reordered_any orders cs t"
| "mark_reordered_any orders (Group g # cs) t =
     (case mark_reordered orders g t of
        (True, t1) \<Rightarrow> (True, t1)
      | (False, t1) \<Rightarrow> mark_reordered_any orders cs t1)"
| "mark_reordered orders (Grp h children) t =
     (let own_reordered = (case gi_source_range h of None \<Rightarrow> False | Some r \<Rightarrow> map_of orders r \<noteq> None)
      in case mark_reordered_any orders children t of
           (descendant_reordered, t1) \<Rightarrow>
             (own_reordered \<or> descendant_reordered,
              if own_reordered \<or> descendant_reordered then touch h t1 else t1))"

subsection \<open>Writing groups\<close>

definition write_patched_record :: "plugin_patcher \<Rightarrow> bytes \<Rightarrow> main_record \<Rightarrow> core_error + bytes" where
  "write_patched_record pt source r =
     (case map_of (pt_patches pt) (record_fid r) of
        Some patch \<Rightarrow> Inr (patch_bytes patch)
      | None \<Rightarrow> ok_or (UnexpectedEof ''record source range'') (record_source_bytes source r))"

definition group_source_bytes :: "bytes \<Rightarrow> group \<Rightarrow> bytes option" where
  "group_source_bytes source g = (case group_range g of None \<Rightarrow> None | Some rng \<Rightarrow> get_range rng source)"

fun write_ordered ::
    "plugin_patcher \<Rightarrow> bytes \<Rightarrow> main_record list \<Rightarrow> form_id list \<Rightarrow> core_error + bytes" where
  "write_ordered pt source rs [] = Inr []"
| "write_ordered pt source rs (f # fs) =
     bindr (ok_or (InvalidGroupRecordOrder (NoLongerInGroup f)) (find (\<lambda>r. record_fid r = f) rs)) (\<lambda>r.
     bindr (write_patched_record pt source r) (\<lambda>b.
     bindr (write_ordered pt source rs fs) (\<lambda>rest. Inr (b @ rest))))"

definition needs_walk :: "(nat \<times> nat) set \<Rightarrow> group_info \<Rightarrow> bool" where
  "needs_walk touched h = (case gi_source_range h of None \<Rightarrow> True | Some r \<Rightarrow> r \<in> touched)"

definition group_order :: "plugin_patcher \<Rightarrow> group_info \<Rightarrow> form_id list option" where
  "group_order pt h = (case gi_source_range h of None \<Rightarrow> None | Some r \<Rightarrow> map_of (pt_group_orders pt) r)"

fun write_patched_children ::
    "plugin_patcher \<Rightarrow> bytes \<Rightarrow> (nat \<times> nat) set \<Rightarrow> group_child list \<Rightarrow> core_error + bytes"
  and write_patched_group ::
    "plugin_patcher \<Rightarrow> bytes \<Rightarrow> (nat \<times> nat) set \<Rightarrow> group \<Rightarrow> core_error + bytes" where
  "write_patched_children pt source touched [] = Inr []"
| "write_patched_children pt source touched (Record r # cs) =
     bindr (write_patched_record pt source r) (\<lambda>b.
     bindr (write_patched_children pt source touched cs) (\<lambda>rest. Inr (b @ rest)))"
| "write_patched_children pt source touched (Group g # cs) =
     bindr (write_patched_group pt source touched g) (\<lambda>b.
     bindr (write_patched_children pt source touched cs) (\<lambda>rest. Inr (b @ rest)))"
| "write_patched_group pt source touched (Grp h children) =
     (if \<not> needs_walk touched h
      then ok_or (UnexpectedEof ''group source range'') (group_source_bytes source (Grp h children))
      else
        bindr (case group_order pt h of
                 Some order \<Rightarrow> write_ordered pt source (direct_records (Grp h children)) order
               | None \<Rightarrow> write_patched_children pt source touched children) (\<lambda>children_buf.
          Inr (write_group_header (gi_header h) (of_nat (GROUP_HEADER_SIZE + length children_buf)) @ children_buf)))"

fun write_patched_groups ::
    "plugin_patcher \<Rightarrow> bytes \<Rightarrow> (nat \<times> nat) set \<Rightarrow> group list \<Rightarrow> core_error + bytes" where
  "write_patched_groups pt source touched [] = Inr []"
| "write_patched_groups pt source touched (g # gs) =
     bindr (write_patched_group pt source touched g) (\<lambda>b.
     bindr (write_patched_groups pt source touched gs) (\<lambda>rest. Inr (b @ rest)))"

subsection \<open>The header\<close>

definition append_string :: "signature \<Rightarrow> rstring \<Rightarrow> bytes" where
  "append_string s v = write_sub_record \<lparr> ws_signature = s, ws_data = v @ [0] \<rparr>"

definition append_masters :: "rstring list \<Rightarrow> bytes" where
  "append_masters masters =
     concat (map (\<lambda>m. append_string SIG_MAST m @
       write_sub_record \<lparr> ws_signature = SIG_DATA, ws_data = replicate 8 0 \<rparr>) masters)"

text \<open>The count of groups and records and the next object id, with the explicit stack of groups.\<close>

definition count_overflow :: core_error where
  "count_overflow = InvalidEncoding (Msg ''plugin record count exceeds u32'')"

definition checked_inc :: "u32 \<Rightarrow> core_error + u32" where
  "checked_inc n = (if n = - 1 then Inl count_overflow else Inr (n + 1))"

fun count_records_step :: "nat \<Rightarrow> main_record list \<Rightarrow> u32 \<times> u32 \<Rightarrow> core_error + u32 \<times> u32" where
  "count_records_step own_index [] (count, next_id) = Inr (count, next_id)"
| "count_records_step own_index (r # rs) (count, next_id) =
     bindr (checked_inc count) (\<lambda>count.
       count_records_step own_index rs
         (count, if unat (file_index (record_fid r)) = own_index
                 then max next_id (object_id (record_fid r) + 1) else next_id))"

fun child_nodes :: "('r, 'h) child \<Rightarrow> nat"
  and group_nodes :: "('r, 'h) grp \<Rightarrow> nat" where
  "child_nodes (Record r) = 1"
| "child_nodes (Group g) = group_nodes g"
| "group_nodes (Grp h cs) = 1 + sum_list (map child_nodes cs)"

lemma group_nodes_direct:
  "group_nodes g = 1 + length (direct_records g) + sum_list (map group_nodes (direct_groups g))"
proof -
  have "sum_list (map child_nodes cs) =
      length (List.map_filter (\<lambda>c. case c of Record r \<Rightarrow> Some r | Group _ \<Rightarrow> None) cs) +
      sum_list (map group_nodes (List.map_filter (\<lambda>c. case c of Record _ \<Rightarrow> None | Group s \<Rightarrow> Some s) cs))"
    for cs :: "('a, 'b) child list"
    by (induction cs) (auto simp: map_filter_simps split: child.splits)
  then show ?thesis by (cases g) (simp add: direct_records_def direct_groups_def)
qed

function count_loop :: "nat \<Rightarrow> group list \<Rightarrow> u32 \<times> u32 \<Rightarrow> core_error + u32 \<times> u32" where
  "count_loop own_index [] st = Inr st"
| "count_loop own_index (g # stack) (count, next_id) =
     bindr (checked_inc count) (\<lambda>count.
     bindr (count_records_step own_index (direct_records g) (count, next_id)) (\<lambda>st.
       count_loop own_index (rev (direct_groups g) @ stack) st))"
  by pat_completeness auto
termination
  by (relation "measure (\<lambda>(_, stack, _). sum_list (map group_nodes stack))") (simp_all add: group_nodes_direct rev_map [symmetric])

record header_scan =
  hs_output :: bytes
  hs_offset :: nat
  hs_seen_hedr :: bool
  hs_seen_masters :: bool
  hs_seen_description :: bool
  hs_follows_master :: bool

text \<open>One round of the loop over the header's subrecords.\<close>

definition header_scan_step ::
    "bytes \<Rightarrow> u32 \<times> u32 \<Rightarrow> rstring list option \<Rightarrow> rstring option \<Rightarrow> sub_record \<Rightarrow> header_scan \<Rightarrow> core_error + header_scan" where
  "header_scan_step original counters masters description sr st =
     (case sr_data sr of
        Owned _ \<Rightarrow> Inl (InvalidEncoding (Msg ''plugin header subrecord has no original byte range''))
      | Borrowed _ s e \<Rightarrow>
          bindr (ok_or (UnexpectedEof ''plugin header subrecord frame'')
                   (get_range (hs_offset st, e) original)) (\<lambda>frame.
          bindr (ok_or (UnexpectedEof ''plugin header subrecord payload'')
                   (if hs_offset st \<le> s then Some (s - hs_offset st) else None)) (\<lambda>payload_offset.
            let master_data = hs_follows_master st \<and> sr_signature sr = SIG_DATA;
                follows_master = (sr_signature sr = SIG_MAST);
                st1 = st\<lparr> hs_offset := e, hs_follows_master := follows_master \<rparr>
            in if sr_signature sr = SIG_HEDR \<and> \<not> hs_seen_hedr st then
                 (if payload_offset + 12 \<le> length frame
                  then Inr (st1\<lparr> hs_output := hs_output st @ take (payload_offset + 4) frame @
                                   le_bytes 4 (fst counters) @ le_bytes 4 (snd counters) @
                                   drop (payload_offset + 12) frame,
                                 hs_seen_hedr := True \<rparr>)
                  else Inl (InvalidEncoding (Msg ''HEDR is shorter than 12 bytes'')))
               else if follows_master \<and> masters \<noteq> None then
                 (if \<not> hs_seen_masters st
                  then Inr (st1\<lparr> hs_output := hs_output st @ append_masters (the masters), hs_seen_masters := True \<rparr>)
                  else Inr st1)
               else if master_data \<and> masters \<noteq> None then Inr st1
               else if sr_signature sr = SIG_SNAM \<and> description \<noteq> None \<and> \<not> hs_seen_description st then
                 Inr (st1\<lparr> hs_output := hs_output st @ append_string SIG_SNAM (the description),
                           hs_seen_description := True \<rparr>)
               else Inr (st1\<lparr> hs_output := hs_output st @ frame \<rparr>))))"

fun header_scan_loop ::
    "bytes \<Rightarrow> u32 \<times> u32 \<Rightarrow> rstring list option \<Rightarrow> rstring option \<Rightarrow> sub_record list \<Rightarrow> header_scan \<Rightarrow> core_error + header_scan" where
  "header_scan_loop original counters masters description [] st = Inr st"
| "header_scan_loop original counters masters description (sr # srs) st =
     bindr (header_scan_step original counters masters description sr st) (\<lambda>st.
       header_scan_loop original counters masters description srs st)"


definition updated_payload ::
    "(bytes \<Rightarrow> string + bytes) \<Rightarrow> plugin \<Rightarrow> plugin_header_patch option \<Rightarrow> core_error + bytes" where
  "updated_payload inflate p patch =
     (let header = pl_header p;
          masters = Option.bind patch hp_masters;
          description = Option.bind patch hp_description;
          own_index = length (case masters of Some m \<Rightarrow> m | None \<Rightarrow> ph_masters header);
          next_id = max (fid_raw (ph_next_object_id header)) 0x801
      in bindr (count_loop own_index (rev (pl_groups p)) (0, next_id)) (\<lambda>counters.
         bindr (fst (raw_data inflate (ph_record header))) (\<lambda>original.
         bindr (subrecs inflate (ph_record header)) (\<lambda>srs.
         bindr (header_scan_loop original counters masters description srs
                  \<lparr> hs_output = [], hs_offset = 0, hs_seen_hedr = False, hs_seen_masters = False,
                    hs_seen_description = False, hs_follows_master = False \<rparr>) (\<lambda>st.
           if \<not> hs_seen_hedr st
           then Inl (InvalidEncoding (Msg ''plugin header has no HEDR subrecord''))
           else
             let with_description =
                   (case description of
                      Some d \<Rightarrow> if \<not> hs_seen_description st then append_string SIG_SNAM d else []
                    | None \<Rightarrow> []);
                 with_masters =
                   (case masters of
                      Some m \<Rightarrow> if \<not> hs_seen_masters st then append_masters m else []
                    | None \<Rightarrow> [])
             in Inr (hs_output st @ with_description @ with_masters @ drop (hs_offset st) original))))))"

definition patched_flags :: "plugin_header_patch option \<Rightarrow> u32 \<Rightarrow> u32" where
  "patched_flags patch flags =
     (case patch of
        None \<Rightarrow> flags
      | Some p \<Rightarrow>
          (flags OR (case hp_flags_set p of None \<Rightarrow> 0 | Some v \<Rightarrow> v)) AND
          NOT (case hp_flags_clear p of None \<Rightarrow> 0 | Some v \<Rightarrow> v))"

text \<open>\<open>write_updated\<close>; the comparison with the decoded payload is only made for a compressed header.\<close>

definition write_updated ::
    "(bytes \<Rightarrow> string + bytes) \<Rightarrow> plugin \<Rightarrow> plugin_header_patch option \<Rightarrow> core_error + bytes" where
  "write_updated inflate p patch =
     bindr (ok_or (UnexpectedEof ''plugin header source range'')
              (case get_range (pl_header_range p) (pl_source p) of
                 None \<Rightarrow> None
               | Some bs \<Rightarrow> if length bs \<ge> 24 then Some bs else None)) (\<lambda>source.
     bindr (updated_payload inflate p patch) (\<lambda>payload.
       let header = take 24 source;
           flags = patched_flags patch (le_word (slice 8 12 header))
       in bindr (if flags AND FLAG_COMPRESSED \<noteq> 0 \<and>
                    flags_contain (rh_flags (rec_header (ph_record (pl_header p)))) FLAG_COMPRESSED
                 then bindr (fst (raw_data inflate (ph_record (pl_header p)))) (\<lambda>raw.
                        Inr (if payload = raw then (drop 24 source, flags)
                             else (payload, flags AND NOT FLAG_COMPRESSED)))
                 else Inr (payload, flags AND NOT FLAG_COMPRESSED)) (\<lambda>(payload, flags).
            if length payload \<ge> 2 ^ 32
            then Inl (InvalidEncoding (Msg ''plugin header exceeds u32 size''))
            else Inr (take 4 header @ le_bytes 4 (of_nat (length payload) :: u32) @ le_bytes 4 flags @
                      drop 12 header @ payload))))"

subsection \<open>Writing the plugin\<close>

definition patcher_touched :: "plugin_patcher \<Rightarrow> (nat \<times> nat) set" where
  "patcher_touched pt =
     foldl (\<lambda>t g. snd (mark_reordered (pt_group_orders pt) g (snd (mark_touched (pt_patches pt) g t))))
       {} (pl_groups (pt_plugin pt))"

definition patcher_write_to :: "(bytes \<Rightarrow> string + bytes) \<Rightarrow> plugin_patcher \<Rightarrow> core_error + bytes" where
  "patcher_write_to inflate pt =
     (let p = pt_plugin pt; source = pl_source p
      in if pt_patches pt = [] \<and> pt_group_orders pt = [] \<and> pt_header_patch pt = None then Inr source
         else
           let touched = patcher_touched pt
           in bindr (if pt_header_patch pt \<noteq> None \<or> touched \<noteq> {}
                     then write_updated inflate p (pt_header_patch pt)
                     else ok_or (UnexpectedEof ''plugin header source range'') (get_range (pl_header_range p) source))
                (\<lambda>header.
              bindr (write_patched_groups pt source touched (pl_groups p)) (\<lambda>groups.
                Inr (header @ groups))))"

end
