(* ===== verification/PatcherLaws.thy ===== *)
theory PatcherLaws
  imports Patcher WriterLaws "HOL-Library.Multiset"
begin

text \<open>
  Properties of the patcher: copying untouched groups verbatim agrees with rebuilding every group,
  verbatim patches rewrite the source, a registered order moves exactly the records of its group, the
  order of a second sibling group is lost, and the counters of the updated header.
\<close>

subsection \<open>A header written back\<close>

lemma window_advance: "window (advance k c) n = slice (cur_pos c + k) (cur_pos c + k + n) (cur_data c)"
  by (simp add: window_def)

lemma group_type_raw: "group_type_from_raw raw = Inr t \<Longrightarrow> group_type_to_raw t = raw"
  by (auto simp: group_type_from_raw_def split: if_splits)

lemma write_group_header_window:
  assumes "group_parse_head c = Inr (h, e, c')"
  shows "write_group_header h (gh_group_size h) = window c 24"
proof -
  let ?d = "cur_data c" and ?a = "cur_pos c"
  have len: "?a + 24 \<le> length ?d" using group_parse_head_step [OF assms] by simp
  let ?w = "\<lambda>i. slice (?a + i) (?a + i + 4) ?d"
  from assms obtain sb c1 size c2 lab c3 tr c4 vc c5 un c6 where
      r: "read_array 4 c = Inr (sb, c1)" "read_u32 c1 = Inr (size, c2)" "read_array 4 c2 = Inr (lab, c3)"
        "read_i32 c3 = Inr (tr, c4)" "read_u32 c4 = Inr (vc, c5)" "read_u32 c5 = Inr (un, c6)"
    and g: "sig_of sb = SIG_GRUP" "group_type_from_raw tr = Inr (gh_group_type h)" "gh_group_size h = size"
      "gh_label h = group_label_from_raw lab (gh_group_type h)" "gh_version_control h = vc" "gh_unknown h = un"
    unfolding group_parse_head_def by (auto simp: bindr_eq_Inr split: if_splits)
  have c1: "c1 = advance 4 c" "sb = window c 4" using r(1) by (simp_all add: read_array_Inr)
  have c2: "c2 = advance 8 c" "size = le_word (window (advance 4 c) 4)" using rd_u32.rd_step [OF r(2)] c1 by simp_all
  have c3: "c3 = advance 12 c" "lab = window (advance 8 c) 4" using r(3) c2 by (simp_all add: read_array_Inr)
  have c4: "c4 = advance 16 c" "tr = le_word (window (advance 12 c) 4)" using rd_i32.rd_step [OF r(4)] c3 by simp_all
  have c5: "c5 = advance 20 c" "vc = le_word (window (advance 16 c) 4)" using rd_u32.rd_step [OF r(5)] c4 by simp_all
  have c6: "un = le_word (window (advance 20 c) 4)" using rd_u32.rd_step [OF r(6)] c5 by simp
  have h1: "gh_group_size h = le_word (?w 4)" unfolding g(3) c2(2) window_advance ..
  have h2: "gh_label h = group_label_from_raw (?w 8) (gh_group_type h)" unfolding g(4) c3(2) window_advance ..
  have h3: "group_type_from_raw (le_word (?w 12)) = Inr (gh_group_type h)"
    using g(2) unfolding c4(2) window_advance .
  have h4: "gh_version_control h = le_word (?w 16)" unfolding g(5) c5(2) window_advance ..
  have h5: "gh_unknown h = le_word (?w 20)" unfolding g(6) c6 window_advance ..
  have h6: "sig_of (?w 0) = SIG_GRUP" using g(1) c1(2) by (simp add: window_def)
  have w4: "length (?w i) = 4" if "i \<le> 20" for i using len that by simp
  have "sig_bytes SIG_GRUP = ?w 0" using sig_bytes_of [OF w4 [of 0]] unfolding h6 by simp
  moreover have "sig_bytes SIG_GRUP = ascii ''GRUP''" by code_simp
  ultimately have "ascii ''GRUP'' = ?w 0" by simp
  moreover have rt: "le_bytes 4 (le_word (?w i) :: u32) = ?w i" if "i \<le> 20" for i
    by (rule le_bytes_le_word_widths(2) [OF w4 [OF that]])
  moreover have "label_to_bytes (gh_label h) = ?w 8"
    unfolding h2 by (rule label_round_trip [OF w4]) simp
  moreover have "le_bytes 4 (group_type_to_raw (gh_group_type h)) = ?w 12"
    unfolding group_type_raw [OF h3] by (rule rt) simp
  moreover have "le_bytes 4 (gh_group_size h) = ?w 4" unfolding h1 by (rule rt) simp
  moreover have "le_bytes 4 (gh_version_control h) = ?w 16" unfolding h4 by (rule rt) simp
  moreover have "le_bytes 4 (gh_unknown h) = ?w 20" unfolding h5 by (rule rt) simp
  ultimately have "write_group_header h (gh_group_size h) = ?w 0 @ ?w 4 @ ?w 8 @ ?w 12 @ ?w 16 @ ?w 20"
    by (simp only: write_group_header_def)
  also have "\<dots> = slice ?a (?a + 24) ?d"
    using slice_append [of ?a "?a + 4" "?a + 24" ?d] slice_append [of "?a + 4" "?a + 8" "?a + 24" ?d]
      slice_append [of "?a + 8" "?a + 12" "?a + 24" ?d] slice_append [of "?a + 12" "?a + 16" "?a + 24" ?d]
      slice_append [of "?a + 16" "?a + 20" "?a + 24" ?d]
    by (simp add: add.commute)
  finally show ?thesis by (simp add: window_def)
qed

subsection \<open>Trees that come from a file\<close>

text \<open>All groups of a tree, the group itself first.\<close>

fun child_groups :: "('r, 'h) child \<Rightarrow> ('r, 'h) grp list"
  and all_groups :: "('r, 'h) grp \<Rightarrow> ('r, 'h) grp list" where
  "child_groups (Record r) = []"
| "child_groups (Group g) = all_groups g"
| "all_groups (Grp h cs) = Grp h cs # concat (map child_groups cs)"

lemma layout_group_bytes:
  assumes "group_parse_head \<lparr> cur_data = d, cur_pos = a \<rparr> = Inr (h, e, c)" "a + 24 \<le> e" "e \<le> length d"
  shows "write_group_header h (of_nat (GROUP_HEADER_SIZE + length (slice (a + 24) e d))) @ slice (a + 24) e d = slice a e d"
proof -
  have e: "e = a + unat (gh_group_size h)" using group_parse_head_step [OF assms(1)] by simp
  have "(of_nat (GROUP_HEADER_SIZE + length (slice (a + 24) e d)) :: u32) = of_nat (e - a)"
    using assms(2,3) by (simp add: GROUP_HEADER_SIZE_def)
  also have "\<dots> = gh_group_size h" by (simp add: e)
  finally have "write_group_header h (of_nat (GROUP_HEADER_SIZE + length (slice (a + 24) e d))) = slice a (a + 24) d"
    using write_group_header_window [OF assms(1)] by (simp add: window_def)
  then show ?thesis using slice_append [of a "a + 24" e d] assms(2) by simp
qed

text \<open>A record that is written as it stands in the source: no patch, or a patch with its own bytes.\<close>

definition written_verbatim :: "plugin_patcher \<Rightarrow> bytes \<Rightarrow> main_record \<Rightarrow> bool" where
  "written_verbatim pt d r \<longleftrightarrow>
     (\<forall>patch. map_of (pt_patches pt) (record_fid r) = Some patch \<longrightarrow> record_source_bytes d r = Some (patch_bytes patch))"

lemma write_patched_record_verbatim:
  assumes "written_verbatim pt d r" "rec_source_range r = Some (a, m)" "a \<le> m" "m \<le> length d"
  shows "write_patched_record pt d r = Inr (slice a m d)"
proof -
  have "record_source_bytes d r = Some (slice a m d)"
    using assms(2-4) by (simp add: record_source_bytes_def get_range_def)
  then show ?thesis using assms(1)
    by (auto simp: write_patched_record_def written_verbatim_def split: option.splits)
qed

lemma layout_record_bounds:
  assumes "record_parse_header ctx \<lparr> cur_data = d, cur_pos = a \<rparr> = Inr (r, \<lparr> cur_data = d, cur_pos = m \<rparr>)"
  shows "a \<le> m" "m \<le> length d"
  using record_parse_header_step(1,2) [OF assms] by (simp_all add: advance_def)

text \<open>Writing an unedited tree gives its bytes, whichever groups are walked.\<close>

lemma write_children_verbatim:
  assumes "layout ctx d a b kids" "b \<le> length d"
    and "\<forall>c \<in> set kids. \<forall>r \<in> set (child_records c). written_verbatim pt d r"
    and "\<forall>c \<in> set kids. \<forall>g \<in> set (child_groups c). group_order pt (grp_head g) = None"
  shows "write_patched_children pt d T kids = Inr (slice a b d)"
  using assms
proof (induction a b kids rule: layout.induct)
  case (layout_done a)
  then show ?case by simp
next
  case (layout_record a r m b rest)
  note m = layout_record_bounds [OF layout_record.hyps(1)]
  have "m \<le> b" using layout_le [OF layout_record.hyps(2)] .
  moreover have "written_verbatim pt d (r\<lparr> rec_source_range := Some (a, m) \<rparr>)"
    using layout_record.prems by simp
  ultimately show ?case using layout_record m
    by (simp add: write_patched_record_verbatim slice_append)
next
  case (layout_group a h e kids b rest)
  have e: "a + 24 \<le> e" "e \<le> b" using layout_le layout_group.hyps(2,3) by blast+
  have len: "e \<le> length d" using e layout_group.prems(1) by simp
  let ?g = "Grp \<lparr> gi_header = h, gi_source_range = Some (a, e) \<rparr> kids"
  have kids: "write_patched_children pt d T kids = Inr (slice (a + 24) e d)"
    using layout_group.IH(1) layout_group.prems len by simp
  have "group_order pt \<lparr> gi_header = h, gi_source_range = Some (a, e) \<rparr> = None"
    using layout_group.prems(3) by simp
  then have "write_patched_group pt d T ?g = Inr (slice a e d)"
    using kids layout_group_bytes [OF layout_group.hyps(1) e(1) len] len e(1)
    by (simp add: group_source_bytes_def get_range_def del: of_nat_add of_nat_diff length_slice)
  then show ?case using layout_group.IH(2) layout_group.prems e by (simp add: slice_append)
qed

lemma write_patched_groups_children:
  "write_patched_groups pt d T gs = write_patched_children pt d T (map Group gs)"
  by (induction gs) simp_all

lemma plugin_layout:
  assumes "plugin_from_bytes inflate ctx d = Inr p" "length d \<le> isize_max"
  obtains e r where "pl_header_range p = (0, e)" "24 \<le> e" "e \<le> length d" "pl_source p = d"
    "layout ctx d e (length d) (map Group (pl_groups p))"
    "record_parse_header ctx (cursor_new d) = Inr (r, \<lparr> cur_data = d, cur_pos = e \<rparr>)"
    "ph_record (pl_header p) = snd (subrecords inflate r)"
proof -
  from assms(1) obtain h c1 gs where h: "plugin_header_parse inflate ctx (cursor_new d) = Inr (h, c1)"
    and g: "parse_groups ctx c1 = Inr gs"
    and p: "p = \<lparr> pl_source = d, pl_ctx = ctx, pl_header = h,
        pl_header_range = (cur_pos (cursor_new d), cur_pos c1), pl_groups = gs \<rparr>"
    by (auto simp: plugin_from_bytes_def plugin_parse_bytes_def Let_def bindr_eq_Inr)
  from h obtain r where r: "record_parse_header ctx (cursor_new d) = Inr (r, c1)"
    and hr: "ph_record h = snd (subrecords inflate r)"
    unfolding plugin_header_parse_def by (auto simp: bindr_eq_Inr split_beta split: if_splits)
  note step = record_parse_header_step(1,2) [OF r]
  have d: "cur_data c1 = d" and pos: "24 \<le> cur_pos c1" "cur_pos c1 \<le> length d"
    using step by (simp_all add: cursor_new_def)
  have "wf_cursor c1" using assms(2) d pos by (simp add: wf_cursor_def)
  then have "layout ctx d (cur_pos c1) (length d) (map Group gs)"
    using parse_groups_layout [of c1 ctx gs] g d by simp
  then show ?thesis using that [of "cur_pos c1" r] p pos r hr d by (cases c1) (simp add: cursor_new_def)
qed

subsection \<open>Skipping untouched groups\<close>

definition has_patch :: "(form_id \<times> record_patch) list \<Rightarrow> main_record list \<Rightarrow> bool" where
  "has_patch patches rs \<longleftrightarrow> (\<exists>r \<in> set rs. map_of patches (record_fid r) \<noteq> None)"

definition covers :: "(form_id \<times> record_patch) list \<Rightarrow> group list \<Rightarrow> (nat \<times> nat) set \<Rightarrow> bool" where
  "covers patches gs t \<longleftrightarrow>
     (\<forall>g \<in> set gs. has_patch patches (grp_records g) \<longrightarrow> (\<forall>rng. group_range g = Some rng \<longrightarrow> rng \<in> t))"

lemma covers_mono: "covers patches gs t \<Longrightarrow> t \<subseteq> t' \<Longrightarrow> covers patches gs t'"
  unfolding covers_def by blast

lemma covers_append [simp]: "covers patches (gs @ hs) t \<longleftrightarrow> covers patches gs t \<and> covers patches hs t"
  by (auto simp: covers_def)

lemma covers_simps [simp]:
  "covers patches [] t"
  "covers patches (g # gs) t \<longleftrightarrow>
     (has_patch patches (grp_records g) \<longrightarrow> (\<forall>rng. group_range g = Some rng \<longrightarrow> rng \<in> t)) \<and> covers patches gs t"
  by (auto simp: covers_def)

lemma has_patch_simps [simp]:
  "has_patch patches [] \<longleftrightarrow> False"
  "has_patch patches (rs @ qs) \<longleftrightarrow> has_patch patches rs \<or> has_patch patches qs"
  "has_patch patches (r # rs) \<longleftrightarrow> map_of patches (record_fid r) \<noteq> None \<or> has_patch patches rs"
  by (auto simp: has_patch_def)

lemma mark_touched_spec:
  "mark_touched_children patches cs any t = (b, t') \<Longrightarrow>
     b = (any \<or> has_patch patches (concat (map child_records cs))) \<and> t \<subseteq> t' \<and>
     covers patches (concat (map child_groups cs)) t'"
  "mark_touched patches g t = (b, t') \<Longrightarrow>
     b = has_patch patches (grp_records g) \<and> t \<subseteq> t' \<and> covers patches (all_groups g) t'"
proof (induction patches cs any t and patches g t arbitrary: b t' and b t'
    rule: mark_touched_children_mark_touched.induct)
  case (1 patches any t)
  then show ?case by simp
next
  case (2 patches r cs any t)
  then show ?case by auto
next
  case (3 patches g cs any t)
  obtain b1 t1 where g: "mark_touched patches g t = (b1, t1)" by force
  then have "mark_touched_children patches cs (any \<or> b1) t1 = (b, t')" using 3(3) by simp
  from 3(2) [OF g [symmetric] this] 3(1) [OF g] show ?case by (auto intro: covers_mono)
next
  case (4 patches h children t)
  obtain any t1 where c: "mark_touched_children patches children False t = (any, t1)" by force
  then have b: "b = any" and t': "t' = (if any then touch h t1 else t1)" using 4(2) by auto
  have sub: "t1 \<subseteq> t'" using t' by (auto simp: touch_def split: option.splits)
  from 4(1) [OF c] have IH: "any = has_patch patches (concat (map child_records children))" "t \<subseteq> t1"
    "covers patches (concat (map child_groups children)) t1" by auto
  have "covers patches (concat (map child_groups children)) t'" using IH(3) sub by (rule covers_mono)
  then show ?case using b t' IH sub by (auto simp: touch_def)
qed

lemma mark_reordered_none:
  "mark_reordered_any [] cs t = (False, t)" "mark_reordered [] g t = (False, t)"
proof (induction "[] :: ((nat \<times> nat) \<times> form_id list) list" cs t and "[] :: ((nat \<times> nat) \<times> form_id list) list" g t
    rule: mark_reordered_any_mark_reordered.induct)
  case (4 h children t)
  then show ?case by (simp split: option.splits)
qed auto

lemma patcher_touched_covers:
  assumes "pt_group_orders pt = []"
  shows "covers (pt_patches pt) (concat (map all_groups (pl_groups (pt_plugin pt)))) (patcher_touched pt)"
proof -
  have "covers (pt_patches pt) (concat (map all_groups gs))
      (foldl (\<lambda>t g. snd (mark_touched (pt_patches pt) g t)) {} gs)" for gs
  proof (induction gs rule: rev_induct)
    case (snoc g gs)
    let ?t = "foldl (\<lambda>t g. snd (mark_touched (pt_patches pt) g t)) {} gs"
    obtain b t' where t': "mark_touched (pt_patches pt) g ?t = (b, t')" by force
    from mark_touched_spec(2) [OF t'] snoc show ?case
      by (simp add: t') (blast intro: covers_mono)
  qed simp
  then show ?thesis by (simp add: patcher_touched_def assms mark_reordered_none)
qed

lemma no_orders: "pt_group_orders pt = [] \<Longrightarrow> group_order pt h = None"
  by (cases "gi_source_range h") (auto simp: group_order_def)

lemma bindr_right [simp]: "bindr m Inr = m"
  by (cases m) simp_all

text \<open>The reference: every group rebuilt from its children, bottom up.\<close>

fun rebuild_children :: "plugin_patcher \<Rightarrow> bytes \<Rightarrow> group_child list \<Rightarrow> core_error + bytes"
  and rebuild_group :: "plugin_patcher \<Rightarrow> bytes \<Rightarrow> group \<Rightarrow> core_error + bytes" where
  "rebuild_children pt source [] = Inr []"
| "rebuild_children pt source (Record r # cs) =
     bindr (write_patched_record pt source r) (\<lambda>b. bindr (rebuild_children pt source cs) (\<lambda>rest. Inr (b @ rest)))"
| "rebuild_children pt source (Group g # cs) =
     bindr (rebuild_group pt source g) (\<lambda>b. bindr (rebuild_children pt source cs) (\<lambda>rest. Inr (b @ rest)))"
| "rebuild_group pt source (Grp h children) =
     bindr (rebuild_children pt source children) (\<lambda>body.
       Inr (write_group_header (gi_header h) (of_nat (24 + length body)) @ body))"

lemma write_all_rebuild:
  assumes "pt_group_orders pt = []"
  shows "write_patched_children pt source UNIV cs = rebuild_children pt source cs"
    and "write_patched_group pt source UNIV g = rebuild_group pt source g"
  using assms
proof (induction pt source cs and pt source g rule: rebuild_children_rebuild_group.induct)
  case (4 pt source h children)
  have "needs_walk UNIV h" by (cases "gi_source_range h") (simp_all add: needs_walk_def)
  then show ?case using 4 by (simp add: GROUP_HEADER_SIZE_def no_orders)
qed (simp_all cong: bindr_cong)


lemma has_patch_verbatim: "\<not> has_patch (pt_patches pt) rs \<Longrightarrow> \<forall>r \<in> set rs. written_verbatim pt d r"
  by (auto simp: has_patch_def written_verbatim_def)

lemma write_covered_rebuild:
  assumes "layout ctx d a b kids" "b \<le> length d" "pt_group_orders pt = []"
    and "covers (pt_patches pt) (concat (map child_groups kids)) T"
  shows "write_patched_children pt d T kids = rebuild_children pt d kids"
  using assms
proof (induction a b kids rule: layout.induct)
  case (layout_group a h e kids b rest)
  have e: "a + 24 \<le> e" "e \<le> b" using layout_le layout_group.hyps(2,3) by blast+
  have len: "e \<le> length d" using e layout_group.prems(1) by simp
  let ?h = "\<lparr> gi_header = h, gi_source_range = Some (a, e) \<rparr>"
  let ?g = "Grp ?h kids"
  have kids: "write_patched_children pt d T kids = rebuild_children pt d kids"
    using layout_group.IH(1) layout_group.prems len by simp
  have "write_patched_group pt d T ?g = rebuild_group pt d ?g"
  proof (cases "needs_walk T ?h")
    case True
    then show ?thesis using kids layout_group.prems(2) by (simp add: no_orders GROUP_HEADER_SIZE_def)
  next
    case False
    then have "\<not> has_patch (pt_patches pt) (grp_records ?g)"
      using layout_group.prems(3) by (auto simp: needs_walk_def)
    then have v: "\<forall>r \<in> set (grp_records ?g). written_verbatim pt d r" by (rule has_patch_verbatim)
    have "layout ctx d a e [Group ?g]"
      using layout.layout_group [OF layout_group.hyps(1,2) layout_done] .
    then have "write_patched_children pt d S [Group ?g] = Inr (slice a e d)" for S
      using len v layout_group.prems(2) by (intro write_children_verbatim) (auto simp: no_orders)
    then have "write_patched_group pt d S ?g = Inr (slice a e d)" for S
      by (simp del: write_patched_group.simps)
    then show ?thesis using write_all_rebuild(2) [OF layout_group.prems(2)] by metis
  qed
  then show ?case using layout_group.IH(2) layout_group.prems by simp
qed simp_all

text \<open>
  C15: The patcher's shortcut is exact. For a plugin parsed from bytes and
  any record patches (no reordering), copying every group outside the touched set verbatim gives the same
  bytes, or the same error, as rebuilding every group header and body bottom up from the records.
\<close>

theorem untouched_groups_equal_rebuilt:
  assumes "plugin_from_bytes inflate ctx d = Inr (pt_plugin pt)" "length d \<le> isize_max" "pt_group_orders pt = []"
  shows "write_patched_groups pt d (patcher_touched pt) (pl_groups (pt_plugin pt)) =
    rebuild_children pt d (map Group (pl_groups (pt_plugin pt)))"
proof -
  obtain e where "layout ctx d e (length d) (map Group (pl_groups (pt_plugin pt)))"
    using plugin_layout [OF assms(1,2)] by metis
  then show ?thesis using write_covered_rebuild [of ctx d e "length d" _ pt "patcher_touched pt"]
      patcher_touched_covers [OF assms(3)] assms(3)
    by (simp add: write_patched_groups_children comp_def)
qed

text \<open>
  C16: Replacing records by their own source bytes (what
  \<open>from_record_verbatim\<close> registers) rewrites the body of a parsed plugin byte for byte, whichever
  records are replaced and although their groups are re-serialised with recomputed sizes.
\<close>

theorem verbatim_patches_are_identity:
  assumes "plugin_from_bytes inflate ctx d = Inr (pt_plugin pt)" "length d \<le> isize_max" "pt_group_orders pt = []"
    and "\<forall>r \<in> set (plugin_records (pt_plugin pt)). \<forall>patch.
      map_of (pt_patches pt) (record_fid r) = Some patch \<longrightarrow> patch_from_verbatim r d = Some patch"
  shows "write_patched_groups pt d touched (pl_groups (pt_plugin pt)) =
    Inr (drop (snd (pl_header_range (pt_plugin pt))) d)"
proof -
  obtain e where e: "pl_header_range (pt_plugin pt) = (0, e)" "e \<le> length d"
    "layout ctx d e (length d) (map Group (pl_groups (pt_plugin pt)))"
    using plugin_layout [OF assms(1,2)] by metis
  have "\<forall>r \<in> set (plugin_records (pt_plugin pt)). written_verbatim pt d r"
    using assms(4) by (fastforce simp: written_verbatim_def patch_from_verbatim_def)
  then have "write_patched_children pt d touched (map Group (pl_groups (pt_plugin pt))) = Inr (slice e (length d) d)"
    using e(3) assms(3) by (intro write_children_verbatim) (auto simp: no_orders plugin_records_def)
  then show ?thesis by (simp add: write_patched_groups_children e slice_def)
qed

subsection \<open>Registering an order\<close>

lemma map_Record_eq [simp]: "map Record xs = map Record ys \<longleftrightarrow> xs = ys"
  by (rule inj_map_eq_map) (simp add: inj_def)

lemma expected_ids_Inr:
  "expected_ids cs acc = Inr ex \<longleftrightarrow>
     (\<exists>rs. cs = map Record rs \<and> distinct (map record_fid rs) \<and> set (map record_fid rs) \<inter> set acc = {} \<and>
        ex = rev (map record_fid rs) @ acc)"
proof (induction cs acc rule: expected_ids.induct)
  case (3 r cs acc)
  show ?case
  proof (cases "record_fid r \<in> set acc")
    case False
    have "Record r # cs = map Record rs \<longleftrightarrow> (\<exists>qs. rs = r # qs \<and> cs = map Record qs)" for rs
      by (cases rs) auto
    with False 3 show ?thesis by auto
  qed (auto simp: Cons_eq_map_conv)
qed auto

lemma supplied_ids_Inr:
  "supplied_ids ex fs acc = Inr out \<longleftrightarrow>
     distinct fs \<and> set fs \<inter> set acc = {} \<and> set fs \<subseteq> set ex \<and> out = rev fs @ acc"
  by (induction ex fs acc rule: supplied_ids.induct) auto

lemma reorder_Inr:
  "reorder_group_records g ids pt = Inr pt' \<longleftrightarrow>
     (\<exists>rng rs. group_range g = Some rng \<and> grp_children g = map Record rs \<and> distinct (map record_fid rs) \<and>
        mset ids = mset (map record_fid rs) \<and>
        pt' = pt\<lparr> pt_group_orders := AList.update rng ids (pt_group_orders pt) \<rparr>)" (is "_ \<longleftrightarrow> ?rhs")
proof -
  have perm: "distinct ids \<and> set ids \<subseteq> set fs \<and> length ids = length fs \<longleftrightarrow> mset ids = mset fs"
    if "distinct fs" for fs :: "form_id list"
  proof
    assume "distinct ids \<and> set ids \<subseteq> set fs \<and> length ids = length fs"
    moreover then have "set ids = set fs"
      using that by (intro card_subset_eq) (simp_all add: distinct_card)
    ultimately show "mset ids = mset fs" using that by (simp add: set_eq_iff_mset_eq_distinct)
  next
    assume "mset ids = mset fs"
    then show "distinct ids \<and> set ids \<subseteq> set fs \<and> length ids = length fs"
      using that by (metis mset_eq_imp_distinct_iff mset_eq_length mset_eq_setD order_refl)
  qed
  have if_eq: "(if c then Inl x else Inr y) = Inr z \<longleftrightarrow> \<not> c \<and> z = y" for c x and y z :: plugin_patcher
    by auto
  have exp: "bindr (expected_ids cs []) f = Inr z \<longleftrightarrow>
      (\<exists>rs. cs = map Record rs \<and> distinct (map record_fid rs) \<and> f (rev (map record_fid rs)) = Inr z)"
    for cs and f :: "form_id list \<Rightarrow> core_error + plugin_patcher" and z
    by (auto simp: bindr_eq_Inr expected_ids_Inr)
  have sup: "bindr (supplied_ids ex ids []) f = Inr z \<longleftrightarrow> distinct ids \<and> set ids \<subseteq> set ex \<and> f (rev ids) = Inr z"
    for ex and f :: "form_id list \<Rightarrow> core_error + plugin_patcher" and z
    by (auto simp: bindr_eq_Inr supplied_ids_Inr)
  have "reorder_group_records g ids pt = Inr pt' \<longleftrightarrow>
     (\<exists>rng rs. group_range g = Some rng \<and> grp_children g = map Record rs \<and> distinct (map record_fid rs) \<and>
        (distinct ids \<and> set ids \<subseteq> set (map record_fid rs) \<and> length ids = length (map record_fid rs)) \<and>
        pt' = pt\<lparr> pt_group_orders := AList.update rng ids (pt_group_orders pt) \<rparr>)"
  proof (cases "group_range g")
    case (Some rng)
    show ?thesis
      unfolding reorder_group_records_def Some ok_or_simps bindr_simps exp sup if_eq option.inject set_rev length_rev
      by blast
  qed (simp add: reorder_group_records_def)
  also have "\<dots> \<longleftrightarrow> ?rhs" using perm by (intro ex_cong1 conj_cong refl) blast
  finally show ?thesis .
qed

text \<open>
  C17: \<open>reorder_group_records\<close> accepts an order exactly when the group has a
  source range, holds records only, repeats no FormID, and the order is a permutation of its FormIDs.
\<close>

theorem reorder_accepts_permutations:
  "(\<exists>pt'. reorder_group_records g ids pt = Inr pt') \<longleftrightarrow>
     group_range g \<noteq> None \<and>
     (\<exists>rs. grp_children g = map Record rs \<and> distinct (map record_fid rs) \<and> mset ids = mset (map record_fid rs))"
  by (auto simp: reorder_Inr)

subsection \<open>Writing a reordered group\<close>

abbreviation groups_in :: "group_child list \<Rightarrow> group list" where
  "groups_in kids \<equiv> concat (map child_groups kids)"

lemma layout_group_ranges:
  "layout ctx d a b kids \<Longrightarrow> x \<in> set (groups_in kids) \<Longrightarrow>
   \<exists>s e. group_range x = Some (s, e) \<and> a \<le> s \<and> s + 24 \<le> e \<and> e \<le> b"
proof (induction a b kids rule: layout.induct)
  case (layout_record a r m b rest)
  then show ?case using record_parse_header_step(1) [OF layout_record.hyps(1)] by (force simp: advance_def)
next
  case (layout_group a h e kids b rest)
  have e: "a + 24 \<le> e" "e \<le> b" using layout_le layout_group.hyps(2,3) by blast+
  consider "x = Grp \<lparr> gi_header = h, gi_source_range = Some (a, e) \<rparr> kids" | "x \<in> set (groups_in kids)"
    | "x \<in> set (groups_in rest)"
    using layout_group.prems by auto
  then show ?case
    using e layout_group.IH by cases force+
qed simp

lemma groups_trans:
  fixes c :: "('r, 'h) child" and g :: "('r, 'h) grp"
  shows "x \<in> set (child_groups c) \<Longrightarrow> y \<in> set (all_groups x) \<Longrightarrow> y \<in> set (child_groups c)"
    and "x \<in> set (all_groups g) \<Longrightarrow> y \<in> set (all_groups x) \<Longrightarrow> y \<in> set (all_groups g)"
  by (induction c and g rule: child_groups_all_groups.induct) auto

lemma groups_in_trans:
  "x \<in> set (groups_in kids) \<Longrightarrow> y \<in> set (all_groups x) \<Longrightarrow> y \<in> set (groups_in kids)"
  using groups_trans(1) by fastforce

text \<open>With one registered order, the marks reach the reordered group and every group around it.\<close>

lemma mark_reordered_layout:
  assumes "layout ctx d a b kids" "mark_reordered_any [((ga, ge), ids)] kids t = (f, t')"
  shows "f = (\<exists>x \<in> set (groups_in kids). group_range x = Some (ga, ge)) \<and> t \<subseteq> t' \<and>
    (\<forall>x \<in> set (groups_in kids). (\<exists>y \<in> set (all_groups x). group_range y = Some (ga, ge)) \<longrightarrow>
       (\<forall>rng. group_range x = Some rng \<longrightarrow> rng \<in> t'))"
  using assms
proof (induction a b kids arbitrary: t f t' rule: layout.induct)
  case (layout_done a)
  then show ?case by simp
next
  case (layout_record a r m b rest)
  then show ?case by simp
next
  case (layout_group a h e kids b rest)
  let ?o = "[((ga, ge), ids)]" and ?G = "Grp \<lparr> gi_header = h, gi_source_range = Some (a, e) \<rparr> kids"
  define hit where "hit x \<longleftrightarrow> (\<exists>y \<in> set (all_groups x). group_range y = Some (ga, ge))" for x
  have e: "a + 24 \<le> e" using layout_le layout_group.hyps(2) by blast
  obtain fk tk where k: "mark_reordered_any ?o kids t = (fk, tk)" by force
  note K = layout_group.IH(1) [OF k, folded hit_def]
  have allG: "set (all_groups ?G) = insert ?G (set (groups_in kids))" by simp
  have mem: "set (groups_in (Group ?G # rest)) = set (all_groups ?G) \<union> set (groups_in rest)" by simp
  define fg where "fg = ((a, e) = (ga, ge) \<or> fk)"
  define tg where "tg = (if fg then insert (a, e) tk else tk)"
  have g: "mark_reordered ?o ?G t = (fg, tg)"
    by (auto simp: k fg_def tg_def touch_def)
  have fg: "fg = (\<exists>x \<in> set (all_groups ?G). group_range x = Some (ga, ge))"
    unfolding allG fg_def using K by simp
  have tg: "t \<subseteq> tg" "\<forall>x \<in> set (all_groups ?G). hit x \<longrightarrow> (\<forall>rng. group_range x = Some rng \<longrightarrow> rng \<in> tg)"
    using K fg unfolding allG tg_def hit_def by auto
  show ?case
  proof (cases fg)
    case True
    have res: "f = True" "t' = tg" using layout_group.prems g True by simp_all
    have at: "a \<le> ga" "ga < e"
    proof -
      have "\<exists>s e'. (ga, ge) = (s, e') \<and> a \<le> s \<and> s < e"
        using True [unfolded fg allG] e layout_group_ranges [OF layout_group.hyps(2)] by fastforce
      then show "a \<le> ga" "ga < e" by auto
    qed
    have no: "\<not> hit x" if "x \<in> set (groups_in rest)" for x
    proof
      assume "hit x"
      then obtain y where y: "y \<in> set (all_groups x)" "group_range y = Some (ga, ge)" by (auto simp: hit_def)
      have "y \<in> set (groups_in rest)" using that y(1) by (rule groups_in_trans)
      then show False using layout_group_ranges [OF layout_group.hyps(3)] at y(2) by fastforce
    qed
    show ?thesis unfolding res mem hit_def [symmetric] using True fg tg no by blast
  next
    case False
    then have r: "mark_reordered_any ?o rest tg = (f, t')" using layout_group.prems g by simp
    note R = layout_group.IH(2) [OF r, folded hit_def]
    show ?thesis unfolding mem hit_def [symmetric] using R False fg tg by blast
  qed
qed

lemma group_order_single:
  "pt_group_orders pt = [(rng, ids)] \<Longrightarrow>
   group_order pt h = (if gi_source_range h = Some rng then Some ids else None)"
  by (cases "gi_source_range h") (auto simp: group_order_def)

lemma unpatched_verbatim: "pt_patches pt = [] \<Longrightarrow> written_verbatim pt d r"
  by (simp add: written_verbatim_def)

lemma write_group_body:
  assumes "group_parse_head \<lparr> cur_data = d, cur_pos = a \<rparr> = Inr (h, e, c)" "a + 24 \<le> e"
    and "length body = e - (a + 24)"
  shows "write_group_header h (of_nat (GROUP_HEADER_SIZE + length body)) @ body = slice a (a + 24) d @ body"
proof -
  have e: "e = a + unat (gh_group_size h)" using group_parse_head_step [OF assms(1)] by simp
  have "GROUP_HEADER_SIZE + length body = unat (gh_group_size h)"
    using assms(2,3) e by (simp add: GROUP_HEADER_SIZE_def)
  then show ?thesis using write_group_header_window [OF assms(1)] by (simp add: window_def)
qed

text \<open>The bytes of a tree in which one group is reordered: the source with that group's body replaced.\<close>

lemma write_reordered_children:
  assumes "layout ctx d a b kids" "b \<le> length d"
    and pt: "pt_patches pt = []" "pt_group_orders pt = [((ga, ge), ids)]"
    and "g \<in> set (groups_in kids)" and ran: "group_range g = Some (ga, ge)"
    and "\<forall>x \<in> set (groups_in kids). g \<in> set (all_groups x) \<longrightarrow> (\<forall>rng. group_range x = Some rng \<longrightarrow> rng \<in> T)"
    and body: "write_ordered pt d (direct_records g) ids = Inr body" "length body = ge - (ga + 24)"
  shows "write_patched_children pt d T kids = Inr (slice a (ga + 24) d @ body @ slice ge b d)"
  using assms(1,2,5,7)
proof (induction a b kids rule: layout.induct)
  case (layout_done a)
  then show ?case by simp
next
  case (layout_record a r m b rest)
  note m = layout_record_bounds [OF layout_record.hyps(1)]
  have g: "g \<in> set (groups_in rest)" using layout_record.prems(2) by simp
  have ga: "m \<le> ga + 24" using layout_group_ranges [OF layout_record.hyps(2) g] ran by auto
  have "write_patched_record pt d (r\<lparr> rec_source_range := Some (a, m) \<rparr>) = Inr (slice a m d)"
    using m by (intro write_patched_record_verbatim unpatched_verbatim pt(1)) simp_all
  then show ?case using layout_record.IH layout_record.prems g m ga slice_append [of a m "ga + 24" d]
    by (simp add: append_assoc [symmetric] del: append_assoc)
next
  case (layout_group a h e kids b rest)
  let ?h = "\<lparr> gi_header = h, gi_source_range = Some (a, e) \<rparr>"
  let ?G = "Grp ?h kids"
  have e: "a + 24 \<le> e" "e \<le> b" using layout_le layout_group.hyps(2,3) by blast+
  have len: "e \<le> length d" using e layout_group.prems(1) by simp
  have verb: "write_patched_children pt d T ks = Inr (slice s t d)"
    if "layout ctx d s t ks" "t \<le> length d" "\<forall>x \<in> set (groups_in ks). group_range x \<noteq> Some (ga, ge)" for s t ks
    using that by (intro write_children_verbatim) (auto simp: unpatched_verbatim pt(1) group_order_single [OF pt(2)])
  have out: "group_range x \<noteq> Some (ga, ge)" if "x \<in> set (groups_in rest)" "ga < e" for x
    using layout_group_ranges [OF layout_group.hyps(3)] that by fastforce
  consider "g \<in> set (all_groups ?G)" | "g \<in> set (groups_in rest)" "g \<notin> set (all_groups ?G)"
    using layout_group.prems(2) by auto
  then show ?case
  proof cases
    case 1
    then have walk: "needs_walk T ?h" using layout_group.prems(3) by (auto simp: needs_walk_def)
    have at: "a \<le> ga" "ga < e" "ga + 24 \<le> ge" "ge \<le> e"
      using 1 e ran layout_group_ranges [OF layout_group.hyps(2)] by fastforce+
    have rest: "write_patched_children pt d T rest = Inr (slice e b d)"
      using layout_group.hyps(3) layout_group.prems(1) out at(2) by (intro verb) auto
    have grp: "write_patched_group pt d T ?G = Inr (slice a (ga + 24) d @ body @ slice ge e d)"
    proof (cases "(a, e) = (ga, ge)")
      case True
      have "g = ?G"
      proof (rule ccontr)
        assume "g \<noteq> ?G"
        then have "g \<in> set (groups_in kids)" using 1 by simp
        then show False using layout_group_ranges [OF layout_group.hyps(2)] ran True by fastforce
      qed
      then show ?thesis
        using body walk True write_group_body [OF layout_group.hyps(1) e(1), of body]
        by (simp add: group_order_single [OF pt(2)] del: of_nat_add)
    next
      case False
      then have g: "g \<in> set (groups_in kids)" using 1 ran by auto
      have ga: "a + 24 \<le> ga" using layout_group_ranges [OF layout_group.hyps(2) g] ran by auto
      let ?b = "slice (a + 24) (ga + 24) d @ body @ slice ge e d"
      have kids: "write_patched_children pt d T kids = Inr ?b"
        by (rule layout_group.IH(1) [OF len g]) (use layout_group.prems(3) in auto)
      have "length ?b = e - (a + 24)" using at ga len body(2) by simp
      then show ?thesis
        using kids walk False write_group_body [OF layout_group.hyps(1) e(1), of ?b] slice_append [of a "a + 24" "ga + 24" d] ga
        by (simp add: group_order_single [OF pt(2)] append_assoc [symmetric] del: append_assoc of_nat_add length_append)
    qed
    show ?thesis using grp rest slice_append [of ge e b d] at e by (simp del: write_patched_group.simps)
  next
    case 2
    have ga: "e \<le> ga" using layout_group_ranges [OF layout_group.hyps(3) 2(1)] ran by auto
    have "\<forall>x \<in> set (all_groups ?G). group_range x \<noteq> Some (ga, ge)"
      using layout_group_ranges [OF layout_group.hyps(2)] ga e by fastforce
    then have "write_patched_children pt d T [Group ?G] = Inr (slice a e d)"
      using len by (intro verb layout.layout_group [OF layout_group.hyps(1,2) layout_done]) simp_all
    then have "write_patched_group pt d T ?G = Inr (slice a e d)"
      by (simp del: write_patched_group.simps)
    moreover have "write_patched_children pt d T rest = Inr (slice e (ga + 24) d @ body @ slice ge b d)"
      by (rule layout_group.IH(2) [OF layout_group.prems(1) 2(1)]) (use layout_group.prems(3) in auto)
    ultimately show ?thesis using ga e slice_append [of a e "ga + 24" d]
      by (simp add: append_assoc [symmetric] del: append_assoc write_patched_group.simps)
  qed
qed

text \<open>The records of a group that holds records only, in the layout.\<close>

definition record_span :: "bytes \<Rightarrow> main_record \<Rightarrow> bytes" where
  "record_span d r = (case record_source_bytes d r of None \<Rightarrow> [] | Some b \<Rightarrow> b)"

lemma layout_records:
  "layout ctx d a b kids \<Longrightarrow> kids = map Record rs \<Longrightarrow> b \<le> length d \<Longrightarrow>
   concat (map (record_span d) rs) = slice a b d \<and> (\<forall>r \<in> set rs. record_source_bytes d r \<noteq> None)"
proof (induction a b kids arbitrary: rs rule: layout.induct)
  case (layout_record a r m b rest)
  let ?r = "r\<lparr> rec_source_range := Some (a, m) \<rparr>"
  obtain qs where rs: "rs = ?r # qs" "rest = map Record qs" using layout_record.prems(1) by auto
  note m = layout_record_bounds [OF layout_record.hyps(1)]
  have "m \<le> b" using layout_le [OF layout_record.hyps(2)] .
  then show ?case using layout_record.IH [OF rs(2) layout_record.prems(2)] m
    by (simp add: rs(1) record_span_def record_source_bytes_def get_range_def slice_append)
qed auto

lemma layout_group_inside:
  "layout ctx d a b kids \<Longrightarrow> g \<in> set (groups_in kids) \<Longrightarrow>
   \<exists>s e. group_range g = Some (s, e) \<and> layout ctx d (s + 24) e (grp_children g) \<and> e \<le> b"
proof (induction a b kids rule: layout.induct)
  case (layout_group a h e kids b rest)
  have "e \<le> b" using layout_le layout_group.hyps(3) by blast
  then show ?case using layout_group by auto (use order_trans in blast)
qed auto

lemma write_ordered_permutation:
  assumes "pt_patches pt = []" "\<forall>r \<in> set rs. record_source_bytes d r \<noteq> None" "set ids \<subseteq> record_fid ` set rs"
  shows "write_ordered pt d rs ids =
    Inr (concat (map (\<lambda>f. record_span d (the (find (\<lambda>r. record_fid r = f) rs))) ids))"
  using assms(3)
proof (induction ids)
  case (Cons f fs)
  obtain r where r: "find (\<lambda>r. record_fid r = f) rs = Some r"
    using Cons.prems by (cases "find (\<lambda>r. record_fid r = f) rs") (auto simp: find_None_iff)
  then have "r \<in> set rs" by (auto simp: find_Some_iff)
  then obtain b where "record_source_bytes d r = Some b" using assms(2) by auto
  then show ?case using r Cons assms(1) by (simp add: write_patched_record_def record_span_def)
qed simp

lemma find_by_fid:
  "distinct (map record_fid rs) \<Longrightarrow> r \<in> set rs \<Longrightarrow> find (\<lambda>q. record_fid q = record_fid r) rs = Some r"
  by (induction rs) (auto simp: image_iff)

lemma permuted_length:
  assumes "distinct (map record_fid rs)" "mset ids = mset (map record_fid rs)"
  shows "length (concat (map (\<lambda>f. record_span d (the (find (\<lambda>r. record_fid r = f) rs))) ids)) =
    length (concat (map (record_span d) rs))"
proof -
  let ?s = "\<lambda>f. record_span d (the (find (\<lambda>r. record_fid r = f) rs))"
  have eq: "map ?s (map record_fid rs) = map (record_span d) rs"
    using find_by_fid [OF assms(1)] by simp
  have "sum_list (map length (map ?s (map record_fid rs))) = sum_list (map length (map (record_span d) rs))"
    by (simp only: eq)
  moreover have "sum_mset (mset (map length (map ?s ids))) = sum_mset (mset (map length (map ?s (map record_fid rs))))"
    unfolding mset_map assms(2) ..
  ultimately show ?thesis unfolding length_concat sum_mset_sum_list by (rule trans [rotated])
qed


lemma patcher_touched_single:
  assumes "layout ctx d e b (map Group (pl_groups (pt_plugin pt)))" "pt_group_orders pt = [((ga, ge), ids)]"
    and "g \<in> set (groups_in (map Group (pl_groups (pt_plugin pt))))" "group_range g = Some (ga, ge)"
  shows "\<forall>x \<in> set (groups_in (map Group (pl_groups (pt_plugin pt)))).
    g \<in> set (all_groups x) \<longrightarrow> (\<forall>rng. group_range x = Some rng \<longrightarrow> rng \<in> patcher_touched pt)"
proof -
  let ?o = "[((ga, ge), ids)]"
  define step where "step t G = snd (mark_reordered ?o G (snd (mark_touched (pt_patches pt) G t)))" for t G
  have touched: "patcher_touched pt = foldl step {} (pl_groups (pt_plugin pt))"
    by (simp add: patcher_touched_def assms(2) step_def [abs_def])
  have reach: "t \<subseteq> step t G \<and> (\<forall>x \<in> set (all_groups G). g \<in> set (all_groups x) \<longrightarrow>
      (\<forall>rng. group_range x = Some rng \<longrightarrow> rng \<in> step t G))"
    if l: "layout ctx d u v [Group G]" for t G u v
  proof -
    obtain f1 t1 where t1: "mark_touched (pt_patches pt) G t = (f1, t1)" by force
    obtain f2 t2 where t2: "mark_reordered ?o G t1 = (f2, t2)" by force
    have "mark_reordered_any ?o [Group G] t1 = (f2, t2)" by (cases f2) (simp_all add: t2)
    from mark_reordered_layout [OF l this] mark_touched_spec(2) [OF t1] assms(4)
    show ?thesis unfolding step_def t1 t2 snd_conv by auto
  qed
  have main: "t \<subseteq> foldl step t gs \<and> (\<forall>x \<in> set (groups_in (map Group gs)). g \<in> set (all_groups x) \<longrightarrow>
      (\<forall>rng. group_range x = Some rng \<longrightarrow> rng \<in> foldl step t gs))"
    if "layout ctx d u v (map Group gs)" for t gs u v
    using that
  proof (induction gs arbitrary: t u)
    case (Cons G gs)
    from Cons.prems obtain m where "layout ctx d u m [Group G]" "layout ctx d m v (map Group gs)"
      by (auto elim!: layout_GroupE intro!: layout.layout_group layout_done)
    then show ?case using reach [of u m G t] Cons.IH [of m "step t G"] by auto
  qed simp
  show ?thesis using main [OF assms(1), of "{}"] unfolding touched by blast
qed

text \<open>
  C18: Registering one order on a freshly made patcher and writing. When
  \<open>reorder_group_records\<close> accepts an order for a group of a parsed plugin, at any depth, the written
  plugin is the updated header followed by the source groups with that group's records rearranged in the
  given order: every other byte stays, each record keeps its bytes, and every size field is unchanged.
\<close>

theorem reorder_moves_records:
  assumes "plugin_from_bytes inflate ctx d = Inr p" "length d \<le> isize_max"
    and "g \<in> set (groups_in (map Group (pl_groups p)))"
    and "reorder_group_records g ids (patcher_new p) = Inr pt"
  shows "\<exists>ga ge. group_range g = Some (ga, ge) \<and>
    (let e = snd (pl_header_range p);
         moved = concat (map (\<lambda>f. record_span d (the (find (\<lambda>r. record_fid r = f) (direct_records g)))) ids)
     in length moved = ge - (ga + 24) \<and>
        patcher_write_to inflate pt =
          bindr (write_updated inflate p None) (\<lambda>header.
            Inr (header @ slice e (ga + 24) d @ moved @ drop ge d)))"
proof -
  obtain e where e: "pl_header_range p = (0, e)" "pl_source p = d"
    and l: "layout ctx d e (length d) (map Group (pl_groups p))"
    using plugin_layout [OF assms(1,2)] by metis
  from assms(4) obtain rng rs where r: "group_range g = Some rng" "grp_children g = map Record rs"
      "distinct (map record_fid rs)" "mset ids = mset (map record_fid rs)"
    and pt: "pt = (patcher_new p)\<lparr> pt_group_orders := [(rng, ids)] \<rparr>"
    by (auto simp: reorder_Inr patcher_new_def)
  obtain ga ge where rng: "rng = (ga, ge)" by (cases rng)
  have dr: "direct_records g = rs"
    by (simp add: direct_records_def r(2) map_filter_map_filter comp_def) (simp add: map_filter_def comp_def)
  let ?moved = "concat (map (\<lambda>f. record_span d (the (find (\<lambda>r. record_fid r = f) rs))) ids)"
  have inside: "layout ctx d (ga + 24) ge (map Record rs)" "ge \<le> length d"
    using layout_group_inside [OF l assms(3)] r(1,2) rng by auto
  note recs = layout_records [OF inside(1) refl inside(2)]
  have len: "length ?moved = ge - (ga + 24)"
    unfolding permuted_length [OF r(3,4)] using recs inside(2) by simp
  have "set ids = record_fid ` set rs" using r(4) by (metis list.set_map mset_eq_setD)
  then have body: "write_ordered pt d (direct_records g) ids = Inr ?moved"
    unfolding dr using recs by (intro write_ordered_permutation) (auto simp: pt patcher_new_def)
  have P: "pt_patches pt = []" "pt_group_orders pt = [((ga, ge), ids)]" "pt_plugin pt = p" "pt_header_patch pt = None"
    by (simp_all add: pt patcher_new_def rng)
  have cov: "\<forall>x \<in> set (groups_in (map Group (pl_groups p))).
      g \<in> set (all_groups x) \<longrightarrow> (\<forall>rng. group_range x = Some rng \<longrightarrow> rng \<in> patcher_touched pt)"
    using patcher_touched_single [of ctx d e "length d" pt ga ge ids g] l assms(3) r(1) P rng by simp
  have gg: "g \<in> set (all_groups g)" by (cases g) simp
  then have ne: "patcher_touched pt \<noteq> {}" using cov assms(3) r(1) by blast
  have "write_patched_groups pt d (patcher_touched pt) (pl_groups p) = Inr (slice e (ga + 24) d @ ?moved @ slice ge (length d) d)"
    unfolding write_patched_groups_children
    using write_reordered_children [OF l order_refl P(1,2) assms(3) _ cov body len] r(1) rng by simp
  then have "patcher_write_to inflate pt = bindr (write_updated inflate p None) (\<lambda>header.
      Inr (header @ slice e (ga + 24) d @ ?moved @ drop ge d))"
    using ne by (simp add: patcher_write_to_def Let_def P e slice_def)
  then show ?thesis using len r(1) rng e by (simp add: dr Let_def)
qed

text \<open>
  C19: The \<open>any\<close> in \<open>mark_reordered\<close> stops at the first reordered child. When two
  sibling groups both have a registered order, only the first and the parent are marked, and writing
  copies the second group from the source: its registered order is lost without an error.
\<close>

theorem reorder_forgets_sibling:
  fixes h1 h2 :: group_header and rs1 rs2 :: "main_record list"
  assumes "r2 \<noteq> r1" "r2 \<noteq> r0" "pt_group_orders pt = [(r1, o1), (r2, o2)]"
  defines "g1 \<equiv> Grp \<lparr> gi_header = h1, gi_source_range = Some r1 \<rparr> (map Record rs1)"
    and "g2 \<equiv> Grp \<lparr> gi_header = h2, gi_source_range = Some r2 \<rparr> (map Record rs2)"
  shows "mark_reordered (pt_group_orders pt) (Grp \<lparr> gi_header = h0, gi_source_range = Some r0 \<rparr> [Group g1, Group g2]) {} =
      (True, {r0, r1}) \<and>
    map_of (pt_group_orders pt) r2 = Some o2 \<and>
    write_patched_group pt source {r0, r1} g2 = ok_or (UnexpectedEof ''group source range'') (get_range r2 source)"
proof -
  have "mark_reordered_any os (map Record rs) t = (False, t)" for os rs t
    by (induction rs) simp_all
  then show ?thesis using assms(1-3)
    by (auto simp: g1_def g2_def touch_def needs_walk_def group_source_bytes_def)
qed

subsection \<open>The counters of the header\<close>

lemma checked_inc_spec:
  "checked_inc n = (if unat n + 1 < 2 ^ 32 then Inr (n + 1) else Inl count_overflow)"
  "unat n + 1 < 2 ^ 32 \<Longrightarrow> unat (n + 1 :: u32) = unat n + 1"
proof -
  have m: "unat (- 1 :: u32) = 2 ^ 32 - 1" by (simp add: unsigned_minus_1_eq_mask mask_eq_exp_minus_1)
  have b: "unat n < 2 ^ 32" using unat_u32_bound [of n] by simp
  have "n = - 1 \<longleftrightarrow> unat n = 2 ^ 32 - 1" unfolding m [symmetric] by (rule word_unat_eq_iff)
  then show "checked_inc n = (if unat n + 1 < 2 ^ 32 then Inr (n + 1) else Inl count_overflow)"
    using b by (auto simp: checked_inc_def)
  show "unat n + 1 < 2 ^ 32 \<Longrightarrow> unat (n + 1 :: u32) = unat n + 1"
    by (simp add: unat_word_ariths)
qed

text \<open>What the counters mean for the records \<open>rs\<close> met so far.\<close>

definition next_id_ok :: "nat \<Rightarrow> main_record list \<Rightarrow> u32 \<Rightarrow> u32 \<Rightarrow> bool" where
  "next_id_ok own rs n0 n \<longleftrightarrow> n0 \<le> n \<and>
     (\<forall>r \<in> set rs. unat (file_index (record_fid r)) = own \<longrightarrow> object_id (record_fid r) < n) \<and>
     (n = n0 \<or> (\<exists>r \<in> set rs. unat (file_index (record_fid r)) = own \<and> n = object_id (record_fid r) + 1))"

lemma object_id_lt: "object_id f < object_id f + 1"
proof -
  have "unat (object_id f) < 2 ^ 24"
  proof -
    have "object_id f \<le> 0xFFFFFF" unfolding object_id_def by (rule word_and_le1)
    then show ?thesis by (simp add: word_le_nat_alt)
  qed
  then show ?thesis by (simp add: word_less_nat_alt unat_word_ariths)
qed

lemma next_id_ok_step:
  "next_id_ok own rs n0 n \<Longrightarrow>
   next_id_ok own (r # rs) n0 (if unat (file_index (record_fid r)) = own then max n (object_id (record_fid r) + 1) else n)"
  using object_id_lt [of "record_fid r"]
  by (auto simp: next_id_ok_def max_def not_le intro: order_less_le_trans order_trans less_imp_le)

lemma next_id_ok_set: "set rs = set qs \<Longrightarrow> next_id_ok own rs n0 n \<longleftrightarrow> next_id_ok own qs n0 n"
  by (simp add: next_id_ok_def)

lemma count_records_step_spec:
  "next_id_ok own qs n0 n \<Longrightarrow>
   (case count_records_step own rs (c, n) of
      Inl e \<Rightarrow> 2 ^ 32 \<le> unat c + length rs
    | Inr (c', n') \<Rightarrow> unat c' = unat c + length rs \<and> next_id_ok own (rs @ qs) n0 n')"
proof (induction rs arbitrary: c n qs)
  case (Cons r rs)
  show ?case
  proof (cases "unat c + 1 < 2 ^ 32")
    case True
    let ?n = "if unat (file_index (record_fid r)) = own then max n (object_id (record_fid r) + 1) else n"
    have "next_id_ok own (rs @ r # qs) n0 m \<longleftrightarrow> next_id_ok own ((r # rs) @ qs) n0 m" for m
      by (rule next_id_ok_set) auto
    moreover have "count_records_step own (r # rs) (c, n) = count_records_step own rs (c + 1, ?n)"
      using True by (simp add: checked_inc_spec(1))
    ultimately show ?thesis
      using Cons.IH [of "r # qs" ?n "c + 1", OF next_id_ok_step [OF Cons.prems]] checked_inc_spec(2) [OF True]
      by (cases "count_records_step own rs (c + 1, ?n)") (simp_all only: sum.case split_beta length_Cons, simp_all)
  qed (simp add: checked_inc_spec(1))
qed simp

lemma records_direct: "set (grp_records g) = set (direct_records g) \<union> set (concat (map grp_records (direct_groups g)))"
proof -
  have "set (concat (map child_records cs)) =
      set (List.map_filter (\<lambda>c. case c of Record r \<Rightarrow> Some r | Group _ \<Rightarrow> None) cs) \<union>
      set (concat (map grp_records (List.map_filter (\<lambda>c. case c of Record _ \<Rightarrow> None | Group s \<Rightarrow> Some s) cs)))"
    for cs :: "('a, 'b) child list"
    by (induction cs) (auto simp: map_filter_simps split: child.splits)
  then show ?thesis by (cases g) (simp add: direct_records_def direct_groups_def)
qed

lemma count_loop_spec:
  "next_id_ok own qs n0 (snd st) \<Longrightarrow>
   (case count_loop own stack st of
      Inl e \<Rightarrow> 2 ^ 32 \<le> unat (fst st) + sum_list (map group_nodes stack)
    | Inr (c', n') \<Rightarrow> unat c' = unat (fst st) + sum_list (map group_nodes stack) \<and>
        next_id_ok own (concat (map grp_records stack) @ qs) n0 n')"
proof (induction own stack st arbitrary: qs rule: count_loop.induct)
  case (1 own st)
  then show ?case by (cases st) simp
next
  case (2 own g stack c n)
  show ?case
  proof (cases "unat c + 1 < 2 ^ 32")
    case False
    then show ?thesis by (simp add: checked_inc_spec(1) group_nodes_direct)
  next
    case inc: True
    have c1: "checked_inc c = Inr (c + 1)" using inc by (simp add: checked_inc_spec(1))
    note S = count_records_step_spec [where rs = "direct_records g" and c = "c + 1", OF "2.prems" [unfolded snd_conv]]
    show ?thesis
    proof (cases "count_records_step own (direct_records g) (c + 1, n)")
      case (Inl e)
      then show ?thesis using S checked_inc_spec(2) [OF inc] by (simp add: c1 group_nodes_direct)
    next
      case (Inr st')
      obtain c' n' where st': "st' = (c', n')" by (cases st')
      have n': "unat c' = unat c + 1 + length (direct_records g)" "next_id_ok own (direct_records g @ qs) n0 n'"
        using S checked_inc_spec(2) [OF inc] Inr st' by auto
      have same: "next_id_ok own (concat (map grp_records (rev (direct_groups g) @ stack)) @ direct_records g @ qs) n0 m =
          next_id_ok own (concat (map grp_records (g # stack)) @ qs) n0 m" for m
        by (rule next_id_ok_set) (simp add: records_direct [of g] Un_ac)
      have nodes: "sum_list (map group_nodes (rev (direct_groups g) @ stack)) + length (direct_records g) + 1 =
          sum_list (map group_nodes (g # stack))"
        by (simp add: group_nodes_direct rev_map [symmetric])
      have loop: "count_loop own (g # stack) (c, n) = count_loop own (rev (direct_groups g) @ stack) (c', n')"
        using c1 Inr st' by simp
      note IH = 2(1) [OF c1 Inr, of "direct_records g @ qs", unfolded st' snd_conv fst_conv, OF n'(2), unfolded same]
      show ?thesis
      proof (cases "count_loop own (rev (direct_groups g) @ stack) (c', n')")
        case (Inl e)
        have "2 ^ 32 \<le> unat c' + sum_list (map group_nodes (rev (direct_groups g) @ stack))"
          using IH unfolding Inl sum.case .
        then have "2 ^ 32 \<le> unat c + sum_list (map group_nodes (g # stack))"
          using n'(1) nodes by linarith
        then show ?thesis unfolding loop Inl sum.case fst_conv .
      next
        case (Inr p)
        obtain c2 n2 where p: "p = (c2, n2)" by (cases p)
        have "unat c2 = unat c' + sum_list (map group_nodes (rev (direct_groups g) @ stack))"
          and ok: "next_id_ok own (concat (map grp_records (g # stack)) @ qs) n0 n2"
          using IH unfolding Inr p sum.case prod.case by blast+
        then have "unat c2 = unat c + sum_list (map group_nodes (g # stack))"
          using n'(1) nodes by linarith
        with ok show ?thesis unfolding loop Inr p sum.case prod.case fst_conv by blast
      qed
    qed
  qed
qed

text \<open>
  C20: The counters the header update computes: it fails exactly when the number of
  groups and records exceeds 32 bits; otherwise the record count is that number (every GRUP and every
  record at any depth, once), and the next object id is at least the old one, above the object id of
  every record of the plugin itself, and no larger than needed for that.
\<close>

theorem header_counters_exact:
  "case count_loop own (rev gs) (0, n0) of
     Inl e \<Rightarrow> 2 ^ 32 \<le> sum_list (map group_nodes gs)
   | Inr (records, next_id) \<Rightarrow>
       unat records = sum_list (map group_nodes gs) \<and>
       n0 \<le> next_id \<and>
       (\<forall>r \<in> set (concat (map grp_records gs)).
          unat (file_index (record_fid r)) = own \<longrightarrow> object_id (record_fid r) < next_id) \<and>
       (next_id = n0 \<or> (\<exists>r \<in> set (concat (map grp_records gs)).
          unat (file_index (record_fid r)) = own \<and> next_id = object_id (record_fid r) + 1))"
proof -
  have start: "next_id_ok own [] n0 (snd (0, n0))" by (simp add: next_id_ok_def)
  have sum: "sum_list (map group_nodes (rev gs)) = sum_list (map group_nodes gs)"
    by (simp add: rev_map [symmetric])
  have "next_id_ok own (concat (map grp_records (rev gs)) @ []) n0 m \<longleftrightarrow> next_id_ok own (concat (map grp_records gs)) n0 m" for m
    by (rule next_id_ok_set) simp
  then show ?thesis using count_loop_spec [OF start, of "rev gs"] unfolding sum
    by (auto simp: next_id_ok_def split: sum.splits)
qed

subsection \<open>A sample\<close>

text \<open>A plugin with one group of two records, its group as parsed, and a patcher for it.\<close>

lemma parse_groups_reread:
  assumes "list_all wf_wgroup gs" "wf_cursor (cursor_at pre (concat (map write_group gs)))"
  shows "\<exists>out. parse_groups ctx (cursor_at pre (concat (map write_group gs))) = Inr out \<and>
    map Group out = reread_children (length pre) (map Group gs)"
  using assms
proof (induction gs arbitrary: pre)
  case Nil
  then show ?case by (subst parse_groups.simps) simp
next
  case (Cons g gs)
  obtain h cs where g: "g = Grp h cs" by (cases g)
  have "wf_cursor (cursor_at (pre @ write_group g) (concat (map write_group gs)))"
    using Cons.prems(2) by (simp add: wf_cursor_at)
  then obtain out where out: "parse_groups ctx (cursor_at (pre @ write_group g) (concat (map write_group gs))) = Inr out"
    "map Group out = reread_children (length (pre @ write_group g)) (map Group gs)"
    using Cons.IH [of "pre @ write_group g"] Cons.prems(1) by auto
  have gp: "group_parse ctx (cursor_at pre (write_group g @ concat (map write_group gs))) =
      Inr (Grp ((grp_head (reread_group (length pre) g))\<lparr> gi_source_range := None \<rparr>)
             (grp_children (reread_group (length pre) g)),
           cursor_at (pre @ write_group g) (concat (map write_group gs)))"
    using Cons.prems by (intro group_parse_write_group) simp_all
  have ne: "write_group g \<noteq> []" by (simp add: g group_frame_def ascii_GRUP)
  have "set_group_range (length pre, length pre + length (write_group g))
      (Grp ((grp_head (reread_group (length pre) g))\<lparr> gi_source_range := None \<rparr>)
             (grp_children (reread_group (length pre) g))) = reread_group (length pre) g"
    by (simp add: set_group_range_def g)
  then show ?case using out gp ne by (subst parse_groups.simps) simp
qed

definition flat_writer :: plugin_writer where
  "flat_writer =
     \<lparr> pw_ctx = ctx_sse, pw_header = \<lparr> wh_masters = [], wh_description = None, wh_version = 0x3FD9999A \<rparr>,
       pw_groups = [Grp \<lparr> wg_label = SIG_EDID, wg_group_type = 0 \<rparr>
         [Record (sample_record 0x800 [65]), Record (sample_record 0x801 [66])]],
       pw_light_flag_set = False, pw_localized = False \<rparr>"

definition flat_group :: group where
  "flat_group = reread_group (length (write_tes4 flat_writer)) (hd (pw_groups flat_writer))"

lemma wf_flat_writer: "wf_writer flat_writer"
  by (simp add: wf_writer_def flat_writer_def wf_sample_record length_sample_record
      group_type_from_raw_def tes4_sub_records_def hedr_sub_record_def master_sub_records_def write_to_vec_def
      write_tes4_def group_frame_def write_sub_records_def length_write_sub_record sub_header_len_def isize_max_def)

lemma flat_plugin:
  "\<exists>p. plugin_from_bytes Inr ctx_sse (write_to_vec flat_writer) = Inr p \<and> pl_groups p = [flat_group] \<and>
     length (write_to_vec flat_writer) \<le> isize_max"
proof -
  let ?w = flat_writer and ?gs = "concat (map write_group (pw_groups flat_writer))"
  have wf: "wf_cursor (cursor_at [] (write_tes4 ?w @ ?gs))" "wf_cursor (cursor_at (write_tes4 ?w) ?gs)"
    "list_all wf_wgroup (pw_groups ?w)"
    using wf_flat_writer by (simp_all add: wf_writer_def wf_cursor_at write_to_vec_def)
  obtain r where h: "plugin_header_parse Inr (pw_ctx ?w) (cursor_at [] (write_tes4 ?w @ ?gs)) =
      Inr (expected_header ?w r, cursor_at (write_tes4 ?w) ?gs)"
    using header_parse_written [OF wf_flat_writer wf(1)] by blast
  obtain out where g: "parse_groups (pw_ctx ?w) (cursor_at (write_tes4 ?w) ?gs) = Inr out"
    "map Group out = reread_children (length (write_tes4 ?w)) (map Group (pw_groups ?w))"
    using parse_groups_reread [OF wf(3,2)] by blast
  have "out = [flat_group]" using g(2) by (auto simp: flat_group_def flat_writer_def)
  moreover have "pw_ctx ?w = ctx_sse" by (simp add: flat_writer_def)
  moreover have "length (write_to_vec ?w) \<le> isize_max" using wf_flat_writer by (simp add: wf_writer_def)
  ultimately show ?thesis using h g(1)
    by (simp add: plugin_from_bytes_def plugin_parse_bytes_def cursor_new_at write_to_vec_def)
qed

lemma flat_group_parts:
  "group_range flat_group \<noteq> None"
  "direct_records flat_group = grp_records flat_group"
  "map record_fid (direct_records flat_group) = [FormId 0x800, FormId 0x801]"
  "\<exists>a b. grp_children flat_group = [Record a, Record b] \<and> record_fid a = FormId 0x800 \<and> record_fid b = FormId 0x801"
  by (auto simp: flat_group_def flat_writer_def direct_records_def reread_record_def sample_record_def map_filter_simps)

theorem untouched_groups_equal_rebuilt_witness:
  "\<exists>p. plugin_from_bytes Inr ctx_sse (write_to_vec flat_writer) = Inr p \<and>
     (let pt = replace_record (FormId 0x801) (RawBytes [1, 2, 3]) (patcher_new p)
      in write_patched_groups pt (write_to_vec flat_writer) (patcher_touched pt) [flat_group] =
         rebuild_children pt (write_to_vec flat_writer) [Group flat_group])"
proof -
  obtain p where p: "plugin_from_bytes Inr ctx_sse (write_to_vec flat_writer) = Inr p"
    "pl_groups p = [flat_group]" "length (write_to_vec flat_writer) \<le> isize_max"
    using flat_plugin by blast
  let ?pt = "replace_record (FormId 0x801) (RawBytes [1, 2, 3]) (patcher_new p)"
  have "pt_plugin ?pt = p" "pt_group_orders ?pt = []" by (simp_all add: replace_record_def patcher_new_def)
  then show ?thesis using untouched_groups_equal_rebuilt [of Inr ctx_sse _ ?pt] p by (auto simp: Let_def)
qed

theorem verbatim_patches_are_identity_witness:
  "\<exists>p patch. plugin_from_bytes Inr ctx_sse (write_to_vec flat_writer) = Inr p \<and>
     patch_from_verbatim (hd (plugin_records p)) (write_to_vec flat_writer) = Some patch \<and>
     write_patched_groups (replace_record (FormId 0x800) patch (patcher_new p)) (write_to_vec flat_writer)
       (patcher_touched (replace_record (FormId 0x800) patch (patcher_new p))) [flat_group] =
     Inr (drop (snd (pl_header_range p)) (write_to_vec flat_writer))"
proof -
  let ?d = "write_to_vec flat_writer"
  obtain p where p: "plugin_from_bytes Inr ctx_sse ?d = Inr p" "pl_groups p = [flat_group]" "length ?d \<le> isize_max"
    using flat_plugin by blast
  have recs: "\<exists>a b. plugin_records p = [a, b] \<and> record_fid a = FormId 0x800 \<and> record_fid b = FormId 0x801 \<and>
      record_source_bytes ?d a \<noteq> None"
    by (auto simp: plugin_records_def p(2) flat_group_def flat_writer_def reread_record_def sample_record_def
        record_source_bytes_def get_range_def length_sample_record write_to_vec_def group_frame_def split: option.splits)
  obtain a b x where ab: "plugin_records p = [a, b]" "record_fid a = FormId 0x800" "record_fid b = FormId 0x801"
    and x: "patch_from_verbatim a ?d = Some x"
    using recs by (auto simp: patch_from_verbatim_def)
  let ?pt = "replace_record (FormId 0x800) x (patcher_new p)"
  have pt: "pt_plugin ?pt = p" "pt_group_orders ?pt = []" "pt_patches ?pt = [(FormId 0x800, x)]"
    by (simp_all add: replace_record_def patcher_new_def)
  have "write_patched_groups ?pt ?d (patcher_touched ?pt) [flat_group] = Inr (drop (snd (pl_header_range p)) ?d)"
    using verbatim_patches_are_identity [of Inr ctx_sse ?d ?pt "patcher_touched ?pt"] pt p ab x by simp
  then show ?thesis using p(1) ab x by auto
qed

lemma self_in_all_groups: "g \<in> set (all_groups g)"
  by (cases g) simp

theorem reorder_moves_records_witness:
  "\<exists>p pt ga ge. plugin_from_bytes Inr ctx_sse (write_to_vec flat_writer) = Inr p \<and>
     reorder_group_records flat_group [FormId 0x801, FormId 0x800] (patcher_new p) = Inr pt \<and>
     group_range flat_group = Some (ga, ge) \<and>
     patcher_write_to Inr pt = bindr (write_updated Inr p None) (\<lambda>header.
       Inr (header @ slice (snd (pl_header_range p)) (ga + 24) (write_to_vec flat_writer) @
            record_span (write_to_vec flat_writer) (direct_records flat_group ! 1) @
            record_span (write_to_vec flat_writer) (direct_records flat_group ! 0) @
            drop ge (write_to_vec flat_writer)))"
proof -
  let ?d = "write_to_vec flat_writer"
  obtain p where p: "plugin_from_bytes Inr ctx_sse ?d = Inr p" "pl_groups p = [flat_group]" "length ?d \<le> isize_max"
    using flat_plugin by blast
  obtain a b where ab: "grp_children flat_group = [Record a, Record b]" "record_fid a = FormId 0x800" "record_fid b = FormId 0x801"
    using flat_group_parts(4) by blast
  obtain rng where rng: "group_range flat_group = Some rng" using flat_group_parts(1) by blast
  obtain pt where pt: "reorder_group_records flat_group [FormId 0x801, FormId 0x800] (patcher_new p) = Inr pt"
    using ab rng by (simp add: reorder_group_records_def)
  have mem: "flat_group \<in> set (groups_in (map Group (pl_groups p)))" using self_in_all_groups [of flat_group] by (simp add: p(2))
  have recs: "direct_records flat_group = [a, b]" 
    using ab by (simp add: direct_records_def map_filter_simps)
  show ?thesis
    using reorder_moves_records [OF p(1,3) mem pt] p(1) pt rng
    by (auto simp: recs ab Let_def)
qed

theorem reorder_forgets_sibling_witness:
  "mark_reordered [((24, 48), []), ((48, 72), [])]
     (Grp \<lparr> gi_header = gi_header (grp_head flat_group), gi_source_range = Some (0, 72) \<rparr>
       [Group (Grp \<lparr> gi_header = gi_header (grp_head flat_group), gi_source_range = Some (24, 48) \<rparr> []),
        Group (Grp \<lparr> gi_header = gi_header (grp_head flat_group), gi_source_range = Some (48, 72) \<rparr> [])]) {} =
   (True, {(24, 48), (0, 72)})"
  using reorder_forgets_sibling [where ?r2.0 = "(48, 72)" and ?r1.0 = "(24, 48)" and ?r0.0 = "(0, 72)" and ?o1.0 = "[]"
      and ?o2.0 = "[]" and ?h0.0 = "gi_header (grp_head flat_group)" and ?h1.0 = "gi_header (grp_head flat_group)"
      and ?h2.0 = "gi_header (grp_head flat_group)" and ?rs1.0 = "[]" and ?rs2.0 = "[]" and pt = "\<lparr> pt_plugin = undefined,
        pt_patches = [], pt_group_orders = [((24, 48), []), ((48, 72), [])], pt_header_patch = None \<rparr>"]
  by (simp add: insert_commute)

theorem header_counters_exact_witness:
  "count_loop 0 [flat_group] (0, 0x801) = Inr (3, 0x802) \<and>
   (\<exists>r \<in> set (grp_records flat_group). 0x802 = object_id (record_fid r) + 1)"
proof -
  have "count_loop 0 (rev [flat_group]) (0, 0x801) = Inr (3, 0x802)"
    by (simp add: flat_group_def flat_writer_def reread_record_def sample_record_def direct_records_def
        direct_groups_def map_filter_simps checked_inc_def file_index_def object_id_def max_def)
  then show ?thesis using header_counters_exact [where own = "0" and gs = "[flat_group]" and ?n0.0 = "0x801"] by auto
qed

end
