(* ===== verification/ArchiveHash.thy ===== *)
theory ArchiveHash
  imports Prelude
begin

text \<open>
  \<open>bethkit-bsa/src/hash.rs\<close>: the three hash functions of the archive formats, over strings as their
  UTF-8 bytes. Shifts and sums wrap at 32 bits as in the source; the sum of the last line of
  \<open>hash_tes4_file\<close> is taken at 64 bits (it overflows only for names of 65536 bytes or more).
\<close>

subsection \<open>TES3\<close>

fun tes3_high_loop :: "bytes \<Rightarrow> u32 \<Rightarrow> u32 \<Rightarrow> u32" where
  "tes3_high_loop [] acc off = acc"
| "tes3_high_loop (b # bs) acc off =
     (let temp = push_bit (unat (off AND 0x1F)) (ucast b)
      in tes3_high_loop bs (acc XOR temp) (off + 8))"

fun tes3_low_loop :: "bytes \<Rightarrow> u32 \<Rightarrow> u32 \<Rightarrow> u32" where
  "tes3_low_loop [] acc off = acc"
| "tes3_low_loop (b # bs) acc off =
     (let temp = push_bit (unat (off AND 0x1F)) (ucast b);
          n = temp AND 0x1F
      in tes3_low_loop bs (word_rotr (unat n) (acc XOR temp)) (off + 8))"

definition hash_tes3 :: "rstring \<Rightarrow> u64" where
  "hash_tes3 filename =
     (let s = map to_ascii_lowercase filename;
          l = length s div 2;
          hi = push_bit 32 (ucast (tes3_high_loop (take l s) 0 0))
      in hi OR ucast (tes3_low_loop (drop l s) 0 0))"

subsection \<open>TES4\<close>

text \<open>The loop over the interior characters and the one over the extension.\<close>

definition sdbm_step :: "u32 \<Rightarrow> u8 \<Rightarrow> u32" where
  "sdbm_step hash b = ucast b + push_bit 6 hash + push_bit 16 hash - hash"

definition tes4_ext_key :: "bytes \<Rightarrow> u32" where
  "tes4_ext_key e = le_word (take 4 e @ replicate (4 - length e) 0)"

definition tes4_ext_bits :: "u32 \<Rightarrow> u64" where
  "tes4_ext_bits key =
     (if key = 0x00666B2E then 0x80
      else if key = 0x66696E2E then 0x8000
      else if key = 0x7364642E then 0x8080
      else if key = 0x7661772E then 0x80000000
      else 0)"

definition hash_tes4_file :: "rstring \<Rightarrow> rstring \<Rightarrow> u64" where
  "hash_tes4_file name ext =
     (let s = map to_ascii_lowercase name;
          e = map to_ascii_lowercase ext;
          l = length s
      in if l = 0 then 0
         else
           let result = ucast (s ! (l - 1));
               result = (if l > 2 then result OR push_bit 8 (ucast (s ! (l - 2))) else result);
               result = result OR push_bit 16 (of_nat l);
               result = result OR push_bit 24 (ucast (s ! 0));
               result = result OR tes4_ext_bits (tes4_ext_key e);
               hash = (if l > 2 then foldl sdbm_step 0 (slice 1 (l - 2) s) else 0);
               ext_hash = foldl sdbm_step 0 e
           in result + push_bit 32 (ucast (hash + ext_hash)))"

definition hash_tes4_dir :: "rstring \<Rightarrow> u64" where
  "hash_tes4_dir dir_path = hash_tes4_file dir_path []"

text \<open>\<open>str::rfind\<close> of an ASCII character: the position of its last occurrence.\<close>

fun rfind_from :: "u8 \<Rightarrow> nat \<Rightarrow> bytes \<Rightarrow> nat option" where
  "rfind_from c i [] = None"
| "rfind_from c i (b # bs) =
     (case rfind_from c (Suc i) bs of
        Some j \<Rightarrow> Some j
      | None \<Rightarrow> if b = c then Some i else None)"

definition rfind :: "u8 \<Rightarrow> bytes \<Rightarrow> nat option" where
  "rfind c s = rfind_from c 0 s"

definition split_name_ext :: "rstring \<Rightarrow> rstring \<times> rstring" where
  "split_name_ext filename =
     (case rfind 0x2E filename of
        Some pos \<Rightarrow> (take pos filename, drop pos filename)
      | None \<Rightarrow> (filename, []))"

subsection \<open>FO4\<close>

definition crc_step :: "u32 \<Rightarrow> u32" where
  "crc_step c = (if c AND 1 \<noteq> 0 then 0xEDB88320 XOR drop_bit 1 c else drop_bit 1 c)"

definition crc32_table :: "u32 list" where
  "crc32_table = map (\<lambda>i. (crc_step ^^ 8) (of_nat i)) [0..<256]"

definition fo4_char :: "u8 \<Rightarrow> u8" where
  "fo4_char b = (if b = 0x2F then 0x5C else to_ascii_lowercase b)"

fun hash_fo4_loop :: "bytes \<Rightarrow> u32 \<Rightarrow> u32" where
  "hash_fo4_loop [] result = result"
| "hash_fo4_loop (b # bs) result =
     (if b > 127 then hash_fo4_loop bs result
      else hash_fo4_loop bs
             (drop_bit 8 result XOR (crc32_table ! unat ((result XOR ucast (fo4_char b)) AND 0xFF))))"

definition hash_fo4 :: "rstring \<Rightarrow> u32" where
  "hash_fo4 s = hash_fo4_loop s 0"

subsection \<open>The table and the bitwise CRC\<close>

text \<open>The step is linear over exclusive or, and a word whose low bits are clear is only shifted.\<close>

lemma crc_step_bit: "crc_step c = (if bit c 0 then 0xEDB88320 XOR drop_bit 1 c else drop_bit 1 c)"
proof -
  have "c AND 1 = (if bit c 0 then 1 else 0)" by (simp add: and_one_eq odd_iff_mod_2_eq_one bit_0)
  then show ?thesis by (simp only: crc_step_def split: if_split) simp
qed

lemma crc_step_xor: "crc_step (x XOR y) = crc_step x XOR crc_step y"
proof -
  have bits: "bit (x XOR y) 0 = (bit x 0 \<noteq> bit y 0)" by (simp add: bit_xor_iff)
  have drop: "drop_bit 1 (x XOR y) = drop_bit 1 x XOR drop_bit 1 y" by (rule drop_bit_xor)
  have lin: "(if P \<noteq> Q then k XOR (a XOR b) else a XOR b) = (if P then k XOR a else a) XOR (if Q then k XOR b else b)"
    for P Q and k a b :: u32
    by (cases P; cases Q) (simp_all add: ac_simps)
  show ?thesis unfolding crc_step_bit bits drop by (rule lin)
qed

lemma crc_steps_xor: "(crc_step ^^ n) (x XOR y) = (crc_step ^^ n) x XOR (crc_step ^^ n) y"
  by (induction n) (simp_all add: crc_step_xor)

lemma crc_steps_shift: "(\<And>i. i < n \<Longrightarrow> \<not> bit x i) \<Longrightarrow> (crc_step ^^ n) x = drop_bit n x"
proof (induction n)
  case (Suc n)
  then have "\<not> bit (drop_bit n x) 0" by (simp add: bit_drop_bit_eq)
  then show ?case using Suc by (simp add: crc_step_bit drop_bit_drop_bit)
qed simp

lemma and_FF: "x AND 0xFF = take_bit 8 (x :: u32)"
  by (simp add: take_bit_eq_mask mask_eq_exp_minus_1)

lemma crc_table_lookup: "crc32_table ! unat (take_bit 8 x) = (crc_step ^^ 8) (take_bit 8 x)" for x :: u32
proof -
  have "unat (take_bit 8 x) < 256"
    using take_bit_nat_less_exp [of 8 "unat x"] by (simp add: unsigned_take_bit_eq)
  then show ?thesis unfolding crc32_table_def by (subst nth_map) simp_all
qed

lemma crc_byte_step:
  fixes b :: u8
  shows "drop_bit 8 r XOR (crc32_table ! unat ((r XOR ucast b) AND 0xFF)) = (crc_step ^^ 8) (r XOR ucast b)"
proof -
  let ?x = "r XOR ucast b" and ?hi = "push_bit 8 (drop_bit 8 r)"
  have x: "?x = take_bit 8 ?x XOR ?hi"
    by (rule bit_word_eqI) (auto simp: bit_xor_iff bit_take_bit_iff bit_push_bit_iff bit_drop_bit_eq bit_ucast_iff dest: bit_u8_bound)
  have "(crc_step ^^ 8) ?hi = drop_bit 8 ?hi" by (rule crc_steps_shift) (simp add: bit_push_bit_iff)
  also have "\<dots> = drop_bit 8 r"
    by (rule bit_word_eqI) (auto simp: bit_drop_bit_eq bit_push_bit_iff dest: bit_imp_le_length)
  finally have "(crc_step ^^ 8) (take_bit 8 ?x XOR ?hi) = (crc_step ^^ 8) (take_bit 8 ?x) XOR drop_bit 8 r"
    by (simp only: crc_steps_xor)
  then show ?thesis unfolding and_FF crc_table_lookup using x by (metis xor.commute)
qed

text \<open>
  C40: The table-driven hash of BA2 archives is the bit-serial CRC with the
  reflected polynomial, started at zero and not complemented, over the ASCII bytes of the path,
  lower-cased and with forward slashes turned around; it depends on nothing else of the path.
\<close>

theorem fo4_hash_is_bitwise_crc:
  "hash_fo4 s = foldl (\<lambda>r b. (crc_step ^^ 8) (r XOR ucast b)) 0 (map fo4_char (filter (\<lambda>b. b \<le> 127) s))"
proof -
  have "hash_fo4_loop s r = foldl (\<lambda>r b. (crc_step ^^ 8) (r XOR ucast b)) r (map fo4_char (filter (\<lambda>b. b \<le> 127) s))" for r
    by (induction s arbitrary: r) (auto simp only: hash_fo4_loop.simps filter.simps list.map foldl.simps crc_byte_step not_le if_True if_False split: if_splits)
  then show ?thesis by (simp add: hash_fo4_def)
qed

subsection \<open>The hash of a TES4 name\<close>

lemma sdbm_step_eq: "sdbm_step h b = 65599 * h + ucast b"
  by (simp add: sdbm_step_def push_bit_eq_mult algebra_simps)

text \<open>The polynomial hash: the first byte has the highest power.\<close>

lemma sdbm_poly: "foldl sdbm_step h bs = 65599 ^ length bs * h + horner_sum ucast 65599 (rev bs)"
  by (induction bs arbitrary: h) (simp_all add: sdbm_step_eq horner_sum_append algebra_simps)

text \<open>The low word of the hash, bit by bit.\<close>

lemma bit_single: "(0x80 :: u64) = push_bit 7 1" "(0x8000 :: u64) = push_bit 15 1"
  "(0x80000000 :: u64) = push_bit 31 1" "(0x8080 :: u64) = push_bit 7 1 OR push_bit 15 1"
  by (simp_all add: push_bit_eq_mult)

lemma tes4_ext_bits_bit: "bit (tes4_ext_bits key) k \<Longrightarrow> k = 7 \<or> k = 15 \<or> k = 31"
  unfolding tes4_ext_bits_def bit_single
  by (auto simp only: bit_push_bit_iff bit_or_iff bit_1_iff bit_0_eq split: if_splits)

lemma bit_add_high: "k < 32 \<Longrightarrow> bit (w + push_bit 32 v) k \<longleftrightarrow> bit (w :: u64) k"
proof (transfer fixing: k)
  fix w v :: int
  assume k: "k < 32"
  have "take_bit 32 (w + push_bit 32 v) = take_bit 32 w"
    using take_bit_add [of 32 w "push_bit 32 v"] by (simp add: take_bit_push_bit)
  then show "(k < LENGTH(64) \<and> bit (w + push_bit 32 v) k) = (k < LENGTH(64) \<and> bit w k)"
    using k by (metis bit_take_bit_iff)
qed

lemma ascii_bit: "b < 0x80 \<Longrightarrow> bit (b :: u8) k \<Longrightarrow> k < 7"
proof -
  assume b: "b < 0x80" "bit b k"
  then have "unat b < 2 ^ 7" by (simp add: word_less_nat_alt)
  then have "take_bit 7 (unat b) = unat b" by (simp add: take_bit_nat_eq_self)
  moreover have "bit (unat b) k" using b(2) by (simp add: bit_unsigned_iff)
  ultimately show "k < 7" by (metis bit_take_bit_iff)
qed

lemma hash_tes4_bits:
  fixes name
  defines "s \<equiv> map to_ascii_lowercase name"
  assumes "name \<noteq> []" "\<forall>b \<in> set s. b < 0x80" "length name < 256"
  shows "k < 7 \<Longrightarrow> bit (hash_tes4_file name ext) k \<longleftrightarrow> bit (last s) k"
    and "8 \<le> k \<Longrightarrow> k < 15 \<Longrightarrow> bit (hash_tes4_file name ext) k \<longleftrightarrow> length s > 2 \<and> bit (s ! (length s - 2)) (k - 8)"
    and "16 \<le> k \<Longrightarrow> k < 24 \<Longrightarrow> bit (hash_tes4_file name ext) k \<longleftrightarrow> bit (length s) (k - 16)"
    and "24 \<le> k \<Longrightarrow> k < 31 \<Longrightarrow> bit (hash_tes4_file name ext) k \<longleftrightarrow> bit (hd s) (k - 24)"
proof -
  let ?l = "length s"
  have ne: "s \<noteq> []" "0 < ?l" "?l < 256" using assms by simp_all
  have c: "bit (s ! i) j \<Longrightarrow> j < 7" if "i < ?l" for i j
    using that assms(3) ascii_bit [of "s ! i" j] by simp
  have ends: "bit (s ! (?l - 1)) j \<Longrightarrow> j < 7" "bit (s ! (?l - 2)) j \<Longrightarrow> j < 7" "bit (s ! 0) j \<Longrightarrow> j < 7" for j
    using c [of "?l - 1" j] c [of "?l - 2" j] c [of 0 j] ne(2) by simp_all
  have len: "bit ?l j \<Longrightarrow> j < 8" for j
    using ne(3) by (metis bit_take_bit_iff take_bit_nat_eq_self [of ?l 8, simplified])
  have low: "bit (hash_tes4_file name ext) k \<longleftrightarrow>
      bit (s ! (?l - 1)) k \<or> (?l > 2 \<and> 8 \<le> k \<and> bit (s ! (?l - 2)) (k - 8)) \<or>
      (16 \<le> k \<and> bit ?l (k - 16)) \<or> (24 \<le> k \<and> bit (s ! 0) (k - 24)) \<or>
      bit (tes4_ext_bits (tes4_ext_key (map to_ascii_lowercase ext))) k" if "k < 32" for k
    using that ne
    by (auto simp: hash_tes4_file_def Let_def s_def [symmetric] bit_add_high bit_or_iff bit_push_bit_iff bit_ucast_iff bit_of_nat_iff)
  note ext = tes4_ext_bits_bit [of "tes4_ext_key (map to_ascii_lowercase ext)"]
  have l: "last s = s ! (?l - 1)" "hd s = s ! 0" using ne by (simp_all add: last_conv_nth hd_conv_nth)
  show "k < 7 \<Longrightarrow> bit (hash_tes4_file name ext) k \<longleftrightarrow> bit (last s) k"
    using low [of k] ext [of k] l by auto
  show "8 \<le> k \<Longrightarrow> k < 15 \<Longrightarrow> bit (hash_tes4_file name ext) k \<longleftrightarrow> ?l > 2 \<and> bit (s ! (?l - 2)) (k - 8)"
    using low [of k] ext [of k] l ends(1) [of k] by auto
  show "16 \<le> k \<Longrightarrow> k < 24 \<Longrightarrow> bit (hash_tes4_file name ext) k \<longleftrightarrow> bit ?l (k - 16)"
    using low [of k] ext [of k] l ends(1) [of k] ends(2) [of "k - 8"] by auto
  show "24 \<le> k \<Longrightarrow> k < 31 \<Longrightarrow> bit (hash_tes4_file name ext) k \<longleftrightarrow> bit (hd s) (k - 24)"
    using low [of k] ext [of k] l ends(1) [of k] ends(2) [of "k - 8"] len [of "k - 16"] by auto
qed

lemma byte_eqI: "a < 0x80 \<Longrightarrow> b < 0x80 \<Longrightarrow> (\<And>k. k < 7 \<Longrightarrow> bit a k = bit b k) \<Longrightarrow> a = (b :: u8)"
  by (rule bit_word_eqI) (metis ascii_bit)

text \<open>
  Two ASCII names of fewer than 256 bytes with the same TES4 hash, whatever
  their extensions, agree up to case in their length, their first byte, their last byte and, when they have
  more than two, the byte before the last: collisions only come from the interior and the extension.
\<close>

theorem tes4_hash_separates:
  assumes "n \<noteq> []" "m \<noteq> []" "length n < 256" "length m < 256"
    and "\<forall>b \<in> set (map to_ascii_lowercase n) \<union> set (map to_ascii_lowercase m). b < 0x80"
    and h: "hash_tes4_file n ext = hash_tes4_file m ext'"
  shows "length n = length m \<and>
    to_ascii_lowercase (hd n) = to_ascii_lowercase (hd m) \<and>
    to_ascii_lowercase (last n) = to_ascii_lowercase (last m) \<and>
    (length n > 2 \<longrightarrow> to_ascii_lowercase (n ! (length n - 2)) = to_ascii_lowercase (m ! (length m - 2)))"
proof -
  have "\<forall>b \<in> set (map to_ascii_lowercase n). b < 0x80" "\<forall>b \<in> set (map to_ascii_lowercase m). b < 0x80"
    using assms(5) by blast+
  note N = hash_tes4_bits [OF assms(1) this(1) assms(3), of _ ext]
    and M = hash_tes4_bits [OF assms(2) this(2) assms(4), of _ ext']
  have small: "to_ascii_lowercase b < 0x80" if "b \<in> set n \<union> set m" for b using assms(5) that by auto
  have len: "bit (length n) k = bit (length m) k" for k
  proof (cases "k < 8")
    case True
    then show ?thesis using N(3) [of "k + 16"] M(3) [of "k + 16"] h by simp
  next
    case False
    then show ?thesis using assms(3,4)
      by (metis bit_take_bit_iff take_bit_nat_eq_self [of "length n" 8, simplified] take_bit_nat_eq_self [of "length m" 8, simplified])
  qed
  then have l: "length n = length m" by (simp add: bit_eq_iff)
  have "to_ascii_lowercase (last n) = to_ascii_lowercase (last m)"
    using N(1) M(1) h assms(1,2) small by (intro byte_eqI) (simp_all add: last_map)
  moreover have "to_ascii_lowercase (hd n) = to_ascii_lowercase (hd m)"
    using N(4) [of "k + 24" for k] M(4) [of "k + 24" for k] h assms(1,2) small by (intro byte_eqI) (simp_all add: hd_map)
  moreover have "to_ascii_lowercase (n ! (length n - 2)) = to_ascii_lowercase (m ! (length m - 2))" if "length n > 2"
    using N(2) [of "k + 8" for k] M(2) [of "k + 8" for k] h that l small by (intro byte_eqI) simp_all
  ultimately show ?thesis using l by blast
qed

theorem tes4_hash_separates_witness:
  "hash_tes4_file (ascii ''Ab'') [] = hash_tes4_file (ascii ''aB'') [] \<and>
   to_ascii_lowercase (hd (ascii ''Ab'')) = to_ascii_lowercase (hd (ascii ''aB''))"
proof -
  have e: "hash_tes4_file (ascii ''Ab'') [] = hash_tes4_file (ascii ''aB'') []"
    by (simp add: hash_tes4_file_def ascii_def to_ascii_lowercase_def)
  have a: "\<forall>b \<in> set (map to_ascii_lowercase (ascii ''Ab'')) \<union> set (map to_ascii_lowercase (ascii ''aB'')). b < 0x80"
    by (simp add: ascii_def to_ascii_lowercase_def)
  show ?thesis using tes4_hash_separates [OF _ _ _ _ a e] e by (simp add: ascii_def)
qed

end
