(* ===== verification/ArchiveCore.thy ===== *)
theory ArchiveCore
  imports Cursor ArchiveHash "HOL-Library.Multiset"
begin

text \<open>
  What the archive readers and writers of \<open>bethkit-bsa\<close> share: the error type (\<open>error.rs\<close>), entries and
  path normalisation (\<open>archive.rs\<close>), the path index every reader builds, the pending files of the
  writers (\<open>write/mod.rs\<close>), and the contract between a writer and its reader. Strings are their UTF-8
  bytes; a panic of the source is the error \<open>BsaPanic\<close>.
\<close>

subsection \<open>Errors and entries\<close>

datatype bsa_error =
    BsaIo io_error
  | InvalidMagic bytes
  | UnsupportedVersion u32
  | UnsupportedSubType bytes
  | Corrupt string
  | EmptyArchive
  | InvalidDds string
  | UnsupportedDxgiFormat u8
  | WriteIo string
  | BsaPanic string

abbreviation bsa_io :: "io_error + 'a \<Rightarrow> bsa_error + 'a" where
  "bsa_io m \<equiv> map_err BsaIo m"

record archive_entry =
  ae_path :: rstring
  ae_uncompressed_size :: u32
  ae_compressed_size :: "u32 option"

subsection \<open>Paths\<close>

text \<open>\<open>char::from(b)\<close> collected into a \<open>String\<close>: the character with that code, in UTF-8.\<close>

definition latin1_utf8 :: "u8 \<Rightarrow> bytes" where
  "latin1_utf8 b = (if b < 0x80 then [b] else [0xC0 OR drop_bit 6 b, 0x80 OR (b AND 0x3F)])"

definition path_char :: "u8 \<Rightarrow> u8" where
  "path_char b = (if b = 0x5C then 0x2F else to_ascii_lowercase b)"

definition normalise_path :: "rstring \<Rightarrow> rstring" where
  "normalise_path path = concat (map (\<lambda>b. latin1_utf8 (path_char b)) path)"

definition ascii_path :: "rstring \<Rightarrow> bool" where
  "ascii_path p \<longleftrightarrow> (\<forall>b \<in> set p. 0 < b \<and> b < 0x80)"

lemma to_lower_bounds:
  "b < 0x80 \<Longrightarrow> to_ascii_lowercase b < 0x80"
  "0 < b \<Longrightarrow> b < 0x80 \<Longrightarrow> 0 < to_ascii_lowercase b"
  "\<not> (0x41 \<le> to_ascii_lowercase b \<and> to_ascii_lowercase b \<le> 0x5A)"
  by (auto simp: to_ascii_lowercase_def word_le_nat_alt word_less_nat_alt unat_plus_if')

lemma path_char_bounds: "b < 0x80 \<Longrightarrow> path_char b < 0x80" "0 < b \<Longrightarrow> b < 0x80 \<Longrightarrow> 0 < path_char b"
  using to_lower_bounds by (auto simp: path_char_def)

lemma path_char_idem [simp]: "path_char (path_char b) = path_char b"
proof (cases "b = 0x5C")
  case False
  have "to_ascii_lowercase b \<noteq> 0x5C"
    using False by (auto simp: to_ascii_lowercase_def word_le_nat_alt unat_plus_if' dest: arg_cong [of _ _ unat])
  then show ?thesis using False by (simp add: path_char_def)
qed (simp add: path_char_def to_ascii_lowercase_def)

lemma normalise_ascii: "(\<And>b. b \<in> set p \<Longrightarrow> b < 0x80) \<Longrightarrow> normalise_path p = map path_char p"
  by (induction p) (simp_all add: normalise_path_def latin1_utf8_def path_char_bounds)

lemma normalise_ascii_path: "ascii_path p \<Longrightarrow> normalise_path p = map path_char p"
  by (rule normalise_ascii) (simp add: ascii_path_def)

lemma ascii_path_normalise: "ascii_path p \<Longrightarrow> ascii_path (normalise_path p)"
  by (auto simp: normalise_ascii_path) (auto simp: ascii_path_def path_char_bounds)

lemma normalise_idem: "ascii_path p \<Longrightarrow> normalise_path (normalise_path p) = normalise_path p"
  using normalise_ascii_path [OF ascii_path_normalise, of p] by (simp add: normalise_ascii_path)

text \<open>A byte above ASCII is re-encoded each time, so normalising twice differs from normalising once.\<close>

lemma normalise_not_idempotent: "normalise_path (normalise_path [0xC3, 0xA9]) \<noteq> normalise_path [0xC3, 0xA9]"
  by code_simp

lemma ascii_path_utf8: "ascii_path p \<Longrightarrow> utf8_valid p"
  by (rule utf8_valid_ascii) (simp add: ascii_path_def)

text \<open>\<open>split_dir_filename\<close> and \<open>split_stem_ext\<close> of the writers.\<close>

definition split_dir_filename :: "rstring \<Rightarrow> rstring \<times> rstring" where
  "split_dir_filename path =
     (case rfind 0x2F path of
        Some idx \<Rightarrow> (take idx path, drop (idx + 1) path)
      | None \<Rightarrow> ([], path))"

definition split_stem_ext :: "rstring \<Rightarrow> rstring \<times> rstring" where
  "split_stem_ext name =
     (case rfind 0x2E name of
        Some idx \<Rightarrow> (take idx name, drop idx name)
      | None \<Rightarrow> (name, []))"

lemma rfind_from_Some:
  "rfind_from c i s = Some j \<Longrightarrow> i \<le> j \<and> j < i + length s \<and> s ! (j - i) = c \<and> c \<notin> set (drop (j - i + 1) s)"
  "rfind_from c i s = None \<longleftrightarrow> c \<notin> set s"
proof (induction s arbitrary: i)
  case (Cons b s)
  { case 1
    then show ?case
    proof (cases "rfind_from c (Suc i) s")
      case None
      then show ?thesis using 1 Cons(2) [of "Suc i"] by (auto split: if_splits)
    next
      case (Some k)
      then have "k = j" using 1 by simp
      with Some Cons(1) [of "Suc i"] have IH: "Suc i \<le> j" "j < Suc i + length s" "s ! (j - Suc i) = c"
        "c \<notin> set (drop (j - Suc i + 1) s)" by auto
      then have "j - i = Suc (j - Suc i)" by linarith
      with IH show ?thesis by simp
    qed
  next
    case 2
    then show ?case using Cons(2) [of "Suc i"] by (auto split: option.split)
  }
qed simp_all

lemma rfind_Some: "rfind c s = Some j \<Longrightarrow> j < length s \<and> s ! j = c \<and> s = take j s @ c # drop (j + 1) s"
proof -
  assume "rfind c s = Some j"
  then have "j < length s" "s ! j = c" using rfind_from_Some(1) [of c 0 s j] by (simp_all add: rfind_def)
  then show ?thesis using id_take_nth_drop [of j s] by simp
qed

text \<open>A path is its directory, a separator and its file name; a name is its stem and its extension.\<close>

lemma split_dir_filename_join:
  "split_dir_filename p = (d, f) \<Longrightarrow> p = (if rfind 0x2F p = None then f else d @ 0x2F # f) \<and> (rfind 0x2F p = None \<longrightarrow> d = [])"
  by (auto simp: split_dir_filename_def split: option.splits dest!: rfind_Some)

lemma split_stem_ext_join: "split_stem_ext n = (a, b) \<Longrightarrow> n = a @ b"
  by (auto simp: split_stem_ext_def split: option.splits)

subsection \<open>Repeated reads\<close>

text \<open>\<open>for _ in 0..n\<close> around a read that is pushed onto a vector.\<close>

fun read_many :: "nat \<Rightarrow> (cursor \<Rightarrow> 'e + 'a \<times> cursor) \<Rightarrow> cursor \<Rightarrow> 'e + 'a list \<times> cursor" where
  "read_many 0 rd c = Inr ([], c)"
| "read_many (Suc n) rd c =
     bindr (rd c) (\<lambda>(v, c1). bindr (read_many n rd c1) (\<lambda>(vs, c2). Inr (v # vs, c2)))"

lemma read_many_encoded:
  assumes "\<And>pre v post. v \<in> set vs \<Longrightarrow> wf_cursor (cursor_at pre (enc v @ post)) \<Longrightarrow>
      rd (cursor_at pre (enc v @ post)) = Inr (dec v, cursor_at (pre @ enc v) post)"
    and "wf_cursor (cursor_at pre (concat (map enc vs) @ post))"
  shows "read_many (length vs) rd (cursor_at pre (concat (map enc vs) @ post)) =
    Inr (map dec vs, cursor_at (pre @ concat (map enc vs)) post)"
  using assms
proof (induction vs arbitrary: pre)
  case (Cons v vs)
  have "wf_cursor (cursor_at (pre @ enc v) (concat (map enc vs) @ post))"
    using Cons.prems(2) by (simp add: wf_cursor_at)
  from Cons.IH [OF _ this] Cons.prems(1) [of v pre "concat (map enc vs) @ post"] Cons.prems
  show ?case by simp
qed simp

text \<open>\<open>index.insert(path, i)\<close> for every entry in order: the last one of a path wins.\<close>

definition path_index :: "rstring list \<Rightarrow> rstring \<Rightarrow> nat option" where
  "path_index paths = foldl (\<lambda>m (i, p). m(p \<mapsto> i)) Map.empty (enumerate 0 paths)"

lemma path_index_Nil [simp]: "path_index [] = Map.empty"
  by (simp add: path_index_def)

lemma path_index_snoc: "path_index (ps @ [p]) = (path_index ps)(p \<mapsto> length ps)"
  by (simp add: path_index_def enumerate_append_eq)

lemma path_index_bound: "path_index ps p = Some i \<Longrightarrow> i < length ps \<and> ps ! i = p"
  by (induction ps rule: rev_induct) (auto simp: path_index_snoc nth_append split: if_splits)

text \<open>Looking a path up and selecting by its index is an association-list lookup from the back.\<close>

lemma path_index_map_of:
  "map_option (\<lambda>i. g (vs ! i)) (path_index (map k vs) p) = map_of (rev (map (\<lambda>v. (k v, g v)) vs)) p"
proof (induction vs rule: rev_induct)
  case (snoc v vs)
  have "map_option (\<lambda>i. g ((vs @ [v]) ! i)) (path_index (map k vs) p) = map_option (\<lambda>i. g (vs ! i)) (path_index (map k vs) p)"
    by (cases "path_index (map k vs) p") (auto simp: nth_append dest: path_index_bound)
  then show ?case using snoc by (simp add: path_index_snoc)
qed simp

subsection \<open>Stable sorting and concatenation\<close>

lemma insort_key_map: "insort_key f (g x) (map g xs) = map g (insort_key (\<lambda>x. f (g x)) x xs)"
  by (induction xs) simp_all

lemma sort_key_map: "sort_key f (map g xs) = map g (sort_key (\<lambda>x. f (g x)) xs)"
  by (induction xs) (simp_all add: insort_key_map)

lemma map_of_filter_key: "map_of (rev (map (\<lambda>v. (k v, g v)) vs)) q = map_of (rev (map (\<lambda>v. (k v, g v)) (filter (\<lambda>v. k v = q) vs))) q"
  by (induction vs rule: rev_induct) simp_all

text \<open>Sorting by a key that the lookup key determines does not change what a lookup from the back finds.\<close>

lemma sorted_lookup:
  assumes "\<And>v w. v \<in> set vs \<Longrightarrow> w \<in> set vs \<Longrightarrow> k v = k w \<Longrightarrow> h v = h w"
  shows "map_of (rev (map (\<lambda>v. (k v, g v)) (sort_key h vs))) q = map_of (rev (map (\<lambda>v. (k v, g v)) vs)) q"
proof (cases "\<exists>v \<in> set vs. k v = q")
  case True
  then obtain v where v: "v \<in> set vs" "k v = q" by blast
  have eq: "h w = h v \<and> k w = q \<longleftrightarrow> k w = q" if "w \<in> set vs" for w
    using assms [OF that v(1)] v(2) by auto
  have restrict: "filter (\<lambda>w. k w = q) ws = filter (\<lambda>w. k w = q) (filter (\<lambda>w. h w = h v) ws)" if "set ws = set vs" for ws
    unfolding filter_filter by (rule filter_cong [OF refl]) (simp add: eq that)
  have "filter (\<lambda>w. k w = q) (sort_key h vs) = filter (\<lambda>w. k w = q) vs"
    using restrict [of "sort_key h vs"] restrict [of vs] sort_key_stable [of h "h v" vs] by simp
  then show ?thesis
    using map_of_filter_key [of k g "sort_key h vs" q] map_of_filter_key [of k g vs q] by simp
next
  case False
  then have "map_of (rev (map (\<lambda>v. (k v, g v)) ws)) q = None" if "set ws = set vs" for ws
    using that by (auto simp: map_of_eq_None_iff)
  then show ?thesis by simp
qed

text \<open>The position of a part of a concatenation.\<close>

abbreviation total_length :: "'a list list \<Rightarrow> nat" where
  "total_length xss \<equiv> sum_list (map length xss)"

lemma slice_in_concat:
  assumes "i < length xss" "p = length pre + total_length (take i xss)"
  shows "slice p (p + length (xss ! i)) (pre @ concat xss @ post) = xss ! i"
proof -
  have "concat xss = concat (take i xss @ xss ! i # drop (Suc i) xss)"
    using id_take_nth_drop [OF assms(1)] by simp
  then have e: "pre @ concat xss @ post = (pre @ concat (take i xss)) @ xss ! i @ (concat (drop (Suc i) xss) @ post)"
    by simp
  show ?thesis unfolding e by (rule slice_in_append') (simp_all add: assms(2) length_concat)
qed

lemma total_length_nth: "i < length xss \<Longrightarrow> total_length (take i xss) + length (xss ! i) \<le> total_length xss"
proof -
  assume "i < length xss"
  then have "total_length xss = total_length (take i xss @ xss ! i # drop (Suc i) xss)"
    using id_take_nth_drop [of i xss] by simp
  then show ?thesis by simp
qed

lemma length_le_concat: "v \<in> set vs \<Longrightarrow> length (f v) \<le> length (concat (map f vs))"
  by (induction vs) auto

lemma length_concat_const: "(\<And>x. x \<in> set xs \<Longrightarrow> length (f x) = n) \<Longrightarrow> length (concat (map f xs)) = n * length xs"
  by (induction xs) simp_all

subsection \<open>Laying files out\<close>

text \<open>\<open>collect::<Result<Vec<_>>>()\<close> over a mapped sequence.\<close>

fun collect_files :: "('a \<Rightarrow> 'e + 'b) \<Rightarrow> 'a list \<Rightarrow> 'e + 'b list" where
  "collect_files f [] = Inr []"
| "collect_files f (x # xs) = bindr (f x) (\<lambda>y. bindr (collect_files f xs) (\<lambda>ys. Inr (y # ys)))"

text \<open>The positions of consecutive parts that start at \<open>pos\<close>.\<close>

fun positions :: "nat \<Rightarrow> nat list \<Rightarrow> nat list" where
  "positions pos [] = []"
| "positions pos (n # ns) = pos # positions (pos + n) ns"

lemma collect_files_map:
  "collect_files f xs = Inr ys \<longleftrightarrow> list_all2 (\<lambda>x y. f x = Inr y) xs ys"
proof (induction xs arbitrary: ys)
  case (Cons x xs)
  then show ?case by (cases ys) (auto simp: bindr_eq_Inr)
qed auto

lemma length_positions [simp]: "length (positions p ns) = length ns"
  by (induction ns arbitrary: p) simp_all

lemma positions_nth: "i < length ns \<Longrightarrow> positions p ns ! i = p + sum_list (take i ns)"
  by (induction ns arbitrary: p i) (auto simp: nth_Cons' take_Cons')

subsection \<open>Pending files\<close>

datatype bsa_version = VTes3 | VTes4 | VFo3 | VSse

record builder_entry =
  be_path :: rstring
  be_data :: bytes
  be_compress_override :: "bool option"

record bsa_writer =
  bw_version :: bsa_version
  bw_compress :: bool
  bw_embed_names :: bool
  bw_entries :: "builder_entry list"

definition bsa_writer_new :: "bsa_version \<Rightarrow> bsa_writer" where
  "bsa_writer_new version =
     \<lparr> bw_version = version, bw_compress = False, bw_embed_names = (version = VFo3 \<or> version = VSse), bw_entries = [] \<rparr>"

definition bsa_set_compress :: "bool \<Rightarrow> bsa_writer \<Rightarrow> bsa_writer" where
  "bsa_set_compress b w = w\<lparr> bw_compress := b \<rparr>"

definition bsa_set_embed_names :: "bool \<Rightarrow> bsa_writer \<Rightarrow> bsa_writer" where
  "bsa_set_embed_names b w = w\<lparr> bw_embed_names := b \<rparr>"

definition builder_entry_new :: "rstring \<Rightarrow> bytes \<Rightarrow> builder_entry" where
  "builder_entry_new path data =
     \<lparr> be_path = normalise_path path, be_data = data, be_compress_override = None \<rparr>"

definition bsa_add :: "rstring \<Rightarrow> bytes \<Rightarrow> bsa_writer \<Rightarrow> bsa_writer" where
  "bsa_add path data w = w\<lparr> bw_entries := bw_entries w @ [builder_entry_new path data] \<rparr>"

text \<open>A sequence of \<open>add\<close> calls.\<close>

definition added :: "(rstring \<times> bytes) list \<Rightarrow> builder_entry list" where
  "added files = map (\<lambda>(p, d). builder_entry_new p d) files"

lemma bsa_add_all:
  "foldl (\<lambda>w (p, d). bsa_add p d w) w files = w\<lparr> bw_entries := bw_entries w @ added files \<rparr>"
  by (induction files arbitrary: w) (auto simp: bsa_add_def added_def)

lemma added_paths:
  assumes "\<forall>(p, d) \<in> set files. ascii_path p" "e \<in> set (added files)"
  shows "ascii_path (be_path e)" "normalise_path (be_path e) = be_path e" "be_compress_override e = None"
  using assms by (auto simp: added_def builder_entry_new_def ascii_path_normalise normalise_idem)

lemma length_added [simp]: "length (added files) = length files"
  by (simp add: added_def)

lemma added_Nil [simp]: "added files = [] \<longleftrightarrow> files = []"
  by (simp add: added_def)

subsection \<open>The contract of a format\<close>

text \<open>What the files were, as the last content added under each path.\<close>

definition file_map :: "(rstring \<times> bytes) list \<Rightarrow> rstring \<Rightarrow> bytes option" where
  "file_map files q = map_of (rev (map (\<lambda>(p, d). (normalise_path p, d)) files)) (normalise_path q)"

lemma file_map_added:
  "file_map files q = map_of (rev (map (\<lambda>e. (be_path e, be_data e)) (added files))) (normalise_path q)"
  by (simp add: file_map_def added_def builder_entry_new_def comp_def case_prod_unfold)

text \<open>Any stable arrangement of the pending files answers lookups like the files did.\<close>

lemma file_map_index:
  assumes "\<forall>(p, d) \<in> set files. ascii_path p" and "es = sort_key (\<lambda>e. h (be_path e)) (added files)"
  shows "map_option (\<lambda>i. be_data (es ! i)) (path_index (map (\<lambda>e. normalise_path (be_path e)) es) (normalise_path q)) =
      file_map files q"
    and "mset (map (\<lambda>e. normalise_path (be_path e)) es) = mset (map (\<lambda>(p, d). normalise_path p) files)"
proof -
  note norm = added_paths(2) [OF assms(1)]
  have 1: "map_of (rev (map (\<lambda>e. (normalise_path (be_path e), be_data e)) es)) r =
      map_of (rev (map (\<lambda>e. (normalise_path (be_path e), be_data e)) (added files))) r" for r
    unfolding assms(2) using norm by (intro sorted_lookup) auto
  have 2: "map (\<lambda>e. (normalise_path (be_path e), be_data e)) (added files) =
      map (\<lambda>e. (be_path e, be_data e)) (added files)"
    using norm by simp
  show "map_option (\<lambda>i. be_data (es ! i)) (path_index (map (\<lambda>e. normalise_path (be_path e)) es) (normalise_path q)) =
      file_map files q"
    by (simp only: path_index_map_of 1 2 file_map_added)
  have "mset (map (\<lambda>e. normalise_path (be_path e)) es) = mset (map (\<lambda>e. normalise_path (be_path e)) (added files))"
    by (simp add: assms(2))
  also have "map (\<lambda>e. normalise_path (be_path e)) (added files) = map be_path (added files)"
    using norm by simp
  also have "\<dots> = map (\<lambda>(p, d). normalise_path p) files"
    by (simp add: added_def builder_entry_new_def comp_def case_prod_unfold)
  finally show "mset (map (\<lambda>e. normalise_path (be_path e)) es) = mset (map (\<lambda>(p, d). normalise_path p) files)" .
qed

lemma sum_sorted: "sum_list (map (f :: _ \<Rightarrow> nat) (sort_key g es)) = sum_list (map f es)"
proof -
  have "mset (map f (sort_key g es)) = mset (map f es)" by simp
  then show ?thesis by (metis sum_mset_sum_list)
qed

text \<open>A reader that indexes the normalised names and extracts the content stored at each index.\<close>

lemma file_map_extract:
  assumes "\<And>i. i < length es \<Longrightarrow> get i = Inr (be_data (es ! i))"
  shows "map_option get (path_index (map (\<lambda>e. normalise_path (be_path e)) es) r) =
    map_option Inr (map_option (\<lambda>i. be_data (es ! i)) (path_index (map (\<lambda>e. normalise_path (be_path e)) es) r))"
  using assms by (auto simp: option.map_comp intro!: option.map_cong dest: path_index_bound)

text \<open>
  A writer and a reader of the same format: whatever was written from files with ASCII paths is
  parsed, and extracting a path gives the content last added under it, up to what the format restores
  of a content. \<open>fits\<close> says when the offsets and sizes of the format are wide enough for the files.
\<close>

definition restored_files :: "(bytes \<Rightarrow> bytes) \<Rightarrow> (rstring \<times> bytes) list \<Rightarrow> (rstring \<times> bytes) list" where
  "restored_files restored files = map (\<lambda>(p, d). (p, restored d)) files"

lemma restored_files_id [simp]: "restored_files (\<lambda>d. d) files = files"
  by (simp add: restored_files_def)

lemma file_map_restored: "file_map (restored_files restored files) q = map_option restored (file_map files q)"
proof -
  have "map_of (map (\<lambda>x. (normalise_path (fst x), restored (snd x))) xs) r =
      map_option restored (map_of (map (\<lambda>x. (normalise_path (fst x), snd x)) xs) r)" for xs :: "(rstring \<times> bytes) list" and r
    by (induction xs) simp_all
  then show ?thesis by (simp add: file_map_def restored_files_def rev_map comp_def case_prod_unfold)
qed

locale archive_codec =
  fixes pack :: "(rstring \<times> bytes) list \<Rightarrow> bsa_error + bytes"
    and load_archive :: "bytes \<Rightarrow> bsa_error + 'a"
    and unpack :: "'a \<Rightarrow> rstring \<Rightarrow> (bsa_error + bytes) option"
    and entry_paths :: "'a \<Rightarrow> rstring list"
    and restored :: "bytes \<Rightarrow> bytes"
    and fits :: "(rstring \<times> bytes) list \<Rightarrow> bytes \<Rightarrow> bool"
  assumes pack_empty: "pack [] = Inl EmptyArchive"
    and pack_parse: "pack files = Inr out \<Longrightarrow> fits files out \<Longrightarrow> \<forall>(p, d) \<in> set files. ascii_path p \<Longrightarrow>
      \<exists>a. load_archive out = Inr a \<and> mset (entry_paths a) = mset (map (\<lambda>(p, d). normalise_path p) files) \<and>
        (\<forall>q. ascii_path q \<longrightarrow> unpack a q = map_option (\<lambda>d. Inr (restored d)) (file_map files q))"
begin

lemma extract_only_added:
  assumes "pack files = Inr out" "fits files out" "\<forall>(p, d) \<in> set files. ascii_path p" "ascii_path q"
  shows "\<exists>a. load_archive out = Inr a \<and> (unpack a q = None \<longleftrightarrow> (\<forall>(p, d) \<in> set files. normalise_path p \<noteq> normalise_path q))"
proof -
  have "file_map files q = None \<longleftrightarrow> (\<forall>(p, d) \<in> set files. normalise_path p \<noteq> normalise_path q)"
    by (auto simp: file_map_def map_of_eq_None_iff image_iff split: prod.splits)
  then show ?thesis using pack_parse [OF assms(1-3)] assms(4) by (metis option.map_disc_iff)
qed

lemma extract_last_added:
  assumes "pack (files @ [(p, d)]) = Inr out" "fits (files @ [(p, d)]) out"
    "\<forall>(p, d) \<in> set (files @ [(p, d)]). ascii_path p" "ascii_path q" "normalise_path q = normalise_path p"
  shows "\<exists>a. load_archive out = Inr a \<and> unpack a q = Some (Inr (restored d))"
  using pack_parse [OF assms(1-3)] assms(4,5) by (auto simp: file_map_def)

lemma pack_nonempty: "pack files = Inr out \<Longrightarrow> files \<noteq> []"
  using pack_empty by auto

end

end
