(* ===== verification/Tes3Archive.thy ===== *)
theory Tes3Archive
  imports ArchiveCore
begin

text \<open>
  Morrowind archives: the reader of \<open>bsa/tes3.rs\<close> and the writer of \<open>write/bsa_tes3.rs\<close>. A reader's
  slice with its end before its start is the panic of the source.
\<close>

definition TES3_MAGIC :: bytes where
  "TES3_MAGIC = [0x00, 0x01, 0x00, 0x00]"

subsection \<open>Reader\<close>

record tes3_record =
  t3_data_offset :: u64
  t3_size :: u32

record tes3_archive =
  t3_source :: bytes
  t3_entries :: "archive_entry list"
  t3_records :: "tes3_record list"
  t3_index :: "rstring \<Rightarrow> nat option"
  t3_data_start :: u64

text \<open>The inner loop over one name: up to and including the terminator, or to the end of the file.\<close>

function scan_name :: "cursor \<Rightarrow> bsa_error + cursor" where
  "scan_name c =
     (if cur_pos c < length (cur_data c)
      then bindr (bsa_io (read_u8 c)) (\<lambda>(b, c1). if b = 0 then Inr c1 else scan_name c1)
      else Inr c)"
  by pat_completeness auto
termination
  by (relation "measure (\<lambda>c. length (cur_data c) - cur_pos c)")
    (auto dest!: rd_u8.rd_step)

definition tes3_name :: "cursor \<Rightarrow> bsa_error + rstring \<times> cursor" where
  "tes3_name c =
     bindr (scan_name c) (\<lambda>c1.
       if cur_pos c1 = 0 \<or> cur_pos c1 - 1 < cur_pos c then Inl (BsaPanic ''name slice out of order'')
       else
         let raw = slice (cur_pos c) (cur_pos c1 - 1) (cur_data c)
         in if utf8_valid raw then Inr (normalise_path raw, c1)
            else Inl (Corrupt ''non-UTF-8 file name''))"

definition tes3_size_offset :: "cursor \<Rightarrow> bsa_error + (u32 \<times> u32) \<times> cursor" where
  "tes3_size_offset c =
     bindr (bsa_io (read_u32 c)) (\<lambda>(size, c1).
     bindr (bsa_io (read_u32 c1)) (\<lambda>(off, c2). Inr ((size, off), c2)))"

definition tes3_parse :: "bytes \<Rightarrow> bsa_error + tes3_archive" where
  "tes3_parse source =
     bindr (bsa_io (read_array 4 (cursor_new source))) (\<lambda>(_, c).
     bindr (bsa_io (read_u32 c)) (\<lambda>(hash_offset, c).
     bindr (bsa_io (read_u32 c)) (\<lambda>(n, c).
       let file_count = unat n in
     bindr (read_many file_count tes3_size_offset c) (\<lambda>(raw, c).
     bindr (read_many file_count (\<lambda>c. bsa_io (read_u32 c)) c) (\<lambda>(_, c).
     bindr (read_many file_count tes3_name c) (\<lambda>(names, _).
       Inr \<lparr> t3_source = source,
             t3_entries = map (\<lambda>(name, size, _). \<lparr> ae_path = name, ae_uncompressed_size = size,
               ae_compressed_size = None \<rparr>) (zip names raw),
             t3_records = map (\<lambda>(size, off). \<lparr> t3_data_offset = ucast off, t3_size = size \<rparr>) raw,
             t3_index = path_index names,
             t3_data_start = 8 + ucast hash_offset + 8 * of_nat file_count \<rparr>))))))"

definition tes3_extract_by_index :: "tes3_archive \<Rightarrow> nat \<Rightarrow> bsa_error + bytes" where
  "tes3_extract_by_index a idx =
     (let rec = t3_records a ! idx;
          start = unat (t3_data_start a + t3_data_offset rec);
          stop = start + unat (t3_size rec)
      in if stop > length (t3_source a) then Inl (Corrupt ''TES3 file data out of bounds'')
         else Inr (slice start stop (t3_source a)))"

definition tes3_find :: "tes3_archive \<Rightarrow> rstring \<Rightarrow> nat option" where
  "tes3_find a path = t3_index a (normalise_path path)"

definition tes3_extract :: "tes3_archive \<Rightarrow> rstring \<Rightarrow> (bsa_error + bytes) option" where
  "tes3_extract a path = map_option (tes3_extract_by_index a) (tes3_find a path)"

subsection \<open>Writer\<close>

text \<open>The part of a path after its last slash.\<close>

definition file_name :: "rstring \<Rightarrow> rstring" where
  "file_name path = snd (split_dir_filename path)"

definition tes3_sorted :: "builder_entry list \<Rightarrow> (u64 \<times> builder_entry) list" where
  "tes3_sorted entries = sort_key fst (map (\<lambda>e. (hash_tes3 (file_name (be_path e)), e)) entries)"

lemma tes3_sorted_entries: "map snd (tes3_sorted es) = sort_key (\<lambda>e. hash_tes3 (file_name (be_path e))) es"
  by (simp add: tes3_sorted_def sort_key_map comp_def)

fun tes3_name_offsets :: "nat \<Rightarrow> builder_entry list \<Rightarrow> u32 list" where
  "tes3_name_offsets len [] = []"
| "tes3_name_offsets len (e # es) = of_nat len # tes3_name_offsets (len + length (be_path e) + 1) es"

fun tes3_data_offsets :: "u32 \<Rightarrow> builder_entry list \<Rightarrow> bsa_error + u32 list" where
  "tes3_data_offsets running [] = Inr []"
| "tes3_data_offsets running (e # es) =
     (let len = (of_nat (length (be_data e)) :: u32)
      in if unat running + unat len < 2 ^ 32
         then bindr (tes3_data_offsets (running + len) es) (\<lambda>offs. Inr (running # offs))
         else Inl (Corrupt ''TES3 archive data exceeds 4 GiB''))"

definition tes3_write :: "builder_entry list \<Rightarrow> bsa_error + bytes" where
  "tes3_write entries =
     (if entries = [] then Inl EmptyArchive
      else
        let sorted = tes3_sorted entries;
            es = map snd sorted;
            n = length sorted;
            name_block = concat (map (\<lambda>e. be_path e @ [0]) es);
            name_offsets = tes3_name_offsets 0 es;
            hash_offset = (of_nat (4 + 8 * n + 4 * n + length name_block) :: u32)
        in bindr (tes3_data_offsets 0 es) (\<lambda>data_offsets.
             Inr (TES3_MAGIC @ le_bytes 4 hash_offset @ le_bytes 4 (of_nat n :: u32) @
                  concat (map (\<lambda>(e, off). le_bytes 4 (of_nat (length (be_data e)) :: u32) @ le_bytes 4 off)
                    (zip es data_offsets)) @
                  concat (map (le_bytes 4) name_offsets) @
                  name_block @
                  concat (map (\<lambda>(h, _). le_bytes 8 h) sorted) @
                  concat (map be_data es))))"

subsection \<open>Reading what was written\<close>

lemma scan_name_written:
  "0 \<notin> set xs \<Longrightarrow> wf_cursor (cursor_at pre (xs @ 0 # post)) \<Longrightarrow>
   scan_name (cursor_at pre (xs @ 0 # post)) = Inr (cursor_at (pre @ xs @ [0]) post)"
proof (induction xs arbitrary: pre)
  case Nil
  then show ?case using rd_u8.rd_encoded [of pre 0 post]
    by (subst scan_name.simps) simp
next
  case (Cons x xs)
  have "wf_cursor (cursor_at (pre @ [x]) (xs @ 0 # post))" using Cons.prems(2) by (simp add: wf_cursor_at)
  then show ?case using Cons rd_u8.rd_encoded [of pre x "xs @ 0 # post"]
    by (subst scan_name.simps) simp
qed

lemma tes3_name_written:
  assumes "ascii_path p" "wf_cursor (cursor_at pre ((p @ [0]) @ post))"
  shows "tes3_name (cursor_at pre ((p @ [0]) @ post)) = Inr (normalise_path p, cursor_at (pre @ p @ [0]) post)"
proof -
  have "0 \<notin> set p" using assms(1) by (auto simp: ascii_path_def)
  then have "scan_name (cursor_at pre (p @ 0 # post)) = Inr (cursor_at (pre @ p @ [0]) post)"
    using assms(2) by (intro scan_name_written) simp_all
  moreover have "slice (length pre) (length pre + length p) (pre @ p @ 0 # post) = p" by (rule slice_in_append)
  ultimately show ?thesis using ascii_path_utf8 [OF assms(1)] by (simp add: tes3_name_def)
qed

lemma tes3_size_offset_written:
  "wf_cursor (cursor_at pre ((le_bytes 4 sz @ le_bytes 4 off) @ post)) \<Longrightarrow>
   tes3_size_offset (cursor_at pre ((le_bytes 4 sz @ le_bytes 4 off) @ post)) =
     Inr ((sz, off), cursor_at (pre @ le_bytes 4 sz @ le_bytes 4 off) post)"
  by (simp add: tes3_size_offset_def rd_u32.rd_encoded wf_cursor_at)

lemma length_tes3_name_offsets [simp]: "length (tes3_name_offsets n es) = length es"
  by (induction es arbitrary: n) simp_all

lemma tes3_data_offsets_spec:
  assumes "tes3_data_offsets r es = Inr offs" "\<And>e. e \<in> set es \<Longrightarrow> length (be_data e) < 2 ^ 32"
  shows "length offs = length es \<and>
    (\<forall>i < length es. unat (offs ! i) = unat r + total_length (take i (map be_data es)))"
  using assms
proof (induction es arbitrary: r offs)
  case (Cons e es)
  let ?len = "of_nat (length (be_data e)) :: u32"
  from Cons.prems(1) obtain offs' where o: "unat r + unat ?len < 2 ^ 32" "offs = r # offs'"
      "tes3_data_offsets (r + ?len) es = Inr offs'"
    by (auto simp: Let_def bindr_eq_Inr split: if_splits)
  have "unat ?len = length (be_data e)" using Cons.prems(2) by simp
  moreover have "unat (r + ?len) = unat r + unat ?len" using o(1) by (simp add: unat_plus_if')
  ultimately show ?case using Cons.IH [OF o(3)] Cons.prems(2) o(2)
    by (auto simp: nth_Cons' take_Cons')
qed simp

lemma tes3_parse_written:
  fixes ho n :: u32 and raw :: "(u32 \<times> u32) list" and nos :: "u32 list"
  assumes out: "out = TES3_MAGIC @ le_bytes 4 ho @ le_bytes 4 n @
      concat (map (\<lambda>(sz, off). le_bytes 4 sz @ le_bytes 4 off) raw) @ concat (map (le_bytes 4) nos) @
      concat (map (\<lambda>p. p @ [0]) ps) @ post"
    and len: "length out \<le> isize_max" "length raw = unat n" "length nos = unat n" "length ps = unat n"
    and names: "\<forall>p \<in> set ps. ascii_path p"
  shows "\<exists>a. tes3_parse out = Inr a \<and> t3_source a = out \<and> t3_index a = path_index (map normalise_path ps) \<and>
    map ae_path (t3_entries a) = map normalise_path ps \<and>
    t3_records a = map (\<lambda>(sz, off). \<lparr> t3_data_offset = ucast off, t3_size = sz \<rparr>) raw \<and>
    t3_data_start a = 8 + ucast ho + 8 * of_nat (unat n)"
proof -
  let ?R = "concat (map (\<lambda>(sz, off). le_bytes 4 sz @ le_bytes 4 off) raw)"
    and ?N = "concat (map (le_bytes 4) nos)" and ?P = "concat (map (\<lambda>p. p @ [0]) ps)"
  let ?h = "TES3_MAGIC @ le_bytes 4 ho @ le_bytes 4 n"
  have m: "length TES3_MAGIC = 4" by (simp add: TES3_MAGIC_def)
  have wf: "wf_cursor (cursor_at pre suf)" if "pre @ suf = out" for pre suf
    using len(1) that by (auto simp: wf_cursor_at)
  have 1: "read_array 4 (cursor_new out) = Inr (TES3_MAGIC, cursor_at TES3_MAGIC (drop 4 out))"
    using wf [of "[]" out] m out unfolding cursor_new_at by (simp add: read_array_encoded)
  have 2: "read_u32 (cursor_at TES3_MAGIC (drop 4 out)) = Inr (ho, cursor_at (TES3_MAGIC @ le_bytes 4 ho) (drop 8 out))"
    using wf [of TES3_MAGIC "drop 4 out"] m out by (simp add: rd_u32.rd_encoded)
  have 3: "read_u32 (cursor_at (TES3_MAGIC @ le_bytes 4 ho) (drop 8 out)) = Inr (n, cursor_at ?h (?R @ ?N @ ?P @ post))"
    using wf [of "TES3_MAGIC @ le_bytes 4 ho" "drop 8 out"] m out by (simp add: rd_u32.rd_encoded)
  have 4: "read_many (length raw) tes3_size_offset (cursor_at ?h (?R @ ?N @ ?P @ post)) =
      Inr (map (\<lambda>v. v) raw, cursor_at (?h @ ?R) (?N @ ?P @ post))"
    using wf out by (intro read_many_encoded) (auto simp: tes3_size_offset_written [simplified])
  have 5: "read_many (length nos) (\<lambda>c. bsa_io (read_u32 c)) (cursor_at (?h @ ?R) (?N @ ?P @ post)) =
      Inr (map (\<lambda>v. v) nos, cursor_at ((?h @ ?R) @ ?N) (?P @ post))"
    using wf out by (intro read_many_encoded) (auto simp: rd_u32.rd_encoded)
  have 6: "read_many (length ps) tes3_name (cursor_at ((?h @ ?R) @ ?N) (?P @ post)) =
      Inr (map normalise_path ps, cursor_at (((?h @ ?R) @ ?N) @ ?P) post)"
    using wf out names tes3_name_written by (intro read_many_encoded) auto
  have "map ae_path (map (\<lambda>(name, size, _). \<lparr> ae_path = name, ae_uncompressed_size = size, ae_compressed_size = None \<rparr>)
      (zip (map normalise_path ps) raw)) = map fst (zip (map normalise_path ps) raw)"
    by (auto simp: comp_def)
  also have "\<dots> = map normalise_path ps" using len by simp
  finally show ?thesis using 1 2 3 4 5 6 len by (simp add: tes3_parse_def Let_def)
qed

lemma length_tes3_data_offsets: "tes3_data_offsets r es = Inr offs \<Longrightarrow> length offs = length es"
  by (induction es arbitrary: r offs) (auto simp: Let_def bindr_eq_Inr split: if_splits)

lemma tes3_data_position:
  fixes ho off :: u32
  shows "n < 2 ^ 32 \<Longrightarrow> unat ((8 + ucast ho + 8 * of_nat n) + ucast off :: u64) = 8 + unat ho + 8 * n + unat off"
proof -
  have "(8 + ucast ho + 8 * of_nat n) + ucast off = (of_nat (8 + unat ho + 8 * n + unat off) :: u64)"
    by simp
  then show "n < 2 ^ 32 \<Longrightarrow> ?thesis"
    using unat_u32_bound [of ho] unat_u32_bound [of off] by (simp only: unat_of_nat take_bit_eq_mod) simp
qed

definition tes3_pack :: "(rstring \<times> bytes) list \<Rightarrow> bsa_error + bytes" where
  "tes3_pack files = tes3_write (added files)"

lemma length_tes3_pairs: "length (concat (map (\<lambda>(sz, off). le_bytes 4 sz @ le_bytes 4 off) raw)) = 8 * length raw"
  by (rule length_concat_const) auto

lemma tes3_pack_parse:
  assumes "tes3_pack files = Inr out" "length out < 2 ^ 32" "\<forall>(p, d) \<in> set files. ascii_path p"
  shows "\<exists>a. tes3_parse out = Inr a \<and>
    mset (map ae_path (t3_entries a)) = mset (map (\<lambda>(p, d). normalise_path p) files) \<and>
    (\<forall>q. ascii_path q \<longrightarrow> tes3_extract a q = map_option Inr (file_map files q))"
proof -
  let ?s = "tes3_sorted (added files)"
  let ?es = "map snd ?s"
  let ?n = "length ?s"
  let ?ps = "map be_path ?es" and ?nb = "concat (map (\<lambda>e. be_path e @ [0]) ?es)"
  let ?ho = "of_nat (4 + 8 * ?n + 4 * ?n + length ?nb) :: u32"
  let ?hs = "concat (map (\<lambda>(h, _). le_bytes 8 h) ?s)"
  from assms(1) obtain offs where ne: "added files \<noteq> []" and offs: "tes3_data_offsets 0 ?es = Inr offs"
    and out: "out = TES3_MAGIC @ le_bytes 4 ?ho @ le_bytes 4 (of_nat ?n :: u32) @
      concat (map (\<lambda>(e, off). le_bytes 4 (of_nat (length (be_data e)) :: u32) @ le_bytes 4 off) (zip ?es offs)) @
      concat (map (le_bytes 4) (tes3_name_offsets 0 ?es)) @ ?nb @ ?hs @ concat (map be_data ?es)"
    by (auto simp: tes3_pack_def tes3_write_def Let_def bindr_eq_Inr split: if_splits)
  let ?raw = "map (\<lambda>(e, off). (of_nat (length (be_data e)) :: u32, off)) (zip ?es offs)"
  have raw: "concat (map (\<lambda>(e, off). le_bytes 4 (of_nat (length (be_data e)) :: u32) @ le_bytes 4 off) (zip ?es offs)) =
      concat (map (\<lambda>(sz, off). le_bytes 4 sz @ le_bytes 4 off) ?raw)"
    by (simp add: comp_def case_prod_unfold)
  have nb: "?nb = concat (map (\<lambda>p. p @ [0]) ?ps)" by (simp add: comp_def)
  have on: "length offs = ?n" using length_tes3_data_offsets [OF offs] by simp
  let ?pre = "TES3_MAGIC @ le_bytes 4 ?ho @ le_bytes 4 (of_nat ?n :: u32) @
      concat (map (\<lambda>(sz, off). le_bytes 4 sz @ le_bytes 4 off) ?raw) @
      concat (map (le_bytes 4) (tes3_name_offsets 0 ?es)) @ ?nb @ ?hs"
  have pre: "length ?pre = 12 + 20 * ?n + length ?nb" "out = ?pre @ concat (map be_data ?es) @ []"
    using out on raw by (simp_all add: length_tes3_pairs length_concat_const [where n = 4] length_concat_const [where n = 8]
        TES3_MAGIC_def case_prod_unfold)
  have lens: "length ?nb + 20 * ?n + length (concat (map be_data ?es)) + 12 \<le> length out"
    using arg_cong [OF pre(2), of length] pre(1) by simp
  have small: "e \<in> set ?es \<Longrightarrow> length (be_data e) < 2 ^ 32" for e
    using assms(2) lens length_le_concat [of e ?es be_data] by simp
  then have o: "length offs = ?n"
    "\<And>i. i < ?n \<Longrightarrow> unat (offs ! i) = total_length (take i (map be_data ?es))"
    using tes3_data_offsets_spec [OF offs] by auto
  have ps: "\<forall>p \<in> set ?ps. ascii_path p"
    using added_paths(1) [OF assms(3)] by (auto simp: tes3_sorted_def)
  have n: "unat (of_nat ?n :: u32) = ?n" "unat ?ho = 4 + 8 * ?n + 4 * ?n + length ?nb"
    using lens assms(2) by (simp_all only: unat_of_nat take_bit_eq_mod) simp_all
  obtain a where a: "tes3_parse out = Inr a" "t3_source a = out" "t3_index a = path_index (map normalise_path ?ps)"
      "map ae_path (t3_entries a) = map normalise_path ?ps"
      "t3_records a = map (\<lambda>(sz, off). \<lparr> t3_data_offset = ucast off, t3_size = sz \<rparr>) ?raw"
      "t3_data_start a = 8 + ucast ?ho + 8 * of_nat ?n"
    using tes3_parse_written [of out ?ho "of_nat ?n" ?raw "tes3_name_offsets 0 ?es" ?ps "?hs @ concat (map be_data ?es)"]
      out raw nb n o ps assms(2) by (auto simp: isize_max_def)
  have extr: "tes3_extract_by_index a i = Inr (be_data (?es ! i))" if i: "i < ?n" for i
  proof -
    let ?p = "length ?pre + total_length (take i (map be_data ?es))"
    have "t3_records a ! i = \<lparr> t3_data_offset = ucast (offs ! i), t3_size = of_nat (length (be_data (?es ! i))) \<rparr>"
      using i on by (simp add: a(5))
    moreover have "unat (8 + ucast ?ho + 8 * of_nat ?n + ucast (offs ! i) :: u64) = ?p"
      using tes3_data_position [of ?n ?ho "offs ! i"] lens assms(2) n(2) o(2) [OF i] pre(1) by simp
    moreover have "unat (of_nat (length (be_data (?es ! i))) :: u32) = length (be_data (?es ! i))"
      using small [of "?es ! i"] i by simp
    moreover have "slice ?p (?p + length (be_data (?es ! i))) out = be_data (?es ! i)"
      using slice_in_concat [of i "map be_data ?es" ?p ?pre "[]"] pre(2) i by simp
    moreover have "?p + length (be_data (?es ! i)) \<le> length out"
      using total_length_nth [of i "map be_data ?es"] i arg_cong [OF pre(2), of length]
      by (simp add: length_concat comp_def)
    ultimately show ?thesis by (simp add: tes3_extract_by_index_def a(2,6) Let_def)
  qed
  have names: "map normalise_path ?ps = map (\<lambda>e. normalise_path (be_path e)) ?es" by (simp add: comp_def)
  note index = file_map_index [OF assms(3) tes3_sorted_entries]
  have "tes3_extract a q = map_option Inr (file_map files q)" for q
    unfolding tes3_extract_def tes3_find_def a(3) names index(1) [symmetric]
    by (rule file_map_extract) (simp add: extr)
  moreover have "mset (map ae_path (t3_entries a)) = mset (map (\<lambda>(p, d). normalise_path p) files)"
    by (simp only: a(4) names index(2))
  ultimately show ?thesis using a(1) by blast
qed

interpretation tes3: archive_codec tes3_pack tes3_parse tes3_extract "\<lambda>a. map ae_path (t3_entries a)" "\<lambda>d. d"
    "\<lambda>_ out. length out < 2 ^ 32"
  by unfold_locales (simp add: tes3_pack_def tes3_write_def, blast intro: tes3_pack_parse)

text \<open>Packing succeeds, and how long its result is, when the contents are under 4 GiB.\<close>

lemma tes3_data_offsets_ok:
  "unat r + total_length (map be_data es) < 2 ^ 32 \<Longrightarrow> \<exists>offs. tes3_data_offsets r es = Inr offs"
proof (induction es arbitrary: r)
  case (Cons e es)
  let ?len = "of_nat (length (be_data e)) :: u32"
  have l: "unat ?len = length (be_data e)" using Cons.prems by simp
  then have "unat (r + ?len) = unat r + length (be_data e)" using Cons.prems by (simp add: unat_plus_if')
  then have "\<exists>offs. tes3_data_offsets (r + ?len) es = Inr offs" using Cons by simp
  then show ?case using l Cons.prems by (auto simp: Let_def)
qed simp

lemma tes3_pack_length:
  assumes "files \<noteq> []" "total_length (map be_data (added files)) < 2 ^ 32"
  shows "\<exists>out. tes3_pack files = Inr out \<and> length out =
    12 + 20 * length files + sum_list (map (\<lambda>e. length (be_path e) + 1) (added files)) +
    total_length (map be_data (added files))"
proof -
  let ?es = "map snd (tes3_sorted (added files))"
  have d: "total_length (map be_data ?es) = total_length (map be_data (added files))"
    using sum_sorted [of "\<lambda>e. length (be_data e)"] by (simp add: tes3_sorted_entries comp_def)
  have p: "sum_list (map (\<lambda>e. length (be_path e) + 1) ?es) = sum_list (map (\<lambda>e. length (be_path e) + 1) (added files))"
    using sum_sorted [of "\<lambda>e. length (be_path e) + 1"] by (simp add: tes3_sorted_entries comp_def)
  obtain offs where offs: "tes3_data_offsets 0 ?es = Inr offs"
    using tes3_data_offsets_ok [of 0 ?es] assms(2) d by auto
  show ?thesis using offs length_tes3_data_offsets [OF offs] assms(1) d p
    by (simp add: tes3_pack_def tes3_write_def Let_def length_concat comp_def case_prod_unfold TES3_MAGIC_def
        sum_list_triv tes3_sorted_def)
qed

end
