(* ===== verification/Tes4Archive.thy ===== *)
theory Tes4Archive
  imports Tes3Archive OrderedMaps "HOL-Library.Product_Lexorder"
begin

text \<open>
  Oblivion to Skyrim SE archives: the reader of \<open>bsa/tes4.rs\<close>, the flags of \<open>bsa/flags.rs\<close> and the
  writer of \<open>write/bsa_tes4.rs\<close>. The codecs are parameters, selected by whether the archive is of the
  SSE variant: \<open>inflate\<close> decodes, \<open>deflate\<close> encodes or fails with the encoder's message.
\<close>

definition TES4_MAGIC :: bytes where "TES4_MAGIC = ascii ''BSA'' @ [0]"

definition VERSION_TES4 :: u32 where "VERSION_TES4 = 0x67"
definition VERSION_FO3 :: u32 where "VERSION_FO3 = 0x68"
definition VERSION_SSE :: u32 where "VERSION_SSE = 0x69"

definition FILE_COMPRESS_BIT :: u32 where "FILE_COMPRESS_BIT = 0x40000000"

definition AF_PATHNAMES :: u32 where "AF_PATHNAMES = 0x0001"
definition AF_FILENAMES :: u32 where "AF_FILENAMES = 0x0002"
definition AF_COMPRESS :: u32 where "AF_COMPRESS = 0x0004"
definition AF_EMBEDNAME :: u32 where "AF_EMBEDNAME = 0x0100"

text \<open>The ten archive flags occupy the low ten bits; \<open>from_bits_truncate\<close> keeps those.\<close>

definition archive_flags_truncate :: "u32 \<Rightarrow> u32" where
  "archive_flags_truncate v = v AND 0x3FF"

definition archive_flags_contain :: "u32 \<Rightarrow> u32 \<Rightarrow> bool" where
  "archive_flags_contain flags f \<longleftrightarrow> flags AND f = f"

datatype tes4_version = BTes4 | BFo3 | BSse

subsection \<open>Reader\<close>

record tes4_record =
  t4_offset :: u64
  t4_raw_size :: u32
  t4_is_compressed :: bool
  t4_has_embed_name :: bool

record tes4_archive =
  t4_source :: bytes
  t4_version :: tes4_version
  t4_entries :: "archive_entry list"
  t4_records :: "tes4_record list"
  t4_index :: "rstring \<Rightarrow> nat option"

text \<open>A folder record; only its file count is kept.\<close>

definition tes4_folder_record :: "tes4_version \<Rightarrow> cursor \<Rightarrow> bsa_error + u32 \<times> cursor" where
  "tes4_folder_record version c =
     bindr (bsa_io (read_array 8 c)) (\<lambda>(_, c).
     bindr (bsa_io (read_u32 c)) (\<lambda>(fc, c).
       if version = BSse
       then bindr (bsa_io (read_u32 c)) (\<lambda>(_, c). bindr (bsa_io (read_array 8 c)) (\<lambda>(_, c). Inr (fc, c)))
       else bindr (bsa_io (read_u32 c)) (\<lambda>(_, c). Inr (fc, c))))"

definition tes4_file_record :: "cursor \<Rightarrow> bsa_error + (u32 \<times> u32) \<times> cursor" where
  "tes4_file_record c =
     bindr (bsa_io (read_array 8 c)) (\<lambda>(_, c).
     bindr (bsa_io (read_u32 c)) (\<lambda>(raw_size, c).
     bindr (bsa_io (read_u32 c)) (\<lambda>(raw_offset, c). Inr ((raw_size, raw_offset), c))))"

text \<open>The data block of a folder: its name, then its file records.\<close>

definition tes4_folder_block :: "u32 \<Rightarrow> cursor \<Rightarrow> bsa_error + (rstring \<times> u32 \<times> u32) list \<times> cursor" where
  "tes4_folder_block fc c =
     bindr (bsa_io (read_u8 c)) (\<lambda>(nl, c).
     let name_len = unat nl in
     bindr (bsa_io (read_slice name_len c)) (\<lambda>(name_bytes, c).
     let name_end = (if 0 < name_len \<and> name_bytes ! (name_len - 1) = 0 then name_len - 1 else name_len);
         raw = take name_end name_bytes
     in if \<not> utf8_valid raw then Inl (Corrupt ''non-UTF-8 folder name'')
        else bindr (read_many (unat fc) tes4_file_record c) (\<lambda>(files, c).
          Inr (map (\<lambda>(size, off). (normalise_path raw, size, off)) files, c))))"

fun tes4_folder_blocks :: "u32 list \<Rightarrow> cursor \<Rightarrow> bsa_error + (rstring \<times> u32 \<times> u32) list \<times> cursor" where
  "tes4_folder_blocks [] c = Inr ([], c)"
| "tes4_folder_blocks (fc # fcs) c =
     bindr (tes4_folder_block fc c) (\<lambda>(es, c1).
     bindr (tes4_folder_blocks fcs c1) (\<lambda>(rest, c2). Inr (es @ rest, c2)))"

text \<open>The name table, read by position; a start past the end is the slice panic of the source.\<close>

fun tes4_names :: "nat \<Rightarrow> bytes \<Rightarrow> nat \<Rightarrow> bsa_error + rstring list" where
  "tes4_names 0 bs pos = Inr []"
| "tes4_names (Suc n) bs pos =
     (let stop = scan_nul bs pos
      in if pos > length bs then Inl (BsaPanic ''name slice out of range'')
         else if \<not> utf8_valid (slice pos stop bs) then Inl (Corrupt ''non-UTF-8 file name'')
         else bindr (tes4_names n bs (stop + 1)) (\<lambda>names. Inr (normalise_path (slice pos stop bs) # names)))"

definition tes4_path :: "rstring \<Rightarrow> rstring \<Rightarrow> rstring" where
  "tes4_path folder_prefix name = (if folder_prefix = [] then name else folder_prefix @ [0x2F] @ name)"

definition tes4_parse :: "bytes \<Rightarrow> u32 \<Rightarrow> bsa_error + tes4_archive" where
  "tes4_parse source raw_version =
     bindr (if raw_version = VERSION_TES4 then Inr BTes4
            else if raw_version = VERSION_FO3 then Inr BFo3
            else if raw_version = VERSION_SSE then Inr BSse
            else Inl (UnsupportedVersion raw_version)) (\<lambda>version.
     bindr (bsa_io (read_array 4 (cursor_new source))) (\<lambda>(_, c).
     bindr (bsa_io (read_u32 c)) (\<lambda>(_, c).
     bindr (bsa_io (read_u32 c)) (\<lambda>(fo, c).
     bindr (bsa_io (read_u32 c)) (\<lambda>(flags, c).
     bindr (bsa_io (read_u32 c)) (\<lambda>(folder_count, c).
     bindr (bsa_io (read_u32 c)) (\<lambda>(_, c).
     bindr (bsa_io (read_u32 c)) (\<lambda>(_, c).
     bindr (bsa_io (read_u32 c)) (\<lambda>(_, c).
     bindr (bsa_io (read_u32 c)) (\<lambda>(_, c).
       let folders_offset = unat fo;
           archive_flags = archive_flags_truncate flags;
           archive_compress = archive_flags_contain archive_flags AF_COMPRESS;
           embed_names = (archive_flags_contain archive_flags AF_EMBEDNAME \<and> (version = BFo3 \<or> version = BSse))
       in if folders_offset > length source then Inl (Corrupt ''folders_offset out of bounds'')
          else
            bindr (read_many (unat folder_count) (tes4_folder_record version)
                     (cursor_new (drop folders_offset source))) (\<lambda>(folders, c).
            bindr (tes4_folder_blocks folders c) (\<lambda>(raw_entries, c).
            bindr (tes4_names (sum_list (map unat folders)) source (folders_offset + cur_pos c)) (\<lambda>file_names.
              let files = map (\<lambda>((folder, raw_size, raw_offset), name).
                    let is_compressed = (archive_compress \<noteq> (raw_size AND FILE_COMPRESS_BIT \<noteq> 0));
                        actual_size = raw_size AND NOT FILE_COMPRESS_BIT
                    in (\<lparr> ae_path = tes4_path folder name, ae_uncompressed_size = actual_size,
                          ae_compressed_size = (if is_compressed then Some actual_size else None) \<rparr>,
                        \<lparr> t4_offset = ucast raw_offset, t4_raw_size = actual_size,
                          t4_is_compressed = is_compressed, t4_has_embed_name = embed_names \<rparr>))
                    (zip raw_entries file_names)
              in Inr \<lparr> t4_source = source, t4_version = version,
                       t4_entries = map fst files, t4_records = map snd files,
                       t4_index = path_index (map (\<lambda>f. ae_path (fst f)) files) \<rparr>)))))))))))))"

definition tes4_extract_by_index ::
    "(bool \<Rightarrow> bytes \<Rightarrow> string + bytes) \<Rightarrow> tes4_archive \<Rightarrow> nat \<Rightarrow> bsa_error + bytes" where
  "tes4_extract_by_index inflate a idx =
     (let rec = t4_records a ! idx;
          bs = t4_source a;
          offset = unat (t4_offset rec)
      in if offset \<ge> length bs then Inl (Corrupt ''file data offset out of bounds'')
         else
           bindr (if t4_has_embed_name rec
                  then let jump = 1 + unat (bs ! offset)
                       in if jump > unat (t4_raw_size rec) then Inl (Corrupt ''embed name larger than file data'')
                          else Inr (offset + jump, unat (t4_raw_size rec) - jump)
                  else Inr (offset, unat (t4_raw_size rec))) (\<lambda>(offset, remaining).
           if t4_is_compressed rec then
             (if remaining < 4 then Inl (Corrupt ''compressed file too small'')
              else
                bindr (ok_or (Corrupt ''uncompressed size read out of bounds'') (get_range (offset, offset + 4) bs)) (\<lambda>unc.
                bindr (ok_or (Corrupt ''compressed data out of bounds'')
                         (get_range (offset + 4, offset + 4 + (remaining - 4)) bs)) (\<lambda>compressed.
                  let uncompressed_size = unat (le_word unc :: u32)
                  in bsa_io (if t4_version a = BSse
                             then decompress_lz4_frame (inflate True) compressed uncompressed_size
                             else decompress_zlib (inflate False) compressed uncompressed_size))))
           else
             (if offset + remaining > length bs then Inl (Corrupt ''file data out of bounds'')
              else Inr (slice offset (offset + remaining) bs))))"

definition tes4_find :: "tes4_archive \<Rightarrow> rstring \<Rightarrow> nat option" where
  "tes4_find a path = t4_index a (normalise_path path)"

definition tes4_extract ::
    "(bool \<Rightarrow> bytes \<Rightarrow> string + bytes) \<Rightarrow> tes4_archive \<Rightarrow> rstring \<Rightarrow> (bsa_error + bytes) option" where
  "tes4_extract inflate a path = map_option (tes4_extract_by_index inflate a) (tes4_find a path)"

subsection \<open>Writer\<close>

record tes4_file =
  tf_folder_name :: rstring
  tf_file_name :: rstring
  tf_folder_hash :: u64
  tf_file_hash :: u64
  tf_stored :: bytes
  tf_is_compressed :: bool

definition compress_data :: "(bool \<Rightarrow> bytes \<Rightarrow> string + bytes) \<Rightarrow> bytes \<Rightarrow> bool \<Rightarrow> bsa_error + bytes" where
  "compress_data deflate data is_sse = map_err WriteIo (deflate is_sse data)"

text \<open>The closure over one pending file.\<close>

definition tes4_file_entry ::
    "(bool \<Rightarrow> bytes \<Rightarrow> string + bytes) \<Rightarrow> bool \<Rightarrow> bool \<Rightarrow> bool \<Rightarrow> builder_entry \<Rightarrow> bsa_error + tes4_file" where
  "tes4_file_entry deflate is_sse do_embed compress e =
     (let (folder_str, file_str) = split_dir_filename (be_path e);
          (stem, ext_str) = split_stem_ext file_str;
          is_compressed = (case be_compress_override e of Some b \<Rightarrow> b | None \<Rightarrow> compress);
          name_len = (of_nat (min (length file_str) 255) :: u8);
          embed = (if do_embed then name_len # take (unat name_len) file_str else [])
      in bindr (if is_compressed
                then bindr (compress_data deflate (be_data e) is_sse) (\<lambda>z.
                       Inr (le_bytes 4 (of_nat (length (be_data e)) :: u32) @ z))
                else Inr (be_data e)) (\<lambda>payload.
         Inr \<lparr> tf_folder_name = folder_str, tf_file_name = file_str,
               tf_folder_hash = hash_tes4_dir (map (\<lambda>b. if b = 0x2F then 0x5C else b) folder_str),
               tf_file_hash = hash_tes4_file stem ext_str,
               tf_stored = embed @ payload, tf_is_compressed = is_compressed \<rparr>))"

definition content_flag_for_ext :: "bytes \<Rightarrow> u32" where
  "content_flag_for_ext ext =
     (if ext \<in> {ascii ''.nif'', ascii ''.kf'', ascii ''.btr'', ascii ''.bto''} then 0x0001
      else if ext = ascii ''.dds'' then 0x0002
      else if ext \<in> {ascii ''.swf'', ascii ''.gfx'', ascii ''.xml''} then 0x0004
      else if ext \<in> {ascii ''.wav'', ascii ''.xwm'', ascii ''.mp3''} then 0x0008
      else if ext \<in> {ascii ''.fuz'', ascii ''.lip''} then 0x0010
      else if ext \<in> {ascii ''.hlsl'', ascii ''.fx''} then 0x0020
      else if ext \<in> {ascii ''.spt'', ascii ''.lst''} then 0x0040
      else if ext \<in> {ascii ''.fnt'', ascii ''.otf'', ascii ''.ttf''} then 0x0080
      else 0x0100)"

definition tes4_content_flags :: "tes4_file list \<Rightarrow> u32" where
  "tes4_content_flags fes =
     foldl (\<lambda>flags fe. case rfind 0x2E (tf_file_name fe) of
         None \<Rightarrow> flags
       | Some i \<Rightarrow> flags OR content_flag_for_ext (drop i (tf_file_name fe))) 0 fes"

text \<open>The grouping into folders: a map from folder hash to the name first seen and the file indices.\<close>

type_synonym folder_map = "(u64 \<times> rstring \<times> nat list) list"

definition tes4_add_to_folder :: "nat \<times> tes4_file \<Rightarrow> folder_map \<Rightarrow> folder_map" where
  "tes4_add_to_folder = (\<lambda>(idx, fe) m.
     case map_of m (tf_folder_hash fe) of
       None \<Rightarrow> om_insert (tf_folder_hash fe) (tf_folder_name fe, [idx]) m
     | Some (name, idxs) \<Rightarrow> om_insert (tf_folder_hash fe) (name, idxs @ [idx]) m)"

definition tes4_folders :: "tes4_file list \<Rightarrow> folder_map" where
  "tes4_folders fes = foldl (\<lambda>m p. tes4_add_to_folder p m) [] (enumerate 0 fes)"

definition tes4_block_size :: "u64 \<times> rstring \<times> nat list \<Rightarrow> nat" where
  "tes4_block_size = (\<lambda>(_, name, idxs). 1 + length name + 1 + length idxs * 16)"

definition u32_try_from :: "string \<Rightarrow> nat \<Rightarrow> bsa_error + u32" where
  "u32_try_from msg n = (if n < 2 ^ 32 then Inr (of_nat n) else Inl (Corrupt msg))"

definition tes4_raw_size :: "bool \<Rightarrow> tes4_file \<Rightarrow> u32" where
  "tes4_raw_size compress fe =
     of_nat (length (tf_stored fe)) OR (if tf_is_compressed fe \<noteq> compress then FILE_COMPRESS_BIT else 0)"

definition tes4_folder_bytes :: "bool \<Rightarrow> (u64 \<times> rstring \<times> nat list) \<times> nat \<Rightarrow> bsa_error + bytes" where
  "tes4_folder_bytes is_sse = (\<lambda>((folder_hash, _, idxs), off).
     let head = le_bytes 8 folder_hash @ le_bytes 4 (of_nat (length idxs) :: u32)
     in if is_sse then Inr (head @ le_bytes 4 (0 :: u32) @ le_bytes 8 (of_nat off :: u64))
        else bindr (u32_try_from ''BSA folder data offset exceeds 4 GiB'' off) (\<lambda>off32. Inr (head @ le_bytes 4 off32)))"

text \<open>The folder data blocks; the data offsets are consumed in the order the files are written.\<close>

fun tes4_file_records :: "bool \<Rightarrow> tes4_file list \<Rightarrow> nat list \<Rightarrow> u32 list \<Rightarrow> bytes \<times> u32 list" where
  "tes4_file_records compress fes [] offs = ([], offs)"
| "tes4_file_records compress fes (i # idxs) offs =
     (case tes4_file_records compress fes idxs (tl offs) of (rest, offs1) \<Rightarrow>
        (le_bytes 8 (tf_file_hash (fes ! i)) @ le_bytes 4 (tes4_raw_size compress (fes ! i)) @
         le_bytes 4 (hd offs) @ rest, offs1))"

fun tes4_folder_data :: "bool \<Rightarrow> tes4_file list \<Rightarrow> folder_map \<Rightarrow> u32 list \<Rightarrow> bytes" where
  "tes4_folder_data compress fes [] offs = []"
| "tes4_folder_data compress fes ((_, name, idxs) # folders) offs =
     (case tes4_file_records compress fes idxs offs of (records, offs1) \<Rightarrow>
        [of_nat (length name) + 1] @ name @ [0] @ records @ tes4_folder_data compress fes folders offs1)"

text \<open>The second half of \<open>write\<close>, from the sorted file entries on.\<close>

definition tes4_output :: "u32 \<Rightarrow> bool \<Rightarrow> bool \<Rightarrow> bool \<Rightarrow> tes4_file list \<Rightarrow> bsa_error + bytes" where
  "tes4_output raw_version is_sse compress do_embed fes =
     (let content_flags = tes4_content_flags fes;
          folders = tes4_folders fes;
          folder_count = (of_nat (length folders) :: u32);
          file_count = (of_nat (length fes) :: u32);
          folder_names_len = (of_nat (sum_list (map (\<lambda>(_, name, _). 1 + length name + 1) folders)) :: u32);
          file_names_len = (of_nat (sum_list (map (\<lambda>fe. length (tf_file_name fe) + 1) fes)) :: u32);
          archive_flags = AF_PATHNAMES OR AF_FILENAMES OR (if compress then AF_COMPRESS else 0) OR
            (if do_embed then AF_EMBEDNAME else 0);
          folders_offset = (36 :: u32);
          folder_records_end = 36 + length folders * (if is_sse then 24 else 16);
          folder_data_offsets = positions folder_records_end (map tes4_block_size folders);
          name_table_start = folder_records_end + sum_list (map tes4_block_size folders);
          file_data_start = name_table_start + unat file_names_len in
      bindr (collect_files (u32_try_from ''BSA file data offset exceeds 4 GiB (u32 limit)'')
               (positions file_data_start (map (\<lambda>fe. length (tf_stored fe)) fes))) (\<lambda>offs.
      bindr (collect_files (tes4_folder_bytes is_sse) (zip folders folder_data_offsets)) (\<lambda>folder_records.
        Inr (TES4_MAGIC @ le_bytes 4 raw_version @ le_bytes 4 folders_offset @ le_bytes 4 archive_flags @
             le_bytes 4 folder_count @ le_bytes 4 file_count @ le_bytes 4 folder_names_len @
             le_bytes 4 file_names_len @ le_bytes 4 content_flags @
             concat folder_records @
             tes4_folder_data compress fes folders offs @
             concat (map (\<lambda>fe. tf_file_name fe @ [0]) fes) @
             concat (map tf_stored fes)))))"

definition tes4_write ::
    "(bool \<Rightarrow> bytes \<Rightarrow> string + bytes) \<Rightarrow> bsa_version \<Rightarrow> bool \<Rightarrow> bool \<Rightarrow> builder_entry list \<Rightarrow> bsa_error + bytes" where
  "tes4_write deflate version compress embed_names entries =
     (if entries = [] then Inl EmptyArchive
      else
        bindr (case version of
                 VTes4 \<Rightarrow> Inr VERSION_TES4
               | VFo3 \<Rightarrow> Inr VERSION_FO3
               | VSse \<Rightarrow> Inr VERSION_SSE
               | VTes3 \<Rightarrow> Inl (Corrupt ''TES3 BSA cannot be written by the TES4/FO3/SSE writer'')) (\<lambda>raw_version.
        let is_sse = (version = VSse);
            do_embed = (embed_names \<and> (version = VFo3 \<or> version = VSse)) in
        bindr (collect_files (tes4_file_entry deflate is_sse do_embed compress) entries) (\<lambda>unsorted.
          tes4_output raw_version is_sse compress do_embed
            (sort_key (\<lambda>fe. (tf_folder_hash fe, tf_file_hash fe)) unsorted))))"

subsection \<open>The grouping into folders\<close>

definition folder_ok :: "tes4_file list \<Rightarrow> u64 \<times> rstring \<times> nat list \<Rightarrow> bool" where
  "folder_ok fes = (\<lambda>(h, name, idxs). idxs \<noteq> [] \<and> name = tf_folder_name (fes ! hd idxs) \<and>
     (\<forall>i \<in> set idxs. i < length fes \<and> tf_folder_hash (fes ! i) = h))"

abbreviation folder_files :: "folder_map \<Rightarrow> nat list" where
  "folder_files m \<equiv> concat (map (\<lambda>(_, _, idxs). idxs) m)"

lemma om_insert_last: "\<forall>k \<in> set (map fst m). k < x \<Longrightarrow> om_insert x v m = m @ [(x, v)]"
  by (induction m) auto

lemma om_insert_same_last: "\<forall>k \<in> set (map fst m). k < x \<Longrightarrow> om_insert x v (m @ [(x, w)]) = m @ [(x, v)]"
  by (induction m) auto

lemma folder_okD:
  assumes "list_all (folder_ok fes) m" "f \<in> set m"
  shows "\<exists>i < length fes. tf_folder_hash (fes ! i) = fst f"
proof -
  obtain h name idxs where f: "f = (h, name, idxs)" by (cases f)
  then have "folder_ok fes (h, name, idxs)" using assms by (simp add: list_all_iff)
  then show ?thesis using f by (auto simp: folder_ok_def intro: hd_in_set)
qed

lemma tes4_folders_snoc:
  "tes4_folders (fes @ [fe]) = tes4_add_to_folder (length fes, fe) (tes4_folders fes)"
  by (simp add: tes4_folders_def enumerate_append_eq)

text \<open>
  Over files sorted by folder hash, the map is in the order of the files: its keys ascend, the last one
  is the hash of the last file, and its index lists are consecutive.
\<close>

lemma tes4_folders_sorted:
  assumes "sorted (map tf_folder_hash fes)"
  shows "folder_files (tes4_folders fes) = [0..<length fes] \<and> list_all (folder_ok fes) (tes4_folders fes) \<and>
    sorted_wrt (<) (map fst (tes4_folders fes)) \<and>
    (fes \<noteq> [] \<longrightarrow> tes4_folders fes \<noteq> [] \<and> fst (last (tes4_folders fes)) = tf_folder_hash (last fes))"
  using assms
proof (induction fes rule: rev_induct)
  case Nil
  then show ?case by (simp add: tes4_folders_def)
next
  case (snoc fe fes)
  let ?h = "tf_folder_hash fe" and ?m = "tes4_folders fes"
  have IH: "folder_files ?m = [0..<length fes]" "list_all (folder_ok fes) ?m" "sorted_wrt (<) (map fst ?m)"
    "fes \<noteq> [] \<longrightarrow> ?m \<noteq> [] \<and> fst (last ?m) = tf_folder_hash (last fes)"
    using snoc by (auto simp: sorted_append)
  have ok: "list_all (folder_ok (fes @ [fe])) ?m"
    using IH(2) by (fastforce simp: list_all_iff folder_ok_def nth_append split: prod.splits)
  show ?case
  proof (cases "map_of ?m ?h")
    case None
    have lt: "\<forall>k \<in> set (map fst ?m). k < ?h"
    proof
      fix k assume "k \<in> set (map fst ?m)"
      then obtain f where f: "f \<in> set ?m" "fst f = k" by auto
      obtain i where "i < length fes" "tf_folder_hash (fes ! i) = k" using folder_okD [OF IH(2) f(1)] f(2) by auto
      then have "k \<le> ?h" using snoc.prems by (auto simp: sorted_append)
      moreover have "k \<noteq> ?h" using None f by (metis map_of_eq_None_iff imageI)
      ultimately show "k < ?h" by simp
    qed
    then have "tes4_folders (fes @ [fe]) = ?m @ [(?h, tf_folder_name fe, [length fes])]"
      using None om_insert_last [of ?m ?h] by (simp add: tes4_folders_snoc tes4_add_to_folder_def)
    then show ?thesis using IH ok lt by (simp add: folder_ok_def sorted_wrt_append)
  next
    case (Some v)
    obtain name idxs where v: "v = (name, idxs)" by (cases v)
    have mem: "(?h, name, idxs) \<in> set ?m" using map_of_SomeD [OF Some] v by simp
    then have "?m \<noteq> []" by auto
    then obtain m l where ml: "?m = m @ [l]" by (metis rev_exhaust)
    have ne: "fes \<noteq> []" using folder_okD [OF IH(2) mem] by auto
    have "fst l = tf_folder_hash (last fes)" using IH(4) ml ne by simp
    then have "fst l \<le> ?h" using snoc.prems ne by (auto simp: sorted_append)
    moreover have "?h \<le> fst l"
      using mem IH(3) unfolding ml by (fastforce simp: sorted_wrt_append)
    ultimately have l: "fst l = ?h" by simp
    have lt: "\<forall>k \<in> set (map fst m). k < ?h" using IH(3) l unfolding ml by (auto simp: sorted_wrt_append)
    have "map_of m ?h = None" using lt by (auto simp: map_of_eq_None_iff)
    then have "map_of ?m ?h = Some (snd l)" using l unfolding ml by (cases l) (simp add: map_add_def)
    then have lv: "l = (?h, name, idxs)" using Some v l by (cases l) simp
    have new: "tes4_folders (fes @ [fe]) = m @ [(?h, name, idxs @ [length fes])]"
      using Some v om_insert_same_last [of m ?h "(name, idxs @ [length fes])" "(name, idxs)"] lt
      by (simp add: tes4_folders_snoc tes4_add_to_folder_def ml lv)
    have "folder_ok (fes @ [fe]) (?h, name, idxs)" using ok unfolding ml lv by simp
    then have "folder_ok (fes @ [fe]) (?h, name, idxs @ [length fes])"
      by (auto simp: folder_ok_def hd_append)
    then show ?thesis using IH ok unfolding new ml lv by simp
  qed
qed

subsection \<open>Reading the folder data\<close>

lemma tes4_file_records_eq:
  "length idxs \<le> length offs \<Longrightarrow> tes4_file_records compress fes idxs offs =
     (concat (map (\<lambda>(i, off). le_bytes 8 (tf_file_hash (fes ! i)) @ le_bytes 4 (tes4_raw_size compress (fes ! i)) @ le_bytes 4 off)
        (zip idxs offs)), drop (length idxs) offs)"
proof (induction idxs arbitrary: offs)
  case (Cons i idxs)
  then show ?case by (cases offs) simp_all
qed simp

text \<open>What the reader lists for the folders: the name, the raw size and the offset of each file.\<close>

fun tes4_listing :: "bool \<Rightarrow> tes4_file list \<Rightarrow> folder_map \<Rightarrow> u32 list \<Rightarrow> (rstring \<times> u32 \<times> u32) list" where
  "tes4_listing compress fes [] offs = []"
| "tes4_listing compress fes ((_, name, idxs) # folders) offs =
     map (\<lambda>(i, off). (normalise_path name, tes4_raw_size compress (fes ! i), off)) (zip idxs offs) @
     tes4_listing compress fes folders (drop (length idxs) offs)"

lemma tes4_listing_eq:
  "length (folder_files folders) \<le> length offs \<Longrightarrow>
   tes4_listing compress fes folders offs =
     map (\<lambda>((name, i), off). (normalise_path name, tes4_raw_size compress (fes ! i), off))
       (zip (concat (map (\<lambda>(_, name, idxs). map (Pair name) idxs) folders)) offs)"
proof (induction folders arbitrary: offs)
  case (Cons f folders)
  obtain h name idxs where f: "f = (h, name, idxs)" by (cases f)
  have split: "zip (map (Pair name) idxs @ ys) offs =
      zip (map (Pair name) idxs) (take (length idxs) offs) @ zip ys (drop (length idxs) offs)" for ys
    by (simp add: zip_append1)
  have "zip (map (Pair name) is) (take (length is) os) = map (\<lambda>(i, off). ((name, i), off)) (zip is os)"
    for "is" :: "nat list" and os :: "u32 list"
  proof (induction "is" arbitrary: os)
    case (Cons i "is")
    then show ?case by (cases os) simp_all
  qed simp
  then show ?case using Cons by (simp add: f split comp_def case_prod_unfold)
qed simp

lemma tes4_file_record_written:
  "wf_cursor (cursor_at pre ((le_bytes 8 h @ le_bytes 4 sz @ le_bytes 4 off) @ post)) \<Longrightarrow>
   tes4_file_record (cursor_at pre ((le_bytes 8 h @ le_bytes 4 sz @ le_bytes 4 off) @ post)) =
     Inr ((sz, off), cursor_at (pre @ le_bytes 8 h @ le_bytes 4 sz @ le_bytes 4 off) post)"
  by (simp add: tes4_file_record_def read_encoded wf_cursor_at)

lemma tes4_folder_block_written:
  assumes "ascii_path name" "length name < 255" "length idxs < 2 ^ 32" "length idxs \<le> length offs"
    and "recs = concat (map (\<lambda>(i, off). le_bytes 8 (tf_file_hash (fes ! i)) @ le_bytes 4 (tes4_raw_size compress (fes ! i)) @
      le_bytes 4 off) (zip idxs offs))"
    and "wf_cursor (cursor_at pre (([of_nat (length name) + 1] @ name @ [0] @ recs) @ post))"
  shows "tes4_folder_block (of_nat (length idxs)) (cursor_at pre (([of_nat (length name) + 1] @ name @ [0] @ recs) @ post)) =
    Inr (map (\<lambda>(i, off). (normalise_path name, tes4_raw_size compress (fes ! i), off)) (zip idxs offs),
      cursor_at (pre @ [of_nat (length name) + 1] @ name @ [0] @ recs) post)"
proof -
  let ?n = "of_nat (length name) + 1 :: u8"
  have n: "unat ?n = length (name @ [0])"
    using assms(2) by (simp add: unat_word_ariths unat_of_nat take_bit_eq_mod)
  have 1: "read_u8 (cursor_at pre (?n # (name @ [0]) @ recs @ post)) = Inr (?n, cursor_at (pre @ [?n]) ((name @ [0]) @ recs @ post))"
    using assms(6) by (intro read_encoded) (simp add: wf_cursor_at)
  have 2: "read_slice (length (name @ [0])) (cursor_at (pre @ [?n]) ((name @ [0]) @ recs @ post)) =
      Inr (name @ [0], cursor_at ((pre @ [?n]) @ name @ [0]) (recs @ post))"
    using assms(6) unfolding read_slice_eq by (intro read_array_encoded) (simp_all add: wf_cursor_at)
  have 3: "read_many (length (zip idxs offs)) tes4_file_record (cursor_at ((pre @ [?n]) @ name @ [0]) (recs @ post)) =
      Inr (map (\<lambda>(i, off). (tes4_raw_size compress (fes ! i), off)) (zip idxs offs),
        cursor_at (((pre @ [?n]) @ name @ [0]) @ recs) post)"
    using assms(6) unfolding assms(5)
    by (intro read_many_encoded) (auto simp: wf_cursor_at tes4_file_record_written [simplified])
  have "unat (of_nat (length idxs) :: u32) = length (zip idxs offs)" using assms(3,4) by simp
  then show ?thesis using 1 2 3 n ascii_path_utf8 [OF assms(1)]
    by (simp add: tes4_folder_block_def Let_def nth_append case_prod_unfold)
qed

lemma tes4_folder_blocks_written:
  assumes "\<forall>(_, name, idxs) \<in> set folders. ascii_path name \<and> length name < 255 \<and> length idxs < 2 ^ 32"
    and "length (folder_files folders) \<le> length offs"
    and "wf_cursor (cursor_at pre (tes4_folder_data compress fes folders offs @ post))"
  shows "tes4_folder_blocks (map (\<lambda>(_, _, idxs). of_nat (length idxs)) folders)
      (cursor_at pre (tes4_folder_data compress fes folders offs @ post)) =
    Inr (tes4_listing compress fes folders offs, cursor_at (pre @ tes4_folder_data compress fes folders offs) post)"
  using assms
proof (induction folders arbitrary: pre offs)
  case (Cons f folders)
  obtain h name idxs where f: "f = (h, name, idxs)" by (cases f)
  let ?recs = "concat (map (\<lambda>(i, off). le_bytes 8 (tf_file_hash (fes ! i)) @ le_bytes 4 (tes4_raw_size compress (fes ! i)) @
      le_bytes 4 off) (zip idxs offs))"
  let ?block = "[of_nat (length name) + 1] @ name @ [0] @ ?recs" and ?offs = "drop (length idxs) offs"
  have l: "length idxs \<le> length offs" "length (folder_files folders) \<le> length ?offs" using Cons.prems(2) f by simp_all
  have data: "tes4_folder_data compress fes (f # folders) offs = ?block @ tes4_folder_data compress fes folders ?offs"
    by (simp add: f tes4_file_records_eq [OF l(1)])
  have wf: "wf_cursor (cursor_at pre (?block @ (tes4_folder_data compress fes folders ?offs @ post)))"
    "wf_cursor (cursor_at (pre @ ?block) (tes4_folder_data compress fes folders ?offs @ post))"
    using Cons.prems(3) unfolding data by (simp_all add: wf_cursor_at)
  have name: "ascii_path name" "length name < 255" "length idxs < 2 ^ 32" using Cons.prems(1) f by auto
  have "\<forall>(_, name, idxs) \<in> set folders. ascii_path name \<and> length name < 255 \<and> length idxs < 2 ^ 32"
    using Cons.prems(1) by simp
  from Cons.IH [OF this l(2) wf(2)] tes4_folder_block_written [OF name l(1) refl wf(1)]
  show ?case unfolding data append_assoc by (simp add: f)
qed simp

lemma tes4_names_written:
  assumes "\<forall>p \<in> set ps. ascii_path p"
  shows "tes4_names (length ps) (pre @ concat (map (\<lambda>p. p @ [0]) ps) @ post) (length pre) = Inr (map normalise_path ps)"
  using assms
proof (induction ps arbitrary: pre)
  case (Cons p ps)
  have "0 \<notin> set p" using Cons.prems by (auto simp: ascii_path_def)
  then have "scan_nul (pre @ p @ 0 # concat (map (\<lambda>p. p @ [0]) ps) @ post) (length pre) = length pre + length p"
    by (rule scan_nul_written)
  moreover have "slice (length pre) (length pre + length p) (pre @ p @ 0 # concat (map (\<lambda>p. p @ [0]) ps) @ post) = p"
    by (rule slice_in_append)
  ultimately show ?case using Cons.IH [of "pre @ p @ [0]"] Cons.prems ascii_path_utf8 [of p]
    by (simp add: Let_def)
qed simp

lemma tes4_size_bits:
  assumes "n < 2 ^ 30"
  shows "(of_nat n OR (if b then FILE_COMPRESS_BIT else 0)) AND NOT FILE_COMPRESS_BIT = (of_nat n :: u32)"
    and "((of_nat n OR (if b then FILE_COMPRESS_BIT else 0)) AND FILE_COMPRESS_BIT \<noteq> 0) = b"
proof -
  have c: "FILE_COMPRESS_BIT = push_bit 30 1" by (simp add: FILE_COMPRESS_BIT_def push_bit_eq_mult)
  have "\<not> bit n 30" using assms by (metis bit_take_bit_iff less_irrefl take_bit_nat_eq_self)
  then have n: "\<not> bit (of_nat n :: u32) 30" by (simp add: bit_of_nat_iff)
  have bit: "bit FILE_COMPRESS_BIT k \<longleftrightarrow> k = 30" for k
    unfolding c by (auto simp only: bit_push_bit_iff bit_1_iff) simp_all
  show "(of_nat n OR (if b then FILE_COMPRESS_BIT else 0)) AND NOT FILE_COMPRESS_BIT = (of_nat n :: u32)"
    using n by (intro bit_word_eqI) (auto simp: bit_and_iff bit_or_iff bit_not_iff bit)
  have "bit ((of_nat n OR (if b then FILE_COMPRESS_BIT else 0)) AND FILE_COMPRESS_BIT) 30 = b"
    using n by (auto simp: bit_and_iff bit_or_iff bit)
  moreover have "(of_nat n OR (if b then FILE_COMPRESS_BIT else 0)) AND FILE_COMPRESS_BIT = 0" if "\<not> b"
    using that n by (intro bit_word_eqI) (auto simp: bit_and_iff bit_or_iff bit)
  ultimately show "((of_nat n OR (if b then FILE_COMPRESS_BIT else 0)) AND FILE_COMPRESS_BIT \<noteq> 0) = b"
    by (cases b) auto
qed

lemma tes4_flags:
  "archive_flags_contain (archive_flags_truncate (AF_PATHNAMES OR AF_FILENAMES OR (if c then AF_COMPRESS else 0) OR
      (if e then AF_EMBEDNAME else 0))) AF_COMPRESS = c"
  "archive_flags_contain (archive_flags_truncate (AF_PATHNAMES OR AF_FILENAMES OR (if c then AF_COMPRESS else 0) OR
      (if e then AF_EMBEDNAME else 0))) AF_EMBEDNAME = e"
  by (cases c; cases e; simp add: archive_flags_contain_def archive_flags_truncate_def AF_PATHNAMES_def AF_FILENAMES_def
      AF_COMPRESS_def AF_EMBEDNAME_def)+

subsection \<open>Extraction\<close>

definition tes4_embed :: "bool \<Rightarrow> rstring \<Rightarrow> bytes" where
  "tes4_embed do_embed fn =
     (if do_embed then of_nat (min (length fn) 255) # take (unat (of_nat (min (length fn) 255) :: u8)) fn else [])"

lemma tes4_embed_length: "do_embed \<Longrightarrow> length (tes4_embed do_embed fn) = 1 + unat (hd (tes4_embed do_embed fn))"
  by (simp add: tes4_embed_def unat_of_nat take_bit_eq_mod)

lemma tes4_extract_at:
  assumes "t4_source a = pre @ (emb @ payload) @ post" "emb = tes4_embed do_embed fn"
    and "t4_records a ! i = \<lparr> t4_offset = off, t4_raw_size = sz, t4_is_compressed = cmp, t4_has_embed_name = do_embed \<rparr>"
    and "unat off = length pre" "unat sz = length (emb @ payload)" "emb @ payload \<noteq> []"
    and "cmp \<Longrightarrow> \<exists>z. payload = le_bytes 4 (of_nat (length d) :: u32) @ z \<and> inflate (t4_version a = BSse) z = Inr d"
    and "\<not> cmp \<Longrightarrow> payload = d"
  shows "tes4_extract_by_index inflate a i = Inr d"
proof -
  let ?bs = "pre @ (emb @ payload) @ post" and ?p = "length pre + length emb"
  have inside: "length pre < length ?bs" using assms(6) by (cases "emb @ payload") auto
  have head: "(if do_embed then let jump = 1 + unat (?bs ! length pre)
      in if jump > length (emb @ payload) then Inl (Corrupt ''embed name larger than file data'')
         else Inr (length pre + jump, length (emb @ payload) - jump)
      else Inr (length pre, length (emb @ payload))) = (Inr (?p, length payload) :: bsa_error + nat \<times> nat)"
  proof (cases do_embed)
    case True
    then have "emb \<noteq> []" "length emb = 1 + unat (hd emb)"
      using assms(2) tes4_embed_length [of do_embed fn] by (simp_all add: tes4_embed_def)
    then show ?thesis using True by (simp add: nth_append hd_conv_nth Let_def)
  qed (simp add: assms(2) tes4_embed_def)
  have data: "slice ?p (?p + length payload) ?bs = payload"
    using slice_in_append [of "pre @ emb" payload post] by simp
  have head: "tes4_extract_by_index inflate a i =
      (if cmp then
         (if length payload < 4 then Inl (Corrupt ''compressed file too small'')
          else
            bindr (ok_or (Corrupt ''uncompressed size read out of bounds'') (get_range (?p, ?p + 4) ?bs)) (\<lambda>unc.
            bindr (ok_or (Corrupt ''compressed data out of bounds'') (get_range (?p + 4, ?p + 4 + (length payload - 4)) ?bs)) (\<lambda>z.
              bsa_io (if t4_version a = BSse then decompress_lz4_frame (inflate True) z (unat (le_word unc :: u32))
                      else decompress_zlib (inflate False) z (unat (le_word unc :: u32))))))
       else (if ?p + length payload > length ?bs then Inl (Corrupt ''file data out of bounds'')
             else Inr (slice ?p (?p + length payload) ?bs)))"
  proof -
    have "(length ?bs \<le> length pre) = False" using inside by simp
    then show ?thesis
      by (simp only: tes4_extract_by_index_def assms(1,3-5) tes4_record.simps head [unfolded Let_def] Let_def
          if_False bindr_simps prod.case)
  qed
  show ?thesis
  proof (cases cmp)
    case False
    then show ?thesis using data assms(8) by (simp add: head)
  next
    case True
    then obtain z where z: "payload = le_bytes 4 (of_nat (length d) :: u32) @ z"
      "inflate (t4_version a = BSse) z = Inr d" using assms(7) by blast
    have "get_range (?p, ?p + 4) ?bs = Some (le_bytes 4 (of_nat (length d) :: u32))"
      using slice_in_append [of "pre @ emb" "le_bytes 4 (of_nat (length d) :: u32)" "z @ post"] z(1)
      by (simp add: get_range_Some add.assoc)
    moreover have "get_range (?p + 4, ?p + 4 + (length payload - 4)) ?bs = Some z"
      using slice_in_append [of "pre @ emb @ le_bytes 4 (of_nat (length d) :: u32)" z post] z(1)
      by (simp add: get_range_Some add.assoc)
    ultimately show ?thesis using True z
      by (cases "t4_version a = BSse") (simp_all add: head decompress_lz4_frame_def decompress_zlib_def)
  qed
qed

subsection \<open>Parsing\<close>

definition version_of :: "u32 \<Rightarrow> tes4_version option" where
  "version_of w = (if w = VERSION_TES4 then Some BTes4 else if w = VERSION_FO3 then Some BFo3
     else if w = VERSION_SSE then Some BSse else None)"

text \<open>The bytes of a folder record: hash, file count, a word, and eight more bytes for the SSE variant.\<close>

definition folder_record_bytes :: "tes4_version \<Rightarrow> u64 \<times> u32 \<times> u32 \<times> u64 \<Rightarrow> bytes" where
  "folder_record_bytes v = (\<lambda>(h, fc, t, o8).
     le_bytes 8 h @ le_bytes 4 fc @ le_bytes 4 t @ (if v = BSse then le_bytes 8 o8 else []))"

lemma tes4_folder_record_written:
  "wf_cursor (cursor_at pre (folder_record_bytes v r @ post)) \<Longrightarrow>
   tes4_folder_record v (cursor_at pre (folder_record_bytes v r @ post)) =
     Inr (fst (snd r), cursor_at (pre @ folder_record_bytes v r) post)"
  by (cases r; cases "v = BSse") (simp_all add: tes4_folder_record_def folder_record_bytes_def read_encoded wf_cursor_at)

abbreviation file_meta :: "bool \<Rightarrow> bool \<Rightarrow> (rstring \<times> u32 \<times> u32) \<times> rstring \<Rightarrow> archive_entry \<times> tes4_record" where
  "file_meta archive_compress embed_names \<equiv> (\<lambda>((folder, raw_size, raw_offset), name).
     let is_compressed = (archive_compress \<noteq> (raw_size AND FILE_COMPRESS_BIT \<noteq> 0));
         actual_size = raw_size AND NOT FILE_COMPRESS_BIT
     in (\<lparr> ae_path = tes4_path folder name, ae_uncompressed_size = actual_size,
           ae_compressed_size = (if is_compressed then Some actual_size else None) \<rparr>,
         \<lparr> t4_offset = ucast raw_offset, t4_raw_size = actual_size,
           t4_is_compressed = is_compressed, t4_has_embed_name = embed_names \<rparr>))"

lemma tes4_parse_layout:
  fixes rv flags w1 w2 w3 w4 :: u32
  assumes out: "out = TES4_MAGIC @ le_bytes 4 rv @ le_bytes 4 (36 :: u32) @ le_bytes 4 flags @
      le_bytes 4 (of_nat (length folders) :: u32) @ le_bytes 4 w1 @ le_bytes 4 w2 @ le_bytes 4 w3 @ le_bytes 4 w4 @
      concat (map (folder_record_bytes v) frs) @ tes4_folder_data compress fes folders offs @
      concat (map (\<lambda>p. p @ [0]) ps) @ post"
    and v: "version_of rv = Some v"
    and frs: "map (\<lambda>r. fst (snd r)) frs = map (\<lambda>(_, _, idxs). of_nat (length idxs)) folders"
    and len: "length out \<le> isize_max" "length folders < 2 ^ 32"
    and folders: "\<forall>(_, name, idxs) \<in> set folders. ascii_path name \<and> length name < 255 \<and> length idxs < 2 ^ 32"
    and offs: "length (folder_files folders) \<le> length offs" "length (folder_files folders) = length ps"
    and ps: "\<forall>p \<in> set ps. ascii_path p"
  shows "tes4_parse out rv =
    (let files = map (file_meta (archive_flags_contain (archive_flags_truncate flags) AF_COMPRESS)
              (archive_flags_contain (archive_flags_truncate flags) AF_EMBEDNAME \<and> (v = BFo3 \<or> v = BSse)))
            (zip (tes4_listing compress fes folders offs) (map normalise_path ps))
     in Inr \<lparr> t4_source = out, t4_version = v, t4_entries = map fst files, t4_records = map snd files,
              t4_index = path_index (map (\<lambda>f. ae_path (fst f)) files) \<rparr>)"
proof -
  let ?R = "concat (map (folder_record_bytes v) frs)" and ?D = "tes4_folder_data compress fes folders offs"
    and ?N = "concat (map (\<lambda>p. p @ [0]) ps)"
  let ?rest = "?R @ ?D @ ?N @ post"
  define hd8 where "hd8 = TES4_MAGIC @ le_bytes 4 rv @ le_bytes 4 (36 :: u32) @ le_bytes 4 flags @
      le_bytes 4 (of_nat (length folders) :: u32) @ le_bytes 4 w1 @ le_bytes 4 w2 @ le_bytes 4 w3 @ le_bytes 4 w4"
  have m: "length TES4_MAGIC = 4" by (simp add: TES4_MAGIC_def)
  have hd8: "out = hd8 @ ?rest" "length hd8 = 36" by (simp_all add: hd8_def out m)
  have total: "36 + length ?rest \<le> isize_max" using len(1) arg_cong [OF hd8(1), of length] hd8(2) by simp
  have head: "read_array 4 (cursor_new out) = Inr (TES4_MAGIC, cursor_at TES4_MAGIC (le_bytes 4 rv @ drop 8 out))"
    using total m unfolding cursor_new_at out by (subst read_array_encoded) (simp_all add: wf_cursor_at)
  have body: "drop 36 out = ?rest" using hd8 by simp
  have wf: "wf_cursor (cursor_at pre suf)" if "pre @ suf = ?rest" for pre suf
    using len(1) hd8 arg_cong [OF that, of length] by (simp add: wf_cursor_at)
  have n1: "unat (of_nat (length folders) :: u32) = length frs"
    using len(2) arg_cong [OF frs, of length] by simp
  have 1: "read_many (length frs) (tes4_folder_record v) (cursor_new (drop 36 out)) =
      Inr (map (\<lambda>r. fst (snd r)) frs, cursor_at ([] @ ?R) (?D @ ?N @ post))"
    using wf tes4_folder_record_written unfolding body cursor_new_at
    by (intro read_many_encoded) auto
  have 2: "tes4_folder_blocks (map (\<lambda>(_, _, idxs). of_nat (length idxs)) folders) (cursor_at ([] @ ?R) (?D @ ?N @ post)) =
      Inr (tes4_listing compress fes folders offs, cursor_at (([] @ ?R) @ ?D) (?N @ post))"
    using wf by (intro tes4_folder_blocks_written [OF folders offs(1)]) simp
  have n2: "sum_list (map unat (map (\<lambda>r. fst (snd r)) frs)) = length ps"
  proof -
    have "map unat (map (\<lambda>r. fst (snd r)) frs) = map (\<lambda>(_, _, idxs). length idxs) folders"
      unfolding frs using folders by (auto simp: unat_of_nat take_bit_eq_mod)
    then show ?thesis using offs(2) by (simp add: length_concat comp_def case_prod_unfold)
  qed
  have 3: "tes4_names (length ps) out (36 + cur_pos (cursor_at (([] @ ?R) @ ?D) (?N @ post))) = Inr (map normalise_path ps)"
    using tes4_names_written [OF ps, of "hd8 @ ?R @ ?D" post] hd8 by simp
  have rd: "bindr (bsa_io (read_u32 (cursor_at pre (le_bytes 4 w @ suf)))) f = f (w, cursor_at (pre @ le_bytes 4 w) suf)"
    if "length pre + length suf + 4 \<le> isize_max" for pre suf w and f :: "u32 \<times> cursor \<Rightarrow> bsa_error + tes4_archive"
    using that by (simp add: rd_u32.rd_encoded wf_cursor_at)
  have d8: "drop 8 out = le_bytes 4 (36 :: u32) @ le_bytes 4 flags @
      le_bytes 4 (of_nat (length folders) :: u32) @ le_bytes 4 w1 @ le_bytes 4 w2 @ le_bytes 4 w3 @ le_bytes 4 w4 @ ?rest"
    by (simp add: out m)
  have ver: "(if rv = VERSION_TES4 then Inr BTes4 else if rv = VERSION_FO3 then Inr BFo3
      else if rv = VERSION_SSE then Inr BSse else Inl (UnsupportedVersion rv)) = (Inr v :: bsa_error + tes4_version)"
    using v by (auto simp: version_of_def split: if_splits)
  have "length ?rest + 36 = length out" using hd8 by simp
  then show ?thesis
    unfolding tes4_parse_def ver bindr_simps head map_err_simps prod.case d8
    using total m
    by (simp add: rd n1 1 2 [folded frs, simplified] n2 [simplified] 3 [simplified] Let_def del: drop_append)
qed

end
