(* ===== verification/Tes4RoundTrip.thy ===== *)
theory Tes4RoundTrip
  imports Tes4Archive
begin

text \<open>
  What the writer of \<open>write/bsa_tes4.rs\<close> puts on disk, read back by the parser of \<open>bsa/tes4.rs\<close>: the
  header, the folder records and blocks, the name table and the data, and then every stored file. The
  result is \<open>tes4_pack_parse\<close>; \<open>tes4_fits\<close> says for which files the format's fields are wide enough.
\<close>

subsection \<open>What the writer wrote\<close>

lemma u32_try_from_Inr: "u32_try_from msg n = Inr w \<Longrightarrow> unat w = n"
  by (auto simp: u32_try_from_def split: if_splits)

lemma data_offsets_spec:
  assumes "collect_files (u32_try_from msg) (positions p ns) = Inr offs"
  shows "length offs = length ns" "\<And>i. i < length ns \<Longrightarrow> unat (offs ! i) = p + sum_list (take i ns)"
  using assms by (auto simp: collect_files_map list_all2_conv_all_nth positions_nth dest!: u32_try_from_Inr)

lemma insort_key_cong: "\<forall>y \<in> insert x (set xs). f y = g y \<Longrightarrow> insort_key f x xs = insort_key g x xs"
  by (induction xs) auto

lemma sort_key_cong: "\<forall>y \<in> set xs. f y = g y \<Longrightarrow> sort_key f xs = sort_key g xs"
proof (induction xs)
  case (Cons x xs)
  then show ?case using insort_key_cong [of x "sort_key g xs" f g] by simp
qed simp

lemma folder_records_spec:
  assumes "collect_files (tes4_folder_bytes (v = BSse)) (zip folders pos) = Inr out" "length pos = length folders"
  shows "\<exists>rs. out = map (folder_record_bytes v) rs \<and> map (\<lambda>r. fst (snd r)) rs = map (\<lambda>(_, _, idxs). of_nat (length idxs)) folders"
  using assms
proof (induction folders arbitrary: pos out)
  case (Cons f folders)
  obtain h name idxs where f: "f = (h, name, idxs)" by (cases f)
  obtain q pos' where pos: "pos = q # pos'" "length pos' = length folders" using Cons.prems(2) by (cases pos) auto
  obtain b out' where out: "out = b # out'" "tes4_folder_bytes (v = BSse) (f, q) = Inr b"
      "collect_files (tes4_folder_bytes (v = BSse)) (zip folders pos') = Inr out'"
    using Cons.prems(1) by (auto simp: pos bindr_eq_Inr)
  obtain rs where rs: "out' = map (folder_record_bytes v) rs"
      "map (\<lambda>r. fst (snd r)) rs = map (\<lambda>(_, _, idxs). of_nat (length idxs)) folders"
    using Cons.IH [OF out(3) pos(2)] by blast
  have "\<exists>t o8. b = folder_record_bytes v (h, of_nat (length idxs), t, o8)"
    using out(2) by (auto simp: f tes4_folder_bytes_def folder_record_bytes_def Let_def bindr_eq_Inr split: if_splits)
  then obtain t o8 where "b = folder_record_bytes v (h, of_nat (length idxs), t, o8)" by blast
  then show ?case using rs out(1) f by (intro exI [of _ "(h, of_nat (length idxs), t, o8) # rs"]) simp
qed simp

lemma length_folder_record_bytes: "length (folder_record_bytes v r) = (if v = BSse then 24 else 16)"
  by (cases r) (simp add: folder_record_bytes_def)

lemma length_folder_data:
  "length (folder_files folders) \<le> length offs \<Longrightarrow>
   length (tes4_folder_data compress fes folders offs) = sum_list (map tes4_block_size folders)"
proof (induction folders arbitrary: offs)
  case (Cons f folders)
  obtain h name idxs where f: "f = (h, name, idxs)" by (cases f)
  have "length (concat (map (\<lambda>(i, off). le_bytes 8 (tf_file_hash (fes ! i)) @ le_bytes 4 (tes4_raw_size compress (fes ! i)) @
      le_bytes 4 off) (zip idxs offs))) = 16 * length (zip idxs offs)"
    by (rule length_concat_const) auto
  then show ?case using Cons by (simp add: f tes4_file_records_eq tes4_block_size_def)
qed simp

subsection \<open>Normalised paths\<close>

definition norm_path :: "rstring \<Rightarrow> bool" where
  "norm_path p \<longleftrightarrow> ascii_path p \<and> (\<forall>b \<in> set p. path_char b = b)"

lemma norm_path_id: "norm_path p \<Longrightarrow> normalise_path p = p"
  by (simp add: norm_path_def normalise_ascii_path map_idI)

lemma norm_path_normalise: "ascii_path p \<Longrightarrow> norm_path (normalise_path p)"
  using ascii_path_normalise [of p] by (auto simp: norm_path_def normalise_ascii_path)

lemma norm_path_append [simp]: "norm_path (p @ q) \<longleftrightarrow> norm_path p \<and> norm_path q"
  by (auto simp: norm_path_def ascii_path_def)

lemma norm_path_take_drop: "norm_path p \<Longrightarrow> norm_path (take n p)" "norm_path p \<Longrightarrow> norm_path (drop n p)"
  by (metis append_take_drop_id norm_path_append)+

lemma norm_path_split: "norm_path p \<Longrightarrow> norm_path (fst (split_dir_filename p)) \<and> norm_path (snd (split_dir_filename p))"
  by (auto simp: split_dir_filename_def norm_path_take_drop split: option.splits) (simp add: norm_path_def ascii_path_def)

lemma tes4_path_split:
  assumes "rfind 0x2F p \<noteq> Some 0"
  shows "tes4_path (fst (split_dir_filename p)) (snd (split_dir_filename p)) = p"
proof (cases "rfind 0x2F p")
  case (Some j)
  then show ?thesis using assms rfind_Some [OF Some]
    by (auto simp: split_dir_filename_def tes4_path_def)
qed (simp add: split_dir_filename_def tes4_path_def)

subsection \<open>The file entries\<close>

definition tes4_key :: "rstring \<Rightarrow> u64 \<times> u64" where
  "tes4_key p = (hash_tes4_dir (map (\<lambda>b. if b = 0x2F then 0x5C else b) (fst (split_dir_filename p))),
     case split_stem_ext (snd (split_dir_filename p)) of (a, b) \<Rightarrow> hash_tes4_file a b)"

lemma tes4_file_entry_Inr:
  assumes "tes4_file_entry deflate sse emb compress e = Inr fe" "be_compress_override e = None"
  shows "tf_folder_name fe = fst (split_dir_filename (be_path e))" "tf_file_name fe = snd (split_dir_filename (be_path e))"
    "(tf_folder_hash fe, tf_file_hash fe) = tes4_key (be_path e)" "tf_is_compressed fe = compress"
    "\<exists>payload. tf_stored fe = tes4_embed emb (tf_file_name fe) @ payload \<and>
       (if compress then \<exists>z. payload = le_bytes 4 (of_nat (length (be_data e)) :: u32) @ z \<and> deflate sse (be_data e) = Inr z
        else payload = be_data e)"
  using assms
  by (auto simp: tes4_file_entry_def tes4_key_def tes4_embed_def Let_def bindr_eq_Inr compress_data_def
      split: prod.splits if_splits)

text \<open>
  When the fields of the format are wide enough for the files, and the names can be told apart: the
  archive is smaller than 4 GiB and no stored file reaches bit 30 of its size field, which the format
  uses for the compression; no uncompressed file without an embedded name is empty; no path has its
  only slash at the front; a folder name fits its length byte; and no two folders share a hash.
\<close>

definition tes4_fits ::
    "(bool \<Rightarrow> bytes \<Rightarrow> string + bytes) \<Rightarrow> bool \<Rightarrow> bool \<Rightarrow> bool \<Rightarrow> (rstring \<times> bytes) list \<Rightarrow> bytes \<Rightarrow> bool" where
  "tes4_fits deflate sse do_embed compress files out \<longleftrightarrow>
     length out < 2 ^ 32 \<and>
     (\<forall>e \<in> set (added files). \<forall>fe. tes4_file_entry deflate sse do_embed compress e = Inr fe \<longrightarrow> length (tf_stored fe) < 2 ^ 30) \<and>
     (\<forall>(p, d) \<in> set files. (d \<noteq> [] \<or> do_embed \<or> compress) \<and> rfind 0x2F (normalise_path p) \<noteq> Some 0 \<and>
        length (fst (split_dir_filename (normalise_path p))) < 255) \<and>
     (\<forall>(p, _) \<in> set files. \<forall>(q, _) \<in> set files.
        fst (tes4_key (normalise_path p)) = fst (tes4_key (normalise_path q)) \<longrightarrow>
        fst (split_dir_filename (normalise_path p)) = fst (split_dir_filename (normalise_path q)))"

lemma tes4_files_sorted:
  assumes "collect_files f es = Inr us" "\<And>e fe. e \<in> set es \<Longrightarrow> f e = Inr fe \<Longrightarrow> (tf_folder_hash fe, tf_file_hash fe) = tes4_key (be_path e)"
  shows "list_all2 (\<lambda>e fe. e \<in> set es \<and> f e = Inr fe) (sort_key (\<lambda>e. tes4_key (be_path e)) es)
    (sort_key (\<lambda>fe. (tf_folder_hash fe, tf_file_hash fe)) us)"
proof -
  let ?F = "\<lambda>e. projr (f e)"
  have "list_all2 (\<lambda>e fe. f e = Inr fe) es us" using assms(1) by (simp add: collect_files_map)
  then have us: "us = map ?F es" and ok: "\<forall>e \<in> set es. f e = Inr (?F e)"
    by (auto simp: list_all2_conv_all_nth in_set_conv_nth intro!: nth_equalityI)
  have "sort_key (\<lambda>fe. (tf_folder_hash fe, tf_file_hash fe)) us =
      map ?F (sort_key (\<lambda>e. (tf_folder_hash (?F e), tf_file_hash (?F e))) es)"
    by (simp add: us sort_key_map)
  also have "sort_key (\<lambda>e. (tf_folder_hash (?F e), tf_file_hash (?F e))) es = sort_key (\<lambda>e. tes4_key (be_path e)) es"
    using ok assms(2) by (intro sort_key_cong) auto
  finally show ?thesis using ok by (simp add: list_all2_map2 list_all2_same)
qed

subsection \<open>The round trip\<close>

lemma tes4_listing_written:
  assumes "sorted (map tf_folder_hash fes)" "length offs = length fes"
    and "\<forall>fe \<in> set fes. \<forall>fe' \<in> set fes. tf_folder_hash fe = tf_folder_hash fe' \<longrightarrow> tf_folder_name fe = tf_folder_name fe'"
  shows "tes4_listing compress fes (tes4_folders fes) offs =
    map (\<lambda>i. (normalise_path (tf_folder_name (fes ! i)), tes4_raw_size compress (fes ! i), offs ! i)) [0..<length fes]"
proof -
  note folders = tes4_folders_sorted [OF assms(1)]
  have "map (Pair name) idxs = map (\<lambda>i. (tf_folder_name (fes ! i), i)) idxs" if "(h, name, idxs) \<in> set (tes4_folders fes)"
    for h name idxs
  proof -
    have ok: "idxs \<noteq> []" "name = tf_folder_name (fes ! hd idxs)"
        "\<forall>i \<in> set idxs. i < length fes \<and> tf_folder_hash (fes ! i) = h"
      using folders that by (auto simp: list_all_iff folder_ok_def)
    then have "tf_folder_name (fes ! i) = name" if "i \<in> set idxs" for i
      using assms(3) that by (metis hd_in_set nth_mem)
    then show ?thesis by simp
  qed
  then have "concat (map (\<lambda>(_, name, idxs). map (Pair name) idxs) (tes4_folders fes)) =
      concat (map (\<lambda>(_, _, idxs). map (\<lambda>i. (tf_folder_name (fes ! i), i)) idxs) (tes4_folders fes))"
    by (intro arg_cong [of _ _ concat] map_cong) auto
  also have "\<dots> = map (\<lambda>i. (tf_folder_name (fes ! i), i)) (folder_files (tes4_folders fes))"
    by (simp add: map_concat comp_def case_prod_unfold)
  also have "\<dots> = map (\<lambda>i. (tf_folder_name (fes ! i), i)) [0..<length fes]" using folders by simp
  finally show ?thesis
    using folders assms(2) by (simp add: tes4_listing_eq) (rule nth_equalityI, simp_all)
qed

lemma tes4_output_Inr:
  assumes "tes4_output rv (v = BSse) compress do_embed fes = Inr out"
  shows "\<exists>offs rs w1 w2 w3 w4.
    map (\<lambda>r. fst (snd r)) rs = map (\<lambda>(_, _, idxs). of_nat (length idxs)) (tes4_folders fes) \<and>
    length offs = length fes \<and>
    (\<forall>i < length fes. unat (offs ! i) = 36 + length (tes4_folders fes) * (if v = BSse then 24 else 16) +
       sum_list (map tes4_block_size (tes4_folders fes)) +
       unat (of_nat (sum_list (map (\<lambda>fe. length (tf_file_name fe) + 1) fes)) :: u32) +
       sum_list (take i (map (\<lambda>fe. length (tf_stored fe)) fes))) \<and>
    out = TES4_MAGIC @ le_bytes 4 rv @ le_bytes 4 (36 :: u32) @
      le_bytes 4 (AF_PATHNAMES OR AF_FILENAMES OR (if compress then AF_COMPRESS else 0) OR (if do_embed then AF_EMBEDNAME else 0)) @
      le_bytes 4 (of_nat (length (tes4_folders fes)) :: u32) @ le_bytes 4 (w1 :: u32) @ le_bytes 4 (w2 :: u32) @
      le_bytes 4 (w3 :: u32) @ le_bytes 4 (w4 :: u32) @ concat (map (folder_record_bytes v) rs) @
      tes4_folder_data compress fes (tes4_folders fes) offs @
      concat (map (\<lambda>p. p @ [0]) (map tf_file_name fes)) @ concat (map tf_stored fes)"
proof -
  obtain offs frs w1 w2 w3 w4 where
    1: "collect_files (u32_try_from ''BSA file data offset exceeds 4 GiB (u32 limit)'')
       (positions (36 + length (tes4_folders fes) * (if v = BSse then 24 else 16) +
         sum_list (map tes4_block_size (tes4_folders fes)) +
         unat (of_nat (sum_list (map (\<lambda>fe. length (tf_file_name fe) + 1) fes)) :: u32))
         (map (\<lambda>fe. length (tf_stored fe)) fes)) = Inr offs"
    and 2: "collect_files (tes4_folder_bytes (v = BSse)) (zip (tes4_folders fes)
       (positions (36 + length (tes4_folders fes) * (if v = BSse then 24 else 16)) (map tes4_block_size (tes4_folders fes)))) = Inr frs"
    and 3: "out = TES4_MAGIC @ le_bytes 4 rv @ le_bytes 4 (36 :: u32) @
      le_bytes 4 (AF_PATHNAMES OR AF_FILENAMES OR (if compress then AF_COMPRESS else 0) OR (if do_embed then AF_EMBEDNAME else 0)) @
      le_bytes 4 (of_nat (length (tes4_folders fes)) :: u32) @ le_bytes 4 (w1 :: u32) @ le_bytes 4 (w2 :: u32) @
      le_bytes 4 (w3 :: u32) @ le_bytes 4 (w4 :: u32) @ concat frs @ tes4_folder_data compress fes (tes4_folders fes) offs @
      concat (map (\<lambda>fe. tf_file_name fe @ [0]) fes) @ concat (map tf_stored fes)"
    using assms unfolding tes4_output_def Let_def bindr_eq_Inr sum.inject by (elim exE conjE) (rule that, assumption+, erule sym)
  from folder_records_spec [OF 2, unfolded length_positions length_map, OF refl] obtain rs where rs: "frs = map (folder_record_bytes v) rs"
      "map (\<lambda>r. fst (snd r)) rs = map (\<lambda>(_, _, idxs). of_nat (length idxs)) (tes4_folders fes)"
    by auto
  have names: "concat (map (\<lambda>p. p @ [0]) (map tf_file_name fes)) = concat (map (\<lambda>fe. tf_file_name fe @ [0]) fes)"
    by (simp add: comp_def)
  note offs = data_offsets_spec [OF 1, unfolded length_map]
  show ?thesis unfolding names using rs(2) offs 3 [unfolded rs(1)] by blast
qed

abbreviation raw_version :: "tes4_version \<Rightarrow> u32" where
  "raw_version v \<equiv> (case v of BTes4 \<Rightarrow> VERSION_TES4 | BFo3 \<Rightarrow> VERSION_FO3 | BSse \<Rightarrow> VERSION_SSE)"

lemma version_of_raw [simp]: "version_of (raw_version v) = Some v"
  by (cases v) (simp_all add: version_of_def VERSION_TES4_def VERSION_FO3_def VERSION_SSE_def)

lemma folder_counts:
  assumes "folder_files m = [0..<n]" "list_all (folder_ok fes) m"
  shows "length m \<le> n" "\<forall>(_, name, idxs) \<in> set m. length idxs \<le> n"
proof -
  have "length m \<le> length (folder_files m)" using assms(2)
  proof (induction m)
    case (Cons f m)
    obtain h name idxs where f: "f = (h, name, idxs)" by (cases f)
    have "idxs \<noteq> []" using Cons.prems by (simp add: f folder_ok_def)
    then have "1 \<le> length idxs" by (simp add: Suc_le_eq)
    then show ?case using Cons by (simp add: f)
  qed simp
  then show "length m \<le> n" using assms(1) by simp
  have "length idxs \<le> length (folder_files m)" if "(h, name, idxs) \<in> set m" for h name idxs
    using length_le_concat [OF that, of "\<lambda>(_, _, idxs). idxs"] by simp
  then show "\<forall>(_, name, idxs) \<in> set m. length idxs \<le> n" using assms(1) by auto
qed

lemma folder_name_cases:
  assumes "list_all (folder_ok fes) m" "(h, name, idxs) \<in> set m"
  shows "\<exists>fe \<in> set fes. name = tf_folder_name fe"
proof -
  have "folder_ok fes (h, name, idxs)" using assms by (simp add: list_all_iff)
  then show ?thesis by (auto simp: folder_ok_def intro: hd_in_set)
qed

text \<open>What parsing the written file gives, over the file entries in their final order.\<close>

definition written_meta :: "bool \<Rightarrow> bool \<Rightarrow> tes4_file \<times> u32 \<Rightarrow> archive_entry \<times> tes4_record" where
  "written_meta compress do_embed = (\<lambda>(fe, off).
     (\<lparr> ae_path = tes4_path (tf_folder_name fe) (tf_file_name fe), ae_uncompressed_size = of_nat (length (tf_stored fe)),
        ae_compressed_size = (if compress then Some (of_nat (length (tf_stored fe))) else None) \<rparr>,
      \<lparr> t4_offset = ucast off, t4_raw_size = of_nat (length (tf_stored fe)),
        t4_is_compressed = compress, t4_has_embed_name = do_embed \<rparr>))"

definition entries_ok :: "bool \<Rightarrow> tes4_file list \<Rightarrow> bool" where
  "entries_ok compress fes \<longleftrightarrow> sorted (map tf_folder_hash fes) \<and>
     (\<forall>fe \<in> set fes. norm_path (tf_folder_name fe) \<and> norm_path (tf_file_name fe) \<and>
        length (tf_folder_name fe) < 255 \<and> tf_is_compressed fe = compress) \<and>
     (\<forall>fe \<in> set fes. \<forall>fe' \<in> set fes. tf_folder_hash fe = tf_folder_hash fe' \<longrightarrow> tf_folder_name fe = tf_folder_name fe')"

lemma entries_okD:
  assumes "entries_ok compress fes"
  shows "sorted (map tf_folder_hash fes)"
    "\<forall>fe \<in> set fes. \<forall>fe' \<in> set fes. tf_folder_hash fe = tf_folder_hash fe' \<longrightarrow> tf_folder_name fe = tf_folder_name fe'"
    "fe \<in> set fes \<Longrightarrow> norm_path (tf_folder_name fe)" "fe \<in> set fes \<Longrightarrow> norm_path (tf_file_name fe)"
    "fe \<in> set fes \<Longrightarrow> length (tf_folder_name fe) < 255" "fe \<in> set fes \<Longrightarrow> tf_is_compressed fe = compress"
  using assms unfolding entries_ok_def by blast+

lemma file_meta_written:
  assumes "entries_ok compress fes" "length offs = length fes" "\<forall>fe \<in> set fes. length (tf_stored fe) < 2 ^ 30"
  shows "map (file_meta compress do_embed) (zip (tes4_listing compress fes (tes4_folders fes) offs) (map normalise_path (map tf_file_name fes))) =
    map (written_meta compress do_embed) (zip fes offs)" (is "map ?f ?L = ?R")
proof -
  have L: "tes4_listing compress fes (tes4_folders fes) offs =
      map (\<lambda>i. (normalise_path (tf_folder_name (fes ! i)), tes4_raw_size compress (fes ! i), offs ! i)) [0..<length fes]"
    using assms(1,2) by (intro tes4_listing_written entries_okD)
  then have len: "length ?L = length fes" by simp
  have "?f (?L ! i) = ?R ! i" if i: "i < length fes" for i
  proof -
    have fe: "fes ! i \<in> set fes" using i by simp
    have ok: "norm_path (tf_folder_name (fes ! i))" "norm_path (tf_file_name (fes ! i))" "tf_is_compressed (fes ! i) = compress"
      "length (tf_stored (fes ! i)) < 2 ^ 30"
      using entries_okD(3,4,6) [OF assms(1) fe] assms(3) fe by simp_all
    have size: "tes4_raw_size compress (fes ! i) AND NOT FILE_COMPRESS_BIT = of_nat (length (tf_stored (fes ! i)))"
        "tes4_raw_size compress (fes ! i) AND FILE_COMPRESS_BIT = 0"
      using tes4_size_bits [OF ok(4), of False] ok(3) by (simp_all add: tes4_raw_size_def)
    have "?L ! i = ((tf_folder_name (fes ! i), tes4_raw_size compress (fes ! i), offs ! i), tf_file_name (fes ! i))"
      using i assms(2) ok(1,2) by (simp add: L norm_path_id)
    moreover have "?f ((tf_folder_name (fes ! i), tes4_raw_size compress (fes ! i), offs ! i), tf_file_name (fes ! i)) =
        written_meta compress do_embed (fes ! i, offs ! i)"
      by (simp only: written_meta_def Let_def prod.case size) simp
    ultimately show ?thesis using i assms(2) by simp
  qed
  then show ?thesis using len assms(2) by (intro nth_equalityI) simp_all
qed

lemma tes4_written_parse:
  assumes out: "tes4_output (raw_version v) (v = BSse) compress do_embed fes = Inr out"
    and ok: "entries_ok compress fes" and len: "length out < 2 ^ 32"
    and stored: "\<forall>fe \<in> set fes. length (tf_stored fe) < 2 ^ 30" and emb: "do_embed \<longrightarrow> v = BFo3 \<or> v = BSse"
  shows "\<exists>offs pre a. tes4_parse out (raw_version v) = Inr a \<and> out = pre @ concat (map tf_stored fes) \<and>
    length offs = length fes \<and> (\<forall>i < length fes. unat (offs ! i) = length pre + sum_list (take i (map (\<lambda>fe. length (tf_stored fe)) fes))) \<and>
    t4_source a = out \<and> t4_version a = v \<and> map ae_path (t4_entries a) = map (\<lambda>fe. tes4_path (tf_folder_name fe) (tf_file_name fe)) fes \<and>
    t4_records a = map (\<lambda>p. snd (written_meta compress do_embed p)) (zip fes offs) \<and>
    t4_index a = path_index (map (\<lambda>fe. tes4_path (tf_folder_name fe) (tf_file_name fe)) fes)"
proof -
  let ?m = "tes4_folders fes" and ?names = "map tf_file_name fes"
  let ?flags = "AF_PATHNAMES OR AF_FILENAMES OR (if compress then AF_COMPRESS else 0) OR (if do_embed then AF_EMBEDNAME else 0)"
  let ?nl = "sum_list (map (\<lambda>fe. length (tf_file_name fe) + 1) fes)"
  obtain offs rs w1 w2 w3 w4 where rs: "map (\<lambda>r. fst (snd r)) rs = map (\<lambda>(_, _, idxs). of_nat (length idxs)) ?m"
    and offs: "length offs = length fes"
      "\<forall>i < length fes. unat (offs ! i) = 36 + length ?m * (if v = BSse then 24 else 16) +
        sum_list (map tes4_block_size ?m) + unat (of_nat ?nl :: u32) + sum_list (take i (map (\<lambda>fe. length (tf_stored fe)) fes))"
    and o: "out = TES4_MAGIC @ le_bytes 4 (raw_version v) @ le_bytes 4 (36 :: u32) @ le_bytes 4 ?flags @
      le_bytes 4 (of_nat (length ?m) :: u32) @ le_bytes 4 (w1 :: u32) @ le_bytes 4 (w2 :: u32) @
      le_bytes 4 (w3 :: u32) @ le_bytes 4 (w4 :: u32) @ concat (map (folder_record_bytes v) rs) @
      tes4_folder_data compress fes ?m offs @ concat (map (\<lambda>p. p @ [0]) ?names) @ concat (map tf_stored fes)"
    using tes4_output_Inr [OF out] by blast
  have folders: "folder_files ?m = [0..<length fes]" "list_all (folder_ok fes) ?m"
    using tes4_folders_sorted [OF entries_okD(1) [OF ok]] by simp_all
  let ?pre = "TES4_MAGIC @ le_bytes 4 (raw_version v) @ le_bytes 4 (36 :: u32) @ le_bytes 4 ?flags @
      le_bytes 4 (of_nat (length ?m) :: u32) @ le_bytes 4 w1 @ le_bytes 4 w2 @
      le_bytes 4 w3 @ le_bytes 4 w4 @ concat (map (folder_record_bytes v) rs) @
      tes4_folder_data compress fes ?m offs @ concat (map (\<lambda>p. p @ [0]) ?names)"
  have pre: "out = ?pre @ concat (map tf_stored fes)" using o by simp
  have nrs: "length rs = length ?m" using arg_cong [OF rs, of length] by simp
  have names: "length (concat (map (\<lambda>p. p @ [0]) ?names)) = ?nl"
    by (simp add: length_concat comp_def)
  have lpre: "length ?pre = 36 + length ?m * (if v = BSse then 24 else 16) + sum_list (map tes4_block_size ?m) + ?nl"
    using names nrs folders(1) offs(1)
    by (simp add: TES4_MAGIC_def length_folder_data length_concat_const [where n = "if v = BSse then 24 else 16"]
        length_folder_record_bytes)
  have le: "length ?pre + sum_list (map (\<lambda>fe. length (tf_stored fe)) fes) = length out"
    using arg_cong [OF pre, of length] by (simp add: length_concat comp_def)
  have "length fes \<le> ?nl" by (induction fes) auto
  then have small: "length fes < 2 ^ 32" "?nl < 2 ^ 32" using le lpre len by linarith+
  have nl: "unat (of_nat ?nl :: u32) = ?nl" using small(2) by (simp only: unat_of_nat take_bit_eq_mod) simp
  have conds: "\<forall>(_, name, idxs) \<in> set ?m. ascii_path name \<and> length name < 255 \<and> length idxs < 2 ^ 32"
  proof clarify
    fix h name idxs assume mem: "(h, name, idxs) \<in> set ?m"
    have "length idxs \<le> length fes" using folder_counts(2) [OF folders] mem by auto
    moreover obtain fe where "fe \<in> set fes" "name = tf_folder_name fe" using folder_name_cases [OF folders(2) mem] by blast
    ultimately show "ascii_path name \<and> length name < 255 \<and> length idxs < 2 ^ 32"
      using entries_okD(3,5) [OF ok, of fe] small(1) by (simp add: norm_path_def)
  qed
  have files: "\<forall>p \<in> set ?names. ascii_path p" using entries_okD(4) [OF ok] by (auto simp: norm_path_def)
  have flags: "archive_flags_contain (archive_flags_truncate ?flags) AF_COMPRESS = compress"
    "(archive_flags_contain (archive_flags_truncate ?flags) AF_EMBEDNAME \<and> (v = BFo3 \<or> v = BSse)) = do_embed"
    using emb by (simp_all only: tes4_flags) blast
  have foffs: "length (folder_files ?m) \<le> length offs" "length (folder_files ?m) = length ?names"
    using folders(1) offs(1) by simp_all
  have "length ?m < 2 ^ 32" using folder_counts(1) [OF folders] small(1) by simp
  moreover have "length out \<le> isize_max" using len by (simp add: isize_max_def)
  ultimately have "tes4_parse out (raw_version v) =
    (let files = map (written_meta compress do_embed) (zip fes offs)
     in Inr \<lparr> t4_source = out, t4_version = v, t4_entries = map fst files, t4_records = map snd files,
              t4_index = path_index (map (\<lambda>f. ae_path (fst f)) files) \<rparr>)"
    using tes4_parse_layout [OF o version_of_raw rs _ _ conds _ _ files, unfolded flags file_meta_written [OF ok offs(1) stored]]
      foffs by blast
  moreover have "map (\<lambda>p. ae_path (fst (written_meta compress do_embed p))) (zip fes offs) =
      map (\<lambda>fe. tes4_path (tf_folder_name fe) (tf_file_name fe)) (map fst (zip fes offs))"
    by (simp add: written_meta_def case_prod_unfold)
  ultimately show ?thesis
    using pre offs lpre nl by (intro exI [of _ offs] exI [of _ ?pre]) (simp add: Let_def comp_def)
qed

definition tes4_pack ::
    "(bool \<Rightarrow> bytes \<Rightarrow> string + bytes) \<Rightarrow> bsa_version \<Rightarrow> bool \<Rightarrow> bool \<Rightarrow> (rstring \<times> bytes) list \<Rightarrow> bsa_error + bytes" where
  "tes4_pack deflate version compress embed_names files = tes4_write deflate version compress embed_names (added files)"

fun variant :: "bsa_version \<Rightarrow> tes4_version option" where
  "variant VTes3 = None"
| "variant VTes4 = Some BTes4"
| "variant VFo3 = Some BFo3"
| "variant VSse = Some BSse"

abbreviation embeds :: "bsa_version \<Rightarrow> bool \<Rightarrow> bool" where
  "embeds version embed_names \<equiv> embed_names \<and> (version = VFo3 \<or> version = VSse)"

lemma added_mem:
  assumes "e \<in> set (added files)"
  shows "\<exists>(p, d) \<in> set files. be_path e = normalise_path p \<and> be_data e = d \<and> be_compress_override e = None"
  using assms by (fastforce simp: added_def builder_entry_new_def)

lemma sorted_pair_fst: "sorted (map (\<lambda>x. (f x :: 'a :: linorder, g x :: 'b :: linorder)) xs) \<Longrightarrow> sorted (map f xs)"
  by (induction xs) (auto simp: less_eq_prod_def)

lemma tes4_entries_ok:
  assumes L: "list_all2 (\<lambda>e fe. e \<in> set (added files) \<and> tes4_file_entry deflate sse do_embed compress e = Inr fe) es fes"
    and sorted: "sorted (map (\<lambda>fe. (tf_folder_hash fe, tf_file_hash fe)) fes)"
    and fits: "tes4_fits deflate sse do_embed compress files out" and ascii: "\<forall>(p, d) \<in> set files. ascii_path p"
  shows "entries_ok compress fes"
    and "map (\<lambda>fe. tes4_path (tf_folder_name fe) (tf_file_name fe)) fes = map be_path es"
proof -
  have src: "\<exists>p d. (p, d) \<in> set files \<and> tf_folder_name fe = fst (split_dir_filename (normalise_path p)) \<and>
      tf_file_name fe = snd (split_dir_filename (normalise_path p)) \<and> tf_folder_hash fe = fst (tes4_key (normalise_path p)) \<and>
      tf_is_compressed fe = compress" if "fe \<in> set fes" for fe
  proof -
    obtain e where e: "e \<in> set (added files)" "tes4_file_entry deflate sse do_embed compress e = Inr fe"
    proof -
      obtain i where "i < length fes" "fes ! i = fe" using \<open>fe \<in> set fes\<close> by (auto simp: in_set_conv_nth)
      then show thesis using list_all2_nthD2 [OF L] by (intro that [of "es ! i"]) auto
    qed
    obtain p d where "(p, d) \<in> set files" "be_path e = normalise_path p" "be_compress_override e = None"
      using added_mem [OF e(1)] by blast
    then show ?thesis using tes4_file_entry_Inr(1-4) [OF e(2)] by (metis fst_conv)
  qed
  have norm: "norm_path (normalise_path p)" if "(p, d) \<in> set files" for p d
    using ascii that by (intro norm_path_normalise) auto
  have "norm_path (tf_folder_name fe) \<and> norm_path (tf_file_name fe) \<and> length (tf_folder_name fe) < 255 \<and> tf_is_compressed fe = compress"
    if "fe \<in> set fes" for fe
  proof -
    obtain p d where pd: "(p, d) \<in> set files" "tf_folder_name fe = fst (split_dir_filename (normalise_path p))"
      "tf_file_name fe = snd (split_dir_filename (normalise_path p))" "tf_is_compressed fe = compress"
      using src [OF \<open>fe \<in> set fes\<close>] by blast
    moreover have "length (fst (split_dir_filename (normalise_path p))) < 255"
      using fits pd(1) unfolding tes4_fits_def by blast
    ultimately show ?thesis using norm_path_split [OF norm [OF pd(1)]] by simp
  qed
  moreover have "tf_folder_name fe = tf_folder_name fe'"
    if "fe \<in> set fes" "fe' \<in> set fes" "tf_folder_hash fe = tf_folder_hash fe'" for fe fe'
    using src [OF that(1)] src [OF that(2)] that(3) fits unfolding tes4_fits_def by fastforce
  ultimately show "entries_ok compress fes"
    unfolding entries_ok_def using sorted_pair_fst [OF sorted] by blast
  have "tes4_path (tf_folder_name fe) (tf_file_name fe) = be_path e"
    if e: "e \<in> set (added files)" "tes4_file_entry deflate sse do_embed compress e = Inr fe" for e fe
  proof -
    obtain p d where pd: "(p, d) \<in> set files" "be_path e = normalise_path p" "be_compress_override e = None"
      using added_mem [OF e(1)] by blast
    have "rfind 0x2F (normalise_path p) \<noteq> Some 0" using fits pd(1) unfolding tes4_fits_def by blast
    then show ?thesis using tes4_file_entry_Inr(1,2) [OF e(2) pd(3)] pd(2) by (simp add: tes4_path_split)
  qed
  then show "map (\<lambda>fe. tes4_path (tf_folder_name fe) (tf_file_name fe)) fes = map be_path es"
    using L by (auto simp: list_all2_conv_all_nth intro!: nth_equalityI)
qed

lemma tes4_extract_written:
  assumes entry: "tes4_file_entry deflate (v = BSse) do_embed compress e = Inr fe" "be_compress_override e = None"
    and codec: "\<And>b d z. deflate b d = Inr z \<Longrightarrow> inflate b z = Inr d"
    and a: "t4_source a = pre @ concat (map tf_stored fes)" "t4_version a = v"
      "t4_records a = map (\<lambda>p. snd (written_meta compress do_embed p)) (zip fes offs)"
    and i: "i < length fes" "length offs = length fes" "fes ! i = fe"
      "unat (offs ! i) = length pre + sum_list (take i (map (\<lambda>fe. length (tf_stored fe)) fes))"
    and len: "length (tf_stored fe) < 2 ^ 30" and stored: "be_data e \<noteq> [] \<or> do_embed \<or> compress"
  shows "tes4_extract_by_index inflate a i = Inr (be_data e)"
proof -
  obtain payload where payload: "tf_stored fe = tes4_embed do_embed (tf_file_name fe) @ payload"
    "if compress then \<exists>z. payload = le_bytes 4 (of_nat (length (be_data e)) :: u32) @ z \<and> deflate (v = BSse) (be_data e) = Inr z
     else payload = be_data e"
    using tes4_file_entry_Inr(5) [OF entry] by blast
  let ?emb = "tes4_embed do_embed (tf_file_name fe)"
  have split: "t4_source a = (pre @ concat (map tf_stored (take i fes))) @ (?emb @ payload) @ concat (map tf_stored (drop (Suc i) fes))"
    using a(1) id_take_nth_drop [OF i(1)] i(3) payload(1)
    by (metis append_assoc concat.simps(2) concat_append list.simps(9) map_append)
  have rec: "t4_records a ! i = \<lparr> t4_offset = ucast (offs ! i), t4_raw_size = of_nat (length (tf_stored fe)),
      t4_is_compressed = compress, t4_has_embed_name = do_embed \<rparr>"
    using i by (simp add: a(3) written_meta_def)
  have off: "unat (ucast (offs ! i) :: u64) = length (pre @ concat (map tf_stored (take i fes)))"
    using i(4) by (simp add: length_concat take_map comp_def unat_ucast_u64)
  have size: "unat (of_nat (length (tf_stored fe)) :: u32) = length (?emb @ payload)"
    using len unfolding payload(1) by (simp only: unat_of_nat take_bit_eq_mod) simp
  have ne: "?emb @ payload \<noteq> []" using stored payload(2) by (auto simp: tes4_embed_def le_bytes_def split: if_splits)
  show ?thesis
    by (rule tes4_extract_at [OF split refl rec off size ne]) (use payload(2) codec a(2) in auto)
qed

lemma tes4_pack_Inr:
  assumes "tes4_pack deflate version compress embed_names files = Inr out" "variant version = Some v"
  shows "\<exists>us. collect_files (tes4_file_entry deflate (v = BSse) (embeds version embed_names) compress) (added files) = Inr us \<and>
    tes4_output (raw_version v) (v = BSse) compress (embeds version embed_names)
      (sort_key (\<lambda>fe. (tf_folder_hash fe, tf_file_hash fe)) us) = Inr out"
  using assms by (cases version) (auto simp: tes4_pack_def tes4_write_def bindr_eq_Inr Let_def split: if_splits)

lemma tes4_pack_parse:
  assumes pack: "tes4_pack deflate version compress embed_names files = Inr out" "variant version = Some v"
    and fits: "tes4_fits deflate (v = BSse) (embeds version embed_names) compress files out" and ascii: "\<forall>(p, d) \<in> set files. ascii_path p"
    and codec: "\<And>b d z. deflate b d = Inr z \<Longrightarrow> inflate b z = Inr d"
  shows "\<exists>a. tes4_parse out (raw_version v) = Inr a \<and>
    mset (map ae_path (t4_entries a)) = mset (map (\<lambda>(p, d). normalise_path p) files) \<and>
    (\<forall>q. ascii_path q \<longrightarrow> tes4_extract inflate a q = map_option Inr (file_map files q))"
proof -
  let ?e = "embeds version embed_names"
  let ?entry = "tes4_file_entry deflate (v = BSse) ?e compress"
  obtain us where us: "collect_files ?entry (added files) = Inr us"
    "tes4_output (raw_version v) (v = BSse) compress ?e (sort_key (\<lambda>fe. (tf_folder_hash fe, tf_file_hash fe)) us) = Inr out"
    using tes4_pack_Inr [OF pack] by blast
  let ?fes = "sort_key (\<lambda>fe. (tf_folder_hash fe, tf_file_hash fe)) us"
  let ?es = "sort_key (\<lambda>e. tes4_key (be_path e)) (added files)"
  have key: "(tf_folder_hash fe, tf_file_hash fe) = tes4_key (be_path e)" if "e \<in> set (added files)" "?entry e = Inr fe" for e fe
    using tes4_file_entry_Inr(3) [OF that(2)] added_paths(3) [OF ascii that(1)] by simp
  have L: "list_all2 (\<lambda>e fe. e \<in> set (added files) \<and> ?entry e = Inr fe) ?es ?fes"
    by (rule tes4_files_sorted [OF us(1) key])
  note ok = tes4_entries_ok [OF L sorted_sort_key fits ascii]
  have len: "length out < 2 ^ 32" using fits by (simp add: tes4_fits_def)
  have stored: "length (tf_stored fe) < 2 ^ 30" if "e \<in> set (added files)" "?entry e = Inr fe" for e fe
    using fits that by (simp add: tes4_fits_def)
  have all_stored: "\<forall>fe \<in> set ?fes. length (tf_stored fe) < 2 ^ 30"
  proof
    fix fe assume "fe \<in> set ?fes"
    then obtain i where "i < length ?fes" "?fes ! i = fe" unfolding in_set_conv_nth by blast
    then show "length (tf_stored fe) < 2 ^ 30" using list_all2_nthD2 [OF L, of i] stored by metis
  qed
  have emb: "?e \<longrightarrow> v = BFo3 \<or> v = BSse" using pack(2) by auto
  obtain offs pre a where a: "tes4_parse out (raw_version v) = Inr a" "out = pre @ concat (map tf_stored ?fes)"
    "length offs = length ?fes"
    "\<forall>i < length ?fes. unat (offs ! i) = length pre + sum_list (take i (map (\<lambda>fe. length (tf_stored fe)) ?fes))"
    "t4_source a = out" "t4_version a = v" "map ae_path (t4_entries a) = map be_path ?es"
    "t4_records a = map (\<lambda>p. snd (written_meta compress ?e p)) (zip ?fes offs)"
    "t4_index a = path_index (map be_path ?es)"
    using tes4_written_parse [OF us(2) ok(1) len all_stored emb] unfolding ok(2) by blast
  have extr: "tes4_extract_by_index inflate a i = Inr (be_data (?es ! i))" if i: "i < length ?es" for i
  proof -
    have e: "?es ! i \<in> set (added files)" "?entry (?es ! i) = Inr (?fes ! i)" "i < length ?fes"
      using L i by (simp_all add: list_all2_conv_all_nth)
    obtain p d where pd: "(p, d) \<in> set files" "be_data (?es ! i) = d" using added_mem [OF e(1)] by blast
    have "d \<noteq> [] \<or> ?e \<or> compress" using fits pd(1) unfolding tes4_fits_def by blast
    then show ?thesis
      using a(4) e(3) stored [OF e(1,2)] pd(2)
      by (intro tes4_extract_written [OF e(2) added_paths(3) [OF ascii e(1)] codec _ a(6,8) e(3) a(3) refl])
        (simp_all add: a(5) a(2) [symmetric])
  qed
  have names: "map be_path ?es = map (\<lambda>e. normalise_path (be_path e)) ?es"
    using added_paths(2) [OF ascii] by auto
  note index = file_map_index [OF ascii, where h = tes4_key, OF refl]
  have "tes4_extract inflate a q = map_option Inr (file_map files q)" for q
    unfolding tes4_extract_def tes4_find_def a(9) names index(1) [symmetric]
    by (rule file_map_extract) (rule extr)
  moreover have "mset (map ae_path (t4_entries a)) = mset (map (\<lambda>(p, d). normalise_path p) files)"
    by (simp only: a(7) names index(2))
  ultimately show ?thesis using a(1) by blast
qed

end
