(* ===== verification/BsaArchive.thy ===== *)
theory BsaArchive
  imports Tes4RoundTrip
begin

text \<open>
  The archive dispatch of \<open>bsa/mod.rs\<close> and of \<open>BsaWriter::write_to\<close> in \<open>write/mod.rs\<close>: one reader
  and one writer over the Morrowind format and the three variants of the later one.
\<close>

datatype bsa_archive = InnerTes3 tes3_archive | InnerTes4 tes4_archive

definition bsa_from_mmap :: "bytes \<Rightarrow> bsa_error + bsa_archive" where
  "bsa_from_mmap bs =
     (if length bs < 8 then Inl (Corrupt ''file too small to be a BSA'')
      else
        let magic = take 4 bs in
        if magic = TES3_MAGIC then bindr (tes3_parse bs) (\<lambda>a. Inr (InnerTes3 a))
        else if magic = TES4_MAGIC then
          let version = (le_word (slice 4 8 bs) :: u32)
          in bindr (tes4_parse bs version) (\<lambda>a. Inr (InnerTes4 a))
        else Inl (InvalidMagic magic))"

fun bsa_entries :: "bsa_archive \<Rightarrow> archive_entry list" where
  "bsa_entries (InnerTes3 a) = t3_entries a"
| "bsa_entries (InnerTes4 a) = t4_entries a"

fun bsa_extract :: "(bool \<Rightarrow> bytes \<Rightarrow> string + bytes) \<Rightarrow> bsa_archive \<Rightarrow> rstring \<Rightarrow> (bsa_error + bytes) option" where
  "bsa_extract inflate (InnerTes3 a) path = tes3_extract a path"
| "bsa_extract inflate (InnerTes4 a) path = tes4_extract inflate a path"

fun bsa_format_name :: "bsa_archive \<Rightarrow> string" where
  "bsa_format_name (InnerTes3 _) = ''BSA TES3''"
| "bsa_format_name (InnerTes4 _) = ''BSA TES4/FO3/SSE''"

definition bsa_write_to :: "(bool \<Rightarrow> bytes \<Rightarrow> string + bytes) \<Rightarrow> bsa_writer \<Rightarrow> bsa_error + bytes" where
  "bsa_write_to deflate w =
     (case bw_version w of
        VTes3 \<Rightarrow> tes3_write (bw_entries w)
      | _ \<Rightarrow> tes4_write deflate (bw_version w) (bw_compress w) (bw_embed_names w) (bw_entries w))"

text \<open>The builder chain a client runs: version, options, then the files one by one.\<close>

definition bsa_build :: "bsa_version \<Rightarrow> bool \<Rightarrow> bool \<Rightarrow> (rstring \<times> bytes) list \<Rightarrow> bsa_writer" where
  "bsa_build version compress embed_names files =
     foldl (\<lambda>w (p, d). bsa_add p d w) (bsa_set_embed_names embed_names (bsa_set_compress compress (bsa_writer_new version))) files"

text \<open>The Morrowind format has only the size limit; see \<open>tes4_fits\<close> for the others.\<close>

definition bsa_fits ::
    "(bool \<Rightarrow> bytes \<Rightarrow> string + bytes) \<Rightarrow> bsa_version \<Rightarrow> bool \<Rightarrow> bool \<Rightarrow> (rstring \<times> bytes) list \<Rightarrow> bytes \<Rightarrow> bool" where
  "bsa_fits deflate version compress embed_names files out =
     (case version of
        VTes3 \<Rightarrow> length out < 2 ^ 32
      | _ \<Rightarrow> tes4_fits deflate (version = VSse) (embeds version embed_names) compress files out)"

lemma bsa_write_pack:
  "bsa_write_to deflate (bsa_build version compress embed_names files) =
     (if version = VTes3 then tes3_pack files else tes4_pack deflate version compress embed_names files)"
  by (cases version) (simp_all add: bsa_write_to_def bsa_build_def bsa_add_all bsa_set_embed_names_def bsa_set_compress_def
      bsa_writer_new_def tes3_pack_def tes4_pack_def)

lemma variant_cases: "version \<noteq> VTes3 \<Longrightarrow> \<exists>v. variant version = Some v"
  by (cases version) auto

lemma tes4_out_head:
  assumes "tes4_pack deflate version compress embed_names files = Inr out" "variant version = Some v"
  shows "\<exists>rest. out = TES4_MAGIC @ le_bytes 4 (raw_version v) @ le_bytes 4 (36 :: u32) @ rest"
  using tes4_pack_Inr [OF assms] by (auto simp: tes4_output_def Let_def bindr_eq_Inr)

lemma tes3_out_head: "tes3_pack files = Inr out \<Longrightarrow> \<exists>w n rest. out = TES3_MAGIC @ le_bytes 4 (w :: u32) @ le_bytes 4 (n :: u32) @ rest"
  by (auto simp: tes3_pack_def tes3_write_def Let_def bindr_eq_Inr split: if_splits)

lemma magic_facts: "length TES3_MAGIC = 4" "length TES4_MAGIC = 4" "TES4_MAGIC \<noteq> TES3_MAGIC"
  by (simp_all add: TES3_MAGIC_def TES4_MAGIC_def ascii_def)

lemma bsa_from_tes3:
  "tes3_pack files = Inr out \<Longrightarrow> tes3_parse out = Inr a \<Longrightarrow> bsa_from_mmap out = Inr (InnerTes3 a)"
  using tes3_out_head [of files out] magic_facts by (auto simp: bsa_from_mmap_def)

lemma bsa_from_tes4:
  assumes "tes4_pack deflate version compress embed_names files = Inr out" "variant version = Some v"
    "tes4_parse out (raw_version v) = Inr a"
  shows "bsa_from_mmap out = Inr (InnerTes4 a)"
proof -
  obtain rest where out: "out = TES4_MAGIC @ le_bytes 4 (raw_version v) @ le_bytes 4 (36 :: u32) @ rest"
    using tes4_out_head [OF assms(1,2)] by blast
  have "slice 4 8 out = le_bytes 4 (raw_version v)"
    using slice_in_append [of TES4_MAGIC "le_bytes 4 (raw_version v)" "le_bytes 4 (36 :: u32) @ rest"] magic_facts out by simp
  then have "(le_word (slice 4 8 out) :: u32) = raw_version v" by simp
  moreover have "take 4 out = TES4_MAGIC" "8 \<le> length out" using magic_facts out by simp_all
  ultimately show ?thesis using assms(3) magic_facts(3) by (simp add: bsa_from_mmap_def Let_def)
qed

lemma bsa_pack_parse:
  assumes "bsa_write_to deflate (bsa_build version compress embed_names files) = Inr out"
    and "bsa_fits deflate version compress embed_names files out" "\<forall>(p, d) \<in> set files. ascii_path p"
    and "\<And>b d z. deflate b d = Inr z \<Longrightarrow> inflate b z = Inr d"
  shows "\<exists>a. bsa_from_mmap out = Inr a \<and>
    mset (map ae_path (bsa_entries a)) = mset (map (\<lambda>(p, d). normalise_path p) files) \<and>
    (\<forall>q. ascii_path q \<longrightarrow> bsa_extract inflate a q = map_option Inr (file_map files q))"
proof (cases "version = VTes3")
  case True
  then have pack: "tes3_pack files = Inr out" "length out < 2 ^ 32" using assms(1,2) by (simp_all add: bsa_write_pack bsa_fits_def)
  obtain a where "tes3_parse out = Inr a" "mset (map ae_path (t3_entries a)) = mset (map (\<lambda>(p, d). normalise_path p) files)"
      "\<forall>q. ascii_path q \<longrightarrow> tes3_extract a q = map_option Inr (file_map files q)"
    using tes3_pack_parse [OF pack assms(3)] by blast
  then show ?thesis using bsa_from_tes3 [OF pack(1)] by (intro exI [of _ "InnerTes3 a"]) simp
next
  case False
  then obtain v where v: "variant version = Some v" using variant_cases by blast
  have pack: "tes4_pack deflate version compress embed_names files = Inr out"
    "tes4_fits deflate (v = BSse) (embeds version embed_names) compress files out"
    using assms(1,2) False v by (cases version, auto simp: bsa_write_pack bsa_fits_def)+
  obtain a where "tes4_parse out (raw_version v) = Inr a" "mset (map ae_path (t4_entries a)) = mset (map (\<lambda>(p, d). normalise_path p) files)"
      "\<forall>q. ascii_path q \<longrightarrow> tes4_extract inflate a q = map_option Inr (file_map files q)"
    using tes4_pack_parse [OF pack(1) v pack(2) assms(3), of inflate] assms(4) by blast
  then show ?thesis using bsa_from_tes4 [OF pack(1) v] by (intro exI [of _ "InnerTes4 a"]) simp
qed

definition sample_bsa_files :: "(rstring \<times> bytes) list" where
  "sample_bsa_files = [(ascii ''Meshes/a.nif'', [1, 2, 3]), (ascii ''meshes'' @ [0x5C] @ ascii ''A.NIF'', [4, 5])]"

definition sample_deflate :: "bool \<Rightarrow> bytes \<Rightarrow> string + bytes" where
  "sample_deflate sse bs = Inr (rev bs @ [if sse then 1 else 0])"

definition sample_inflate :: "bool \<Rightarrow> bytes \<Rightarrow> string + bytes" where
  "sample_inflate sse bs = Inr (rev (butlast bs))"

lemma sample_paths:
  "added sample_bsa_files =
    [\<lparr> be_path = ascii ''meshes/a.nif'', be_data = [1, 2, 3], be_compress_override = None \<rparr>,
     \<lparr> be_path = ascii ''meshes/a.nif'', be_data = [4, 5], be_compress_override = None \<rparr>]"
  "split_dir_filename (ascii ''meshes/a.nif'') = (ascii ''meshes'', ascii ''a.nif'')"
  "rfind 0x2F (ascii ''meshes/a.nif'') \<noteq> Some 0"
  "split_stem_ext (ascii ''a.nif'') = (ascii ''a'', ascii ''.nif'')"
  "length (ascii ''meshes'') = 6" "length (ascii ''a.nif'') = 5"
  by code_simp+

lemma sample_bsa_out:
  "\<exists>out. bsa_write_to sample_deflate (bsa_build VSse True True sample_bsa_files) = Inr out \<and> length out = 139"
proof -
  define h where "h = hash_tes4_dir (map (\<lambda>b. if b = 0x2F then 0x5C else b) (ascii ''meshes''))"
  define f where "f = hash_tes4_file (ascii ''a'') (ascii ''.nif'')"
  show ?thesis
    by (simp add: bsa_write_pack tes4_pack_def tes4_write_def sample_paths tes4_file_entry_def compress_data_def
        sample_deflate_def h_def [symmetric] f_def [symmetric] tes4_output_def tes4_folders_def tes4_add_to_folder_def
        u32_try_from_def tes4_block_size_def tes4_folder_bytes_def TES4_MAGIC_def)
qed


lemma sample_bsa_fits: "length out < 2 ^ 32 \<Longrightarrow> bsa_fits sample_deflate VSse True True sample_bsa_files out"
  "\<forall>(p, d) \<in> set sample_bsa_files. ascii_path p"
proof -
  have n: "normalise_path p = ascii ''meshes/a.nif''" "ascii_path p" if "(p, d) \<in> set sample_bsa_files" for p d
    using that by (auto simp: sample_bsa_files_def normalise_path_def path_char_def latin1_utf8_def to_ascii_lowercase_def
        ascii_def ascii_path_def)
  then show "\<forall>(p, d) \<in> set sample_bsa_files. ascii_path p" by blast
  have "length (tf_stored fe) < 2 ^ 30"
    if "e \<in> set (added sample_bsa_files)" "tes4_file_entry sample_deflate True True True e = Inr fe" for e fe
    using that by (auto simp: sample_paths tes4_file_entry_def compress_data_def sample_deflate_def Let_def)
  moreover assume "length out < 2 ^ 32"
  ultimately show "bsa_fits sample_deflate VSse True True sample_bsa_files out"
    using n sample_paths(2,3,5) by (auto simp: bsa_fits_def tes4_fits_def)
qed

end
