(* ===== verification/Ba2Core.thy ===== *)
theory Ba2Core
  imports ArchiveCore
begin

text \<open>
  What the two BA2 formats share: the header and the version codes of \<open>ba2/mod.rs\<close> and
  \<open>write/mod.rs\<close>, the name table, the hashes of a path, and reading a stored blob. Additions of the
  source on machine words wrap, as in its release profile. The zlib codec is a parameter.
\<close>

definition BTDX :: bytes where "BTDX = ascii ''BTDX''"
definition SUB_GNRL :: bytes where "SUB_GNRL = ascii ''GNRL''"
definition SUB_DX10 :: bytes where "SUB_DX10 = ascii ''DX10''"
definition BAADF00D :: u32 where "BAADF00D = 0xBAADF00D"

datatype ba2_version = V1 | V7 | V8

fun ba2_as_u32 :: "ba2_version \<Rightarrow> u32" where
  "ba2_as_u32 V1 = 1"
| "ba2_as_u32 V7 = 7"
| "ba2_as_u32 V8 = 8"

text \<open>The name table: a length word and the bytes of each name. \<open>prefix\<close> starts the error messages.\<close>

fun ba2_name_table :: "string \<Rightarrow> bytes \<Rightarrow> nat \<Rightarrow> nat \<Rightarrow> bsa_error + rstring list" where
  "ba2_name_table prefix bs 0 pos = Inr []"
| "ba2_name_table prefix bs (Suc n) pos =
     (if unat (of_nat (pos + 2) :: u64) > length bs then Inl (Corrupt (prefix @ ''length out of bounds''))
      else if pos + 2 > length bs then Inl (BsaPanic ''index out of bounds'')
      else
        let len = unat (le_word (slice pos (pos + 2) bs) :: u16);
            name = slice (pos + 2) (pos + 2 + len) bs
        in if pos + 2 + len > length bs then Inl (Corrupt (prefix @ ''string out of bounds''))
           else if \<not> utf8_valid name then Inl (Corrupt (prefix @ ''non-UTF-8''))
           else bindr (ba2_name_table prefix bs n (pos + 2 + len)) (\<lambda>names. Inr (name # names)))"

text \<open>A bounds-checked slice at a word offset; a wrapped end below the start is the slice panic.\<close>

definition ba2_range :: "string \<Rightarrow> u64 \<Rightarrow> u32 \<Rightarrow> bytes \<Rightarrow> bsa_error + bytes" where
  "ba2_range msg offset n bs =
     (let stop = offset + ucast n
      in if unat stop > length bs then Inl (Corrupt msg)
         else if offset > stop then Inl (BsaPanic ''slice index starts after its end'')
         else Inr (slice (unat offset) (unat stop) bs))"

text \<open>A stored blob: compressed when the packed size is not zero.\<close>

definition ba2_blob :: "(bytes \<Rightarrow> string + bytes) \<Rightarrow> string \<Rightarrow> u64 \<Rightarrow> u32 \<Rightarrow> u32 \<Rightarrow> bytes \<Rightarrow> bsa_error + bytes" where
  "ba2_blob inflate msg offset packed unpacked bs =
     (if packed \<noteq> 0 then
        bindr (ba2_range msg offset packed bs) (\<lambda>z. bsa_io (decompress_zlib inflate z (unat unpacked)))
      else ba2_range msg offset unpacked bs)"

subsection \<open>Writing\<close>

definition ba2_hashes :: "rstring \<Rightarrow> bytes" where
  "ba2_hashes path =
     (let (dir, filename) = split_dir_filename path;
          (stem, ext) = split_stem_ext filename
      in le_bytes 4 (hash_fo4 stem) @ le_bytes 4 (hash_fo4 ext) @ le_bytes 4 (hash_fo4 dir))"

definition ba2_name :: "rstring \<Rightarrow> bytes" where
  "ba2_name path = le_bytes 2 (of_nat (length path) :: u16) @ path"

definition ba2_header :: "ba2_version \<Rightarrow> bytes \<Rightarrow> u32 \<Rightarrow> u64 \<Rightarrow> bytes" where
  "ba2_header version sub_type file_count table_offset =
     BTDX @ le_bytes 4 (ba2_as_u32 version) @ sub_type @ le_bytes 4 file_count @ le_bytes 8 table_offset"

definition ba2_compress :: "(bytes \<Rightarrow> string + bytes) \<Rightarrow> bytes \<Rightarrow> bsa_error + bytes" where
  "ba2_compress deflate data = map_err WriteIo (deflate data)"

text \<open>The blob of some data and its packed size, zero when it is stored as it is.\<close>

definition ba2_store :: "(bytes \<Rightarrow> string + bytes) \<Rightarrow> bool \<Rightarrow> bytes \<Rightarrow> bsa_error + bytes \<times> u32" where
  "ba2_store deflate compress data =
     (if compress then bindr (ba2_compress deflate data) (\<lambda>z. Inr (z, of_nat (length z)))
      else Inr (data, 0))"

subsection \<open>Reading what was written\<close>

lemma ba2_names_written:
  assumes "\<forall>p \<in> set ps. utf8_valid p \<and> length p < 2 ^ 16"
    and "length (pre @ concat (map ba2_name ps) @ post) < 2 ^ 63" "pos = length pre"
  shows "ba2_name_table prefix (pre @ concat (map ba2_name ps) @ post) (length ps) pos = Inr ps"
  using assms
proof (induction ps arbitrary: pre pos)
  case (Cons p ps)
  let ?l = "of_nat (length p) :: u16" and ?rest = "concat (map ba2_name ps) @ post"
  let ?bs = "pre @ le_bytes 2 ?l @ p @ ?rest"
  have bs: "pre @ concat (map ba2_name (p # ps)) @ post = ?bs" by (simp add: ba2_name_def)
  have len: "unat ?l = length p" using Cons.prems(1) by simp
  have pos: "unat (of_nat (pos + 2) :: u64) = pos + 2"
    using Cons.prems(2,3) unfolding bs by (simp only: unat_of_nat take_bit_eq_mod) simp
  have l: "slice pos (pos + 2) ?bs = le_bytes 2 ?l"
    using slice_in_append [of pre "le_bytes 2 ?l" "p @ ?rest"] Cons.prems(3) by simp
  have name: "slice (pos + 2) (pos + 2 + length p) ?bs = p"
    using slice_in_append [of "pre @ le_bytes 2 ?l" p ?rest] Cons.prems(3) by simp
  have "ba2_name_table prefix ((pre @ le_bytes 2 ?l @ p) @ ?rest) (length ps) (pos + 2 + length p) = Inr ps"
    using Cons.prems unfolding bs by (intro Cons.IH) simp_all
  then show ?case
    unfolding bs using Cons.prems(1,3) len l name pos by (simp add: Let_def)
qed simp

lemma ba2_blob_written:
  assumes "ba2_store deflate compress d = Inr (stored, packed)" "bs = pre @ stored @ post" "length bs < 2 ^ 63"
    and "unat off = length pre" "length d < 2 ^ 32"
    and codec: "\<And>z. deflate d = Inr z \<Longrightarrow> inflate z = Inr d \<and> z \<noteq> [] \<and> length z < 2 ^ 32"
  shows "ba2_blob inflate msg off packed (of_nat (length d)) bs = Inr d"
proof -
  have range: "ba2_range m off n bs = Inr stored" if "unat n = length stored" for m n
  proof -
    have "unat (off + ucast n) = length pre + length stored"
      using assms(2-4) that by (simp add: unat_word_ariths unat_ucast_u64)
    moreover have "off \<le> off + ucast n" using calculation assms(4) by (simp add: word_le_nat_alt)
    moreover have "slice (length pre) (length pre + length stored) bs = stored"
      unfolding assms(2) by (rule slice_in_append)
    ultimately show ?thesis using assms(2,4) by (simp add: ba2_range_def Let_def not_less)
  qed
  show ?thesis
  proof (cases compress)
    case True
    then obtain z where z: "deflate d = Inr z" "stored = z" "packed = of_nat (length z)"
      using assms(1) by (auto simp: ba2_store_def ba2_compress_def bindr_eq_Inr)
    have n: "unat packed = length z" using codec [OF z(1)] z(3) by simp
    then have "packed \<noteq> 0" using codec [OF z(1)] by auto
    then show ?thesis using range [of packed] n z codec [OF z(1)]
      by (simp add: ba2_blob_def decompress_zlib_def)
  next
    case False
    then show ?thesis using assms(1,5) range by (simp add: ba2_store_def ba2_blob_def)
  qed
qed

text \<open>The same for one of the consecutive blobs of an archive.\<close>

lemma ba2_blob_at:
  assumes "bs = pre @ concat blobs @ post" "i < length blobs" "ba2_store deflate compress d = Inr (blobs ! i, packed)"
    and "length bs < 2 ^ 63" "length d < 2 ^ 32"
    and "\<And>z. deflate d = Inr z \<Longrightarrow> inflate z = Inr d \<and> z \<noteq> [] \<and> length z < 2 ^ 32"
  shows "ba2_blob inflate msg (of_nat (length pre + total_length (take i blobs))) packed (of_nat (length d)) bs = Inr d"
proof -
  let ?pre = "pre @ concat (take i blobs)" and ?p = "length pre + total_length (take i blobs)"
  have split: "bs = ?pre @ blobs ! i @ concat (drop (Suc i) blobs) @ post"
    using assms(1) id_take_nth_drop [OF assms(2)] by (metis append_assoc concat.simps(2) concat_append)
  have pre: "length ?pre = ?p" by (simp add: length_concat)
  then have "?p < 2 ^ 63" using arg_cong [OF split, of length] assms(4) by simp
  then have "unat (of_nat ?p :: u64) = length ?pre" using pre by (simp only: unat_of_nat take_bit_eq_mod) simp
  from ba2_blob_written [OF assms(3) split assms(4) this assms(5,6)] show ?thesis .
qed

text \<open>Extraction from a reader that keeps the files in the order they were added.\<close>

lemma added_order:
  assumes "\<forall>(p, d) \<in> set files. ascii_path p"
    and "\<And>i. i < length files \<Longrightarrow> get i = Inr (be_data (added files ! i))"
  shows "map_option get (path_index (map (\<lambda>e. normalise_path (be_path e)) (added files)) (normalise_path q)) =
    map_option Inr (file_map files q)"
proof -
  have "added files = sort_key (\<lambda>e. 0 :: nat) (added files)" by (simp add: sort_key_const)
  then have "map_option (\<lambda>i. be_data (added files ! i)) (path_index (map (\<lambda>e. normalise_path (be_path e)) (added files)) (normalise_path q)) =
      file_map files q"
    by (rule file_map_index(1) [OF assms(1)])
  then show ?thesis using file_map_extract [of "added files" get] assms(2) by simp
qed

lemma added_names:
  assumes "\<forall>(p, d) \<in> set files. ascii_path p"
  shows "map (\<lambda>e. normalise_path (be_path e)) (added files) = map (\<lambda>(p, d). normalise_path p) files"
  using added_paths(2) [OF assms] by (auto simp: added_def builder_entry_new_def)


text \<open>What the widths of the format allow, and what is asked of the codec.\<close>

definition ba2_fits :: "(bytes \<Rightarrow> string + bytes) \<Rightarrow> (bytes \<Rightarrow> string + bytes) \<Rightarrow> (rstring \<times> bytes) list \<Rightarrow> bytes \<Rightarrow> bool" where
  "ba2_fits deflate inflate files out \<longleftrightarrow> length files < 2 ^ 32 \<and> length out < 2 ^ 63 \<and>
     (\<forall>(p, d) \<in> set files. length (normalise_path p) < 2 ^ 16 \<and> length d < 2 ^ 32 \<and>
        (\<forall>z. deflate d = Inr z \<longrightarrow> inflate z = Inr d \<and> z \<noteq> [] \<and> length z < 2 ^ 32))"

lemma ba2_fitsD:
  assumes "ba2_fits deflate inflate files out" "i < length files"
  shows "length (be_data (added files ! i)) < 2 ^ 32"
    "deflate (be_data (added files ! i)) = Inr z \<Longrightarrow> inflate z = Inr (be_data (added files ! i)) \<and> z \<noteq> [] \<and> length z < 2 ^ 32"
proof -
  obtain p d where pd: "files ! i = (p, d)" by (cases "files ! i")
  then have "(p, d) \<in> set files" "be_data (added files ! i) = d"
    using assms(2) nth_mem [OF assms(2)] by (simp_all add: added_def builder_entry_new_def)
  then show "length (be_data (added files ! i)) < 2 ^ 32"
    "deflate (be_data (added files ! i)) = Inr z \<Longrightarrow> inflate z = Inr (be_data (added files ! i)) \<and> z \<noteq> [] \<and> length z < 2 ^ 32"
    using assms(1) unfolding ba2_fits_def by blast+
qed

lemma length_ba2_hashes [simp]: "length (ba2_hashes p) = 12"
  by (simp add: ba2_hashes_def Let_def case_prod_unfold)

lemma length_ba2_header: "length sub = 4 \<Longrightarrow> length (ba2_header version sub n off) = 24"
  by (simp add: ba2_header_def BTDX_def)

lemma slice_prefix: "a = length pre \<Longrightarrow> b = a + length xs \<Longrightarrow> slice a b (pre @ xs @ post) = xs"
  by (simp add: slice_in_append)

end
