(* ===== verification/Ba2Gnrl.thy ===== *)
theory Ba2Gnrl
  imports Ba2Core
begin

text \<open>
  General BA2 archives: the reader of \<open>ba2/gnrl.rs\<close> and the writer of \<open>write/ba2_gnrl.rs\<close>. A record
  takes 36 bytes, of which the reader and the writer use the first 32: the three hashes, the offset,
  the two sizes and the tail.
\<close>

subsection \<open>Reader\<close>

record gnrl_record =
  g_offset :: u64
  g_packed_size :: u32
  g_size :: u32

record gnrl_archive =
  g_source :: bytes
  g_entries :: "archive_entry list"
  g_records :: "gnrl_record list"
  g_index :: "rstring \<Rightarrow> nat option"

definition gnrl_read_record :: "bytes \<Rightarrow> nat \<times> rstring \<Rightarrow> bsa_error + archive_entry \<times> gnrl_record" where
  "gnrl_read_record bs = (\<lambda>(i, name).
     let base = 24 + i * 36;
         rec_bytes = slice base (base + 36) bs;
         offset = (le_word (slice 12 20 rec_bytes) :: u64);
         packed_size = (le_word (slice 20 24 rec_bytes) :: u32);
         size' = (le_word (slice 24 28 rec_bytes) :: u32);
         tail = (le_word (slice 28 32 rec_bytes) :: u32)
     in if tail \<noteq> BAADF00D then Inl (Corrupt ''GNRL record: unexpected tail'')
        else Inr (\<lparr> ae_path = normalise_path name, ae_uncompressed_size = size',
                    ae_compressed_size = (if packed_size \<noteq> 0 then Some packed_size else None) \<rparr>,
                  \<lparr> g_offset = offset, g_packed_size = packed_size, g_size = size' \<rparr>))"

definition gnrl_parse :: "bytes \<Rightarrow> u32 \<Rightarrow> u64 \<Rightarrow> bsa_error + gnrl_archive" where
  "gnrl_parse source n table_offset =
     (let file_count = unat n
      in if 24 + file_count * 36 > length source then Inl (Corrupt ''GNRL file records out of bounds'')
         else
           bindr (ba2_name_table ''name table entry '' source file_count (unat table_offset)) (\<lambda>names.
           bindr (collect_files (gnrl_read_record source) (enumerate 0 names)) (\<lambda>files.
             Inr \<lparr> g_source = source, g_entries = map fst files, g_records = map snd files,
                   g_index = path_index (map (\<lambda>f. ae_path (fst f)) files) \<rparr>)))"

definition gnrl_extract_by_index :: "(bytes \<Rightarrow> string + bytes) \<Rightarrow> gnrl_archive \<Rightarrow> nat \<Rightarrow> bsa_error + bytes" where
  "gnrl_extract_by_index inflate a idx =
     (let rec = g_records a ! idx
      in ba2_blob inflate ''GNRL file data out of bounds'' (g_offset rec) (g_packed_size rec) (g_size rec) (g_source a))"

definition gnrl_find :: "gnrl_archive \<Rightarrow> rstring \<Rightarrow> nat option" where
  "gnrl_find a path = g_index a (normalise_path path)"

definition gnrl_extract :: "(bytes \<Rightarrow> string + bytes) \<Rightarrow> gnrl_archive \<Rightarrow> rstring \<Rightarrow> (bsa_error + bytes) option" where
  "gnrl_extract inflate a path = map_option (gnrl_extract_by_index inflate a) (gnrl_find a path)"

subsection \<open>Writer\<close>

record gnrl_writer =
  gw_version :: ba2_version
  gw_compress :: bool
  gw_entries :: "builder_entry list"

definition gnrl_writer_new :: "ba2_version \<Rightarrow> gnrl_writer" where
  "gnrl_writer_new version = \<lparr> gw_version = version, gw_compress = False, gw_entries = [] \<rparr>"

definition gnrl_set_compress :: "bool \<Rightarrow> gnrl_writer \<Rightarrow> gnrl_writer" where
  "gnrl_set_compress b w = w\<lparr> gw_compress := b \<rparr>"

definition gnrl_add :: "rstring \<Rightarrow> bytes \<Rightarrow> gnrl_writer \<Rightarrow> gnrl_writer" where
  "gnrl_add path data w = w\<lparr> gw_entries := gw_entries w @ [builder_entry_new path data] \<rparr>"

record gnrl_file =
  gf_path :: rstring
  gf_uncompressed_size :: u32
  gf_stored :: bytes
  gf_packed_size :: u32

definition gnrl_file_entry :: "(bytes \<Rightarrow> string + bytes) \<Rightarrow> bool \<Rightarrow> builder_entry \<Rightarrow> bsa_error + gnrl_file" where
  "gnrl_file_entry deflate compress e =
     (let should_compress = (case be_compress_override e of Some b \<Rightarrow> b | None \<Rightarrow> compress)
      in bindr (ba2_store deflate should_compress (be_data e)) (\<lambda>(stored, packed_size).
           Inr \<lparr> gf_path = be_path e, gf_uncompressed_size = of_nat (length (be_data e)),
                 gf_stored = stored, gf_packed_size = packed_size \<rparr>))"

definition gnrl_record_bytes :: "gnrl_file \<times> nat \<Rightarrow> bytes" where
  "gnrl_record_bytes = (\<lambda>(f, offset).
     ba2_hashes (gf_path f) @ le_bytes 8 (of_nat offset :: u64) @ le_bytes 4 (gf_packed_size f) @
     le_bytes 4 (gf_uncompressed_size f) @ le_bytes 4 BAADF00D @ le_bytes 4 (0 :: u32))"

definition gnrl_write ::
    "(bytes \<Rightarrow> string + bytes) \<Rightarrow> ba2_version \<Rightarrow> bool \<Rightarrow> builder_entry list \<Rightarrow> bsa_error + bytes" where
  "gnrl_write deflate version compress entries =
     (if entries = [] then Inl EmptyArchive
      else
        let file_count = (of_nat (length entries) :: u32) in
        bindr (collect_files (gnrl_file_entry deflate compress) entries) (\<lambda>files.
          let records_end = 24 + unat file_count * 36;
              blobs = map (\<lambda>f. length (gf_stored f)) files;
              data_offsets = positions records_end blobs;
              table_offset = (of_nat (records_end + sum_list blobs) :: u64)
          in Inr (ba2_header version SUB_GNRL file_count table_offset @
                  concat (map gnrl_record_bytes (zip files data_offsets)) @
                  concat (map gf_stored files) @
                  concat (map (\<lambda>f. ba2_name (gf_path f)) files))))"

definition gnrl_write_to :: "(bytes \<Rightarrow> string + bytes) \<Rightarrow> gnrl_writer \<Rightarrow> bsa_error + bytes" where
  "gnrl_write_to deflate w = gnrl_write deflate (gw_version w) (gw_compress w) (gw_entries w)"

definition gnrl_build :: "ba2_version \<Rightarrow> bool \<Rightarrow> (rstring \<times> bytes) list \<Rightarrow> gnrl_writer" where
  "gnrl_build version compress files =
     foldl (\<lambda>w (p, d). gnrl_add p d w) (gnrl_set_compress compress (gnrl_writer_new version)) files"

lemma gnrl_build_write:
  "gnrl_write_to deflate (gnrl_build version compress files) = gnrl_write deflate version compress (added files)"
proof -
  have "foldl (\<lambda>w (p, d). gnrl_add p d w) w files = w\<lparr> gw_entries := gw_entries w @ added files \<rparr>" for w
    by (induction files arbitrary: w) (auto simp: gnrl_add_def added_def)
  then show ?thesis
    by (simp add: gnrl_write_to_def gnrl_build_def gnrl_writer_new_def gnrl_set_compress_def)
qed

subsection \<open>The round trip\<close>

lemma length_gnrl_record [simp]: "length (gnrl_record_bytes r) = 36"
  by (cases r) (simp add: gnrl_record_bytes_def)

lemma gnrl_read_record_written:
  assumes "i < length rs" "length pre = 24"
  shows "gnrl_read_record (pre @ concat (map gnrl_record_bytes rs) @ post) (i, name) =
    Inr (\<lparr> ae_path = normalise_path name, ae_uncompressed_size = gf_uncompressed_size (fst (rs ! i)),
           ae_compressed_size = (if gf_packed_size (fst (rs ! i)) \<noteq> 0 then Some (gf_packed_size (fst (rs ! i))) else None) \<rparr>,
         \<lparr> g_offset = of_nat (snd (rs ! i)), g_packed_size = gf_packed_size (fst (rs ! i)),
           g_size = gf_uncompressed_size (fst (rs ! i)) \<rparr>)"
proof -
  obtain f off where r: "rs ! i = (f, off)" by (cases "rs ! i")
  let ?h = "ba2_hashes (gf_path f)" and ?o = "le_bytes 8 (of_nat off :: u64)" and ?p = "le_bytes 4 (gf_packed_size f)"
    and ?s = "le_bytes 4 (gf_uncompressed_size f)" and ?t = "le_bytes 4 BAADF00D" and ?z = "le_bytes 4 (0 :: u32)"
  have "total_length (take i (map gnrl_record_bytes rs)) = 36 * i"
    using assms(1) by (induction i) (simp_all add: take_Suc_conv_app_nth)
  then have "slice (24 + i * 36) (24 + i * 36 + 36) (pre @ concat (map gnrl_record_bytes rs) @ post) = gnrl_record_bytes (f, off)"
    using slice_in_concat [of i "map gnrl_record_bytes rs" "24 + i * 36" pre post] assms r by simp
  moreover have "slice 12 20 (gnrl_record_bytes (f, off)) = ?o"
    using slice_prefix [of 12 ?h 20 ?o "?p @ ?s @ ?t @ ?z"] by (simp add: gnrl_record_bytes_def)
  moreover have "slice 20 24 (gnrl_record_bytes (f, off)) = ?p"
    using slice_prefix [of 20 "?h @ ?o" 24 ?p "?s @ ?t @ ?z"] by (simp add: gnrl_record_bytes_def)
  moreover have "slice 24 28 (gnrl_record_bytes (f, off)) = ?s"
    using slice_prefix [of 24 "?h @ ?o @ ?p" 28 ?s "?t @ ?z"] by (simp add: gnrl_record_bytes_def)
  moreover have "slice 28 32 (gnrl_record_bytes (f, off)) = ?t"
    using slice_prefix [of 28 "?h @ ?o @ ?p @ ?s" 32 ?t ?z] by (simp add: gnrl_record_bytes_def)
  ultimately show ?thesis by (simp add: gnrl_read_record_def r Let_def)
qed

lemma gnrl_parse_written:
  assumes out: "out = ba2_header version SUB_GNRL n off @ concat (map gnrl_record_bytes rs) @ mid @ concat (map ba2_name ps)"
    and len: "length out < 2 ^ 63" "length rs = length ps" "unat n = length ps"
    and off: "unat off = 24 + 36 * length ps + length mid" and ps: "\<forall>p \<in> set ps. ascii_path p \<and> length p < 2 ^ 16"
  shows "\<exists>a. gnrl_parse out n off = Inr a \<and> g_source a = out \<and> map ae_path (g_entries a) = map normalise_path ps \<and>
    g_index a = path_index (map normalise_path ps) \<and>
    g_records a = map (\<lambda>(f, off). \<lparr> g_offset = of_nat off, g_packed_size = gf_packed_size f, g_size = gf_uncompressed_size f \<rparr>) rs"
proof -
  let ?R = "concat (map gnrl_record_bytes rs)" and ?H = "ba2_header version SUB_GNRL n off"
  have h: "length ?H = 24" by (simp add: length_ba2_header SUB_GNRL_def)
  have R: "length ?R = 36 * length ps" using len(2) length_concat_const [of rs gnrl_record_bytes 36] by simp
  have names: "ba2_name_table prefix out (length ps) (unat off) = Inr ps" for prefix
  proof -
    have "ba2_name_table prefix ((?H @ ?R @ mid) @ concat (map ba2_name ps) @ []) (length ps) (unat off) = Inr ps"
      using ps len(1) off h R by (intro ba2_names_written) (simp_all add: out ascii_path_utf8)
    then show ?thesis by (simp add: out)
  qed
  let ?F = "\<lambda>r :: gnrl_file \<times> nat. \<lparr> g_offset = of_nat (snd r), g_packed_size = gf_packed_size (fst r), g_size = gf_uncompressed_size (fst r) \<rparr>"
  have "\<exists>fs. collect_files (gnrl_read_record out) (enumerate 0 ps) = Inr fs \<and> map (\<lambda>f. ae_path (fst f)) fs = map normalise_path ps \<and>
      map snd fs = map ?F rs"
  proof -
    let ?f = "\<lambda>i. projr (gnrl_read_record out (i, ps ! i))"
    have i: "gnrl_read_record out (i, ps ! i) = Inr (?f i)" "ae_path (fst (?f i)) = normalise_path (ps ! i)" "snd (?f i) = ?F (rs ! i)"
      if "i < length ps" for i
      using gnrl_read_record_written [of i rs ?H "mid @ concat (map ba2_name ps)" "ps ! i"] that h len(2)
      by (simp_all add: out)
    let ?fs = "map ?f [0..<length ps]"
    have "collect_files (gnrl_read_record out) (enumerate 0 ps) = Inr ?fs"
      unfolding collect_files_map using i(1) by (simp add: list_all2_conv_all_nth nth_enumerate_eq)
    moreover have "map (\<lambda>f. ae_path (fst f)) ?fs = map normalise_path ps" "map snd ?fs = map ?F rs"
      using i(2,3) len(2) by (auto intro!: nth_equalityI)
    ultimately show ?thesis by blast
  qed
  then obtain fs where fs: "collect_files (gnrl_read_record out) (enumerate 0 ps) = Inr fs"
    "map (\<lambda>f. ae_path (fst f)) fs = map normalise_path ps" "map snd fs = map ?F rs" by blast
  have "24 + length ps * 36 \<le> length out" using h R by (simp add: out)
  then show ?thesis using names fs len(3)
    by (simp add: gnrl_parse_def Let_def comp_def case_prod_unfold)
qed

lemma gnrl_file_entry_Inr:
  assumes "gnrl_file_entry deflate compress e = Inr f" "be_compress_override e = None"
  shows "gf_path f = be_path e" "gf_uncompressed_size f = of_nat (length (be_data e))"
    "ba2_store deflate compress (be_data e) = Inr (gf_stored f, gf_packed_size f)"
  using assms by (auto simp: gnrl_file_entry_def bindr_eq_Inr)

text \<open>The parts of a written archive: header, records with the positions of the blobs, blobs, names.\<close>

lemma gnrl_pack_Inr:
  assumes "gnrl_write_to deflate (gnrl_build version compress files) = Inr out" "length files < 2 ^ 32"
  shows "\<exists>fes n. list_all2 (\<lambda>e f. gnrl_file_entry deflate compress e = Inr f) (added files) fes \<and> unat n = length files \<and>
    (let e = 24 + length files * 36; blobs = map (\<lambda>f. length (gf_stored f)) fes in
     out = ba2_header version SUB_GNRL n (of_nat (e + sum_list blobs)) @
       concat (map gnrl_record_bytes (zip fes (positions e blobs))) @
       concat (map gf_stored fes) @ concat (map ba2_name (map gf_path fes)))"
proof -
  have n: "unat (of_nat (length (added files)) :: u32) = length files" using assms(2) by simp
  have ne: "(added files = []) = False" using assms(1) by (auto simp: gnrl_build_write gnrl_write_def)
  from assms(1) obtain fes where "collect_files (gnrl_file_entry deflate compress) (added files) = Inr fes"
    and "out = (let e = 24 + length files * 36; blobs = map (\<lambda>f. length (gf_stored f)) fes in
     ba2_header version SUB_GNRL (of_nat (length (added files))) (of_nat (e + sum_list blobs)) @
       concat (map gnrl_record_bytes (zip fes (positions e blobs))) @
       concat (map gf_stored fes) @ concat (map (\<lambda>f. ba2_name (gf_path f)) fes))"
    unfolding gnrl_build_write gnrl_write_def Let_def n ne if_False bindr_eq_Inr sum.inject by blast
  then show ?thesis using n
    by (intro exI [of _ fes] exI [of _ "of_nat (length (added files))"])
      (simp only: collect_files_map Let_def map_map comp_def simp_thms)
qed

lemma gnrl_pack_parse:
  assumes pack: "gnrl_write_to deflate (gnrl_build version compress files) = Inr out"
    and fits: "ba2_fits deflate inflate files out" and ascii: "\<forall>(p, d) \<in> set files. ascii_path p"
  shows "\<exists>a n off. (\<exists>rest. out = ba2_header version SUB_GNRL n off @ rest) \<and> gnrl_parse out n off = Inr a \<and>
    map ae_path (g_entries a) = map (\<lambda>(p, d). normalise_path p) files \<and>
    (\<forall>q. gnrl_extract inflate a q = map_option Inr (file_map files q))"
proof -
  let ?es = "added files" and ?e = "24 + length files * 36"
  have lens: "length files < 2 ^ 32" "length out < 2 ^ 63" using fits by (simp_all add: ba2_fits_def)
  obtain fes n where L: "list_all2 (\<lambda>e f. gnrl_file_entry deflate compress e = Inr f) ?es fes" and n: "unat n = length files"
    and parts: "let blobs = map (\<lambda>f. length (gf_stored f)) fes in
      out = ba2_header version SUB_GNRL n (of_nat (?e + sum_list blobs)) @ concat (map gnrl_record_bytes (zip fes (positions ?e blobs))) @
       concat (map gf_stored fes) @ concat (map ba2_name (map gf_path fes))"
    using gnrl_pack_Inr [OF pack lens(1)] by (auto simp: Let_def)
  let ?blobs = "map (\<lambda>f. length (gf_stored f)) fes" and ?mid = "concat (map gf_stored fes)"
  let ?off = "of_nat (?e + sum_list ?blobs) :: u64" and ?rs = "zip fes (positions ?e ?blobs)"
  have out: "out = ba2_header version SUB_GNRL n ?off @ concat (map gnrl_record_bytes ?rs) @ ?mid @ concat (map ba2_name (map gf_path fes))"
    using parts by (simp add: Let_def)
  have entry: "length fes = length files" "gf_path (fes ! i) = be_path (?es ! i)"
    "gf_uncompressed_size (fes ! i) = of_nat (length (be_data (?es ! i)))"
    "ba2_store deflate compress (be_data (?es ! i)) = Inr (gf_stored (fes ! i), gf_packed_size (fes ! i))" if "i < length files" for i
    using L gnrl_file_entry_Inr added_paths(3) [OF ascii] that by (auto simp: list_all2_conv_all_nth)
  have nf: "length fes = length files" using L by (simp add: list_all2_conv_all_nth)
  have paths: "map gf_path fes = map be_path ?es" using nf entry(2) by (auto intro!: nth_equalityI)
  let ?pre = "ba2_header version SUB_GNRL n ?off @ concat (map gnrl_record_bytes ?rs)"
  have pre: "length ?pre = ?e"
    using nf length_concat_const [of ?rs gnrl_record_bytes 36] by (simp add: length_ba2_header SUB_GNRL_def)
  have mid: "length ?mid = sum_list ?blobs" by (simp add: length_concat comp_def)
  have "?e + sum_list ?blobs \<le> length out" using arg_cong [OF out, of length] pre mid by simp
  then have off: "unat ?off = ?e + sum_list ?blobs" using lens(2) by (simp only: unat_of_nat take_bit_eq_mod) simp
  then have off': "unat ?off = 24 + 36 * length files + sum_list ?blobs" by simp
  have ps: "\<forall>p \<in> set (map gf_path fes). ascii_path p \<and> length p < 2 ^ 16"
    using added_paths(1) [OF ascii] fits unfolding paths ba2_fits_def by (fastforce simp: added_def builder_entry_new_def)
  obtain a where a: "gnrl_parse out n ?off = Inr a" "g_source a = out"
      "map ae_path (g_entries a) = map normalise_path (map gf_path fes)" "g_index a = path_index (map normalise_path (map gf_path fes))"
      "g_records a = map (\<lambda>(f, off). \<lparr> g_offset = of_nat off, g_packed_size = gf_packed_size f, g_size = gf_uncompressed_size f \<rparr>) ?rs"
    using gnrl_parse_written [OF out lens(2) _ _ _ ps, unfolded length_map length_zip length_positions min.idem nf mid,
      OF refl n off'] by blast
  have names: "map normalise_path (map gf_path fes) = map (\<lambda>e. normalise_path (be_path e)) ?es"
    unfolding paths by simp
  have extr: "gnrl_extract_by_index inflate a i = Inr (be_data (?es ! i))" if i: "i < length files" for i
  proof -
    have src: "out = ?pre @ concat (map gf_stored fes) @ concat (map ba2_name (map gf_path fes))" using out by simp
    have rec: "g_records a ! i = \<lparr> g_offset = of_nat (length ?pre + total_length (take i (map gf_stored fes))),
        g_packed_size = gf_packed_size (fes ! i), g_size = of_nat (length (be_data (?es ! i))) \<rparr>"
      unfolding pre using i nf entry(3) [OF i] by (simp add: a(5) positions_nth take_map comp_def)
    have "ba2_store deflate compress (be_data (?es ! i)) = Inr (map gf_stored fes ! i, gf_packed_size (fes ! i))"
      using entry(4) [OF i] i nf by simp
    from ba2_blob_at [OF src _ this lens(2) ba2_fitsD [OF fits i]] i nf
    show ?thesis by (simp add: gnrl_extract_by_index_def rec a(2))
  qed
  have "gnrl_extract inflate a q = map_option Inr (file_map files q)" for q
    unfolding gnrl_extract_def gnrl_find_def a(4) names by (rule added_order [OF ascii extr])
  then show ?thesis using a(1,3) names added_names [OF ascii] out by metis
qed

end
