(* ===== verification/Dds.thy ===== *)
theory Dds
  imports Ba2Core
begin

text \<open>
  DDS headers: the builder of \<open>ba2/dds.rs\<close> and the parser of \<open>write/dds_parse.rs\<close>, with the pixel
  formats, the mip-level sizes and the ranges they cut out of the pixel data. The \<open>u32\<close> arithmetic of
  the mip sizes wraps, as in the release profile.
\<close>

subsection \<open>Formats\<close>

datatype dxgi_format =
    BC1_UNORM | BC2_UNORM | BC3_UNORM | BC4_UNORM | BC4_SNORM | BC5_UNORM | BC5_SNORM | BC7_UNORM
  | R8G8B8A8_UNORM | B8G8R8A8_UNORM | B8G8R8X8_UNORM | B5G6R5_UNORM | B5G5R5A1_UNORM
  | R8G8_UNORM | A8_UNORM | R8_UNORM | R8_SNORM | R8_UINT | DxgiUnknown

fun dxgi_code :: "dxgi_format \<Rightarrow> u8" where
  "dxgi_code BC1_UNORM = 71" | "dxgi_code BC2_UNORM = 74" | "dxgi_code BC3_UNORM = 77"
| "dxgi_code BC4_UNORM = 80" | "dxgi_code BC4_SNORM = 81" | "dxgi_code BC5_UNORM = 83"
| "dxgi_code BC5_SNORM = 84" | "dxgi_code BC7_UNORM = 98" | "dxgi_code R8G8B8A8_UNORM = 28"
| "dxgi_code B8G8R8A8_UNORM = 87" | "dxgi_code B8G8R8X8_UNORM = 88" | "dxgi_code B5G6R5_UNORM = 85"
| "dxgi_code B5G5R5A1_UNORM = 86" | "dxgi_code R8G8_UNORM = 49" | "dxgi_code A8_UNORM = 65"
| "dxgi_code R8_UNORM = 61" | "dxgi_code R8_SNORM = 63" | "dxgi_code R8_UINT = 62"
| "dxgi_code DxgiUnknown = 0"

definition dxgi_of_u8 :: "u8 \<Rightarrow> dxgi_format" where
  "dxgi_of_u8 v =
     (if v = 71 then BC1_UNORM else if v = 74 then BC2_UNORM else if v = 77 then BC3_UNORM
      else if v = 80 then BC4_UNORM else if v = 81 then BC4_SNORM else if v = 83 then BC5_UNORM
      else if v = 84 then BC5_SNORM else if v = 98 then BC7_UNORM else if v = 28 then R8G8B8A8_UNORM
      else if v = 87 then B8G8R8A8_UNORM else if v = 88 then B8G8R8X8_UNORM else if v = 85 then B5G6R5_UNORM
      else if v = 86 then B5G5R5A1_UNORM else if v = 49 then R8G8_UNORM else if v = 65 then A8_UNORM
      else if v = 61 then R8_UNORM else if v = 63 then R8_SNORM else if v = 62 then R8_UINT else DxgiUnknown)"

datatype pixel_fmt =
    FourCC bytes
  | Dx10
  | Rgb u32 u32 u32 u32 u32 u32
  | Luminance u32 u32 u32 u32
  | Alpha u32 u32

definition DDSD_BASE :: u32 where "DDSD_BASE = 0x1 OR 0x1000 OR 0x4 OR 0x2"
definition DDSD_PITCH :: u32 where "DDSD_PITCH = 0x8"
definition DDSD_MIPMAPCOUNT :: u32 where "DDSD_MIPMAPCOUNT = 0x20000"
definition DDSD_LINEARSIZE :: u32 where "DDSD_LINEARSIZE = 0x80000"
definition DDSCAPS_COMPLEX :: u32 where "DDSCAPS_COMPLEX = 0x8"
definition DDSCAPS_TEXTURE :: u32 where "DDSCAPS_TEXTURE = 0x1000"
definition DDSCAPS_MIPMAP :: u32 where "DDSCAPS_MIPMAP = 0x400000"
definition DDSCAPS2_CUBE :: u32 where
  "DDSCAPS2_CUBE = 0x200 OR 0x400 OR 0x800 OR 0x1000 OR 0x2000 OR 0x4000 OR 0x8000"
definition PF_ALPHAPIXELS :: u32 where "PF_ALPHAPIXELS = 0x1"
definition PF_ALPHA :: u32 where "PF_ALPHA = 0x2"
definition PF_FOURCC :: u32 where "PF_FOURCC = 0x4"
definition PF_RGB :: u32 where "PF_RGB = 0x40"
definition PF_LUMINANCE :: u32 where "PF_LUMINANCE = 0x20000"

subsection \<open>The header builder\<close>

text \<open>The extra header flag, the pitch or linear size, and the pixel format of a texture format.\<close>

fun dds_layout :: "u32 \<Rightarrow> u32 \<Rightarrow> dxgi_format \<Rightarrow> u32 \<times> u32 \<times> pixel_fmt" where
  "dds_layout w h BC1_UNORM = (DDSD_LINEARSIZE, max (w * h div 2) 8, FourCC (ascii ''DXT1''))"
| "dds_layout w h BC2_UNORM = (DDSD_LINEARSIZE, max (w * h) 16, FourCC (ascii ''DXT3''))"
| "dds_layout w h BC3_UNORM = (DDSD_LINEARSIZE, max (w * h) 16, FourCC (ascii ''DXT5''))"
| "dds_layout w h BC4_UNORM = (DDSD_LINEARSIZE, max (w * h div 2) 8, FourCC (ascii ''ATI1''))"
| "dds_layout w h BC4_SNORM = (DDSD_LINEARSIZE, max (w * h div 2) 8, FourCC (ascii ''BC4S''))"
| "dds_layout w h BC5_UNORM = (DDSD_LINEARSIZE, max (w * h) 16, FourCC (ascii ''ATI2''))"
| "dds_layout w h BC5_SNORM = (DDSD_LINEARSIZE, max (w * h) 16, FourCC (ascii ''BC5S''))"
| "dds_layout w h BC7_UNORM = (DDSD_LINEARSIZE, max (w * h) 16, Dx10)"
| "dds_layout w h R8G8B8A8_UNORM = (DDSD_PITCH, w * 4, Rgb (PF_RGB OR PF_ALPHAPIXELS) 32 0xFF 0xFF00 0xFF0000 0xFF000000)"
| "dds_layout w h B8G8R8A8_UNORM = (DDSD_PITCH, w * 4, Rgb (PF_RGB OR PF_ALPHAPIXELS) 32 0xFF0000 0xFF00 0xFF 0xFF000000)"
| "dds_layout w h B8G8R8X8_UNORM = (DDSD_PITCH, w * 4, Rgb PF_RGB 32 0xFF0000 0xFF00 0xFF 0)"
| "dds_layout w h B5G6R5_UNORM = (DDSD_PITCH, w * 2, Rgb PF_RGB 16 0xF800 0x7E0 0x1F 0)"
| "dds_layout w h B5G5R5A1_UNORM = (DDSD_PITCH, w * 2, Rgb (PF_RGB OR PF_ALPHAPIXELS) 16 0x7C00 0x3E0 0x1F 0x8000)"
| "dds_layout w h R8G8_UNORM = (DDSD_PITCH, w * 2, Luminance (PF_LUMINANCE OR PF_ALPHAPIXELS) 16 0xFF 0xFF00)"
| "dds_layout w h A8_UNORM = (DDSD_PITCH, w, Alpha 8 0xFF)"
| "dds_layout w h R8_UNORM = (DDSD_PITCH, w, Luminance PF_LUMINANCE 8 0xFF 0)"
| "dds_layout w h R8_SNORM = (DDSD_PITCH, w, Dx10)"
| "dds_layout w h R8_UINT = (DDSD_PITCH, w, Dx10)"
| "dds_layout w h DxgiUnknown = (DDSD_LINEARSIZE, 0, Dx10)"

text \<open>Flags, code, bit count and the four masks of the pixel-format block.\<close>

fun pixel_fields :: "pixel_fmt \<Rightarrow> u32 \<times> bytes \<times> u32 \<times> u32 \<times> u32 \<times> u32 \<times> u32" where
  "pixel_fields (FourCC cc) = (PF_FOURCC, cc, 0, 0, 0, 0, 0)"
| "pixel_fields Dx10 = (PF_FOURCC, ascii ''DX10'', 0, 0, 0, 0, 0)"
| "pixel_fields (Rgb flags bits r g b a) = (flags, [0, 0, 0, 0], bits, r, g, b, a)"
| "pixel_fields (Luminance flags bits r a) = (flags, [0, 0, 0, 0], bits, r, 0, 0, a)"
| "pixel_fields (Alpha bits a) = (PF_ALPHA, [0, 0, 0, 0], bits, 0, 0, 0, a)"

definition build_dds_header :: "u16 \<Rightarrow> u16 \<Rightarrow> u8 \<Rightarrow> u8 \<Rightarrow> u16 \<Rightarrow> bytes" where
  "build_dds_header width height num_mips dxgi_raw cube_maps =
     (let (ddsd_extra, pitch_or_linear, pixel) = dds_layout (ucast width) (ucast height) (dxgi_of_u8 dxgi_raw);
          is_cube = (cube_maps = 2049);
          (caps, caps2) =
            (if is_cube then (DDSCAPS_TEXTURE OR DDSCAPS_COMPLEX, DDSCAPS2_CUBE)
             else if num_mips > 1 then (DDSCAPS_TEXTURE OR DDSCAPS_MIPMAP OR DDSCAPS_COMPLEX, 0)
             else (DDSCAPS_TEXTURE, 0));
          flags = (DDSD_BASE OR DDSD_MIPMAPCOUNT OR ddsd_extra) AND (if num_mips = 0 then NOT DDSD_MIPMAPCOUNT else NOT 0);
          (pf_flags, pf_fourcc, pf_bits, pf_r, pf_g, pf_b, pf_a) = pixel_fields pixel
      in ascii ''DDS '' @ le_bytes 4 (124 :: u32) @ le_bytes 4 flags @ le_bytes 4 (ucast height :: u32) @
         le_bytes 4 (ucast width :: u32) @ le_bytes 4 pitch_or_linear @ le_bytes 4 (1 :: u32) @
         le_bytes 4 (ucast num_mips :: u32) @ replicate 44 0 @
         le_bytes 4 (32 :: u32) @ le_bytes 4 pf_flags @ pf_fourcc @ le_bytes 4 pf_bits @ le_bytes 4 pf_r @
         le_bytes 4 pf_g @ le_bytes 4 pf_b @ le_bytes 4 pf_a @
         le_bytes 4 caps @ le_bytes 4 caps2 @ le_bytes 4 (0 :: u32) @ le_bytes 4 (0 :: u32) @ le_bytes 4 (0 :: u32) @
         (if pixel = Dx10 then
            le_bytes 4 (ucast dxgi_raw :: u32) @ le_bytes 4 (3 :: u32) @
            le_bytes 4 (if is_cube then 4 else 0 :: u32) @ le_bytes 4 (1 :: u32) @ le_bytes 4 (0 :: u32)
          else []))"

subsection \<open>The parser\<close>

record dds_info =
  di_width :: u16
  di_height :: u16
  di_num_mips :: u8
  di_dxgi_format :: u8
  di_cube_maps :: u16
  di_mip_data :: bytes
  di_mip_ranges :: "(nat \<times> nat) list"

definition fourcc_to_dxgi :: "bytes \<Rightarrow> dxgi_format option" where
  "fourcc_to_dxgi cc =
     (if cc = ascii ''DXT1'' then Some BC1_UNORM
      else if cc = ascii ''DXT3'' then Some BC2_UNORM
      else if cc = ascii ''DXT5'' then Some BC3_UNORM
      else if cc = ascii ''ATI1'' \<or> cc = ascii ''BC4U'' then Some BC4_UNORM
      else if cc = ascii ''BC4S'' then Some BC4_SNORM
      else if cc = ascii ''ATI2'' \<or> cc = ascii ''BC5U'' then Some BC5_UNORM
      else if cc = ascii ''BC5S'' then Some BC5_SNORM
      else None)"

definition uncompressed_to_dxgi :: "u32 \<Rightarrow> u32 \<Rightarrow> u32 \<Rightarrow> u32 \<Rightarrow> bsa_error + dxgi_format" where
  "uncompressed_to_dxgi pf_flags bit_count r_mask a_mask =
     (let has_alpha = (pf_flags AND PF_ALPHAPIXELS \<noteq> 0)
      in if bit_count = 32 \<and> r_mask = 0xFF \<and> has_alpha then Inr R8G8B8A8_UNORM
         else if bit_count = 32 \<and> r_mask = 0xFF0000 \<and> has_alpha \<and> a_mask = 0xFF000000 then Inr B8G8R8A8_UNORM
         else if bit_count = 32 \<and> r_mask = 0xFF0000 \<and> \<not> has_alpha then Inr B8G8R8X8_UNORM
         else if bit_count = 16 \<and> r_mask = 0xF800 then Inr B5G6R5_UNORM
         else if bit_count = 16 \<and> r_mask = 0x7C00 then Inr B5G5R5A1_UNORM
         else if bit_count = 16 \<and> r_mask = 0xFF then Inr R8G8_UNORM
         else Inl (InvalidDds ''unrecognised uncompressed format''))"

definition luminance_to_dxgi :: "u32 \<Rightarrow> u32 \<Rightarrow> bsa_error + dxgi_format" where
  "luminance_to_dxgi bit_count a_mask =
     (if bit_count = 8 \<and> a_mask = 0 then Inr R8_UNORM
      else if bit_count = 16 \<and> a_mask = 0xFF00 then Inr R8G8_UNORM
      else Inl (InvalidDds ''unrecognised luminance format''))"

definition validate_dxgi_for_write :: "u8 \<Rightarrow> bsa_error + unit" where
  "validate_dxgi_for_write f = (if dxgi_of_u8 f = DxgiUnknown then Inl (UnsupportedDxgiFormat f) else Inr ())"

definition div_ceil4 :: "u32 \<Rightarrow> u32" where
  "div_ceil4 w = w div 4 + (if w mod 4 > 0 then 1 else 0)"

definition mip_byte_size :: "u32 \<Rightarrow> u32 \<Rightarrow> u8 \<Rightarrow> bsa_error + nat" where
  "mip_byte_size w h f =
     (let blocks = div_ceil4 (max w 1) * div_ceil4 (max h 1); pixels = max w 1 * max h 1 in
      case dxgi_of_u8 f of
        DxgiUnknown \<Rightarrow> Inl (UnsupportedDxgiFormat f)
      | fmt \<Rightarrow>
          Inr (unat (if fmt \<in> {BC1_UNORM, BC4_UNORM, BC4_SNORM} then blocks * 8
                     else if fmt \<in> {BC2_UNORM, BC3_UNORM, BC5_UNORM, BC5_SNORM, BC7_UNORM} then blocks * 16
                     else if fmt \<in> {R8G8B8A8_UNORM, B8G8R8A8_UNORM, B8G8R8X8_UNORM} then pixels * 4
                     else if fmt \<in> {R8G8_UNORM, B5G6R5_UNORM, B5G5R5A1_UNORM} then pixels * 2
                     else pixels)))"

fun mip_ranges_from :: "nat \<Rightarrow> nat \<Rightarrow> u32 \<Rightarrow> u32 \<Rightarrow> u8 \<Rightarrow> bytes \<Rightarrow> bsa_error + (nat \<times> nat) list" where
  "mip_ranges_from 0 offset w h f mip_data = Inr []"
| "mip_ranges_from (Suc n) offset w h f mip_data =
     bindr (mip_byte_size w h f) (\<lambda>n_bytes.
       if offset + n_bytes > length mip_data then Inl (InvalidDds ''DDS mip data too short'')
       else bindr (mip_ranges_from n (offset + n_bytes) (max (w div 2) 1) (max (h div 2) 1) f mip_data) (\<lambda>rs.
              Inr ((offset, n_bytes) # rs)))"

definition compute_mip_ranges :: "u32 \<Rightarrow> u32 \<Rightarrow> u8 \<Rightarrow> u8 \<Rightarrow> bytes \<Rightarrow> bsa_error + (nat \<times> nat) list" where
  "compute_mip_ranges width height num_mips f mip_data = mip_ranges_from (unat num_mips) 0 width height f mip_data"

definition u32_at :: "nat \<Rightarrow> bytes \<Rightarrow> u32" where
  "u32_at i bs = le_word (slice i (i + 4) bs)"

text \<open>The format code and the length of the whole header.\<close>

definition dds_pixel_format :: "bytes \<Rightarrow> bsa_error + u8 \<times> nat" where
  "dds_pixel_format dds =
     (let pf_flags = u32_at 80 dds; four_cc = slice 84 88 dds; rgb_bit_count = u32_at 88 dds;
          r_mask = u32_at 92 dds; a_mask = u32_at 104 dds in
      if pf_flags AND PF_FOURCC \<noteq> 0 \<and> four_cc = ascii ''DX10'' then
        (if length dds < 148 then Inl (InvalidDds ''DDS too short for DX10 extension'')
         else Inr (ucast (u32_at 128 dds), 148))
      else if pf_flags AND PF_FOURCC \<noteq> 0 then
        bindr (ok_or (InvalidDds ''unknown FourCC'') (fourcc_to_dxgi four_cc)) (\<lambda>f. Inr (dxgi_code f, 128))
      else if pf_flags AND PF_RGB \<noteq> 0 then
        bindr (uncompressed_to_dxgi pf_flags rgb_bit_count r_mask a_mask) (\<lambda>f. Inr (dxgi_code f, 128))
      else if pf_flags AND PF_LUMINANCE \<noteq> 0 then
        bindr (luminance_to_dxgi rgb_bit_count a_mask) (\<lambda>f. Inr (dxgi_code f, 128))
      else if pf_flags AND PF_ALPHA \<noteq> 0 then Inr (dxgi_code A8_UNORM, 128)
      else Inl (InvalidDds ''cannot determine pixel format''))"

definition dds_parse :: "bytes \<Rightarrow> bsa_error + dds_info" where
  "dds_parse dds =
     (if length dds < 128 then Inl (InvalidDds ''DDS too short for header'')
      else if take 4 dds \<noteq> ascii ''DDS '' then Inl (InvalidDds ''not a DDS file'')
      else if u32_at 4 dds \<noteq> 124 then Inl (InvalidDds ''DDS_HEADER.dwSize'')
      else
        let height = u32_at 12 dds; width = u32_at 16 dds;
            num_mips = (ucast (min (max (u32_at 28 dds) 1) 255) :: u8);
            cube_maps = (if u32_at 112 dds AND 0x200 \<noteq> 0 then 2049 else 0 :: u16) in
        bindr (dds_pixel_format dds) (\<lambda>(f, header_len).
        bindr (validate_dxgi_for_write f) (\<lambda>_.
          let mip_data = drop header_len dds in
        bindr (compute_mip_ranges width height num_mips f mip_data) (\<lambda>mip_ranges.
          if width \<ge> 2 ^ 16 then Inl (InvalidDds ''width exceeds u16'')
          else if height \<ge> 2 ^ 16 then Inl (InvalidDds ''height exceeds u16'')
          else Inr \<lparr> di_width = ucast width, di_height = ucast height, di_num_mips = num_mips,
                     di_dxgi_format = f, di_cube_maps = cube_maps, di_mip_data = mip_data,
                     di_mip_ranges = mip_ranges \<rparr>))))"

subsection \<open>Reading a header back\<close>

lemma slice_skip: "length xs \<le> i \<Longrightarrow> slice i j (xs @ ys) = slice (i - length xs) (j - length xs) ys"
  by (simp add: slice_def)

lemma slice_here: "n = length xs \<Longrightarrow> slice 0 n (xs @ ys) = xs"
  by (simp add: slice_def)

text \<open>The fields a parser looks at, in a header with any contents.\<close>

lemma dds_fields:
  fixes fl h w pitch mips pff bits r g b a caps caps2 :: u32
  assumes "dds = ascii ''DDS '' @ le_bytes 4 (124 :: u32) @ le_bytes 4 fl @ le_bytes 4 h @
         le_bytes 4 w @ le_bytes 4 pitch @ le_bytes 4 (1 :: u32) @ le_bytes 4 mips @ replicate 44 0 @
         le_bytes 4 (32 :: u32) @ le_bytes 4 pff @ cc @ le_bytes 4 bits @ le_bytes 4 r @
         le_bytes 4 g @ le_bytes 4 b @ le_bytes 4 a @
         le_bytes 4 caps @ le_bytes 4 caps2 @ le_bytes 4 (0 :: u32) @ le_bytes 4 (0 :: u32) @ le_bytes 4 (0 :: u32) @ ext"
    and "length cc = 4"
  shows "take 4 dds = ascii ''DDS ''" "u32_at 4 dds = 124" "u32_at 12 dds = h" "u32_at 16 dds = w" "u32_at 28 dds = mips"
    "u32_at 80 dds = pff" "slice 84 88 dds = cc" "u32_at 88 dds = bits" "u32_at 92 dds = r" "u32_at 104 dds = a"
    "u32_at 112 dds = caps2" "drop 128 dds = ext" "length dds = 128 + length ext"
  using assms by (simp_all add: u32_at_def slice_skip slice_here)

lemma u32_at_128: "drop 128 dds = le_bytes 4 w @ ext \<Longrightarrow> u32_at 128 dds = w"
  by (simp add: u32_at_def slice_def)

definition dds_pixel :: "u8 \<Rightarrow> pixel_fmt" where
  "dds_pixel f = snd (snd (dds_layout 0 0 (dxgi_of_u8 f)))"

lemma dds_layout_pixel: "\<exists>e p. dds_layout w h (dxgi_of_u8 f) = (e, p, dds_pixel f)"
  by (cases "dxgi_of_u8 f") (simp_all add: dds_pixel_def)

lemma length_fourcc: "fst (snd (pixel_fields (dds_pixel f))) = cc \<Longrightarrow> length cc = 4"
  by (cases "dxgi_of_u8 f") (auto simp: dds_pixel_def)

definition dx10_ext :: "u8 \<Rightarrow> u16 \<Rightarrow> bytes" where
  "dx10_ext f c = (if dds_pixel f = Dx10 then
     le_bytes 4 (ucast f :: u32) @ le_bytes 4 (3 :: u32) @ le_bytes 4 (if c = 2049 then 4 else 0 :: u32) @
     le_bytes 4 (1 :: u32) @ le_bytes 4 (0 :: u32) else [])"

lemma built_fields:
  assumes p: "pixel_fields (dds_pixel f) = (pff, cc, bits, r, g, b, a)" and dds: "dds = build_dds_header w h m f c @ data"
  shows "take 4 dds = ascii ''DDS ''" "u32_at 4 dds = 124" "u32_at 12 dds = ucast h" "u32_at 16 dds = ucast w"
    "u32_at 28 dds = ucast m" "u32_at 80 dds = pff" "slice 84 88 dds = cc" "u32_at 88 dds = bits" "u32_at 92 dds = r"
    "u32_at 104 dds = a" "u32_at 112 dds = (if c = 2049 then DDSCAPS2_CUBE else 0)" "drop 128 dds = dx10_ext f c @ data"
    "length dds = 128 + length (dx10_ext f c) + length data"
proof -
  obtain e pitch where l: "dds_layout (ucast w) (ucast h) (dxgi_of_u8 f) = (e, pitch, dds_pixel f)"
    using dds_layout_pixel by blast
  let ?caps2 = "if c = 2049 then DDSCAPS2_CUBE else 0"
  have "\<exists>fl caps. dds = ascii ''DDS '' @ le_bytes 4 (124 :: u32) @ le_bytes 4 (fl :: u32) @ le_bytes 4 (ucast h :: u32) @
         le_bytes 4 (ucast w :: u32) @ le_bytes 4 pitch @ le_bytes 4 (1 :: u32) @ le_bytes 4 (ucast m :: u32) @ replicate 44 0 @
         le_bytes 4 (32 :: u32) @ le_bytes 4 pff @ cc @ le_bytes 4 bits @ le_bytes 4 r @
         le_bytes 4 g @ le_bytes 4 b @ le_bytes 4 a @ le_bytes 4 (caps :: u32) @ le_bytes 4 ?caps2 @
         le_bytes 4 (0 :: u32) @ le_bytes 4 (0 :: u32) @ le_bytes 4 (0 :: u32) @ dx10_ext f c @ data"
    unfolding dds build_dds_header_def l p Let_def prod.case dx10_ext_def
    by (cases "c = 2049"; cases "m > 1") (simp_all, blast+)
  then obtain fl caps where d: "dds = ascii ''DDS '' @ le_bytes 4 (124 :: u32) @ le_bytes 4 (fl :: u32) @ le_bytes 4 (ucast h :: u32) @
         le_bytes 4 (ucast w :: u32) @ le_bytes 4 pitch @ le_bytes 4 (1 :: u32) @ le_bytes 4 (ucast m :: u32) @ replicate 44 0 @
         le_bytes 4 (32 :: u32) @ le_bytes 4 pff @ cc @ le_bytes 4 bits @ le_bytes 4 r @
         le_bytes 4 g @ le_bytes 4 b @ le_bytes 4 a @ le_bytes 4 (caps :: u32) @ le_bytes 4 ?caps2 @
         le_bytes 4 (0 :: u32) @ le_bytes 4 (0 :: u32) @ le_bytes 4 (0 :: u32) @ dx10_ext f c @ data" by blast
  have "length cc = 4" using length_fourcc [of f cc] p by simp
  from dds_fields [OF d this]
  show "take 4 dds = ascii ''DDS ''" "u32_at 4 dds = 124" "u32_at 12 dds = ucast h" "u32_at 16 dds = ucast w"
    "u32_at 28 dds = ucast m" "u32_at 80 dds = pff" "slice 84 88 dds = cc" "u32_at 88 dds = bits" "u32_at 92 dds = r"
    "u32_at 104 dds = a" "u32_at 112 dds = ?caps2" "drop 128 dds = dx10_ext f c @ data"
    "length dds = 128 + length (dx10_ext f c) + length data"
    by simp_all
qed

lemma length_dds_header: "length (build_dds_header w h m f c) = 128 + length (dx10_ext f c)"
  using built_fields(13) [of f, where data = "[]" and w = w and h = h and m = m and c = c]
  by (cases "pixel_fields (dds_pixel f)") simp

lemma dxgi_of_u8_code: "dxgi_of_u8 f \<noteq> DxgiUnknown \<Longrightarrow> dxgi_code (dxgi_of_u8 f) = f"
  by (auto simp: dxgi_of_u8_def split: if_splits)

text \<open>The format code a parser finds is the one the header was built for.\<close>

lemma dds_pixel_format_built:
  assumes f: "dxgi_of_u8 f \<noteq> DxgiUnknown"
  shows "dds_pixel_format (build_dds_header w h m f c @ data) = Inr (f, length (build_dds_header w h m f c))"
proof -
  obtain pff cc bits r g b a where p: "pixel_fields (dds_pixel f) = (pff, cc, bits, r, g, b, a)"
    by (cases "pixel_fields (dds_pixel f)") auto
  note F = built_fields [OF p refl, of w h m c data]
  have code: "dxgi_code (dxgi_of_u8 f) = f" using f by (rule dxgi_of_u8_code)
  have ext: "dds_pixel f = Dx10 \<Longrightarrow> u32_at 128 (build_dds_header w h m f c @ data) = ucast f"
    using F(12) by (intro u32_at_128) (simp add: dx10_ext_def)
  have uf: "ucast (ucast f :: u32) = f" by (rule ucast_up_ucast_id) (simp add: is_up.rep_eq)
  let ?dds = "build_dds_header w h m f c @ data"
  have D: "dds_pixel_format ?dds =
     (if pff AND PF_FOURCC \<noteq> 0 \<and> cc = ascii ''DX10'' then
        (if length ?dds < 148 then Inl (InvalidDds ''DDS too short for DX10 extension'')
         else Inr (ucast (u32_at 128 ?dds), 148))
      else if pff AND PF_FOURCC \<noteq> 0 then
        bindr (ok_or (InvalidDds ''unknown FourCC'') (fourcc_to_dxgi cc)) (\<lambda>f. Inr (dxgi_code f, 128))
      else if pff AND PF_RGB \<noteq> 0 then
        bindr (uncompressed_to_dxgi pff bits r a) (\<lambda>f. Inr (dxgi_code f, 128))
      else if pff AND PF_LUMINANCE \<noteq> 0 then
        bindr (luminance_to_dxgi bits a) (\<lambda>f. Inr (dxgi_code f, 128))
      else if pff AND PF_ALPHA \<noteq> 0 then Inr (dxgi_code A8_UNORM, 128)
      else Inl (InvalidDds ''cannot determine pixel format''))"
    by (simp only: dds_pixel_format_def F(6-10) Let_def)
  show ?thesis
  proof (cases "dds_pixel f = Dx10")
    case True
    then have "pff = PF_FOURCC" "cc = ascii ''DX10''" using p by simp_all
    then show ?thesis unfolding D length_dds_header using ext [OF True] True uf
      by (simp add: length_dds_header dx10_ext_def PF_FOURCC_def)
  next
    case False
    define X where "X = dxgi_of_u8 f"
    have X: "X \<noteq> DxgiUnknown" "snd (snd (dds_layout 0 0 X)) \<noteq> Dx10" "dxgi_code X = f"
      "pixel_fields (snd (snd (dds_layout 0 0 X))) = (pff, cc, bits, r, g, b, a)"
      using f False code p by (simp_all add: X_def dds_pixel_def)
    have e: "dx10_ext f c = []" using False by (simp add: dx10_ext_def)
    have "dds_pixel_format ?dds = Inr (dxgi_code X, 128)" unfolding D using X(1,2) X(4) [symmetric]
      by (cases X) (simp_all add: fourcc_to_dxgi_def ascii_def
        uncompressed_to_dxgi_def luminance_to_dxgi_def PF_FOURCC_def PF_RGB_def PF_LUMINANCE_def PF_ALPHA_def PF_ALPHAPIXELS_def)
    then show ?thesis by (simp add: X(3) length_dds_header e)
  qed
qed


text \<open>What a texture needs for its header to be rebuilt from the fields an archive keeps.\<close>

definition dds_info_ok :: "dds_info \<Rightarrow> bool" where
  "dds_info_ok i \<longleftrightarrow> dxgi_of_u8 (di_dxgi_format i) \<noteq> DxgiUnknown \<and> di_num_mips i \<noteq> 0 \<and>
     (di_cube_maps i = 0 \<or> di_cube_maps i = 2049) \<and>
     compute_mip_ranges (ucast (di_width i)) (ucast (di_height i)) (di_num_mips i) (di_dxgi_format i) (di_mip_data i) = Inr (di_mip_ranges i)"

definition dds_of_info :: "dds_info \<Rightarrow> bytes" where
  "dds_of_info i = build_dds_header (di_width i) (di_height i) (di_num_mips i) (di_dxgi_format i) (di_cube_maps i) @ di_mip_data i"

lemma num_mips_clamp: "(ucast (min (max (ucast m) 1) 255 :: u32) :: u8) = m" if "m \<noteq> 0" for m :: u8
proof -
  have m: "unat m < 256" "unat m \<noteq> 0" using unat_u8_bound [of m] that by (simp_all add: unsigned_eq_0_iff)
  then have u: "unat (ucast m :: u32) = unat m" by (simp add: unsigned_ucast_eq take_bit_nat_eq_self)
  then have "max (ucast m :: u32) 1 = ucast m" "min (ucast m :: u32) 255 = ucast m"
    using m by (simp_all add: max_absorb1 min_absorb1 word_le_nat_alt u)
  then show ?thesis by (simp add: ucast_up_ucast_id is_up.rep_eq)
qed

lemma ucast_u16_u32: "(ucast (ucast w :: u32) :: u16) = w" "unat (ucast w :: u32) = unat (w :: u16)" "(ucast w :: u32) < 2 ^ 16"
proof -
  show "(ucast (ucast w :: u32) :: u16) = w" by (simp add: ucast_up_ucast_id is_up.rep_eq)
  have "unat w < 65536" by (rule unat_u16_bound)
  then show "unat (ucast w :: u32) = unat w" by (simp add: unsigned_ucast_eq take_bit_nat_eq_self)
  then show "(ucast w :: u32) < 2 ^ 16" using \<open>unat w < 65536\<close> by (simp add: word_less_nat_alt)
qed

lemma dds_parse_built:
  assumes "dds_info_ok i"
  shows "dds_parse (dds_of_info i) = Inr i"
proof -
  let ?f = "di_dxgi_format i" and ?dds = "dds_of_info i"
  obtain pff cc bits r g b a where p: "pixel_fields (dds_pixel ?f) = (pff, cc, bits, r, g, b, a)"
    by (cases "pixel_fields (dds_pixel ?f)") auto
  note F = built_fields [OF p dds_of_info_def]
  note ok = assms [unfolded dds_info_ok_def]
  have fmt: "dds_pixel_format ?dds = Inr (?f, length (build_dds_header (di_width i) (di_height i) (di_num_mips i) ?f (di_cube_maps i)))"
    using ok unfolding dds_of_info_def by (intro dds_pixel_format_built) simp
  have data: "drop (length (build_dds_header (di_width i) (di_height i) (di_num_mips i) ?f (di_cube_maps i))) ?dds = di_mip_data i"
    by (simp add: dds_of_info_def)
  have valid: "validate_dxgi_for_write ?f = Inr ()" using ok by (simp add: validate_dxgi_for_write_def)
  have cube: "(if u32_at 112 ?dds AND 0x200 \<noteq> 0 then 2049 else 0) = di_cube_maps i"
    using ok by (auto simp: F(11) DDSCAPS2_CUBE_def)
  have mips: "(ucast (min (max (u32_at 28 ?dds) 1) 255) :: u8) = di_num_mips i"
    using ok num_mips_clamp by (simp add: F(5))
  have len: "\<not> length ?dds < 128" by (simp add: F(13))
  have w: "\<not> 2 ^ 16 \<le> (ucast (di_width i) :: u32)" "\<not> 2 ^ 16 \<le> (ucast (di_height i) :: u32)"
    using ucast_u16_u32(3) by (simp_all add: not_le)
  show ?thesis
    unfolding dds_parse_def Let_def fmt bindr_simps prod.case valid data cube mips F(1-4)
    using ok len w by (simp add: ucast_u16_u32(1))
qed

lemma ucast_small:
  fixes x :: u32
  assumes "\<not> 2 ^ 16 \<le> x"
  shows "(ucast (ucast x :: u16) :: u32) = x"
proof -
  have "unat x < 65536" using assms by (simp add: not_le word_less_nat_alt)
  then show ?thesis
    by (intro word_unat_eq_iff [THEN iffD2]) (simp add: ucast_u16_u32(2) unsigned_ucast_eq unsigned_take_bit_eq take_bit_nat_eq_self)
qed

lemma dds_parse_ok:
  assumes "dds_parse dds = Inr i"
  shows "dds_info_ok i"
proof -
  let ?w = "u32_at 16 dds" and ?h = "u32_at 12 dds" and ?m = "ucast (min (max (u32_at 28 dds) 1) 255) :: u8"
  from assms obtain f hl rs where f: "dds_pixel_format dds = Inr (f, hl)" "validate_dxgi_for_write f = Inr ()"
    and rs: "compute_mip_ranges ?w ?h ?m f (drop hl dds) = Inr rs" and wh: "\<not> 2 ^ 16 \<le> ?w" "\<not> 2 ^ 16 \<le> ?h"
    and i: "i = \<lparr> di_width = ucast ?w, di_height = ucast ?h, di_num_mips = ?m, di_dxgi_format = f,
      di_cube_maps = (if u32_at 112 dds AND 0x200 \<noteq> 0 then 2049 else 0), di_mip_data = drop hl dds, di_mip_ranges = rs \<rparr>"
    unfolding dds_parse_def Let_def by (auto simp: bindr_eq_Inr split: if_splits)
  have "unat (min (max (u32_at 28 dds) 1) 255) < 256 \<and> unat (min (max (u32_at 28 dds) 1) 255) \<noteq> 0"
    by (auto simp: min_def max_def word_le_nat_alt)
  then have "unat ?m \<noteq> 0" by (simp add: unsigned_ucast_eq take_bit_nat_eq_self)
  then have "?m \<noteq> 0" by auto
  then show ?thesis using f(2) rs ucast_small [OF wh(1)] ucast_small [OF wh(2)]
    by (auto simp: i dds_info_ok_def validate_dxgi_for_write_def split: if_splits)
qed


subsection \<open>Mip levels\<close>

text \<open>The ranges follow one another from the start offset and stay inside the pixel data.\<close>

lemma mip_ranges_contiguous:
  "mip_ranges_from n offset w h f mip_data = Inr rs \<Longrightarrow>
   length rs = n \<and> (\<forall>k < n. fst (rs ! k) = offset + sum_list (map snd (take k rs)) \<and> fst (rs ! k) + snd (rs ! k) \<le> length mip_data)"
proof (induction n arbitrary: offset w h rs)
  case (Suc n)
  then obtain b rs' where b: "rs = (offset, b) # rs'" "offset + b \<le> length mip_data"
      "mip_ranges_from n (offset + b) (max (w div 2) 1) (max (h div 2) 1) f mip_data = Inr rs'"
    by (auto simp: bindr_eq_Inr split: if_splits)
  note IH = Suc.IH [OF b(3)]
  have "fst (rs ! k) = offset + sum_list (map snd (take k rs)) \<and> fst (rs ! k) + snd (rs ! k) \<le> length mip_data" if "k < Suc n" for k
  proof (cases k)
    case (Suc j)
    then have "fst (rs' ! j) = offset + b + sum_list (map snd (take j rs'))" "fst (rs' ! j) + snd (rs' ! j) \<le> length mip_data"
      using IH that by auto
    then show ?thesis using Suc b(1) by simp
  qed (use b in simp)
  moreover have "length rs = Suc n" using IH b(1) by simp
  ultimately show ?case by blast
qed simp

lemma mip_byte_size_known: "dxgi_of_u8 f \<noteq> DxgiUnknown \<Longrightarrow> \<exists>n. mip_byte_size w h f = Inr n"
  by (cases "dxgi_of_u8 f") (simp_all add: mip_byte_size_def Let_def)

text \<open>
  The mip ranges a DDS file is parsed into are one per level, start at the first
  byte of the pixel data, follow one another without gaps and end inside the data.
\<close>

theorem mip_ranges_inside:
  assumes "dds_parse dds = Inr i"
  shows "length (di_mip_ranges i) = unat (di_num_mips i) \<and>
    (\<forall>k < length (di_mip_ranges i). fst (di_mip_ranges i ! k) = sum_list (map snd (take k (di_mip_ranges i))) \<and>
       fst (di_mip_ranges i ! k) + snd (di_mip_ranges i ! k) \<le> length (di_mip_data i))"
  using mip_ranges_contiguous dds_parse_ok [OF assms]
  unfolding dds_info_ok_def compute_mip_ranges_def by fastforce

text \<open>A 4 by 4 texture of one BC1 block, and the same with two levels.\<close>

definition sample_texture :: dds_info where
  "sample_texture = \<lparr> di_width = 4, di_height = 4, di_num_mips = 2, di_dxgi_format = 71, di_cube_maps = 0,
     di_mip_data = replicate 16 7, di_mip_ranges = [(0, 8), (8, 8)] \<rparr>"

lemma sample_texture_ok: "dds_info_ok sample_texture"
  by code_simp

theorem mip_ranges_inside_witness:
  "dds_parse (dds_of_info sample_texture) = Inr sample_texture \<and> length (di_mip_ranges sample_texture) = 2 \<and>
   fst (di_mip_ranges sample_texture ! 1) + snd (di_mip_ranges sample_texture ! 1) \<le> 16"
proof -
  have p: "dds_parse (dds_of_info sample_texture) = Inr sample_texture" by (rule dds_parse_built [OF sample_texture_ok])
  show ?thesis using mip_ranges_inside [OF p] p by (simp add: sample_texture_def)
qed

text \<open>
  C39: Rebuilding a DDS file from what an archive keeps of it loses nothing that the parser
  sees: the rebuilt file parses to the same size, levels, format, cube flag, pixel data and ranges,
  for every supported pixel format, whichever header the original had.
\<close>

theorem dds_rebuilt:
  assumes "dds_parse dds = Inr i"
  shows "dds_parse (build_dds_header (di_width i) (di_height i) (di_num_mips i) (di_dxgi_format i) (di_cube_maps i) @
    di_mip_data i) = Inr i"
  using dds_parse_built [OF dds_parse_ok [OF assms]] by (simp add: dds_of_info_def)

theorem dds_rebuilt_witness:
  "\<exists>dds. dds_parse dds = Inr sample_texture \<and>
    dds_parse (build_dds_header 4 4 2 71 0 @ replicate 16 7) = Inr sample_texture"
  using dds_rebuilt [OF dds_parse_built [OF sample_texture_ok]] dds_parse_built [OF sample_texture_ok]
  by (auto simp: sample_texture_def)

text \<open>
  The size of the first level of a 65535 by 65535 block-compressed
  texture is 4 GiB, which the 32-bit product wraps to zero, so the parser accepts such a texture with
  no pixel data at all.
\<close>

lemma oversized_texture_accepted:
  "mip_byte_size 65535 65535 98 = Inr 0 \<and>
   dds_parse (build_dds_header 65535 65535 1 98 0) = Inr \<lparr> di_width = 65535, di_height = 65535, di_num_mips = 1,
     di_dxgi_format = 98, di_cube_maps = 0, di_mip_data = [], di_mip_ranges = [(0, 0)] \<rparr>"
proof -
  have z: "mip_byte_size 65535 65535 98 = Inr 0"
    by (simp add: mip_byte_size_def dxgi_of_u8_def div_ceil4_def Let_def max_def word_le_nat_alt)
  let ?i = "\<lparr> di_width = 65535, di_height = 65535, di_num_mips = 1,
     di_dxgi_format = 98, di_cube_maps = 0, di_mip_data = [], di_mip_ranges = [(0, 0)] \<rparr>"
  have "dds_info_ok ?i"
    using z by (simp add: dds_info_ok_def compute_mip_ranges_def dxgi_of_u8_def)
  then show ?thesis using dds_parse_built [of ?i] z by (simp add: dds_of_info_def)
qed

end
