(* ===== verification/Ba2Dx10.thy ===== *)
theory Ba2Dx10
  imports Dds
begin

text \<open>
  Texture BA2 archives: the reader of \<open>ba2/dx10.rs\<close>, which reassembles a DDS file from its header
  fields and mip chunks, and the writer of \<open>write/ba2_dx10.rs\<close>, which stores one chunk per texture.
\<close>

subsection \<open>Reader\<close>

record dx10_chunk =
  ck_offset :: u64
  ck_packed_size :: u32
  ck_size :: u32
  ck_start_mip :: u16
  ck_end_mip :: u16

record dx10_record =
  dr_width :: u16
  dr_height :: u16
  dr_num_mips :: u8
  dr_dxgi_format :: u8
  dr_cube_maps :: u16
  dr_chunks :: "dx10_chunk list"

record dx10_archive =
  x_source :: bytes
  x_entries :: "archive_entry list"
  x_records :: "dx10_record list"
  x_index :: "rstring \<Rightarrow> nat option"

definition u16_at :: "nat \<Rightarrow> bytes \<Rightarrow> u16" where
  "u16_at i bs = le_word (slice i (i + 2) bs)"

definition dx10_chunk_at :: "bytes \<Rightarrow> nat \<Rightarrow> bsa_error + dx10_chunk" where
  "dx10_chunk_at bs pos =
     (if pos + 24 > length bs then Inl (Corrupt ''DX10 record chunk out of bounds'')
      else if u32_at (pos + 20) bs \<noteq> BAADF00D then Inl (Corrupt ''DX10 record chunk: bad tail'')
      else Inr \<lparr> ck_offset = le_word (slice pos (pos + 8) bs), ck_packed_size = u32_at (pos + 8) bs,
                 ck_size = u32_at (pos + 12) bs, ck_start_mip = u16_at (pos + 16) bs, ck_end_mip = u16_at (pos + 18) bs \<rparr>)"

fun dx10_chunks :: "nat \<Rightarrow> bytes \<Rightarrow> nat \<Rightarrow> bsa_error + dx10_chunk list \<times> nat" where
  "dx10_chunks 0 bs pos = Inr ([], pos)"
| "dx10_chunks (Suc n) bs pos =
     bindr (dx10_chunk_at bs pos) (\<lambda>ck.
     bindr (dx10_chunks n bs (pos + 24)) (\<lambda>(cks, pos1). Inr (ck # cks, pos1)))"

definition dx10_record_at :: "bytes \<Rightarrow> rstring \<Rightarrow> nat \<Rightarrow> bsa_error + (archive_entry \<times> dx10_record) \<times> nat" where
  "dx10_record_at bs name pos =
     (if pos + 24 > length bs then Inl (Corrupt ''DX10 record header out of bounds'')
      else
        let chunk_count = unat (bs ! (pos + 13));
            height = u16_at (pos + 16) bs; width = u16_at (pos + 18) bs;
            num_mips = bs ! (pos + 20); dxgi_format = bs ! (pos + 21);
            cube_maps = u16_at (pos + 22) bs in
        bindr (dx10_chunks chunk_count bs (pos + 24)) (\<lambda>(chunks, pos1).
          let uncompressed_size = sum_list (map ck_size chunks) +
                of_nat (length (build_dds_header width height num_mips dxgi_format cube_maps))
          in Inr ((\<lparr> ae_path = normalise_path name, ae_uncompressed_size = uncompressed_size, ae_compressed_size = None \<rparr>,
                   \<lparr> dr_width = width, dr_height = height, dr_num_mips = num_mips, dr_dxgi_format = dxgi_format,
                     dr_cube_maps = cube_maps, dr_chunks = chunks \<rparr>), pos1)))"

fun dx10_records :: "bytes \<Rightarrow> rstring list \<Rightarrow> nat \<Rightarrow> bsa_error + (archive_entry \<times> dx10_record) list" where
  "dx10_records bs [] pos = Inr []"
| "dx10_records bs (name # names) pos =
     bindr (dx10_record_at bs name pos) (\<lambda>(r, pos1).
     bindr (dx10_records bs names pos1) (\<lambda>rs. Inr (r # rs)))"

definition dx10_parse :: "bytes \<Rightarrow> u32 \<Rightarrow> u64 \<Rightarrow> bsa_error + dx10_archive" where
  "dx10_parse source n table_offset =
     bindr (ba2_name_table ''DX10 name table entry '' source (unat n) (unat table_offset)) (\<lambda>names.
     bindr (dx10_records source names 24) (\<lambda>files.
       Inr \<lparr> x_source = source, x_entries = map fst files, x_records = map snd files,
             x_index = path_index (map (\<lambda>f. ae_path (fst f)) files) \<rparr>))"

definition dx10_extract_by_index :: "(bytes \<Rightarrow> string + bytes) \<Rightarrow> dx10_archive \<Rightarrow> nat \<Rightarrow> bsa_error + bytes" where
  "dx10_extract_by_index inflate a idx =
     (let rec = x_records a ! idx;
          header = build_dds_header (dr_width rec) (dr_height rec) (dr_num_mips rec) (dr_dxgi_format rec) (dr_cube_maps rec)
      in bindr (collect_files (\<lambda>ck. ba2_blob inflate ''DX10 chunk data out of bounds''
                   (ck_offset ck) (ck_packed_size ck) (ck_size ck) (x_source a)) (dr_chunks rec)) (\<lambda>blobs.
           Inr (header @ concat blobs)))"

definition dx10_find :: "dx10_archive \<Rightarrow> rstring \<Rightarrow> nat option" where
  "dx10_find a path = x_index a (normalise_path path)"

definition dx10_extract :: "(bytes \<Rightarrow> string + bytes) \<Rightarrow> dx10_archive \<Rightarrow> rstring \<Rightarrow> (bsa_error + bytes) option" where
  "dx10_extract inflate a path = map_option (dx10_extract_by_index inflate a) (dx10_find a path)"

subsection \<open>Writer\<close>

record dx10_entry =
  dxe_path :: rstring
  dxe_info :: dds_info

record dx10_writer =
  dw_version :: ba2_version
  dw_compress :: bool
  dw_entries :: "dx10_entry list"

definition dx10_writer_new :: "ba2_version \<Rightarrow> dx10_writer" where
  "dx10_writer_new version = \<lparr> dw_version = version, dw_compress = False, dw_entries = [] \<rparr>"

definition dx10_set_compress :: "bool \<Rightarrow> dx10_writer \<Rightarrow> dx10_writer" where
  "dx10_set_compress b w = w\<lparr> dw_compress := b \<rparr>"

definition dx10_add :: "rstring \<Rightarrow> bytes \<Rightarrow> dx10_writer \<Rightarrow> bsa_error + dx10_writer" where
  "dx10_add path dds_data w =
     bindr (dds_parse dds_data) (\<lambda>info.
       Inr (w\<lparr> dw_entries := dw_entries w @ [\<lparr> dxe_path = normalise_path path, dxe_info = info \<rparr>] \<rparr>))"

record dx10_file =
  df_path :: rstring
  df_info :: dds_info
  df_stored :: bytes
  df_uncompressed :: u32
  df_packed_size :: u32

definition dx10_file_entry :: "(bytes \<Rightarrow> string + bytes) \<Rightarrow> bool \<Rightarrow> dx10_entry \<Rightarrow> bsa_error + dx10_file" where
  "dx10_file_entry deflate compress e =
     (let mip_bytes = di_mip_data (dxe_info e)
      in bindr (ba2_store deflate compress mip_bytes) (\<lambda>(stored, packed_size).
           Inr \<lparr> df_path = dxe_path e, df_info = dxe_info e, df_stored = stored,
                 df_uncompressed = of_nat (length mip_bytes), df_packed_size = packed_size \<rparr>))"

definition dx10_record_bytes :: "dx10_file \<times> nat \<Rightarrow> bytes" where
  "dx10_record_bytes = (\<lambda>(f, offset).
     let info = df_info f in
     ba2_hashes (df_path f) @ [0, 1] @ le_bytes 2 (24 :: u16) @
     le_bytes 2 (di_height info) @ le_bytes 2 (di_width info) @ [di_num_mips info, di_dxgi_format info] @
     le_bytes 2 (di_cube_maps info) @
     le_bytes 8 (of_nat offset :: u64) @ le_bytes 4 (df_packed_size f) @ le_bytes 4 (df_uncompressed f) @
     le_bytes 2 (0 :: u16) @
     le_bytes 2 (ucast (if di_num_mips info = 0 then 0 else di_num_mips info - 1) :: u16) @ le_bytes 4 BAADF00D)"

definition dx10_write ::
    "(bytes \<Rightarrow> string + bytes) \<Rightarrow> ba2_version \<Rightarrow> bool \<Rightarrow> dx10_entry list \<Rightarrow> bsa_error + bytes" where
  "dx10_write deflate version compress entries =
     (if entries = [] then Inl EmptyArchive
      else
        let file_count = (of_nat (length entries) :: u32) in
        bindr (collect_files (dx10_file_entry deflate compress) entries) (\<lambda>files.
          let records_end = 24 + unat file_count * 48;
              blobs = map (\<lambda>f. length (df_stored f)) files;
              chunk_offsets = positions records_end blobs;
              table_offset = (of_nat (records_end + sum_list blobs) :: u64)
          in Inr (ba2_header version SUB_DX10 file_count table_offset @
                  concat (map dx10_record_bytes (zip files chunk_offsets)) @
                  concat (map df_stored files) @
                  concat (map (\<lambda>f. ba2_name (df_path f)) files))))"

definition dx10_write_to :: "(bytes \<Rightarrow> string + bytes) \<Rightarrow> dx10_writer \<Rightarrow> bsa_error + bytes" where
  "dx10_write_to deflate w = dx10_write deflate (dw_version w) (dw_compress w) (dw_entries w)"

text \<open>A sequence of \<open>add\<close> calls, stopping at the first texture that does not parse.\<close>

fun dx10_add_all :: "(rstring \<times> bytes) list \<Rightarrow> dx10_writer \<Rightarrow> bsa_error + dx10_writer" where
  "dx10_add_all [] w = Inr w"
| "dx10_add_all ((p, d) # files) w = bindr (dx10_add p d w) (dx10_add_all files)"

definition dx10_pack ::
    "(bytes \<Rightarrow> string + bytes) \<Rightarrow> ba2_version \<Rightarrow> bool \<Rightarrow> (rstring \<times> bytes) list \<Rightarrow> bsa_error + bytes" where
  "dx10_pack deflate version compress files =
     bindr (dx10_add_all files (dx10_set_compress compress (dx10_writer_new version))) (dx10_write_to deflate)"

subsection \<open>The round trip\<close>

text \<open>The DDS file an archive gives back for one that was added.\<close>

definition dds_rebuild :: "bytes \<Rightarrow> bytes" where
  "dds_rebuild dds = (case dds_parse dds of Inr i \<Rightarrow> dds_of_info i | Inl _ \<Rightarrow> [])"

definition rebuilt_files :: "(rstring \<times> bytes) list \<Rightarrow> (rstring \<times> bytes) list" where
  "rebuilt_files files = map (\<lambda>(p, d). (p, dds_rebuild d)) files"

lemma dx10_add_all_Inr:
  assumes "dx10_add_all files w = Inr w'"
  shows "\<exists>es. w' = w\<lparr> dw_entries := dw_entries w @ es \<rparr> \<and>
    list_all2 (\<lambda>(p, d) e. dxe_path e = normalise_path p \<and> dds_parse d = Inr (dxe_info e)) files es"
  using assms
proof (induction files arbitrary: w)
  case (Cons f files)
  obtain p d where f: "f = (p, d)" by (cases f)
  obtain i where i: "dds_parse d = Inr i"
    "dx10_add_all files (w\<lparr> dw_entries := dw_entries w @ [\<lparr> dxe_path = normalise_path p, dxe_info = i \<rparr>] \<rparr>) = Inr w'"
    using Cons.prems by (auto simp: f dx10_add_def bindr_eq_Inr)
  from Cons.IH [OF i(2)] obtain es where
    "w' = w\<lparr> dw_entries := (dw_entries w @ [\<lparr> dxe_path = normalise_path p, dxe_info = i \<rparr>]) @ es \<rparr>"
    "list_all2 (\<lambda>(p, d) e. dxe_path e = normalise_path p \<and> dds_parse d = Inr (dxe_info e)) files es" by auto
  then show ?case using f i(1)
    by (intro exI [of _ "\<lparr> dxe_path = normalise_path p, dxe_info = i \<rparr> # es"]) simp
qed simp

lemma length_dx10_record [simp]: "length (dx10_record_bytes r) = 48"
  by (cases r) (simp add: dx10_record_bytes_def Let_def)

lemma slice_Cons: "0 < i \<Longrightarrow> slice i j (x # xs) = slice (i - 1) (j - 1) xs"
  by (cases i; cases j) (simp_all add: slice_def)

lemma dx10_record_fields:
  fixes f :: dx10_file and off :: nat and post :: bytes
  defines "bs \<equiv> dx10_record_bytes (f, off) @ post"
  shows "bs ! 13 = 1" "slice 16 18 bs = le_bytes 2 (di_height (df_info f))" "slice 18 20 bs = le_bytes 2 (di_width (df_info f))"
    "bs ! 20 = di_num_mips (df_info f)" "bs ! 21 = di_dxgi_format (df_info f)" "slice 22 24 bs = le_bytes 2 (di_cube_maps (df_info f))"
    "slice 24 32 bs = le_bytes 8 (of_nat off :: u64)" "slice 32 36 bs = le_bytes 4 (df_packed_size f)"
    "slice 36 40 bs = le_bytes 4 (df_uncompressed f)" "slice 44 48 bs = le_bytes 4 BAADF00D"
  by (simp_all add: bs_def dx10_record_bytes_def Let_def slice_skip slice_here slice_Cons nth_append)

lemma dx10_record_written:
  assumes "bs = pre @ dx10_record_bytes (f, off) @ post" "pos = length pre"
  shows "\<exists>e ck. dx10_record_at bs name pos = Inr ((e, \<lparr> dr_width = di_width (df_info f), dr_height = di_height (df_info f),
      dr_num_mips = di_num_mips (df_info f), dr_dxgi_format = di_dxgi_format (df_info f),
      dr_cube_maps = di_cube_maps (df_info f), dr_chunks = [ck] \<rparr>), pos + 48) \<and> ae_path e = normalise_path name \<and>
    ck_offset ck = of_nat off \<and> ck_packed_size ck = df_packed_size f \<and> ck_size ck = df_uncompressed f"
proof -
  have len: "pos + 48 \<le> length bs" using assms by simp
  have f: "slice (pos + i) (pos + j) bs = slice i j (dx10_record_bytes (f, off) @ post)" for i j
    using assms by (simp add: slice_skip)
  have f': "slice (pos + i) (j + pos) bs = slice i j (dx10_record_bytes (f, off) @ post)" for i j
    using f [of i j] by (simp add: add.commute)
  have n: "bs ! (pos + i) = (dx10_record_bytes (f, off) @ post) ! i" for i
    using assms by (simp add: nth_append)
  note F = dx10_record_fields [of f off post]
  have "dx10_chunk_at bs (pos + 24) = Inr \<lparr> ck_offset = of_nat off, ck_packed_size = df_packed_size f,
      ck_size = df_uncompressed f, ck_start_mip = u16_at (pos + 40) bs, ck_end_mip = u16_at (pos + 42) bs \<rparr>"
    using len by (simp add: dx10_chunk_at_def u32_at_def u16_at_def f F add.assoc)
  moreover have "unat (bs ! (pos + 13)) = Suc 0" by (simp add: n F)
  ultimately show ?thesis using len
    by (simp add: dx10_record_at_def u16_at_def f f' n F Let_def add.assoc)
qed

text \<open>What the reader makes of a written texture: its header fields and the one chunk.\<close>

definition dx10_reads :: "rstring \<Rightarrow> dx10_file \<times> nat \<Rightarrow> archive_entry \<times> dx10_record \<Rightarrow> bool" where
  "dx10_reads name = (\<lambda>(f, off) (e, r). ae_path e = normalise_path name \<and>
     build_dds_header (dr_width r) (dr_height r) (dr_num_mips r) (dr_dxgi_format r) (dr_cube_maps r) @ di_mip_data (df_info f) =
       dds_of_info (df_info f) \<and>
     (\<exists>ck. dr_chunks r = [ck] \<and> ck_offset ck = of_nat off \<and> ck_packed_size ck = df_packed_size f \<and> ck_size ck = df_uncompressed f))"

lemma dx10_records_written:
  assumes "length names = length rs"
  shows "\<exists>xs. dx10_records (pre @ concat (map dx10_record_bytes rs) @ post) names (length pre) = Inr xs \<and> length xs = length rs \<and>
    (\<forall>i < length rs. dx10_reads (names ! i) (rs ! i) (xs ! i))"
  using assms
proof (induction names arbitrary: rs pre)
  case (Cons name names)
  obtain f off rs' where rs: "rs = (f, off) # rs'" "length names = length rs'" using Cons.prems by (cases rs) auto
  let ?bs = "pre @ concat (map dx10_record_bytes rs) @ post" and ?B = "dx10_record_bytes (f, off)"
  have bs: "?bs = pre @ ?B @ concat (map dx10_record_bytes rs') @ post" using rs by simp
  obtain e ck where r: "dx10_record_at ?bs name (length pre) = Inr ((e, \<lparr> dr_width = di_width (df_info f), dr_height = di_height (df_info f),
      dr_num_mips = di_num_mips (df_info f), dr_dxgi_format = di_dxgi_format (df_info f),
      dr_cube_maps = di_cube_maps (df_info f), dr_chunks = [ck] \<rparr>), length pre + 48)" "ae_path e = normalise_path name"
    "ck_offset ck = of_nat off" "ck_packed_size ck = df_packed_size f" "ck_size ck = df_uncompressed f"
    using dx10_record_written [OF bs refl, of name] by blast
  obtain xs where xs: "dx10_records ?bs names (length pre + 48) = Inr xs" "length xs = length rs'"
    "\<forall>i < length rs'. dx10_reads (names ! i) (rs' ! i) (xs ! i)"
    using Cons.IH [OF rs(2), of "pre @ ?B"] unfolding bs by auto
  show ?case using r xs rs
    by (intro exI [of _ "(e, _) # xs"]) (auto simp: nth_Cons' dx10_reads_def dds_of_info_def)
qed simp


definition texture_data :: "(rstring \<times> bytes) list \<Rightarrow> (rstring \<times> bytes) list" where
  "texture_data files = map (\<lambda>(p, d). (p, case dds_parse d of Inr i \<Rightarrow> di_mip_data i | Inl _ \<Rightarrow> [])) files"

definition dx10_writes :: "(bytes \<Rightarrow> string + bytes) \<Rightarrow> bool \<Rightarrow> rstring \<times> bytes \<Rightarrow> dx10_file \<Rightarrow> bool" where
  "dx10_writes deflate compress = (\<lambda>(p, d) f. df_path f = normalise_path p \<and> dds_parse d = Inr (df_info f) \<and>
     df_uncompressed f = of_nat (length (di_mip_data (df_info f))) \<and>
     ba2_store deflate compress (di_mip_data (df_info f)) = Inr (df_stored f, df_packed_size f))"

text \<open>The parts of a written archive.\<close>

lemma dx10_pack_Inr:
  assumes "dx10_pack deflate version compress files = Inr out" "length files < 2 ^ 32"
  shows "\<exists>fes n. list_all2 (dx10_writes deflate compress) files fes \<and> unat n = length files \<and>
    (let e = 24 + length files * 48; blobs = map (\<lambda>f. length (df_stored f)) fes in
     out = ba2_header version SUB_DX10 n (of_nat (e + sum_list blobs)) @
       concat (map dx10_record_bytes (zip fes (positions e blobs))) @
       concat (map df_stored fes) @ concat (map ba2_name (map df_path fes)))"
proof -
  obtain w where w: "dx10_add_all files (dx10_set_compress compress (dx10_writer_new version)) = Inr w" "dx10_write_to deflate w = Inr out"
    using assms(1) by (auto simp: dx10_pack_def bindr_eq_Inr)
  obtain es where es: "w = \<lparr> dw_version = version, dw_compress = compress, dw_entries = es \<rparr>"
    "list_all2 (\<lambda>(p, d) e. dxe_path e = normalise_path p \<and> dds_parse d = Inr (dxe_info e)) files es"
    using dx10_add_all_Inr [OF w(1)] by (auto simp: dx10_set_compress_def dx10_writer_new_def)
  have nes: "length es = length files" using es(2) by (simp add: list_all2_lengthD)
  then have n: "unat (of_nat (length es) :: u32) = length files" using assms(2) by simp
  have written: "dx10_write deflate version compress es = Inr out" using w(2) es(1) by (simp add: dx10_write_to_def)
  then have ne: "(es = []) = False" by (auto simp: dx10_write_def)
  from written obtain fes where fes: "collect_files (dx10_file_entry deflate compress) es = Inr fes"
    and out: "out = (let e = 24 + length files * 48; blobs = map (\<lambda>f. length (df_stored f)) fes in
     ba2_header version SUB_DX10 (of_nat (length es)) (of_nat (e + sum_list blobs)) @
       concat (map dx10_record_bytes (zip fes (positions e blobs))) @
       concat (map df_stored fes) @ concat (map (\<lambda>f. ba2_name (df_path f)) fes))"
    unfolding dx10_write_def Let_def n ne if_False bindr_eq_Inr sum.inject by blast
  have "list_all2 (\<lambda>e f. df_path f = dxe_path e \<and> df_info f = dxe_info e \<and>
     df_uncompressed f = of_nat (length (di_mip_data (dxe_info e))) \<and>
     ba2_store deflate compress (di_mip_data (dxe_info e)) = Inr (df_stored f, df_packed_size f)) es fes"
    using fes unfolding collect_files_map by (rule list_all2_mono) (auto simp: dx10_file_entry_def bindr_eq_Inr Let_def)
  then have "list_all2 (dx10_writes deflate compress) files fes"
    using es(2) by (auto simp: list_all2_conv_all_nth dx10_writes_def case_prod_unfold)
  then show ?thesis using n out
    by (intro exI [of _ fes] exI [of _ "of_nat (length es)"]) (simp only: Let_def map_map comp_def simp_thms)
qed

text \<open>Parsing what was written gives one record per texture, in order.\<close>

lemma dx10_parse_written:
  assumes out: "out = ba2_header version SUB_DX10 n off @ concat (map dx10_record_bytes rs) @ mid @ concat (map ba2_name ps)"
    and len: "length out < 2 ^ 63" "length rs = length ps" "unat n = length ps"
    and off: "unat off = 24 + 48 * length ps + length mid" and ps: "\<forall>p \<in> set ps. ascii_path p \<and> length p < 2 ^ 16"
  shows "\<exists>a xs. dx10_parse out n off = Inr a \<and> x_source a = out \<and> map ae_path (x_entries a) = map normalise_path ps \<and>
    x_index a = path_index (map normalise_path ps) \<and> x_records a = map snd xs \<and> length xs = length rs \<and>
    (\<forall>i < length rs. dx10_reads (ps ! i) (rs ! i) (xs ! i))"
proof -
  let ?R = "concat (map dx10_record_bytes rs)" and ?H = "ba2_header version SUB_DX10 n off"
  have h: "length ?H = 24" by (simp add: length_ba2_header SUB_DX10_def)
  have R: "length ?R = 48 * length ps" using len(2) length_concat_const [of rs dx10_record_bytes 48] by simp
  have names: "ba2_name_table prefix out (length ps) (unat off) = Inr ps" for prefix
  proof -
    have "ba2_name_table prefix ((?H @ ?R @ mid) @ concat (map ba2_name ps) @ []) (length ps) (unat off) = Inr ps"
      using ps len(1) off h R by (intro ba2_names_written) (simp_all add: out ascii_path_utf8)
    then show ?thesis by (simp add: out)
  qed
  obtain xs where xs: "dx10_records out ps 24 = Inr xs" "length xs = length rs" "\<forall>i < length rs. dx10_reads (ps ! i) (rs ! i) (xs ! i)"
    using dx10_records_written [OF len(2) [symmetric], of ?H "mid @ concat (map ba2_name ps)"] out h by auto
  have "map (\<lambda>f. ae_path (fst f)) xs = map normalise_path ps"
    using xs(2,3) len(2) by (intro nth_equalityI) (auto simp: dx10_reads_def case_prod_unfold)
  then show ?thesis using names len(3) xs by (auto simp: dx10_parse_def Let_def comp_def)
qed

lemma dx10_extract_written:
  assumes "dx10_reads name (f, off) (e, x_records a ! i)"
    and "\<And>msg. ba2_blob inflate msg (of_nat off) (df_packed_size f) (df_uncompressed f) (x_source a) = Inr (di_mip_data (df_info f))"
  shows "dx10_extract_by_index inflate a i = Inr (dds_of_info (df_info f))"
  using assms by (auto simp: dx10_extract_by_index_def dx10_reads_def Let_def)

lemma dx10_pack_parse:
  assumes pack: "dx10_pack deflate version compress files = Inr out"
    and fits: "ba2_fits deflate inflate (texture_data files) out" and ascii: "\<forall>(p, d) \<in> set files. ascii_path p"
  shows "\<exists>a n off. (\<exists>rest. out = ba2_header version SUB_DX10 n off @ rest) \<and> dx10_parse out n off = Inr a \<and>
    map ae_path (x_entries a) = map (\<lambda>(p, d). normalise_path p) files \<and>
    (\<forall>q. dx10_extract inflate a q = map_option Inr (file_map (rebuilt_files files) q))"
proof -
  let ?es = "added (rebuilt_files files)" and ?e = "24 + length files * 48" and ?td = "added (texture_data files)"
  have lens: "length files < 2 ^ 32" "length out < 2 ^ 63" using fits by (simp_all add: ba2_fits_def texture_data_def)
  have asc: "\<forall>(p, d) \<in> set (rebuilt_files files). ascii_path p" using ascii by (auto simp: rebuilt_files_def)
  obtain fes n where L: "list_all2 (dx10_writes deflate compress) files fes" and n: "unat n = length files"
    and parts: "let blobs = map (\<lambda>f. length (df_stored f)) fes in
      out = ba2_header version SUB_DX10 n (of_nat (?e + sum_list blobs)) @ concat (map dx10_record_bytes (zip fes (positions ?e blobs))) @
       concat (map df_stored fes) @ concat (map ba2_name (map df_path fes))"
    using dx10_pack_Inr [OF pack lens(1)] by (auto simp: Let_def)
  let ?blobs = "map (\<lambda>f. length (df_stored f)) fes" and ?mid = "concat (map df_stored fes)"
  let ?off = "of_nat (?e + sum_list ?blobs) :: u64" and ?rs = "zip fes (positions ?e ?blobs)"
  have out: "out = ba2_header version SUB_DX10 n ?off @ concat (map dx10_record_bytes ?rs) @ ?mid @ concat (map ba2_name (map df_path fes))"
    using parts by (simp add: Let_def)
  have nf: "length fes = length files" using L by (simp add: list_all2_lengthD)
  have entry: "df_path (fes ! i) = be_path (?es ! i)" "be_data (?es ! i) = dds_of_info (df_info (fes ! i))"
    "be_data (?td ! i) = di_mip_data (df_info (fes ! i))" "df_uncompressed (fes ! i) = of_nat (length (di_mip_data (df_info (fes ! i))))"
    "ba2_store deflate compress (di_mip_data (df_info (fes ! i))) = Inr (df_stored (fes ! i), df_packed_size (fes ! i))"
    if "i < length files" for i
    using list_all2_nthD [OF L that] that
    by (auto simp: dx10_writes_def case_prod_unfold added_def rebuilt_files_def texture_data_def builder_entry_new_def dds_rebuild_def)
  have paths: "map df_path fes = map be_path ?es" using nf entry(1) by (auto intro!: nth_equalityI simp: rebuilt_files_def)
  let ?pre = "ba2_header version SUB_DX10 n ?off @ concat (map dx10_record_bytes ?rs)"
  have pre: "length ?pre = ?e"
    using nf length_concat_const [of ?rs dx10_record_bytes 48] by (simp add: length_ba2_header SUB_DX10_def)
  have mid: "length ?mid = sum_list ?blobs" by (simp add: length_concat comp_def)
  have "?e + sum_list ?blobs \<le> length out" using arg_cong [OF out, of length] pre mid by simp
  then have "unat ?off = ?e + sum_list ?blobs" using lens(2) by (simp only: unat_of_nat take_bit_eq_mod) simp
  then have off: "unat ?off = 24 + 48 * length files + sum_list ?blobs" by simp
  have ps: "\<forall>p \<in> set (map df_path fes). ascii_path p \<and> length p < 2 ^ 16"
    using added_paths(1) [OF asc] fits unfolding paths ba2_fits_def
    by (fastforce simp: added_def builder_entry_new_def rebuilt_files_def texture_data_def)
  obtain a xs where a: "dx10_parse out n ?off = Inr a" "x_source a = out"
      "map ae_path (x_entries a) = map normalise_path (map df_path fes)" "x_index a = path_index (map normalise_path (map df_path fes))"
      "x_records a = map snd xs" "length xs = length ?rs" "\<forall>i < length ?rs. dx10_reads (map df_path fes ! i) (?rs ! i) (xs ! i)"
    using dx10_parse_written [OF out lens(2) _ _ _ ps, unfolded length_map length_zip length_positions min.idem nf mid,
      OF refl n off] unfolding length_map length_zip length_positions min.idem nf by blast
  have names: "map normalise_path (map df_path fes) = map (\<lambda>e. normalise_path (be_path e)) ?es"
    unfolding paths by simp
  have extr: "dx10_extract_by_index inflate a i = Inr (be_data (?es ! i))" if i: "i < length (rebuilt_files files)" for i
  proof -
    have i': "i < length files" "i < length (texture_data files)" "i < length (map df_stored fes)"
      using i nf by (simp_all add: rebuilt_files_def texture_data_def)
    let ?f = "fes ! i" and ?o = "length ?pre + total_length (take i (map df_stored fes))"
    have src: "x_source a = ?pre @ concat (map df_stored fes) @ concat (map ba2_name (map df_path fes))" using a(2) out by simp
    have store: "ba2_store deflate compress (di_mip_data (df_info ?f)) = Inr (map df_stored fes ! i, df_packed_size ?f)"
      using entry(5) [OF i'(1)] i' by simp
    have blob: "ba2_blob inflate msg (of_nat ?o) (df_packed_size ?f) (df_uncompressed ?f) (x_source a) = Inr (di_mip_data (df_info ?f))" for msg
      unfolding entry(4) [OF i'(1)]
      using ba2_blob_at [OF src i'(3) store] ba2_fitsD [OF fits i'(2)] lens(2) a(2) unfolding entry(3) [OF i'(1)] by blast
    have rs: "?rs ! i = (?f, ?o)" unfolding pre using i' nf by (simp add: positions_nth take_map comp_def)
    have "i < length ?rs" "i < length xs" using i' nf a(6) by simp_all
    then have "dx10_reads (map df_path fes ! i) (?f, ?o) (fst (xs ! i), x_records a ! i)"
      using a(7) unfolding rs [symmetric] a(5) by (simp only: nth_map prod.collapse)
    from dx10_extract_written [OF this blob] show ?thesis unfolding entry(2) [OF i'(1)] .
  qed
  have "dx10_extract inflate a q = map_option Inr (file_map (rebuilt_files files) q)" for q
    unfolding dx10_extract_def dx10_find_def a(4) names by (rule added_order [OF asc extr])
  moreover have "map ae_path (x_entries a) = map (\<lambda>(p, d). normalise_path p) files"
    using a(3) names added_names [OF asc] by (simp add: rebuilt_files_def comp_def case_prod_unfold)
  ultimately show ?thesis using a(1) out by blast
qed

end
