(* ===== verification/Archives.thy ===== *)
theory Archives
  imports BsaArchive Ba2Gnrl Ba2Dx10
begin

text \<open>
  Opening any archive: the dispatch of \<open>ba2/mod.rs\<close> over the two BA2 formats and of \<open>lib.rs\<close> over
  all of them, and the round trip of every writer through it. The codec \<open>inflate False\<close> is zlib and
  \<open>inflate True\<close> the LZ4 frame format.
\<close>

subsection \<open>The BA2 dispatch\<close>

datatype ba2_archive = InnerGnrl gnrl_archive | InnerDx10 dx10_archive

definition ba2_from_mmap :: "bytes \<Rightarrow> bsa_error + ba2_archive" where
  "ba2_from_mmap bs =
     (if length bs < 24 then Inl (Corrupt ''file too small to be a BA2'')
      else
        let magic = slice 0 4 bs; raw_version = (le_word (slice 4 8 bs) :: u32); sub_type = slice 8 12 bs;
            file_count = (le_word (slice 12 16 bs) :: u32); table_offset = (le_word (slice 16 24 bs) :: u64) in
        if magic \<noteq> BTDX then Inl (InvalidMagic magic)
        else if raw_version \<notin> {1, 7, 8} then Inl (UnsupportedVersion raw_version)
        else if sub_type = SUB_GNRL then bindr (gnrl_parse bs file_count table_offset) (\<lambda>a. Inr (InnerGnrl a))
        else if sub_type = SUB_DX10 then bindr (dx10_parse bs file_count table_offset) (\<lambda>a. Inr (InnerDx10 a))
        else Inl (UnsupportedSubType sub_type))"

fun ba2_entries :: "ba2_archive \<Rightarrow> archive_entry list" where
  "ba2_entries (InnerGnrl a) = g_entries a"
| "ba2_entries (InnerDx10 a) = x_entries a"

fun ba2_extract :: "(bytes \<Rightarrow> string + bytes) \<Rightarrow> ba2_archive \<Rightarrow> rstring \<Rightarrow> (bsa_error + bytes) option" where
  "ba2_extract inflate (InnerGnrl a) path = gnrl_extract inflate a path"
| "ba2_extract inflate (InnerDx10 a) path = dx10_extract inflate a path"

fun ba2_format_name :: "ba2_archive \<Rightarrow> string" where
  "ba2_format_name (InnerGnrl _) = ''BA2 GNRL''"
| "ba2_format_name (InnerDx10 _) = ''BA2 DX10''"

subsection \<open>Opening any archive\<close>

datatype archive = ArcBsa bsa_archive | ArcBa2 ba2_archive

definition open_archive :: "bytes \<Rightarrow> bsa_error + archive" where
  "open_archive bs =
     (if length bs < 4 then Inl (Corrupt ''file too small to detect archive format'')
      else
        let magic = take 4 bs in
        if magic = TES3_MAGIC \<or> magic = TES4_MAGIC then bindr (bsa_from_mmap bs) (\<lambda>a. Inr (ArcBsa a))
        else if magic = BTDX then bindr (ba2_from_mmap bs) (\<lambda>a. Inr (ArcBa2 a))
        else Inl (InvalidMagic magic))"

fun archive_entries :: "archive \<Rightarrow> archive_entry list" where
  "archive_entries (ArcBsa a) = bsa_entries a"
| "archive_entries (ArcBa2 a) = ba2_entries a"

fun archive_extract :: "(bool \<Rightarrow> bytes \<Rightarrow> string + bytes) \<Rightarrow> archive \<Rightarrow> rstring \<Rightarrow> (bsa_error + bytes) option" where
  "archive_extract inflate (ArcBsa a) path = bsa_extract inflate a path"
| "archive_extract inflate (ArcBa2 a) path = ba2_extract (inflate False) a path"

fun archive_format_name :: "archive \<Rightarrow> string" where
  "archive_format_name (ArcBsa a) = bsa_format_name a"
| "archive_format_name (ArcBa2 a) = ba2_format_name a"

definition file_count :: "archive \<Rightarrow> nat" where
  "file_count a = length (archive_entries a)"

abbreviation archive_paths :: "archive \<Rightarrow> rstring list" where
  "archive_paths a \<equiv> map ae_path (archive_entries a)"

lemma open_bsa: "bsa_from_mmap bs = Inr a \<Longrightarrow> open_archive bs = Inr (ArcBsa a)"
  using magic_facts by (auto simp: bsa_from_mmap_def open_archive_def Let_def bindr_eq_Inr split: if_splits)

lemma ba2_header_fields:
  assumes "bs = ba2_header version sub n off @ rest" "length sub = 4"
  shows "24 \<le> length bs" "slice 0 4 bs = BTDX" "le_word (slice 4 8 bs) = ba2_as_u32 version" "slice 8 12 bs = sub"
    "le_word (slice 12 16 bs) = n" "le_word (slice 16 24 bs) = off"
  using assms by (simp_all add: ba2_header_def BTDX_def slice_skip slice_here)

lemma btdx_facts: "BTDX \<noteq> TES3_MAGIC" "BTDX \<noteq> TES4_MAGIC" "SUB_DX10 \<noteq> SUB_GNRL" "length SUB_GNRL = 4" "length SUB_DX10 = 4"
  by (simp_all add: BTDX_def TES3_MAGIC_def TES4_MAGIC_def SUB_DX10_def SUB_GNRL_def ascii_def)

lemma ba2_version_code: "ba2_as_u32 version \<in> {1, 7, 8}"
  by (cases version) simp_all

lemma ba2_from_header:
  assumes "bs = ba2_header version sub n off @ rest" "length sub = 4"
  shows "ba2_from_mmap bs =
    (if sub = SUB_GNRL then bindr (gnrl_parse bs n off) (\<lambda>a. Inr (InnerGnrl a))
     else if sub = SUB_DX10 then bindr (dx10_parse bs n off) (\<lambda>a. Inr (InnerDx10 a))
     else Inl (UnsupportedSubType sub))"
proof -
  note F = ba2_header_fields [OF assms]
  have len: "(length bs < 24) = False" and v: "(ba2_as_u32 version \<notin> {1, 7, 8}) = False"
    using F(1) ba2_version_code by auto
  show ?thesis by (simp only: ba2_from_mmap_def Let_def F(2-6) len v if_False simp_thms)
qed

lemma open_ba2:
  assumes "bs = ba2_header version sub n off @ rest" "length sub = 4" "ba2_from_mmap bs = Inr a"
  shows "open_archive bs = Inr (ArcBa2 a)"
proof -
  have "take 4 bs = BTDX" "\<not> length bs < 4" using ba2_header_fields(1,2) [OF assms(1,2)] by (simp_all add: slice_def)
  then show ?thesis using btdx_facts assms(3) by (simp add: open_archive_def)
qed

subsection \<open>Round trips\<close>

lemma bsa_open_packed:
  assumes "bsa_write_to deflate (bsa_build version compress embed_names files) = Inr out"
    and "bsa_fits deflate version compress embed_names files out" "\<forall>(p, d) \<in> set files. ascii_path p"
    and "\<And>b d z. deflate b d = Inr z \<Longrightarrow> inflate b z = Inr d"
  shows "\<exists>a. open_archive out = Inr a \<and> mset (archive_paths a) = mset (map (\<lambda>(p, d). normalise_path p) files) \<and>
    (\<forall>q. ascii_path q \<longrightarrow> archive_extract inflate a q = map_option Inr (file_map files q))"
proof -
  obtain a where "bsa_from_mmap out = Inr a" "mset (map ae_path (bsa_entries a)) = mset (map (\<lambda>(p, d). normalise_path p) files)"
    "\<forall>q. ascii_path q \<longrightarrow> bsa_extract inflate a q = map_option Inr (file_map files q)"
    using bsa_pack_parse [OF assms(1-3), of inflate] assms(4) by blast
  then show ?thesis using open_bsa by (intro exI [of _ "ArcBsa a"]) simp
qed

lemma gnrl_open_packed:
  assumes "gnrl_write_to (deflate False) (gnrl_build version compress files) = Inr out"
    and "ba2_fits (deflate False) (inflate False) files out" "\<forall>(p, d) \<in> set files. ascii_path p"
  shows "\<exists>a. open_archive out = Inr a \<and> archive_paths a = map (\<lambda>(p, d). normalise_path p) files \<and>
    (\<forall>q. archive_extract inflate a q = map_option Inr (file_map files q))"
proof -
  obtain a n off rest where a: "out = ba2_header version SUB_GNRL n off @ rest" "gnrl_parse out n off = Inr a"
    "map ae_path (g_entries a) = map (\<lambda>(p, d). normalise_path p) files"
    "\<forall>q. gnrl_extract (inflate False) a q = map_option Inr (file_map files q)"
    using gnrl_pack_parse [OF assms] by blast
  have "ba2_from_mmap out = Inr (InnerGnrl a)" using ba2_from_header [OF a(1)] a(2) btdx_facts by simp
  then show ?thesis using open_ba2 [OF a(1) btdx_facts(4)] a(3,4) by (intro exI [of _ "ArcBa2 (InnerGnrl a)"]) simp
qed

lemma dx10_open_packed:
  assumes "dx10_pack (deflate False) version compress files = Inr out"
    and "ba2_fits (deflate False) (inflate False) (texture_data files) out" "\<forall>(p, d) \<in> set files. ascii_path p"
  shows "\<exists>a. open_archive out = Inr a \<and> archive_paths a = map (\<lambda>(p, d). normalise_path p) files \<and>
    (\<forall>q. archive_extract inflate a q = map_option (\<lambda>d. Inr (dds_rebuild d)) (file_map files q))"
proof -
  obtain a n off rest where a: "out = ba2_header version SUB_DX10 n off @ rest" "dx10_parse out n off = Inr a"
    "map ae_path (x_entries a) = map (\<lambda>(p, d). normalise_path p) files"
    "\<forall>q. dx10_extract (inflate False) a q = map_option Inr (file_map (rebuilt_files files) q)"
    using dx10_pack_parse [OF assms] by blast
  have "file_map (rebuilt_files files) q = map_option dds_rebuild (file_map files q)" for q
    using file_map_restored [of dds_rebuild files q] by (simp add: restored_files_def rebuilt_files_def)
  moreover have "ba2_from_mmap out = Inr (InnerDx10 a)" using ba2_from_header [OF a(1)] a(2) btdx_facts by simp
  ultimately show ?thesis using open_ba2 [OF a(1) btdx_facts(5)] a(3,4)
    by (intro exI [of _ "ArcBa2 (InnerDx10 a)"]) (simp add: option.map_comp comp_def)
qed

interpretation bsa: archive_codec "\<lambda>files. bsa_write_to deflate (bsa_build version compress embed_names files)"
    open_archive "archive_extract inflate" archive_paths "\<lambda>d. d"
    "\<lambda>files out. bsa_fits deflate version compress embed_names files out \<and> (\<forall>b d z. deflate b d = Inr z \<longrightarrow> inflate b z = Inr d)"
  for deflate version compress embed_names inflate
  by unfold_locales (simp add: bsa_write_pack tes3_pack_def tes3_write_def tes4_pack_def tes4_write_def,
    blast intro!: bsa_open_packed)

interpretation gnrl: archive_codec "\<lambda>files. gnrl_write_to (deflate False) (gnrl_build version compress files)"
    open_archive "archive_extract inflate" archive_paths "\<lambda>d. d" "ba2_fits (deflate False) (inflate False)"
  for deflate version compress inflate
  by unfold_locales (simp add: gnrl_build_write gnrl_write_def,
    metis gnrl_open_packed)

interpretation dx10: archive_codec "dx10_pack (deflate False) version compress"
    open_archive "archive_extract inflate" archive_paths dds_rebuild
    "\<lambda>files. ba2_fits (deflate False) (inflate False) (texture_data files)"
  for deflate version compress inflate
  by unfold_locales (simp add: dx10_pack_def dx10_write_to_def dx10_write_def dx10_set_compress_def dx10_writer_new_def,
    metis dx10_open_packed)

text \<open>
  C36: A BSA of any of the four versions, with or without compression and embedded names,
  opens again: the archive lists exactly the added paths, normalised, and extracting a path, in any case
  and with either slash, gives the content last added under it and nothing for other paths. The paths
  are ASCII, the archive is smaller than 4 GiB and the codec decodes what it encoded. For the three
  later versions \<open>tes4_fits\<close> asks more, and the writer checks none of it: no two folders with one hash (the
  writer merges them under the name of the first), no path whose only slash is at the front (it comes back
  without), folder names below 255 bytes (their length byte wraps), no stored file of 1 GiB or more (its size
  runs into the compression bit), and no empty file unless it is compressed or has an embedded name (the
  reader refuses one that is stored last).
\<close>

theorem bsa_roundtrip:
  assumes "bsa_write_to deflate (bsa_build version compress embed_names files) = Inr out"
    and "bsa_fits deflate version compress embed_names files out" "\<forall>(p, d) \<in> set files. ascii_path p"
    and "\<And>b d z. deflate b d = Inr z \<Longrightarrow> inflate b z = Inr d"
  shows "\<exists>a. open_archive out = Inr a \<and> mset (archive_paths a) = mset (map (\<lambda>(p, d). normalise_path p) files) \<and>
    (\<forall>q. ascii_path q \<longrightarrow> archive_extract inflate a q = map_option Inr (file_map files q))"
  by (rule bsa_open_packed [OF assms])

lemma sample_codec:
  "sample_deflate b d = Inr z \<Longrightarrow> sample_inflate b z = Inr d \<and> z \<noteq> [] \<and> length z = length d + 1"
  by (auto simp: sample_deflate_def sample_inflate_def)

lemma sample_lookup:
  "file_map sample_bsa_files (ascii ''MESHES/a.nif'') = Some [4, 5]" "file_map sample_bsa_files (ascii ''b.txt'') = None"
  by (code_simp, code_simp)

lemma sample_queries: "ascii_path (ascii ''MESHES/a.nif'')" "ascii_path (ascii ''b.txt'')"
  by (simp_all add: ascii_path_def ascii_def)

theorem bsa_roundtrip_witness:
  "\<exists>out a. bsa_write_to sample_deflate (bsa_build VSse True True sample_bsa_files) = Inr out \<and> open_archive out = Inr a \<and>
     archive_extract sample_inflate a (ascii ''MESHES/a.nif'') = Some (Inr [4, 5]) \<and>
     archive_extract sample_inflate a (ascii ''b.txt'') = None"
proof -
  obtain out where out: "bsa_write_to sample_deflate (bsa_build VSse True True sample_bsa_files) = Inr out" "length out < 2 ^ 32"
    using sample_bsa_out by auto
  show ?thesis
    using bsa_roundtrip [OF out(1) sample_bsa_fits(1) [OF out(2)] sample_bsa_fits(2) conjunct1 [OF sample_codec]]
      sample_lookup sample_queries out(1) by force
qed

text \<open>
  C37: A general BA2 archive of any version, compressed or not, opens again: it lists the
  added paths in order, and extracting a path gives the content last added under it and nothing for
  other paths. The paths are ASCII and below 64 KiB, each file and its compressed form below 4 GiB, there
  are fewer than \<open>2 ^ 32\<close> files, and the codec gives back each file from a nonempty encoding.
\<close>

theorem gnrl_roundtrip:
  assumes "gnrl_write_to (deflate False) (gnrl_build version compress files) = Inr out"
    and "ba2_fits (deflate False) (inflate False) files out" "\<forall>(p, d) \<in> set files. ascii_path p"
  shows "\<exists>a. open_archive out = Inr a \<and> archive_paths a = map (\<lambda>(p, d). normalise_path p) files \<and>
    (\<forall>q. archive_extract inflate a q = map_option Inr (file_map files q))"
  using gnrl_open_packed [of deflate version compress files out inflate] assms by blast

lemma sample_gnrl_out:
  "\<exists>out. gnrl_write_to (sample_deflate False) (gnrl_build V8 True sample_bsa_files) = Inr out \<and> length out = 131"
  by (simp add: gnrl_build_write gnrl_write_def sample_paths gnrl_file_entry_def ba2_store_def ba2_compress_def sample_deflate_def
      length_ba2_header SUB_GNRL_def ba2_name_def)

lemma sample_gnrl_fits: "length out = 131 \<Longrightarrow> ba2_fits (sample_deflate False) (sample_inflate False) sample_bsa_files out"
  by (auto simp: ba2_fits_def sample_bsa_files_def normalise_path_def path_char_def latin1_utf8_def to_ascii_lowercase_def
      ascii_def sample_codec dest: sample_codec)

theorem gnrl_roundtrip_witness:
  "\<exists>out a. gnrl_write_to (sample_deflate False) (gnrl_build V8 True sample_bsa_files) = Inr out \<and> open_archive out = Inr a \<and>
     archive_extract sample_inflate a (ascii ''MESHES/a.nif'') = Some (Inr [4, 5]) \<and>
     archive_extract sample_inflate a (ascii ''b.txt'') = None"
proof -
  obtain out where out: "gnrl_write_to (sample_deflate False) (gnrl_build V8 True sample_bsa_files) = Inr out" "length out = 131"
    using sample_gnrl_out by blast
  show ?thesis
    using gnrl_roundtrip [of sample_deflate V8 True sample_bsa_files out sample_inflate, OF out(1) sample_gnrl_fits [OF out(2)] sample_bsa_fits(2)]
      sample_lookup out(1) by force
qed

text \<open>
  C38: A texture BA2 archive opens again and lists the added paths in order; extracting a
  path gives the DDS file last added under it with its header rebuilt from the kept fields. The
  conditions are those of a general archive, for the pixel data of the textures.
\<close>

theorem dx10_roundtrip:
  assumes "dx10_pack (deflate False) version compress files = Inr out"
    and "ba2_fits (deflate False) (inflate False) (texture_data files) out" "\<forall>(p, d) \<in> set files. ascii_path p"
  shows "\<exists>a. open_archive out = Inr a \<and> archive_paths a = map (\<lambda>(p, d). normalise_path p) files \<and>
    (\<forall>q. archive_extract inflate a q = map_option (\<lambda>d. Inr (dds_rebuild d)) (file_map files q))"
  using dx10_open_packed [of deflate version compress files out inflate] assms by blast

definition sample_textures :: "(rstring \<times> bytes) list" where
  "sample_textures = [(ascii ''Textures/a.dds'', dds_of_info sample_texture)]"

lemma sample_textures_facts:
  "\<forall>(p, d) \<in> set sample_textures. ascii_path p"
  "texture_data sample_textures = [(ascii ''Textures/a.dds'', replicate 16 7)]"
  "dds_rebuild (dds_of_info sample_texture) = dds_of_info sample_texture"
  "normalise_path (ascii ''Textures/a.dds'') = ascii ''textures/a.dds''" "length (ascii ''textures/a.dds'') = 14"
  "file_map sample_textures (ascii ''TEXTURES/A.DDS'') = Some (dds_of_info sample_texture)"
  using dds_parse_built [OF sample_texture_ok]
  by (simp_all add: sample_textures_def texture_data_def dds_rebuild_def sample_texture_def file_map_def ascii_path_def
      normalise_path_def path_char_def latin1_utf8_def to_ascii_lowercase_def ascii_def)

lemma sample_dx10_out:
  "\<exists>out. dx10_pack (sample_deflate False) V1 True sample_textures = Inr out \<and> length out = 105"
proof -
  have "di_mip_data sample_texture = replicate 16 7" "length (ascii ''textures/a.dds'') = 14"
    by (simp_all add: sample_texture_def ascii_def)
  then show ?thesis using dds_parse_built [OF sample_texture_ok]
  by (simp add: sample_textures_def Let_def dx10_pack_def dx10_set_compress_def dx10_writer_new_def dx10_write_to_def dx10_add_def
      sample_textures_facts(4) dx10_write_def dx10_file_entry_def ba2_store_def ba2_compress_def sample_deflate_def
      length_ba2_header SUB_DX10_def ba2_name_def)
qed

theorem dx10_roundtrip_witness:
  "\<exists>out a. dx10_pack (sample_deflate False) V1 True sample_textures = Inr out \<and> open_archive out = Inr a \<and>
     archive_extract sample_inflate a (ascii ''TEXTURES/A.DDS'') = Some (Inr (dds_of_info sample_texture))"
proof -
  obtain out where out: "dx10_pack (sample_deflate False) V1 True sample_textures = Inr out" "length out = 105"
    using sample_dx10_out by blast
  have "ba2_fits (sample_deflate False) (sample_inflate False) (texture_data sample_textures) out"
    using out(2) sample_codec by (auto simp: ba2_fits_def sample_textures_facts)
  from dx10_roundtrip [of sample_deflate V1 True sample_textures out sample_inflate, OF out(1) this sample_textures_facts(1)] show ?thesis
    using sample_textures_facts(3,6) out(1) by force
qed

end
