(* ===== verification/SchemaExpressions.thy ===== *)
theory SchemaExpressions
  imports Prelude CoreTypes "HOL-Library.Signed_Division"
begin

text \<open>
  \<open>bethkit-schema/src/expression.rs\<close> and \<open>error.rs\<close>: the bounded condition expressions of a
  schema package. An \<open>i64\<close> is a 64-bit word read with \<open>sint\<close>; the operation budget, a \<open>u32\<close> that is
  only ever decremented after a test for zero, is threaded as a natural number. A message of
  \<open>SchemaError::Expression\<close> is a constructor of \<open>expression_failure\<close> with the arguments it formats.
\<close>

unbundle bit_operations_syntax

type_synonym i64 = "64 word"
type_synonym schema_signature = signature

subsection \<open>Errors\<close>

datatype expression_failure =
    ExpectedBoolean
  | ExpectedInteger
  | BudgetExhausted
  | PayloadLengthExceedsI64
  | FieldUnavailable rstring
  | BitIndexTooLarge
  | AdditionOverflowed
  | SubtractionOverflowed
  | MultiplicationOverflowed
  | DivisionFailed
  | ReadRangeOverflowed
  | ReadRangeExceeds nat nat nat
  | UnsupportedWidth u8
  | UnsignedTooLarge

subsection \<open>Values, inputs and expressions\<close>

record eval_context =
  payload :: bytes
  field_values :: "rstring \<rightharpoonup> i64"
  ctx_form_version :: u16
  record_signature :: schema_signature

datatype eval_value = VBool bool | VInt i64

fun as_bool :: "eval_value \<Rightarrow> expression_failure + bool" where
  "as_bool (VBool b) = Inr b"
| "as_bool (VInt _) = Inl ExpectedBoolean"

fun as_int :: "eval_value \<Rightarrow> expression_failure + i64" where
  "as_int (VInt i) = Inr i"
| "as_int (VBool _) = Inl ExpectedInteger"

record integer_lookup_case =
  case_input :: i64
  case_output :: i64

datatype expression =
    EBool bool
  | EInt i64
  | PayloadLength
  | FormVersion
  | ReadUnsigned u32 u8
  | ReadField rstring
  | RecordSignature schema_signature
  | Equal expression expression
  | NotEqual expression expression
  | LessThan expression expression
  | BitSet expression u8
  | EAnd "expression list"
  | EOr "expression list"
  | ENot expression
  | EAdd expression expression
  | ESubtract expression expression
  | EMultiply expression expression
  | EDivide expression expression
  | BitCount expression
  | IntegerLookup expression "integer_lookup_case list" i64
  | Select expression expression expression

subsection \<open>Checked arithmetic\<close>

definition i64_of_int :: "int \<Rightarrow> i64 option" where
  "i64_of_int i = (if - (2 ^ 63) \<le> i \<and> i < 2 ^ 63 then Some (word_of_int i) else None)"

definition i64_checked_add :: "i64 \<Rightarrow> i64 \<Rightarrow> i64 option" where
  "i64_checked_add a b = i64_of_int (sint a + sint b)"

definition i64_checked_sub :: "i64 \<Rightarrow> i64 \<Rightarrow> i64 option" where
  "i64_checked_sub a b = i64_of_int (sint a - sint b)"

definition i64_checked_mul :: "i64 \<Rightarrow> i64 \<Rightarrow> i64 option" where
  "i64_checked_mul a b = i64_of_int (sint a * sint b)"

definition i64_checked_div :: "i64 \<Rightarrow> i64 \<Rightarrow> i64 option" where
  "i64_checked_div a b = (if b = 0 then None else i64_of_int (sint a sdiv sint b))"

text \<open>\<open>(raw as u64).count_ones()\<close>.\<close>

definition count_ones :: "u64 \<Rightarrow> nat" where
  "count_ones w = length (filter (bit w) [0..<64])"

definition read_unsigned :: "bytes \<Rightarrow> u32 \<Rightarrow> u8 \<Rightarrow> expression_failure + i64" where
  "read_unsigned pl offset width =
     (let start = unat offset in
      bindr (ok_or ReadRangeOverflowed (checked_add start (unat width))) (\<lambda>stop.
      bindr (ok_or (ReadRangeExceeds start stop (length pl)) (get_range (start, stop) pl)) (\<lambda>bs.
      bindr (if width = 1 \<or> width = 2 \<or> width = 4 \<or> width = 8 then Inr (le_word bs :: u64)
             else Inl (UnsupportedWidth width)) (\<lambda>v.
      if unat v < 2 ^ 63 then Inr v else Inl UnsignedTooLarge))))"

subsection \<open>Evaluation\<close>

text \<open>The loop of \<open>IntegerLookup\<close> over its cases, each of which costs one operation.\<close>

fun lookup_cases :: "integer_lookup_case list \<Rightarrow> i64 \<Rightarrow> i64 \<Rightarrow> nat \<Rightarrow> expression_failure + eval_value \<times> nat" where
  "lookup_cases [] key dflt n = Inr (VInt dflt, n)"
| "lookup_cases (c # cs) key dflt n =
     (if n = 0 then Inl BudgetExhausted
      else if case_input c = key then Inr (VInt (case_output c), n - 1)
      else lookup_cases cs key dflt (n - 1))"

definition int_result :: "expression_failure \<Rightarrow> i64 option \<Rightarrow> nat \<Rightarrow> expression_failure + eval_value \<times> nat" where
  "int_result e r n = bindr (ok_or e r) (\<lambda>i. Inr (VInt i, n))"

text \<open>The head of \<open>evaluate_inner\<close>: one operation is charged before a node is looked at.\<close>

definition charge :: "nat \<Rightarrow> (nat \<Rightarrow> expression_failure + 'a) \<Rightarrow> expression_failure + 'a" where
  "charge n f = (if n = 0 then Inl BudgetExhausted else f (n - 1))"

lemma charge_cong [fundef_cong]:
  "n = n' \<Longrightarrow> (\<And>k. n' = Suc k \<Longrightarrow> f k = g k) \<Longrightarrow> charge n f = charge n' g"
  by (cases n') (simp_all add: charge_def)

fun evaluate_inner :: "eval_context \<Rightarrow> expression \<Rightarrow> nat \<Rightarrow> expression_failure + eval_value \<times> nat"
and and_loop :: "eval_context \<Rightarrow> expression list \<Rightarrow> nat \<Rightarrow> expression_failure + eval_value \<times> nat"
and or_loop :: "eval_context \<Rightarrow> expression list \<Rightarrow> nat \<Rightarrow> expression_failure + eval_value \<times> nat" where
  "evaluate_inner c (EBool b) m = charge m (\<lambda>n.
     Inr (VBool b, n))"
| "evaluate_inner c (EInt i) m = charge m (\<lambda>n.
     Inr (VInt i, n))"
| "evaluate_inner c PayloadLength m = charge m (\<lambda>n.
     (if length (payload c) < 2 ^ 63 then Inr (VInt (of_nat (length (payload c))), n)
      else Inl PayloadLengthExceedsI64))"
| "evaluate_inner c FormVersion m = charge m (\<lambda>n.
     Inr (VInt (ucast (ctx_form_version c)), n))"
| "evaluate_inner c (ReadUnsigned offset width) m = charge m (\<lambda>n.
     bindr (read_unsigned (payload c) offset width) (\<lambda>i. Inr (VInt i, n)))"
| "evaluate_inner c (ReadField path) m = charge m (\<lambda>n.
     int_result (FieldUnavailable path) (field_values c path) n)"
| "evaluate_inner c (RecordSignature s) m = charge m (\<lambda>n.
     Inr (VBool (s = record_signature c), n))"
| "evaluate_inner c (Equal l r) m = charge m (\<lambda>n.
     bindr (evaluate_inner c l n) (\<lambda>(lv, n1).
     bindr (evaluate_inner c r n1) (\<lambda>(rv, n2). Inr (VBool (lv = rv), n2))))"
| "evaluate_inner c (NotEqual l r) m = charge m (\<lambda>n.
     bindr (evaluate_inner c l n) (\<lambda>(lv, n1).
     bindr (evaluate_inner c r n1) (\<lambda>(rv, n2). Inr (VBool (lv \<noteq> rv), n2))))"
| "evaluate_inner c (LessThan l r) m = charge m (\<lambda>n.
     bindr (evaluate_inner c l n) (\<lambda>(lv, n1). bindr (as_int lv) (\<lambda>li.
     bindr (evaluate_inner c r n1) (\<lambda>(rv, n2). bindr (as_int rv) (\<lambda>ri.
     Inr (VBool (li <s ri), n2))))))"
| "evaluate_inner c (BitSet v b) m = charge m (\<lambda>n.
     (if b \<ge> 64 then Inl BitIndexTooLarge
      else bindr (evaluate_inner c v n) (\<lambda>(x, n1). bindr (as_int x) (\<lambda>raw.
        Inr (VBool (raw AND push_bit (unat b) 1 \<noteq> 0), n1)))))"
| "evaluate_inner c (EAnd vs) m = charge m (\<lambda>n.
     and_loop c vs n)"
| "evaluate_inner c (EOr vs) m = charge m (\<lambda>n.
     or_loop c vs n)"
| "evaluate_inner c (ENot v) m = charge m (\<lambda>n.
     bindr (evaluate_inner c v n) (\<lambda>(x, n1). bindr (as_bool x) (\<lambda>b. Inr (VBool (\<not> b), n1))))"
| "evaluate_inner c (EAdd l r) m = charge m (\<lambda>n.
     bindr (evaluate_inner c l n) (\<lambda>(lv, n1). bindr (as_int lv) (\<lambda>li.
     bindr (evaluate_inner c r n1) (\<lambda>(rv, n2). bindr (as_int rv) (\<lambda>ri.
     int_result AdditionOverflowed (i64_checked_add li ri) n2)))))"
| "evaluate_inner c (ESubtract l r) m = charge m (\<lambda>n.
     bindr (evaluate_inner c l n) (\<lambda>(lv, n1). bindr (as_int lv) (\<lambda>li.
     bindr (evaluate_inner c r n1) (\<lambda>(rv, n2). bindr (as_int rv) (\<lambda>ri.
     int_result SubtractionOverflowed (i64_checked_sub li ri) n2)))))"
| "evaluate_inner c (EMultiply l r) m = charge m (\<lambda>n.
     bindr (evaluate_inner c l n) (\<lambda>(lv, n1). bindr (as_int lv) (\<lambda>li.
     bindr (evaluate_inner c r n1) (\<lambda>(rv, n2). bindr (as_int rv) (\<lambda>ri.
     int_result MultiplicationOverflowed (i64_checked_mul li ri) n2)))))"
| "evaluate_inner c (EDivide l r) m = charge m (\<lambda>n.
     bindr (evaluate_inner c l n) (\<lambda>(lv, n1). bindr (as_int lv) (\<lambda>li.
     bindr (evaluate_inner c r n1) (\<lambda>(rv, n2). bindr (as_int rv) (\<lambda>ri.
     int_result DivisionFailed (i64_checked_div li ri) n2)))))"
| "evaluate_inner c (BitCount v) m = charge m (\<lambda>n.
     bindr (evaluate_inner c v n) (\<lambda>(x, n1). bindr (as_int x) (\<lambda>raw.
     Inr (VInt (of_nat (count_ones raw)), n1))))"
| "evaluate_inner c (IntegerLookup v cs dflt) m = charge m (\<lambda>n.
     bindr (evaluate_inner c v n) (\<lambda>(x, n1). bindr (as_int x) (\<lambda>key.
     lookup_cases cs key dflt n1)))"
| "evaluate_inner c (Select b t f) m = charge m (\<lambda>n.
     bindr (evaluate_inner c b n) (\<lambda>(x, n1). bindr (as_bool x) (\<lambda>v.
     if v then evaluate_inner c t n1 else evaluate_inner c f n1)))"
| "and_loop c [] n = Inr (VBool True, n)"
| "and_loop c (v # vs) n =
     bindr (evaluate_inner c v n) (\<lambda>(x, n1). bindr (as_bool x) (\<lambda>b.
     if \<not> b then Inr (VBool False, n1) else and_loop c vs n1))"
| "or_loop c [] n = Inr (VBool False, n)"
| "or_loop c (v # vs) n =
     bindr (evaluate_inner c v n) (\<lambda>(x, n1). bindr (as_bool x) (\<lambda>b.
     if b then Inr (VBool True, n1) else or_loop c vs n1))"

definition evaluate :: "expression \<Rightarrow> eval_context \<Rightarrow> u32 \<Rightarrow> expression_failure + eval_value" where
  "evaluate e c max_operations =
     bindr (evaluate_inner c e (unat max_operations)) (\<lambda>(v, _). Inr v)"

subsection \<open>The operation budget\<close>

text \<open>
  What an expression means when nothing is counted: its value, or the failure of the first operand
  that fails. Operands are evaluated from left to right, a connective stops at the first operand that
  decides it, and a selection evaluates one branch.
\<close>

abbreviation int_of :: "expression_failure + eval_value \<Rightarrow> expression_failure + i64" where
  "int_of r \<equiv> bindr r as_int"

abbreviation bool_of :: "expression_failure + eval_value \<Rightarrow> expression_failure + bool" where
  "bool_of r \<equiv> bindr r as_bool"

definition arithmetic ::
  "expression_failure \<Rightarrow> (i64 \<Rightarrow> i64 \<Rightarrow> i64 option) \<Rightarrow> expression_failure + eval_value \<Rightarrow> expression_failure + eval_value
    \<Rightarrow> expression_failure + eval_value" where
  "arithmetic e f l r =
     bindr (int_of l) (\<lambda>a. bindr (int_of r) (\<lambda>b. bindr (ok_or e (f a b)) (\<lambda>i. Inr (VInt i))))"

fun meaning :: "eval_context \<Rightarrow> expression \<Rightarrow> expression_failure + eval_value"
and meaning_all :: "eval_context \<Rightarrow> expression list \<Rightarrow> expression_failure + eval_value"
and meaning_any :: "eval_context \<Rightarrow> expression list \<Rightarrow> expression_failure + eval_value" where
  "meaning c (EBool b) = Inr (VBool b)"
| "meaning c (EInt i) = Inr (VInt i)"
| "meaning c PayloadLength =
     (if length (payload c) < 2 ^ 63 then Inr (VInt (of_nat (length (payload c)))) else Inl PayloadLengthExceedsI64)"
| "meaning c FormVersion = Inr (VInt (ucast (ctx_form_version c)))"
| "meaning c (ReadUnsigned offset width) = bindr (read_unsigned (payload c) offset width) (\<lambda>i. Inr (VInt i))"
| "meaning c (ReadField path) = bindr (ok_or (FieldUnavailable path) (field_values c path)) (\<lambda>i. Inr (VInt i))"
| "meaning c (RecordSignature s) = Inr (VBool (s = record_signature c))"
| "meaning c (Equal l r) = bindr (meaning c l) (\<lambda>a. bindr (meaning c r) (\<lambda>b. Inr (VBool (a = b))))"
| "meaning c (NotEqual l r) = bindr (meaning c l) (\<lambda>a. bindr (meaning c r) (\<lambda>b. Inr (VBool (a \<noteq> b))))"
| "meaning c (LessThan l r) =
     bindr (int_of (meaning c l)) (\<lambda>a. bindr (int_of (meaning c r)) (\<lambda>b. Inr (VBool (a <s b))))"
| "meaning c (BitSet v b) =
     (if b \<ge> 64 then Inl BitIndexTooLarge
      else bindr (int_of (meaning c v)) (\<lambda>x. Inr (VBool (bit x (unat b)))))"
| "meaning c (EAnd vs) = meaning_all c vs"
| "meaning c (EOr vs) = meaning_any c vs"
| "meaning c (ENot v) = bindr (bool_of (meaning c v)) (\<lambda>b. Inr (VBool (\<not> b)))"
| "meaning c (EAdd l r) = arithmetic AdditionOverflowed i64_checked_add (meaning c l) (meaning c r)"
| "meaning c (ESubtract l r) = arithmetic SubtractionOverflowed i64_checked_sub (meaning c l) (meaning c r)"
| "meaning c (EMultiply l r) = arithmetic MultiplicationOverflowed i64_checked_mul (meaning c l) (meaning c r)"
| "meaning c (EDivide l r) = arithmetic DivisionFailed i64_checked_div (meaning c l) (meaning c r)"
| "meaning c (BitCount v) = bindr (int_of (meaning c v)) (\<lambda>x. Inr (VInt (of_nat (count_ones x))))"
| "meaning c (IntegerLookup v cs d) = bindr (int_of (meaning c v)) (\<lambda>key.
     Inr (VInt (case find (\<lambda>k. case_input k = key) cs of Some k \<Rightarrow> case_output k | None \<Rightarrow> d)))"
| "meaning c (Select b t f) = bindr (bool_of (meaning c b)) (\<lambda>x. if x then meaning c t else meaning c f)"
| "meaning_all c [] = Inr (VBool True)"
| "meaning_all c (v # vs) = bindr (bool_of (meaning c v)) (\<lambda>b. if b then meaning_all c vs else Inr (VBool False))"
| "meaning_any c [] = Inr (VBool False)"
| "meaning_any c (v # vs) = bindr (bool_of (meaning c v)) (\<lambda>b. if b then Inr (VBool True) else meaning_any c vs)"

text \<open>
  The operations that evaluation counts: one for each node it enters and one for each lookup case it
  compares. \<open>after r f\<close> is what is counted once \<open>r\<close> has succeeded, so an operand that is never reached
  counts nothing.
\<close>

definition after :: "'e + 'a \<Rightarrow> ('a \<Rightarrow> nat) \<Rightarrow> nat" where
  "after r f = (case r of Inl _ \<Rightarrow> 0 | Inr v \<Rightarrow> f v)"

fun operations :: "eval_context \<Rightarrow> expression \<Rightarrow> nat"
and operations_all :: "eval_context \<Rightarrow> expression list \<Rightarrow> nat"
and operations_any :: "eval_context \<Rightarrow> expression list \<Rightarrow> nat" where
  "operations c (Equal l r) = 1 + operations c l + after (meaning c l) (\<lambda>_. operations c r)"
| "operations c (NotEqual l r) = 1 + operations c l + after (meaning c l) (\<lambda>_. operations c r)"
| "operations c (LessThan l r) = 1 + operations c l + after (int_of (meaning c l)) (\<lambda>_. operations c r)"
| "operations c (EAdd l r) = 1 + operations c l + after (int_of (meaning c l)) (\<lambda>_. operations c r)"
| "operations c (ESubtract l r) = 1 + operations c l + after (int_of (meaning c l)) (\<lambda>_. operations c r)"
| "operations c (EMultiply l r) = 1 + operations c l + after (int_of (meaning c l)) (\<lambda>_. operations c r)"
| "operations c (EDivide l r) = 1 + operations c l + after (int_of (meaning c l)) (\<lambda>_. operations c r)"
| "operations c (BitSet v b) = 1 + (if b \<ge> 64 then 0 else operations c v)"
| "operations c (ENot v) = 1 + operations c v"
| "operations c (BitCount v) = 1 + operations c v"
| "operations c (EAnd vs) = 1 + operations_all c vs"
| "operations c (EOr vs) = 1 + operations_any c vs"
| "operations c (Select b t f) = 1 + operations c b +
     after (bool_of (meaning c b)) (\<lambda>x. if x then operations c t else operations c f)"
| "operations c (IntegerLookup v cs d) = 1 + operations c v +
     after (int_of (meaning c v)) (\<lambda>key. min (length cs) (Suc (length (takeWhile (\<lambda>k. case_input k \<noteq> key) cs))))"
| "operations c _ = 1"
| "operations_all c [] = 0"
| "operations_all c (v # vs) = operations c v + after (bool_of (meaning c v)) (\<lambda>b. if \<not> b then 0 else operations_all c vs)"
| "operations_any c [] = 0"
| "operations_any c (v # vs) = operations c v + after (bool_of (meaning c v)) (\<lambda>b. if b then 0 else operations_any c vs)"

text \<open>
  The largest number of operations an expression can be charged: one for each of its nodes and one
  for each case of its lookup tables.
\<close>

fun expression_ops :: "expression \<Rightarrow> nat" where
  "expression_ops (Equal l r) = 1 + expression_ops l + expression_ops r"
| "expression_ops (NotEqual l r) = 1 + expression_ops l + expression_ops r"
| "expression_ops (LessThan l r) = 1 + expression_ops l + expression_ops r"
| "expression_ops (BitSet v b) = 1 + expression_ops v"
| "expression_ops (EAnd vs) = 1 + sum_list (map expression_ops vs)"
| "expression_ops (EOr vs) = 1 + sum_list (map expression_ops vs)"
| "expression_ops (ENot v) = 1 + expression_ops v"
| "expression_ops (EAdd l r) = 1 + expression_ops l + expression_ops r"
| "expression_ops (ESubtract l r) = 1 + expression_ops l + expression_ops r"
| "expression_ops (EMultiply l r) = 1 + expression_ops l + expression_ops r"
| "expression_ops (EDivide l r) = 1 + expression_ops l + expression_ops r"
| "expression_ops (BitCount v) = 1 + expression_ops v"
| "expression_ops (IntegerLookup v cs d) = 1 + expression_ops v + length cs"
| "expression_ops (Select b t f) = 1 + expression_ops b + expression_ops t + expression_ops f"
| "expression_ops _ = 1"

text \<open>
  A computation over a budget costs \<open>k\<close> and has the outcome \<open>r\<close> when every budget below \<open>k\<close> ends in the
  exhausted budget, and every other budget in \<open>r\<close> with \<open>k\<close> taken off. Costs are put together rule by
  rule, one for each way the evaluator composes its steps.
\<close>

definition costs :: "expression_failure + 'a \<Rightarrow> nat \<Rightarrow> (nat \<Rightarrow> expression_failure + 'a \<times> nat) \<Rightarrow> bool" where
  "costs r k f \<longleftrightarrow> (\<forall>m. f m = (if m < k then Inl BudgetExhausted else bindr r (\<lambda>v. Inr (v, m - k))))"

lemma after_simps [simp]: "after (Inl e) f = 0" "after (Inr v) f = f v" "after r (\<lambda>_. 0) = 0"
  by (simp_all add: after_def split: sum.split)

lemma after_bindr: "after (bindr r g) f = after r (\<lambda>v. after (g v) f)"
  by (cases r) simp_all

lemma costs_return: "costs (Inr v) 0 (\<lambda>m. Inr (v, m))"
  and costs_fail: "costs (Inl e) 0 (\<lambda>m. Inl e)"
  by (simp_all add: costs_def)

lemma costs_charge: "costs r k f \<Longrightarrow> costs r (Suc k) (\<lambda>m. charge m f)"
  by (auto simp: costs_def charge_def)

lemma costs_bind:
  assumes "costs r k f" and "\<And>v. r = Inr v \<Longrightarrow> costs (s v) (l v) (g v)"
  shows "costs (bindr r s) (k + after r l) (\<lambda>m. bindr (f m) (\<lambda>(v, n). g v n))"
  using assms by (cases r) (auto simp: costs_def not_less)

lemma costs_check:
  assumes "\<And>x. r = Inr x \<Longrightarrow> costs (s x) (l x) (g x)"
  shows "costs (bindr r s) (after r l) (\<lambda>m. bindr r (\<lambda>x. g x m))"
  using assms by (cases r) (auto simp: costs_def)

lemma costs_if:
  "(b \<Longrightarrow> costs r k f) \<Longrightarrow> (\<not> b \<Longrightarrow> costs s l g) \<Longrightarrow>
     costs (if b then r else s) (if b then k else l) (\<lambda>m. if b then f m else g m)"
  by simp

lemma costs_lookup:
  "costs (Inr (VInt (case find (\<lambda>k. case_input k = key) cs of Some k \<Rightarrow> case_output k | None \<Rightarrow> d)))
     (min (length cs) (Suc (length (takeWhile (\<lambda>k. case_input k \<noteq> key) cs)))) (lookup_cases cs key d)"
proof (induction cs)
  case (Cons c cs)
  then show ?case by (auto simp: costs_def)
qed (simp add: costs_def)

lemma costs_eq: "costs r k f \<Longrightarrow> r = r' \<Longrightarrow> k = k' \<Longrightarrow> costs r' k' f"
  by simp

lemma bindr_assoc: "bindr (bindr r f) g = bindr r (\<lambda>v. bindr (f v) g)"
  by (cases r) simp_all

lemma costs_int_result: "costs (bindr (ok_or e r) (\<lambda>i. Inr (VInt i))) 0 (int_result e r)"
  by (cases r) (simp_all add: costs_def int_result_def)

lemmas costs_rules = costs_charge costs_bind costs_check costs_return costs_int_result costs_lookup

lemma costs_ext: "(\<And>m. f m = g m) \<Longrightarrow> costs r k g \<Longrightarrow> r = r' \<Longrightarrow> k = k' \<Longrightarrow> costs r' k' f"
  by (drule ext) simp

lemma costs_all:
  "(\<And>v. v \<in> set vs \<Longrightarrow> costs (meaning c v) (operations c v) (evaluate_inner c v)) \<Longrightarrow>
     costs (meaning_all c vs) (operations_all c vs) (and_loop c vs)"
proof (induction vs)
  case (Cons v vs)
  have v: "costs (meaning c v) (operations c v) (evaluate_inner c v)" using Cons.prems by simp
  have vs: "costs (meaning_all c vs) (operations_all c vs) (and_loop c vs)" using Cons by simp
  show ?case
    by (rule costs_ext, rule and_loop.simps, rule costs_bind [OF v], rule costs_check, rule costs_if,
        rule costs_return, rule vs) (auto simp: bindr_assoc after_bindr intro!: bindr_cong arg_cong [where f = "after _"])
qed (simp add: costs_def)

lemma costs_any:
  "(\<And>v. v \<in> set vs \<Longrightarrow> costs (meaning c v) (operations c v) (evaluate_inner c v)) \<Longrightarrow>
     costs (meaning_any c vs) (operations_any c vs) (or_loop c vs)"
proof (induction vs)
  case (Cons v vs)
  have v: "costs (meaning c v) (operations c v) (evaluate_inner c v)" using Cons.prems by simp
  have vs: "costs (meaning_any c vs) (operations_any c vs) (or_loop c vs)" using Cons by simp
  show ?case
    by (rule costs_ext, rule or_loop.simps, rule costs_bind [OF v], rule costs_check, rule costs_if,
        rule costs_return, rule vs) (auto simp: bindr_assoc after_bindr intro!: bindr_cong arg_cong [where f = "after _"])
qed (simp add: costs_def)

lemma bit_test: "(raw AND push_bit n 1 \<noteq> 0) = bit (raw :: i64) n"
  by (rule bit_iff_and_push_bit_not_eq_0 [symmetric])

lemma evaluate_inner_costs: "costs (meaning c e) (operations c e) (evaluate_inner c e)"
proof (induction e)
  case (EAnd vs)
  show ?case by (rule costs_ext, rule evaluate_inner.simps, rule costs_charge, rule costs_all, rule EAnd) simp_all
next
  case (EOr vs)
  show ?case by (rule costs_ext, rule evaluate_inner.simps, rule costs_charge, rule costs_any, rule EOr) simp_all
next
  case (BitSet v b)
  show ?case by (rule costs_ext, rule evaluate_inner.simps, rule costs_charge, rule costs_if, rule costs_fail,
    (rule costs_rules BitSet)+) (simp_all add: bindr_assoc after_bindr bit_test del: push_bit_of_1)
next
  case PayloadLength
  show ?case by (rule costs_ext, rule evaluate_inner.simps, rule costs_charge, rule costs_if, rule costs_return, rule costs_fail) simp_all
next
  case (Select b t f)
  show ?case by (rule costs_ext, rule evaluate_inner.simps, rule costs_charge, rule costs_bind [OF Select(1)], rule costs_check,
     rule costs_if, rule Select, rule Select) (simp_all add: bindr_assoc after_bindr)
qed (rule costs_ext, rule evaluate_inner.simps, rule costs_charge, (rule costs_rules | assumption)+,
     simp add: bindr_assoc after_bindr arithmetic_def, simp add: bindr_assoc after_bindr)+

lemma after_le: "(\<And>v. f v \<le> n) \<Longrightarrow> after r f \<le> n"
  by (cases r) simp_all

lemma operations_all_most:
  "(\<And>v. v \<in> set vs \<Longrightarrow> operations c v \<le> expression_ops v) \<Longrightarrow>
     operations_all c vs \<le> sum_list (map expression_ops vs) \<and> operations_any c vs \<le> sum_list (map expression_ops vs)"
  by (induction vs) (simp_all add: add_mono after_le)

lemma operations_most: "operations c e \<le> expression_ops e"
proof (induction e)
  case (Select b t f)
  have "after (bool_of (meaning c b)) (\<lambda>x. if x then operations c t else operations c f)
      \<le> expression_ops t + expression_ops f"
    using Select by (intro after_le) (simp add: trans_le_add1 trans_le_add2)
  then show ?case using Select by (simp add: add.assoc add_mono)
qed (simp_all add: operations_all_most add_mono after_le le_SucI)

lemma operations_least: "1 \<le> operations c e"
  by (cases e) simp_all

text \<open>
  C25: the budget is enforced exactly. The evaluation under a budget of \<open>m\<close> operations ends in the
  exhausted-budget error precisely when the evaluation needs more than \<open>m\<close> operations, counting every
  node entered and every lookup case compared up to the result or to the first failure; otherwise it
  ends in what the expression means without a budget, value or failure. At least one operation is
  needed, so a zero budget never suffices, and never more than the nodes and lookup cases of the
  expression.
\<close>

theorem evaluate_metered:
  "1 \<le> operations c e \<and> operations c e \<le> expression_ops e \<and>
   evaluate e c m = (if unat m < operations c e then Inl BudgetExhausted else meaning c e)"
proof (intro conjI operations_least operations_most)
  have "evaluate_inner c e n = (if n < operations c e then Inl BudgetExhausted
      else bindr (meaning c e) (\<lambda>v. Inr (v, n - operations c e)))" for n
    using evaluate_inner_costs [of c e] by (simp add: costs_def)
  then show "evaluate e c m = (if unat m < operations c e then Inl BudgetExhausted else meaning c e)"
    by (cases "meaning c e") (simp_all add: evaluate_def)
qed

subsection \<open>Types\<close>

text \<open>
  The types the evaluator expects: an expression has a type when its operators are applied to
  operands of the kind they read, its bit indices are below 64 and its reads have a supported width.
  \<open>Equal\<close> compares values of any kind.
\<close>

datatype expression_type = TBool | TInt

fun value_type :: "eval_value \<Rightarrow> expression_type" where
  "value_type (VBool _) = TBool"
| "value_type (VInt _) = TInt"

fun has_type :: "expression \<Rightarrow> expression_type \<Rightarrow> bool" where
  "has_type (EBool b) t = (t = TBool)"
| "has_type (EInt i) t = (t = TInt)"
| "has_type PayloadLength t = (t = TInt)"
| "has_type FormVersion t = (t = TInt)"
| "has_type (ReadUnsigned offset width) t = (t = TInt \<and> width \<in> {1, 2, 4, 8})"
| "has_type (ReadField p) t = (t = TInt)"
| "has_type (RecordSignature s) t = (t = TBool)"
| "has_type (Equal l r) t =
     (t = TBool \<and> (has_type l TBool \<or> has_type l TInt) \<and> (has_type r TBool \<or> has_type r TInt))"
| "has_type (NotEqual l r) t =
     (t = TBool \<and> (has_type l TBool \<or> has_type l TInt) \<and> (has_type r TBool \<or> has_type r TInt))"
| "has_type (LessThan l r) t = (t = TBool \<and> has_type l TInt \<and> has_type r TInt)"
| "has_type (BitSet v b) t = (t = TBool \<and> b < 64 \<and> has_type v TInt)"
| "has_type (EAnd vs) t = (t = TBool \<and> list_all (\<lambda>v. has_type v TBool) vs)"
| "has_type (EOr vs) t = (t = TBool \<and> list_all (\<lambda>v. has_type v TBool) vs)"
| "has_type (ENot v) t = (t = TBool \<and> has_type v TBool)"
| "has_type (EAdd l r) t = (t = TInt \<and> has_type l TInt \<and> has_type r TInt)"
| "has_type (ESubtract l r) t = (t = TInt \<and> has_type l TInt \<and> has_type r TInt)"
| "has_type (EMultiply l r) t = (t = TInt \<and> has_type l TInt \<and> has_type r TInt)"
| "has_type (EDivide l r) t = (t = TInt \<and> has_type l TInt \<and> has_type r TInt)"
| "has_type (BitCount v) t = (t = TInt \<and> has_type v TInt)"
| "has_type (IntegerLookup v cs d) t = (t = TInt \<and> has_type v TInt)"
| "has_type (Select b x y) t = (has_type b TBool \<and> has_type x t \<and> has_type y t)"

fun read_fields :: "expression \<Rightarrow> rstring set" where
  "read_fields (ReadField p) = {p}"
| "read_fields (Equal l r) = read_fields l \<union> read_fields r"
| "read_fields (NotEqual l r) = read_fields l \<union> read_fields r"
| "read_fields (LessThan l r) = read_fields l \<union> read_fields r"
| "read_fields (BitSet v b) = read_fields v"
| "read_fields (EAnd vs) = (\<Union>v \<in> set vs. read_fields v)"
| "read_fields (EOr vs) = (\<Union>v \<in> set vs. read_fields v)"
| "read_fields (ENot v) = read_fields v"
| "read_fields (EAdd l r) = read_fields l \<union> read_fields r"
| "read_fields (ESubtract l r) = read_fields l \<union> read_fields r"
| "read_fields (EMultiply l r) = read_fields l \<union> read_fields r"
| "read_fields (EDivide l r) = read_fields l \<union> read_fields r"
| "read_fields (BitCount v) = read_fields v"
| "read_fields (IntegerLookup v cs d) = read_fields v"
| "read_fields (Select b t f) = read_fields b \<union> read_fields t \<union> read_fields f"
| "read_fields _ = {}"

text \<open>The failures that depend on the payload, the operand values or the budget.\<close>

fun runtime_failure :: "expression_failure \<Rightarrow> bool" where
  "runtime_failure ExpectedBoolean = False"
| "runtime_failure ExpectedInteger = False"
| "runtime_failure BitIndexTooLarge = False"
| "runtime_failure (UnsupportedWidth _) = False"
| "runtime_failure (FieldUnavailable _) = False"
| "runtime_failure ReadRangeOverflowed = False"
| "runtime_failure _ = True"

definition typed_result :: "expression_type \<Rightarrow> expression_failure + eval_value \<times> nat \<Rightarrow> bool" where
  "typed_result t r = (case r of Inl e \<Rightarrow> runtime_failure e | Inr (v, _) \<Rightarrow> value_type v = t)"

named_theorems typed \<open>results of a type\<close>

lemma typed_result_simps [simp]:
  "typed_result t (Inl e) = runtime_failure e" "typed_result t (Inr (v, n)) = (value_type v = t)"
  by (simp_all add: typed_result_def)

lemma typed_charge [typed]: "(\<And>n. typed_result t (f n)) \<Longrightarrow> typed_result t (charge m f)"
  by (simp add: charge_def)

lemma typed_bind [typed]:
  assumes "typed_result t r" "\<And>v n. value_type v = t \<Longrightarrow> typed_result u (f v n)"
  shows "typed_result u (bindr r (\<lambda>(v, n). f v n))"
  using assms by (cases r) auto

lemma typed_int [typed]: "value_type v = TInt \<Longrightarrow> (\<And>i. typed_result u (f i)) \<Longrightarrow> typed_result u (bindr (as_int v) f)"
  by (cases v) simp_all

lemma typed_bool [typed]: "value_type v = TBool \<Longrightarrow> (\<And>b. typed_result u (f b)) \<Longrightarrow> typed_result u (bindr (as_bool v) f)"
  by (cases v) simp_all

lemma typed_int_result [typed]: "runtime_failure e \<Longrightarrow> typed_result TInt (int_result e r n)"
  by (cases r) (simp_all add: int_result_def)

lemma typed_lookup [typed]: "typed_result TInt (lookup_cases cs k d n)"
  by (induction cs arbitrary: n) simp_all

lemma typed_read: "w \<in> {1, 2, 4, 8} \<Longrightarrow> typed_result TInt (bindr (read_unsigned pl off w) (\<lambda>i. Inr (VInt i, n)))"
proof -
  assume w: "w \<in> {1, 2, 4, 8}"
  have "unat off + unat w \<le> usize_max"
    using unsigned_less [of off, where 'a = nat] unsigned_less [of w, where 'a = nat] by (simp add: usize_max_def)
  then show ?thesis using w
    by (auto simp: read_unsigned_def Let_def checked_add_def get_range_def ok_or_def)
qed

lemma typed_and_loop: "(\<And>v m. v \<in> set vs \<Longrightarrow> typed_result TBool (evaluate_inner c v m)) \<Longrightarrow> typed_result TBool (and_loop c vs m)"
  by (induction vs arbitrary: m) (auto intro!: typed_bind typed_bool)

lemma typed_or_loop: "(\<And>v m. v \<in> set vs \<Longrightarrow> typed_result TBool (evaluate_inner c v m)) \<Longrightarrow> typed_result TBool (or_loop c vs m)"
  by (induction vs arbitrary: m) (auto intro!: typed_bind typed_bool)

lemma evaluate_inner_typed:
  "has_type e t \<Longrightarrow> read_fields e \<subseteq> dom (field_values c) \<Longrightarrow> typed_result t (evaluate_inner c e m)"
proof (induction e arbitrary: t m)
  case (ReadUnsigned offset width)
  then show ?case by (auto intro!: typed_charge typed_read)
next
  case (ReadField p)
  then show ?case by (auto simp: int_result_def intro!: typed_charge)
next
  case (EAnd vs)
  have "typed_result TBool (evaluate_inner c v k)" if "v \<in> set vs" for v k
    using that EAnd.prems by (intro EAnd.IH) (auto simp: list_all_iff)
  then show ?case using EAnd.prems by (auto intro!: typed_charge typed_and_loop)
next
  case (EOr vs)
  have "typed_result TBool (evaluate_inner c v k)" if "v \<in> set vs" for v k
    using that EOr.prems by (intro EOr.IH) (auto simp: list_all_iff)
  then show ?case using EOr.prems by (auto intro!: typed_charge typed_or_loop)
next
  case (Equal l r)
  obtain tl tr where "has_type l tl" "has_type r tr" using Equal.prems by auto
  then show ?case using Equal by (auto intro!: typed_charge typed_bind)
next
  case (NotEqual l r)
  obtain tl tr where "has_type l tl" "has_type r tr" using NotEqual.prems by auto
  then show ?case using NotEqual by (auto intro!: typed_charge typed_bind)
next
  case (BitSet v b)
  have "\<not> 64 \<le> b" using BitSet.prems by (simp add: not_le)
  then show ?case using BitSet by (auto intro!: typed)
qed (auto intro!: typed)

text \<open>
  C24: types are sound. An expression of type \<open>t\<close> whose fields have all been decoded evaluates, under
  every budget, to a value of type \<open>t\<close>, or fails for a reason that depends on the payload, the
  operand values or the budget; it never fails because of a mismatched type, an unavailable field, a
  bit index or a width.
\<close>

theorem well_typed_expression:
  assumes "has_type e t" "read_fields e \<subseteq> dom (field_values c)"
  shows "case evaluate e c m of Inr v \<Rightarrow> value_type v = t | Inl err \<Rightarrow> runtime_failure err"
  using evaluate_inner_typed [OF assms, of "unat m"]
  by (auto simp: evaluate_def typed_result_def bindr_def split: sum.splits)

definition sample_expression :: expression where
  "sample_expression = EMultiply (BitCount (ReadField (ascii ''TEST/Flags''))) (EInt 2)"

definition sample_context :: eval_context where
  "sample_context = \<lparr> payload = [], field_values = [ascii ''TEST/Flags'' \<mapsto> 11],
     ctx_form_version = 0, record_signature = sig_lit ''TEST'' \<rparr>"

lemma sample_evaluates: "evaluate sample_expression sample_context 16 = Inr (VInt 6)"
  by (simp add: sample_expression_def sample_context_def evaluate_def charge_def int_result_def
      count_ones_def upt_rec i64_checked_mul_def i64_of_int_def)

theorem well_typed_expression_witness:
  "evaluate sample_expression sample_context 16 = Inr (VInt 6) \<and>
   (case evaluate sample_expression sample_context 16 of
      Inr v \<Rightarrow> value_type v = TInt | Inl err \<Rightarrow> runtime_failure err)"
  by (rule conjI, rule sample_evaluates, rule well_typed_expression)
     (simp_all add: sample_expression_def sample_context_def)

text \<open>
  A guard on an empty payload: its first alternative holds, so that the second, a read out of range, is
  never reached and four of its seven operations are counted.
\<close>

definition sample_guard :: expression where
  "sample_guard = EOr [LessThan PayloadLength (EInt 4), Equal (ReadUnsigned 0 4) (EInt 7)]"

theorem evaluate_metered_witness:
  "operations sample_context sample_guard = 4 \<and> expression_ops sample_guard = 7 \<and>
   evaluate sample_guard sample_context 3 = Inl BudgetExhausted \<and>
   evaluate sample_guard sample_context 4 = Inr (VBool True)"
proof -
  have "operations sample_context sample_guard = 4" "meaning sample_context sample_guard = Inr (VBool True)"
    by (simp_all add: sample_guard_def sample_context_def word_sless_alt)
  then show ?thesis
    using evaluate_metered [of sample_context sample_guard 3] evaluate_metered [of sample_context sample_guard 4]
    by (simp add: sample_guard_def)
qed

end
