(* ===== verification/SchemaModel.thy ===== *)
theory SchemaModel
  imports SchemaExpressions
begin

text \<open>
  \<open>bethkit-schema/src/model.rs\<close>: the data model of a schema package. A \<open>serde_json::Value\<close>, the
  configuration of a custom decoder or a built-in operation, is the type parameter \<open>'j\<close>; an \<open>f64\<close>
  is its bit pattern and an \<open>i32\<close> a word read with \<open>sint\<close>. A node's kind is a datatype over the
  type of its children, so that \<open>schema_node\<close> nests it.
\<close>

unbundle bit_operations_syntax

type_synonym f64 = "64 word"
type_synonym i32 = "32 word"

subsection \<open>Identifiers, games and priorities\<close>

datatype conflict_priority =
    Ignore | BenignIfAdded | Benign | PriorityOverride | Translate | Normal | NormalIgnoreEmpty
  | Critical | PriorityFormId

datatype schema_node_id = SchemaNodeId u32

datatype schema_game =
    GSkyrimLe | GSkyrimSe | GSkyrimVr | GFallout3 | GFalloutNv | GFallout4 | GFallout4Vr
  | GFallout76 | GOblivion | GMorrowind | GStarfield

definition all_schema_games :: "schema_game list" where
  "all_schema_games =
     [GSkyrimLe, GSkyrimSe, GSkyrimVr, GFallout3, GFalloutNv, GFallout4, GFallout4Vr,
      GFallout76, GOblivion, GMorrowind, GStarfield]"

fun slug :: "schema_game \<Rightarrow> rstring" where
  "slug GSkyrimLe = ascii ''skyrim_le''"
| "slug GSkyrimSe = ascii ''skyrim_se''"
| "slug GSkyrimVr = ascii ''skyrim_vr''"
| "slug GFallout3 = ascii ''fallout_3''"
| "slug GFalloutNv = ascii ''fallout_nv''"
| "slug GFallout4 = ascii ''fallout_4''"
| "slug GFallout4Vr = ascii ''fallout_4_vr''"
| "slug GFallout76 = ascii ''fallout_76''"
| "slug GOblivion = ascii ''oblivion''"
| "slug GMorrowind = ascii ''morrowind''"
| "slug GStarfield = ascii ''starfield''"

fun schema_game_of :: "game \<Rightarrow> schema_game" where
  "schema_game_of SkyrimLE = GSkyrimLe"
| "schema_game_of SkyrimSE = GSkyrimSe"
| "schema_game_of SkyrimVR = GSkyrimVr"
| "schema_game_of Fallout3 = GFallout3"
| "schema_game_of FalloutNV = GFalloutNv"
| "schema_game_of Fallout4 = GFallout4"
| "schema_game_of Fallout4VR = GFallout4Vr"
| "schema_game_of Fallout76 = GFallout76"
| "schema_game_of Oblivion = GOblivion"
| "schema_game_of Morrowind = GMorrowind"
| "schema_game_of Starfield = GStarfield"

text \<open>The derived \<open>Ord\<close> of the enumeration is the order of its declaration.\<close>

fun game_rank :: "schema_game \<Rightarrow> nat" where
  "game_rank GSkyrimLe = 0"
| "game_rank GSkyrimSe = 1"
| "game_rank GSkyrimVr = 2"
| "game_rank GFallout3 = 3"
| "game_rank GFalloutNv = 4"
| "game_rank GFallout4 = 5"
| "game_rank GFallout4Vr = 6"
| "game_rank GFallout76 = 7"
| "game_rank GOblivion = 8"
| "game_rank GMorrowind = 9"
| "game_rank GStarfield = 10"

lemma game_rank_inject [simp]: "game_rank a = game_rank b \<longleftrightarrow> a = b"
  by (cases a; cases b) simp_all

lemma schema_game_of_inject [simp]: "schema_game_of a = schema_game_of b \<longleftrightarrow> a = b"
  by (cases a; cases b) simp_all

instantiation schema_game :: linorder
begin

definition less_eq_schema_game :: "schema_game \<Rightarrow> schema_game \<Rightarrow> bool" where
  "less_eq_schema_game a b \<longleftrightarrow> game_rank a \<le> game_rank b"

definition less_schema_game :: "schema_game \<Rightarrow> schema_game \<Rightarrow> bool" where
  "less_schema_game a b \<longleftrightarrow> game_rank a < game_rank b"

instance
  by standard (auto simp: less_eq_schema_game_def less_schema_game_def)

end

datatype validation_status = Candidate | Validated | Approved | Deprecated | Rejected

subsection \<open>Condition functions\<close>

record condition_function =
  cf_index :: i32
  cf_name :: rstring
  cf_description :: rstring
  parameter_variants :: "u16 \<times> u16 \<times> u16"
  aliasable_parameters :: "bool \<times> bool \<times> bool"

record condition_function_table =
  alias_variant :: "u16 option"
  packdata_variant :: "u16 option"
  cft_functions :: "condition_function list"

subsection \<open>Manifest\<close>

record decoder_requirement =
  dr_id :: rstring
  dr_minimum_version :: u32

record handler_requirement =
  hr_id :: rstring
  hr_minimum_version :: u32

record schema_manifest =
  sm_format_version :: u16
  sm_game :: schema_game
  sm_package_version :: rstring
  sm_source_repository :: rstring
  sm_source_tag :: rstring
  sm_source_commit :: rstring
  sm_source_archive_sha256 :: rstring
  sm_exporter_version :: rstring
  sm_exporter_binary_sha256 :: rstring
  sm_exporter_map_sha256 :: rstring
  sm_exporter_patch_sha256 :: rstring
  sm_exporter_build_sha256 :: rstring
  sm_conversion_rules_sha256 :: rstring
  sm_minimum_bethkit_version :: rstring
  sm_minimum_abi_version :: u32
  sm_validation_status :: validation_status
  sm_corpus_sha256 :: rstring
  sm_validated_records :: u64
  sm_byte_coverage :: f64
  sm_callbacks_total :: u64
  sm_callbacks_classified :: u64
  sm_required_decoders :: "decoder_requirement list"
  sm_required_handlers :: "handler_requirement list"

subsection \<open>Callbacks\<close>

record 'j built_in_operation =
  op_id :: rstring
  op_minimum_version :: u32
  op_configuration :: 'j

datatype 'j callback_implementation =
    Declarative expression
  | BuiltIn "'j built_in_operation"
  | PayloadDecoder rstring u32
  | CustomHandler rstring u32
  | UserInterfaceOnly

record 'j callback_binding =
  cb_path :: rstring
  cb_callback_id :: rstring
  cb_callback_slot :: "u32 option"
  cb_fingerprint :: rstring
  cb_implementation :: "'j callback_implementation"

subsection \<open>Payload types\<close>

datatype byte_order = LittleEndian | BigEndian

record integer_type =
  it_width :: u8
  it_signed :: bool
  it_byte_order :: byte_order

record string_length_prefix =
  lp_width :: u8
  lp_offset :: u8

record string_type =
  st_encoding :: rstring
  st_localized :: bool
  st_zero_terminated :: bool
  st_fixed_length :: "u32 option"
  st_length_prefix :: "string_length_prefix option"
  st_trailing_terminator :: "u8 option"
  st_allowed_values :: "rstring list"

datatype primitive_type =
    PInteger integer_type
  | PackedUnsigned
  | PFloat u8 byte_order f64 i32
  | PString string_type
  | PBytes "u32 option"
  | PFormId "schema_signature list"
  | PEnumeration integer_type "(i64 \<times> rstring) list"
  | PFlags integer_type "(u8 \<times> rstring) list"
  | PUnused u32

datatype array_count =
    CFixed u32
  | CPrefixed integer_type "u8 option"
  | CPackedPrefixed bool "u8 option"
  | CSquaredPrefixed integer_type "u8 option"
  | CExpression expression
  | CCallback rstring
  | CRemainder

datatype union_selector =
    SelExpression expression
  | SelCallback rstring

subsection \<open>Nodes\<close>

datatype ('j, 'n) schema_node_kind =
    Sequence "'n list"
  | Unordered "'n list"
  | Choice "'n list"
  | SelectedChoice union_selector "'n list"
  | Repeat u32 "u32 option" 'n
  | Subrecord schema_signature 'n
  | Primitive primitive_type
  | Struct "'n list"
  | OptionalStruct "'n list" u32
  | ArrayOf 'n array_count
  | UnionOf union_selector "'n list"
  | Custom rstring 'j
  | CompressedNode rstring 'n
  | Terminated u8 'n
  | Reference rstring

datatype 'j schema_node =
  SchemaNode (node_id: schema_node_id) (node_path: rstring) (node_name: rstring)
    (node_required: bool) (node_priority: conflict_priority) (node_condition: "expression option")
    (node_kind: "('j, 'j schema_node) schema_node_kind")

record 'j schema_record =
  srec_signature :: schema_signature
  srec_name :: rstring
  srec_root :: "'j schema_node"

text \<open>
  The children of a node in declaration order: \<open>children\<close> of \<open>node_index.rs\<close> and the same match in
  the functions of \<open>package.rs\<close> that walk the tree.
\<close>

fun kind_children :: "('j, 'n) schema_node_kind \<Rightarrow> 'n list" where
  "kind_children (Sequence cs) = cs"
| "kind_children (Unordered cs) = cs"
| "kind_children (Choice cs) = cs"
| "kind_children (SelectedChoice _ cs) = cs"
| "kind_children (Repeat _ _ c) = [c]"
| "kind_children (Subrecord _ c) = [c]"
| "kind_children (Primitive _) = []"
| "kind_children (Struct cs) = cs"
| "kind_children (OptionalStruct cs _) = cs"
| "kind_children (ArrayOf c _) = [c]"
| "kind_children (UnionOf _ cs) = cs"
| "kind_children (Custom _ _) = []"
| "kind_children (CompressedNode _ c) = [c]"
| "kind_children (Terminated _ c) = [c]"
| "kind_children (Reference _) = []"

definition children :: "'j schema_node \<Rightarrow> 'j schema_node list" where
  "children n = kind_children (node_kind n)"

lemma kind_children_set: "set (kind_children k) = set2_schema_node_kind k"
  by (cases k) simp_all

lemma children_size: "c \<in> set (children n) \<Longrightarrow> size c < size n"
proof (cases n)
  case (SchemaNode i p nm r pr co k)
  assume "c \<in> set (children n)"
  then have c: "c \<in> set (kind_children k)" by (simp add: SchemaNode children_def)
  show ?thesis
  proof (cases k)
  qed (use c SchemaNode size_list_estimation' [of c _ "size c" size] in \<open>auto simp: less_Suc_eq_le le_SucI\<close>)
qed

text \<open>The nodes of a tree in the order of its declaration.\<close>

function preorder :: "'j schema_node \<Rightarrow> 'j schema_node list" where
  "preorder n = n # concat (map preorder (children n))"
  by auto
termination by (relation "measure size") (auto simp: children_size)

declare preorder.simps [simp del]

lemma preorder_self [simp]: "n \<in> set (preorder n)"
  by (subst preorder.simps) simp

lemma preorder_child: "c \<in> set (children n) \<Longrightarrow> x \<in> set (preorder c) \<Longrightarrow> x \<in> set (preorder n)"
  by (subst preorder.simps) auto

end
