(* ===== verification/SchemaPackages.thy ===== *)
theory SchemaPackages
  imports SchemaModel
begin

text \<open>
  \<open>bethkit-schema/src/package.rs\<close>, the checks: the limits and the validation every package passes
  before it is used. A loop of the source that stops at the first error is \<open>each\<close>, or \<open>steps\<close> when
  it threads a state; the \<open>BTreeSet\<close>s of seen values are sets. Messages are constructors that carry
  the values they format.
\<close>

unbundle bit_operations_syntax

subsection \<open>Errors\<close>

datatype (plugins only: size) limit_reason =
    PackageBytes nat nat
  | PayloadLengthOverflowed
  | RecordCount nat nat
  | ConditionFunctionCount nat nat
  | TooManyPackageEntries
  | SchemaDepth nat
  | SchemaNodeCount nat
  | StringBytes nat nat

datatype (plugins only: size) graph_reason =
    HeaderDeclares nat nat
  | ApprovedWithoutCoverage
  | CallbacksUnclassified
  | CallbackBindingCount nat u64
  | DuplicateRecordSignature schema_signature
  | EmptyDecoderId
  | InvalidHandlerRequirement
  | AliasesWithoutPackdata
  | NegativeConditionIndex rstring
  | ConditionIndexesNotAscending
  | EmptyConditionName i32
  | AliasableEmptyParameter i32
  | SelectorWithoutBinding rstring rstring
  | SelectorNotHandler rstring rstring
  | EmptyCallbackKey
  | InvalidFingerprint rstring rstring
  | DuplicateCallbackBinding rstring rstring
  | EmptyBuiltInOperation
  | InvalidPayloadDecoder
  | MissingDecoder rstring
  | InvalidCustomHandler
  | MissingHandler rstring rstring
  | DuplicateGamePackage schema_game
  | BundleOffsetOverflowed
  | BundleEndedBeforeLength
  | BundleEntryOverflowed
  | BundleEndedInsideEntry
  | BundleTrailingBytes
  | DuplicateNodeId schema_node_id
  | DuplicateNodePath rstring
  | EmptyNodePath
  | FloatScaleInvalid rstring
  | FloatDigitsInvalid rstring
  | EmptyEncoding rstring
  | PrefixWidthInvalid rstring
  | PrefixOffsetInvalid rstring
  | FixedLengthAndPrefix rstring
  | EmptyAllowedValue rstring
  | DuplicateAllowedValue rstring rstring
  | SignedArrayPrefix rstring
  | ArrayPrefixWidth rstring
  | EmptySelectorCallback rstring
  | EmptyCountCallback rstring
  | OptionalIndexExceeds u32 nat rstring
  | UnavailableField rstring rstring
  | LookupNotIncreasing rstring
  | CatalogAlreadyContains schema_game

datatype schema_error =
    SchemaIo io_error
  | SchemaJson
  | CborDecode string
  | CborEncode string
  | InvalidMagic
  | UnsupportedVersion u16
  | LimitExceeded limit_reason
  | HashMismatch
  | InvalidGraph graph_reason
  | MissingGame schema_game
  | EmbeddedUnavailable
  | ExpressionError expression_failure
  | UnclassifiedCallbacks rstring

subsection \<open>Tests\<close>

text \<open>\<open>value.trim().is_empty()\<close>: only characters with the Unicode property \<open>White_Space\<close>.\<close>

fun blank :: "rstring \<Rightarrow> bool" where
  "blank [] = True"
| "blank (b # bs) =
     (if 0x09 \<le> b \<and> b \<le> 0x0D \<or> b = 0x20 then blank bs
      else case bs of
        [] \<Rightarrow> False
      | c # r \<Rightarrow>
          if b = 0xC2 \<and> (c = 0x85 \<or> c = 0xA0) then blank r
          else (case r of
              [] \<Rightarrow> False
            | d # r' \<Rightarrow>
                if b = 0xE1 \<and> c = 0x9A \<and> d = 0x80
                 \<or> b = 0xE2 \<and> c = 0x80 \<and> (0x80 \<le> d \<and> d \<le> 0x8A \<or> d = 0xA8 \<or> d = 0xA9 \<or> d = 0xAF)
                 \<or> b = 0xE2 \<and> c = 0x81 \<and> d = 0x9F
                 \<or> b = 0xE3 \<and> c = 0x80 \<and> d = 0x80
                then blank r' else False))"

text \<open>Tests on the bits of an \<open>f64\<close>.\<close>

definition f64_magnitude :: "f64 \<Rightarrow> u64" where
  "f64_magnitude w = w AND 0x7FFFFFFFFFFFFFFF"

definition f64_is_finite :: "f64 \<Rightarrow> bool" where
  "f64_is_finite w \<longleftrightarrow> f64_magnitude w < 0x7FF0000000000000"

definition f64_is_zero :: "f64 \<Rightarrow> bool" where
  "f64_is_zero w \<longleftrightarrow> f64_magnitude w = 0"

definition f64_is_nan :: "f64 \<Rightarrow> bool" where
  "f64_is_nan w \<longleftrightarrow> f64_magnitude w > 0x7FF0000000000000"

definition f64_lt_one :: "f64 \<Rightarrow> bool" where
  "f64_lt_one w \<longleftrightarrow> \<not> f64_is_nan w \<and> (bit w 63 \<or> w < 0x3FF0000000000000)"

subsection \<open>Limits\<close>

record schema_load_limits =
  maximum_package_bytes :: nat
  maximum_records :: nat
  maximum_condition_functions :: nat
  maximum_nodes :: nat
  maximum_depth :: nat
  maximum_string_bytes :: nat

definition default_limits :: schema_load_limits where
  "default_limits = \<lparr> maximum_package_bytes = 64 * 1024 * 1024, maximum_records = 4096,
     maximum_condition_functions = 4096, maximum_nodes = 1000000, maximum_depth = 128,
     maximum_string_bytes = 64 * 1024 \<rparr>"

definition validate_string :: "rstring \<Rightarrow> schema_load_limits \<Rightarrow> schema_error + unit" where
  "validate_string v lim =
     ensure (length v \<le> maximum_string_bytes lim)
       (LimitExceeded (StringBytes (length v) (maximum_string_bytes lim)))"

subsection \<open>Condition functions\<close>

fun triple_list :: "'a \<times> 'a \<times> 'a \<Rightarrow> 'a list" where
  "triple_list (a, b, c) = [a, b, c]"

definition validate_condition_function ::
  "schema_load_limits \<Rightarrow> condition_function \<Rightarrow> i32 option \<Rightarrow> schema_error + i32 option" where
  "validate_condition_function lim f previous_index =
     bindr (ensure (\<not> sint (cf_index f) < 0) (InvalidGraph (NegativeConditionIndex (cf_name f)))) (\<lambda>_.
     bindr (ensure (\<not> (case previous_index of None \<Rightarrow> False | Some i \<Rightarrow> cf_index f \<le>s i))
       (InvalidGraph ConditionIndexesNotAscending)) (\<lambda>_.
     bindr (ensure (\<not> blank (cf_name f)) (InvalidGraph (EmptyConditionName (cf_index f)))) (\<lambda>_.
     bindr (validate_string (cf_name f) lim) (\<lambda>_.
     bindr (validate_string (cf_description f) lim) (\<lambda>_.
     bindr (each (\<lambda>(variant, aliasable).
         ensure (\<not> (aliasable \<and> variant = 0)) (InvalidGraph (AliasableEmptyParameter (cf_index f))))
       (zip (triple_list (parameter_variants f)) (triple_list (aliasable_parameters f)))) (\<lambda>_.
     Inr (Some (cf_index f))))))))"

definition validate_condition_function_table ::
  "condition_function_table option \<Rightarrow> schema_load_limits \<Rightarrow> schema_error + unit" where
  "validate_condition_function_table tab lim = (case tab of
      None \<Rightarrow> Inr ()
    | Some t \<Rightarrow>
        bindr (ensure ((alias_variant t \<noteq> None) = (packdata_variant t \<noteq> None))
          (InvalidGraph AliasesWithoutPackdata)) (\<lambda>_.
        bindr (ensure (length (cft_functions t) \<le> maximum_condition_functions lim)
          (LimitExceeded (ConditionFunctionCount (length (cft_functions t)) (maximum_condition_functions lim)))) (\<lambda>_.
        bindr (steps (validate_condition_function lim) (cft_functions t) None) (\<lambda>_.
        Inr ()))))"

subsection \<open>Callback bindings\<close>

definition require_handler :: "handler_requirement list \<Rightarrow> rstring \<Rightarrow> u32 \<Rightarrow> rstring \<Rightarrow> schema_error + unit" where
  "require_handler handlers handler minimum_version path =
     ensure (list_ex (\<lambda>r. hr_id r = handler \<and> hr_minimum_version r \<ge> minimum_version) handlers)
       (InvalidGraph (MissingHandler handler path))"

text \<open>64 lower-case hexadecimal digits.\<close>

definition fingerprint_ok :: "rstring \<Rightarrow> bool" where
  "fingerprint_ok s \<longleftrightarrow> length s = 64 \<and>
     list_all (\<lambda>b. (0x30 \<le> b \<and> b \<le> 0x39) \<or> (0x61 \<le> b \<and> b \<le> 0x66)) s"

fun validate_implementation ::
  "decoder_requirement list \<Rightarrow> handler_requirement list \<Rightarrow> schema_load_limits \<Rightarrow> rstring
    \<Rightarrow> 'j callback_implementation \<Rightarrow> schema_error + unit" where
  "validate_implementation decoders handlers lim path (Declarative _) = Inr ()"
| "validate_implementation decoders handlers lim path UserInterfaceOnly = Inr ()"
| "validate_implementation decoders handlers lim path (BuiltIn operation) =
     bindr (validate_string (op_id operation) lim) (\<lambda>_.
     bindr (ensure (\<not> (blank (op_id operation) \<or> op_minimum_version operation = 0))
       (InvalidGraph EmptyBuiltInOperation)) (\<lambda>_.
     require_handler handlers (op_id operation) (op_minimum_version operation) path))"
| "validate_implementation decoders handlers lim path (PayloadDecoder decoder minimum_version) =
     bindr (validate_string decoder lim) (\<lambda>_.
     bindr (ensure (\<not> (blank decoder \<or> minimum_version = 0)) (InvalidGraph InvalidPayloadDecoder)) (\<lambda>_.
     ensure (list_ex (\<lambda>r. dr_id r = decoder \<and> dr_minimum_version r \<ge> minimum_version) decoders)
       (InvalidGraph (MissingDecoder decoder))))"
| "validate_implementation decoders handlers lim path (CustomHandler handler minimum_version) =
     bindr (validate_string handler lim) (\<lambda>_.
     bindr (ensure (\<not> (blank handler \<or> minimum_version = 0)) (InvalidGraph InvalidCustomHandler)) (\<lambda>_.
     require_handler handlers handler minimum_version path))"

type_synonym binding_key = "rstring \<times> rstring \<times> u32 option"

definition binding_key :: "'j callback_binding \<Rightarrow> binding_key" where
  "binding_key b = (cb_path b, cb_callback_id b, cb_callback_slot b)"

definition validate_binding ::
  "decoder_requirement list \<Rightarrow> handler_requirement list \<Rightarrow> schema_load_limits
    \<Rightarrow> 'j callback_binding \<Rightarrow> binding_key set \<Rightarrow> schema_error + binding_key set" where
  "validate_binding decoders handlers lim b keys =
     bindr (validate_string (cb_path b) lim) (\<lambda>_.
     bindr (validate_string (cb_callback_id b) lim) (\<lambda>_.
     bindr (validate_string (cb_fingerprint b) lim) (\<lambda>_.
     bindr (ensure (\<not> (blank (cb_path b) \<or> blank (cb_callback_id b))) (InvalidGraph EmptyCallbackKey)) (\<lambda>_.
     bindr (ensure (fingerprint_ok (cb_fingerprint b))
       (InvalidGraph (InvalidFingerprint (cb_callback_id b) (cb_path b)))) (\<lambda>_.
     bindr (ensure (binding_key b \<notin> keys)
       (InvalidGraph (DuplicateCallbackBinding (cb_callback_id b) (cb_path b)))) (\<lambda>_.
     bindr (validate_implementation decoders handlers lim (cb_path b) (cb_implementation b)) (\<lambda>_.
     Inr (insert (binding_key b) keys))))))))"

definition validate_callback_bindings ::
  "'j callback_binding list \<Rightarrow> decoder_requirement list \<Rightarrow> handler_requirement list
    \<Rightarrow> schema_load_limits \<Rightarrow> schema_error + unit" where
  "validate_callback_bindings bindings decoders handlers lim =
     bindr (steps (validate_binding decoders handlers lim) bindings {}) (\<lambda>_. Inr ())"

text \<open>The callback a node's selector or element count refers to.\<close>

fun semantic_callback :: "('j, 'n) schema_node_kind \<Rightarrow> rstring option" where
  "semantic_callback (UnionOf (SelCallback callback_id) _) = Some callback_id"
| "semantic_callback (SelectedChoice (SelCallback callback_id) _) = Some callback_id"
| "semantic_callback (ArrayOf _ (CCallback callback_id)) = Some callback_id"
| "semantic_callback _ = None"

fun is_handler :: "'j callback_implementation \<Rightarrow> bool" where
  "is_handler (BuiltIn _) = True"
| "is_handler (CustomHandler _ _) = True"
| "is_handler _ = False"

function validate_semantic_selector_bindings ::
  "'j schema_node \<Rightarrow> 'j callback_binding list \<Rightarrow> schema_error + unit" where
  "validate_semantic_selector_bindings n bindings =
     bindr (case semantic_callback (node_kind n) of
         None \<Rightarrow> Inr ()
       | Some callback_id \<Rightarrow>
           bindr (ok_or (InvalidGraph (SelectorWithoutBinding callback_id (node_path n)))
             (find (\<lambda>b. cb_path b = node_path n \<and> cb_callback_id b = callback_id) bindings)) (\<lambda>b.
           ensure (is_handler (cb_implementation b))
             (InvalidGraph (SelectorNotHandler callback_id (node_path n))))) (\<lambda>_.
     each (\<lambda>c. validate_semantic_selector_bindings c bindings) (children n))"
  by auto
termination by (relation "measure (\<lambda>(n, _). size n)") (auto simp: children_size)

declare validate_semantic_selector_bindings.simps [simp del]

subsection \<open>Nodes\<close>

fun validate_primitive :: "schema_load_limits \<Rightarrow> rstring \<Rightarrow> primitive_type \<Rightarrow> schema_error + unit" where
  "validate_primitive lim path (PFloat width order scale digits) =
     bindr (ensure (f64_is_finite scale \<and> \<not> f64_is_zero scale) (InvalidGraph (FloatScaleInvalid path))) (\<lambda>_.
     ensure (\<not> (digits <s 0 \<and> digits \<noteq> 0x80000000)) (InvalidGraph (FloatDigitsInvalid path)))"
| "validate_primitive lim path (PString st) =
     bindr (validate_string (st_encoding st) lim) (\<lambda>_.
     bindr (ensure (st_encoding st \<noteq> []) (InvalidGraph (EmptyEncoding path))) (\<lambda>_.
     bindr (case st_length_prefix st of
         None \<Rightarrow> Inr ()
       | Some prefix \<Rightarrow>
           bindr (ensure (lp_width prefix \<in> {1, 2, 4}) (InvalidGraph (PrefixWidthInvalid path))) (\<lambda>_.
           bindr (ensure (\<not> lp_offset prefix < lp_width prefix) (InvalidGraph (PrefixOffsetInvalid path))) (\<lambda>_.
           ensure (st_fixed_length st = None) (InvalidGraph (FixedLengthAndPrefix path))))) (\<lambda>_.
     bindr (steps (\<lambda>v seen.
         bindr (validate_string v lim) (\<lambda>_.
         bindr (ensure (v \<noteq> []) (InvalidGraph (EmptyAllowedValue path))) (\<lambda>_.
         bindr (ensure (v \<notin> seen) (InvalidGraph (DuplicateAllowedValue v path))) (\<lambda>_.
         Inr (insert v seen)))))
       (st_allowed_values st) {}) (\<lambda>_.
     Inr ()))))"
| "validate_primitive lim path _ = Inr ()"

definition validate_count_prefix :: "rstring \<Rightarrow> integer_type \<Rightarrow> schema_error + unit" where
  "validate_count_prefix path it =
     bindr (ensure (\<not> it_signed it) (InvalidGraph (SignedArrayPrefix path))) (\<lambda>_.
     ensure (it_width it \<in> {1, 2, 4, 8}) (InvalidGraph (ArrayPrefixWidth path)))"

definition validate_callback_id :: "schema_load_limits \<Rightarrow> rstring \<Rightarrow> graph_reason \<Rightarrow> schema_error + unit" where
  "validate_callback_id lim callback_id reason =
     bindr (validate_string callback_id lim) (\<lambda>_. ensure (\<not> blank callback_id) (InvalidGraph reason))"

fun validate_kind :: "schema_load_limits \<Rightarrow> rstring \<Rightarrow> ('j, 'n) schema_node_kind \<Rightarrow> schema_error + unit" where
  "validate_kind lim path (Primitive p) = validate_primitive lim path p"
| "validate_kind lim path (ArrayOf _ (CPrefixed it _)) = validate_count_prefix path it"
| "validate_kind lim path (ArrayOf _ (CSquaredPrefixed it _)) = validate_count_prefix path it"
| "validate_kind lim path (UnionOf (SelCallback c) _) = validate_callback_id lim c (EmptySelectorCallback path)"
| "validate_kind lim path (SelectedChoice (SelCallback c) _) = validate_callback_id lim c (EmptySelectorCallback path)"
| "validate_kind lim path (ArrayOf _ (CCallback c)) = validate_callback_id lim c (EmptyCountCallback path)"
| "validate_kind lim path (OptionalStruct fs optional_from) =
     ensure (unat optional_from \<le> length fs)
       (InvalidGraph (OptionalIndexExceeds optional_from (length fs) path))"
| "validate_kind lim path _ = Inr ()"

record node_state =
  vs_count :: nat
  vs_ids :: "schema_node_id set"
  vs_paths :: "rstring set"

function validate_node :: "schema_load_limits \<Rightarrow> 'j schema_node \<Rightarrow> nat \<Rightarrow> node_state \<Rightarrow> schema_error + node_state" where
  "validate_node lim n depth st =
     bindr (ensure (depth \<le> maximum_depth lim) (LimitExceeded (SchemaDepth (maximum_depth lim)))) (\<lambda>_.
     let node_count = vs_count st + 1 in
     bindr (ensure (node_count \<le> maximum_nodes lim) (LimitExceeded (SchemaNodeCount (maximum_nodes lim)))) (\<lambda>_.
     bindr (ensure (node_id n \<notin> vs_ids st) (InvalidGraph (DuplicateNodeId (node_id n)))) (\<lambda>_.
     bindr (ensure (node_path n \<notin> vs_paths st) (InvalidGraph (DuplicateNodePath (node_path n)))) (\<lambda>_.
     bindr (ensure (\<not> blank (node_path n)) (InvalidGraph EmptyNodePath)) (\<lambda>_.
     bindr (validate_string (node_path n) lim) (\<lambda>_.
     bindr (validate_string (node_name n) lim) (\<lambda>_.
     bindr (validate_kind lim (node_path n) (node_kind n)) (\<lambda>_.
     steps (\<lambda>c. validate_node lim c (depth + 1)) (children n)
       \<lparr> vs_count = node_count, vs_ids = insert (node_id n) (vs_ids st),
         vs_paths = insert (node_path n) (vs_paths st) \<rparr>))))))))"
  by auto
termination by (relation "measure (\<lambda>(_, n, _, _). size n)") (auto simp: children_size)

declare validate_node.simps [simp del]

subsection \<open>Field order of expressions\<close>

fun validate_expression_fields ::
  "expression \<Rightarrow> rstring set \<Rightarrow> rstring \<Rightarrow> schema_load_limits \<Rightarrow> schema_error + unit" where
  "validate_expression_fields (ReadField path) vis at lim =
     bindr (validate_string path lim) (\<lambda>_. ensure (path \<in> vis) (InvalidGraph (UnavailableField at path)))"
| "validate_expression_fields (Equal l r) vis at lim =
     bindr (validate_expression_fields l vis at lim) (\<lambda>_. validate_expression_fields r vis at lim)"
| "validate_expression_fields (NotEqual l r) vis at lim =
     bindr (validate_expression_fields l vis at lim) (\<lambda>_. validate_expression_fields r vis at lim)"
| "validate_expression_fields (LessThan l r) vis at lim =
     bindr (validate_expression_fields l vis at lim) (\<lambda>_. validate_expression_fields r vis at lim)"
| "validate_expression_fields (EAdd l r) vis at lim =
     bindr (validate_expression_fields l vis at lim) (\<lambda>_. validate_expression_fields r vis at lim)"
| "validate_expression_fields (ESubtract l r) vis at lim =
     bindr (validate_expression_fields l vis at lim) (\<lambda>_. validate_expression_fields r vis at lim)"
| "validate_expression_fields (EMultiply l r) vis at lim =
     bindr (validate_expression_fields l vis at lim) (\<lambda>_. validate_expression_fields r vis at lim)"
| "validate_expression_fields (EDivide l r) vis at lim =
     bindr (validate_expression_fields l vis at lim) (\<lambda>_. validate_expression_fields r vis at lim)"
| "validate_expression_fields (BitSet v _) vis at lim = validate_expression_fields v vis at lim"
| "validate_expression_fields (ENot v) vis at lim = validate_expression_fields v vis at lim"
| "validate_expression_fields (BitCount v) vis at lim = validate_expression_fields v vis at lim"
| "validate_expression_fields (IntegerLookup v cs _) vis at lim =
     bindr (validate_expression_fields v vis at lim) (\<lambda>_.
     ensure (\<not> list_ex (\<lambda>(a, b). \<not> case_input a <s case_input b) (zip cs (tl cs)))
       (InvalidGraph (LookupNotIncreasing at)))"
| "validate_expression_fields (EAnd vs) vis at lim =
     each (\<lambda>v. validate_expression_fields v vis at lim) vs"
| "validate_expression_fields (EOr vs) vis at lim =
     each (\<lambda>v. validate_expression_fields v vis at lim) vs"
| "validate_expression_fields (Select b t f) vis at lim =
     bindr (validate_expression_fields b vis at lim) (\<lambda>_.
     bindr (validate_expression_fields t vis at lim) (\<lambda>_.
     validate_expression_fields f vis at lim))"
| "validate_expression_fields _ vis at lim = Inr ()"

function collect_expression_field_paths :: "'j schema_node \<Rightarrow> rstring set \<Rightarrow> rstring set" where
  "collect_expression_field_paths n paths =
     fold collect_expression_field_paths (children n) (insert (node_path n) paths)"
  by auto
termination by (relation "measure (\<lambda>(n, _). size n)") (auto simp: children_size)

declare collect_expression_field_paths.simps [simp del]

definition validate_selector ::
  "union_selector \<Rightarrow> rstring set \<Rightarrow> rstring \<Rightarrow> schema_load_limits \<Rightarrow> schema_error + unit" where
  "validate_selector sel vis at lim = (case sel of
      SelExpression e \<Rightarrow> validate_expression_fields e vis at lim
    | SelCallback _ \<Rightarrow> Inr ())"

definition validate_count_expression ::
  "array_count \<Rightarrow> rstring set \<Rightarrow> rstring \<Rightarrow> schema_load_limits \<Rightarrow> schema_error + unit" where
  "validate_count_expression cnt vis at lim = (case cnt of
      CExpression e \<Rightarrow> validate_expression_fields e vis at lim
    | _ \<Rightarrow> Inr ())"

lemma node_size_kind [simp]:
  "node_kind n = k \<Longrightarrow> c \<in> set (kind_children k) \<Longrightarrow> size c < size n"
  using children_size [of c n] by (simp add: children_def)

function validate_expression_field_order ::
  "'j schema_node \<Rightarrow> rstring set \<Rightarrow> schema_load_limits \<Rightarrow> schema_error + unit" where
  "validate_expression_field_order n vis lim =
     bindr (case node_condition n of
         None \<Rightarrow> Inr ()
       | Some c \<Rightarrow> validate_expression_fields c vis (node_path n) lim) (\<lambda>_.
     case node_kind n of
       Sequence cs \<Rightarrow>
         bindr (steps (\<lambda>c local. bindr (validate_expression_field_order c local lim) (\<lambda>_.
           Inr (collect_expression_field_paths c local))) cs vis) (\<lambda>_. Inr ())
     | Unordered cs \<Rightarrow>
         (let local = fold collect_expression_field_paths cs vis in
          each (\<lambda>c. validate_expression_field_order c local lim) cs)
     | Choice cs \<Rightarrow> each (\<lambda>c. validate_expression_field_order c vis lim) cs
     | SelectedChoice sel cs \<Rightarrow>
         bindr (validate_selector sel vis (node_path n) lim) (\<lambda>_.
         each (\<lambda>c. validate_expression_field_order c vis lim) cs)
     | Repeat _ _ c \<Rightarrow> validate_expression_field_order c {} lim
     | Subrecord _ c \<Rightarrow> validate_expression_field_order c {} lim
     | CompressedNode _ c \<Rightarrow> validate_expression_field_order c vis lim
     | Terminated _ c \<Rightarrow> validate_expression_field_order c vis lim
     | ArrayOf c cnt \<Rightarrow>
         bindr (validate_count_expression cnt vis (node_path n) lim) (\<lambda>_.
         validate_expression_field_order c vis lim)
     | Struct cs \<Rightarrow>
         bindr (steps (\<lambda>c local. bindr (validate_expression_field_order c local lim) (\<lambda>_.
           Inr (insert (node_path c) local))) cs vis) (\<lambda>_. Inr ())
     | OptionalStruct cs _ \<Rightarrow>
         bindr (steps (\<lambda>c local. bindr (validate_expression_field_order c local lim) (\<lambda>_.
           Inr (insert (node_path c) local))) cs vis) (\<lambda>_. Inr ())
     | UnionOf sel cs \<Rightarrow>
         bindr (validate_selector sel vis (node_path n) lim) (\<lambda>_.
         each (\<lambda>c. validate_expression_field_order c vis lim) cs)
     | _ \<Rightarrow> Inr ())"
  by auto
termination by (relation "measure (\<lambda>(n, _, _). size n)") simp_all

declare validate_expression_field_order.simps [simp del]

subsection \<open>Packages\<close>

record 'j package_payload =
  pp_manifest :: schema_manifest
  pp_records :: "'j schema_record list"
  pp_callback_bindings :: "'j callback_binding list"
  pp_condition_functions :: "condition_function_table option"

record 'j schema_package = "'j package_payload" +
  payload_sha256 :: bytes

definition PACKAGE_FORMAT_VERSION :: u16 where
  "PACKAGE_FORMAT_VERSION = 3"

definition validate_record ::
  "schema_load_limits \<Rightarrow> 'j schema_record \<Rightarrow> schema_signature set \<times> node_state
    \<Rightarrow> schema_error + schema_signature set \<times> node_state" where
  "validate_record lim r = (\<lambda>(signatures, st).
     bindr (ensure (srec_signature r \<notin> signatures) (InvalidGraph (DuplicateRecordSignature (srec_signature r)))) (\<lambda>_.
     bindr (validate_string (srec_name r) lim) (\<lambda>_.
     bindr (validate_node lim (srec_root r) 1 st) (\<lambda>st'.
     bindr (validate_expression_field_order (srec_root r) {} lim) (\<lambda>_.
     Inr (insert (srec_signature r) signatures, st'))))))"

definition validate_decoder_requirement :: "schema_load_limits \<Rightarrow> decoder_requirement \<Rightarrow> schema_error + unit" where
  "validate_decoder_requirement lim d =
     bindr (ensure (\<not> blank (dr_id d)) (InvalidGraph EmptyDecoderId)) (\<lambda>_. validate_string (dr_id d) lim)"

definition validate_handler_requirement :: "schema_load_limits \<Rightarrow> handler_requirement \<Rightarrow> schema_error + unit" where
  "validate_handler_requirement lim h =
     bindr (ensure (\<not> (blank (hr_id h) \<or> hr_minimum_version h = 0)) (InvalidGraph InvalidHandlerRequirement)) (\<lambda>_.
     validate_string (hr_id h) lim)"

definition empty_node_state :: node_state where
  "empty_node_state = \<lparr> vs_count = 0, vs_ids = {}, vs_paths = {} \<rparr>"

definition validate_package :: "('j, 'z) package_payload_scheme \<Rightarrow> schema_load_limits \<Rightarrow> schema_error + unit" where
  "validate_package p lim =
     (let m = pp_manifest p in
      bindr (ensure (sm_format_version m = PACKAGE_FORMAT_VERSION) (UnsupportedVersion (sm_format_version m))) (\<lambda>_.
      bindr (ensure (\<not> (sm_validation_status m = Approved \<and> f64_lt_one (sm_byte_coverage m)))
        (InvalidGraph ApprovedWithoutCoverage)) (\<lambda>_.
      bindr (ensure (sm_callbacks_classified m = sm_callbacks_total m) (InvalidGraph CallbacksUnclassified)) (\<lambda>_.
      bindr (ensure (length (pp_callback_bindings p) = unat (sm_callbacks_total m))
        (InvalidGraph (CallbackBindingCount (length (pp_callback_bindings p)) (sm_callbacks_total m)))) (\<lambda>_.
      bindr (ensure (length (pp_records p) \<le> maximum_records lim)
        (LimitExceeded (RecordCount (length (pp_records p)) (maximum_records lim)))) (\<lambda>_.
      bindr (validate_condition_function_table (pp_condition_functions p) lim) (\<lambda>_.
      bindr (steps (validate_record lim) (pp_records p) ({}, empty_node_state)) (\<lambda>_.
      bindr (each (validate_decoder_requirement lim) (sm_required_decoders m)) (\<lambda>_.
      bindr (each (validate_handler_requirement lim) (sm_required_handlers m)) (\<lambda>_.
      bindr (validate_callback_bindings (pp_callback_bindings p) (sm_required_decoders m)
        (sm_required_handlers m) lim) (\<lambda>_.
      each (\<lambda>r. validate_semantic_selector_bindings (srec_root r) (pp_callback_bindings p)) (pp_records p)
      )))))))))))"

end
