(* ===== verification/SchemaIndex.thy ===== *)
theory SchemaIndex
  imports SchemaModel
begin

text \<open>
  \<open>bethkit-schema/src/node_index.rs\<close>: the routes from the root of a record's schema to its nodes.
  The hash map of routes is a partial map; a route is the list of child positions from the root.
\<close>

subsection \<open>The index\<close>

type_synonym node_index = "rstring \<rightharpoonup> nat list"

text \<open>\<open>entry(path).or_insert_with(route)\<close>: the first route recorded for a path stays.\<close>

definition or_insert :: "rstring \<Rightarrow> nat list \<Rightarrow> node_index \<Rightarrow> node_index" where
  "or_insert p route m = (case m p of None \<Rightarrow> m(p \<mapsto> route) | Some _ \<Rightarrow> m)"

function collect :: "'j schema_node \<Rightarrow> nat list \<Rightarrow> node_index \<Rightarrow> node_index" where
  "collect n route m =
     fold (\<lambda>(i, c). collect c (route @ [i])) (enumerate 0 (children n)) (or_insert (node_path n) route m)"
  by auto
termination
  by (relation "measure (\<lambda>(n, _, _). size n)") (auto simp: children_size dest!: in_set_enumerate_eq [THEN iffD1] intro!: nth_mem)

declare collect.simps [simp del]

definition node_index_new :: "'j schema_node \<Rightarrow> node_index" where
  "node_index_new root = collect root [] Map.empty"

fun walk :: "nat list \<Rightarrow> 'j schema_node \<Rightarrow> 'j schema_node option" where
  "walk [] n = Some n"
| "walk (i # is') n = (if i < length (children n) then walk is' (children n ! i) else None)"

definition node_index_get :: "node_index \<Rightarrow> 'j schema_node \<Rightarrow> rstring \<Rightarrow> 'j schema_node option" where
  "node_index_get ix root path = (case ix path of None \<Rightarrow> None | Some route \<Rightarrow> walk route root)"

subsection \<open>Equivalence with a search of the tree\<close>

text \<open>The nodes of a tree in preorder, each with its route.\<close>

function placed :: "'j schema_node \<Rightarrow> nat list \<Rightarrow> ('j schema_node \<times> nat list) list" where
  "placed n route =
     (n, route) # concat (map (\<lambda>(i, c). placed c (route @ [i])) (enumerate 0 (children n)))"
  by auto
termination
  by (relation "measure (\<lambda>(n, _). size n)") (auto simp: children_size dest!: in_set_enumerate_eq [THEN iffD1] intro!: nth_mem)

declare placed.simps [simp del]

lemma find_append: "find P (xs @ ys) = (case find P xs of None \<Rightarrow> find P ys | Some x \<Rightarrow> Some x)"
  by (induction xs) simp_all

lemma find_map_fst: "find P (map fst xs) = map_option fst (find (P \<circ> fst) xs)"
  by (induction xs) simp_all

lemma enumerate_child: "(i, c) \<in> set (enumerate 0 xs) \<longleftrightarrow> i < length xs \<and> xs ! i = c"
  by (auto simp: in_set_enumerate_eq)

lemma enumerate_mem: "(i, c) \<in> set (enumerate k xs) \<Longrightarrow> c \<in> set xs"
  by (auto simp: in_set_enumerate_eq intro!: nth_mem)

lemma map_fst_placed: "map fst (placed n route) = preorder n"
proof (induction n arbitrary: route rule: preorder.induct)
  case (1 n)
  have "map (\<lambda>(i, c). map fst (placed c (route @ [i]))) (enumerate k xs) = map preorder xs"
    if "set xs \<subseteq> set (children n)" for k xs
    using that 1 by (induction xs arbitrary: k) auto
  from this [of "children n" 0] show ?case
    by (subst placed.simps, subst preorder.simps) (simp add: map_concat comp_def case_prod_unfold)
qed

lemma placed_walk: "(x, q) \<in> set (placed n route) \<Longrightarrow> \<exists>s. q = route @ s \<and> walk s n = Some x"
proof (induction n arbitrary: route x q rule: preorder.induct)
  case (1 n)
  from "1.prems" consider "x = n" "q = route"
    | i where "i < length (children n)" "(x, q) \<in> set (placed (children n ! i) (route @ [i]))"
    by (subst (asm) placed.simps) (auto simp: enumerate_child)
  then show ?case
  proof cases
    case 2
    then obtain s where "q = (route @ [i]) @ s" "walk s (children n ! i) = Some x"
      using "1.IH" [OF nth_mem] by blast
    then show ?thesis using 2(1) by (intro exI [of _ "i # s"]) simp
  qed simp
qed

lemma collect_lookup:
  "collect n route m p = (case m p of Some r \<Rightarrow> Some r
     | None \<Rightarrow> map_option snd (find ((\<lambda>x. node_path x = p) \<circ> fst) (placed n route)))"
proof (induction n arbitrary: route m rule: preorder.induct)
  case (1 n)
  let ?P = "(\<lambda>x. node_path x = p) \<circ> fst"
  have "fold (\<lambda>(i, c). collect c (route @ [i])) (enumerate k xs) m' p = (case m' p of Some r \<Rightarrow> Some r
      | None \<Rightarrow> map_option snd (find ?P (concat (map (\<lambda>(i, c). placed c (route @ [i])) (enumerate k xs)))))"
    if "set xs \<subseteq> set (children n)" for k xs m'
    using that by (induction xs arbitrary: k m') (auto simp: find_append 1 split: option.splits)
  from this [of "children n" 0 "or_insert (node_path n) route m"] show ?case
    by (subst collect.simps, subst placed.simps) (auto simp: or_insert_def split: option.splits)
qed

text \<open>
  The index of a tree answers as a search does: for every path, known or not, unique or not, the node
  found through the recorded route is the first node of the tree, in declaration order, that has the
  path.
\<close>

lemma node_index_search:
  "node_index_get (node_index_new root) root path = find (\<lambda>n. node_path n = path) (preorder root)"
proof -
  have "find (\<lambda>n. node_path n = path) (preorder root)
      = map_option fst (find ((\<lambda>x. node_path x = path) \<circ> fst) (placed root []))"
    by (simp add: map_fst_placed [of root "[]", symmetric] find_map_fst)
  moreover have "walk q root = Some x" if "find P (placed root []) = Some (x, q)" for P x q
    using that placed_walk [of x q root "[]"] by (auto simp: find_Some_iff dest: nth_mem)
  ultimately show ?thesis
    by (auto simp: node_index_get_def node_index_new_def collect_lookup split: option.splits)
qed

end
