(* ===== verification/SchemaLaws.thy ===== *)
theory SchemaLaws
  imports SchemaPackages SchemaIndex
begin

text \<open>
  What validation guarantees: identifiers and paths are unique over all records, sizes and depths
  are bounded, expressions read only fields that are in their scope.
\<close>

subsection \<open>Uniqueness and bounds\<close>

text \<open>The validation state after the nodes \<open>ns\<close> have been accepted one after the other.\<close>

definition grown :: "'j schema_node list \<Rightarrow> node_state \<Rightarrow> node_state \<Rightarrow> bool" where
  "grown ns st st' \<longleftrightarrow>
     vs_count st' = vs_count st + length ns \<and>
     vs_ids st' = vs_ids st \<union> node_id ` set ns \<and> vs_ids st \<inter> node_id ` set ns = {} \<and>
     distinct (map node_id ns) \<and>
     vs_paths st' = vs_paths st \<union> node_path ` set ns \<and> vs_paths st \<inter> node_path ` set ns = {} \<and>
     distinct (map node_path ns)"

lemma grown_refl [simp]: "grown [] st st"
  by (simp add: grown_def)

lemma grown_trans:
  assumes "grown xs a b" "grown ys b c" shows "grown (xs @ ys) a c"
  using assms unfolding grown_def by (auto simp: disjoint_iff)

lemma grown_one:
  assumes "node_id n \<notin> vs_ids st" "node_path n \<notin> vs_paths st"
  shows "grown [n] st \<lparr> vs_count = vs_count st + 1, vs_ids = insert (node_id n) (vs_ids st),
     vs_paths = insert (node_path n) (vs_paths st) \<rparr>"
  using assms by (simp add: grown_def)

lemma grown_steps:
  assumes "\<And>x s s'. x \<in> set xs \<Longrightarrow> f x s = Inr s' \<Longrightarrow> grown (g x) (h s) (h s')" "steps f xs s = Inr s'"
  shows "grown (concat (map g xs)) (h s) (h s')"
  using assms
proof (induction xs arbitrary: s)
  case (Cons x xs)
  then obtain t where t: "f x s = Inr t" "steps f xs t = Inr s'" by (auto simp: bindr_eq_Inr)
  have "grown (g x) (h s) (h t)" using Cons.prems(1) t(1) by simp
  moreover have "grown (concat (map g xs)) (h t) (h s')" using Cons.IH [OF _ t(2)] Cons.prems(1) by simp
  ultimately show ?case by (simp add: grown_trans)
qed simp

text \<open>The height of a tree, counted in nodes.\<close>

function height :: "'j schema_node \<Rightarrow> nat" where
  "height n = Suc (fold max (map height (children n)) 0)"
  by auto
termination by (relation "measure size") (auto simp: children_size)

declare height.simps [simp del]

lemma fold_max_le: "fold max xs (m :: nat) \<le> k \<longleftrightarrow> m \<le> k \<and> (\<forall>x \<in> set xs. x \<le> k)"
  by (induction xs arbitrary: m) auto

lemma height_le: "height n \<le> Suc k \<longleftrightarrow> (\<forall>c \<in> set (children n). height c \<le> k)"
  by (subst height.simps) (auto simp: fold_max_le)

lemma validate_node_step:
  "validate_node lim n depth st = Inr st' \<Longrightarrow>
     depth \<le> maximum_depth lim \<and> vs_count st + 1 \<le> maximum_nodes lim \<and>
     node_id n \<notin> vs_ids st \<and> node_path n \<notin> vs_paths st \<and> \<not> blank (node_path n) \<and>
     length (node_path n) \<le> maximum_string_bytes lim \<and>
     validate_kind lim (node_path n) (node_kind n) = Inr () \<and>
     steps (\<lambda>c. validate_node lim c (depth + 1)) (children n)
       \<lparr> vs_count = vs_count st + 1, vs_ids = insert (node_id n) (vs_ids st),
         vs_paths = insert (node_path n) (vs_paths st) \<rparr> = Inr st'"
  by (subst (asm) validate_node.simps) (auto simp: bindr_eq_Inr Let_def validate_string_def)

lemma validate_node_grown: "validate_node lim n depth st = Inr st' \<Longrightarrow> grown (preorder n) st st'"
proof (induction n arbitrary: depth st st' rule: preorder.induct)
  case (1 n)
  note s = validate_node_step [OF "1.prems"]
  have "grown (concat (map preorder (children n))) (id \<lparr> vs_count = vs_count st + 1,
      vs_ids = insert (node_id n) (vs_ids st), vs_paths = insert (node_path n) (vs_paths st) \<rparr>) (id st')"
    using s "1.IH" by (intro grown_steps [of "children n" "\<lambda>c. validate_node lim c (depth + 1)" preorder id]) auto
  from grown_trans [OF grown_one this [unfolded id_apply]] show ?case
    using s by (subst preorder.simps) simp
qed

lemma steps_each:
  assumes "steps f xs s = Inr s'" "x \<in> set xs" shows "\<exists>t t'. f x t = Inr t'"
  using assms by (induction xs arbitrary: s) (auto simp: bindr_eq_Inr)

lemma validate_node_height: "validate_node lim n depth st = Inr st' \<Longrightarrow> depth + height n \<le> Suc (maximum_depth lim)"
proof (induction n arbitrary: depth st st' rule: preorder.induct)
  case (1 n)
  note s = validate_node_step [OF "1.prems"]
  have "height c \<le> maximum_depth lim - depth" if c: "c \<in> set (children n)" for c
  proof -
    have "\<exists>t t'. validate_node lim c (depth + 1) t = Inr t'"
      using s by (auto dest!: steps_each [OF _ c])
    then show ?thesis using "1.IH" [OF c] by fastforce
  qed
  then have "height n \<le> Suc (maximum_depth lim - depth)" by (simp add: height_le)
  moreover have "depth \<le> maximum_depth lim" using s by blast
  ultimately show ?case by linarith
qed

lemma validate_node_count:
  "validate_node lim n depth st = Inr st' \<Longrightarrow> vs_count st' \<le> maximum_nodes lim"
proof (induction n arbitrary: depth st st' rule: preorder.induct)
  case (1 n)
  note s = validate_node_step [OF "1.prems"]
  have "vs_count t' \<le> maximum_nodes lim"
    if "set xs \<subseteq> set (children n)" "steps (\<lambda>c. validate_node lim c (depth + 1)) xs t = Inr t'"
      "vs_count t \<le> maximum_nodes lim" for xs t t'
    using that by (induction xs arbitrary: t) (auto simp: bindr_eq_Inr dest: "1.IH")
  then show ?case using s by (metis order_refl node_state.select_convs(1))
qed

subsection \<open>The order of expressions and fields\<close>

fun kind_expressions :: "('j, 'n) schema_node_kind \<Rightarrow> expression list" where
  "kind_expressions (SelectedChoice (SelExpression e) _) = [e]"
| "kind_expressions (UnionOf (SelExpression e) _) = [e]"
| "kind_expressions (ArrayOf _ (CExpression e)) = [e]"
| "kind_expressions _ = []"

lemma kind_expressions_selector:
  "kind_expressions (SelectedChoice sel cs) = (case sel of SelExpression e \<Rightarrow> [e] | SelCallback _ \<Rightarrow> [])"
  "kind_expressions (UnionOf sel cs) = (case sel of SelExpression e \<Rightarrow> [e] | SelCallback _ \<Rightarrow> [])"
  "kind_expressions (ArrayOf c cnt) = (case cnt of CExpression e \<Rightarrow> [e] | _ \<Rightarrow> [])"
  by (cases sel; simp)+ (cases cnt; simp)

text \<open>The expressions the decoder evaluates at a node: its condition, selector and element count.\<close>

definition node_expressions :: "'j schema_node \<Rightarrow> expression list" where
  "node_expressions n = (case node_condition n of None \<Rightarrow> [] | Some e \<Rightarrow> [e]) @ kind_expressions (node_kind n)"

subsubsection \<open>What an expression must satisfy\<close>

text \<open>The tables of the lookups of an expression; their inputs have to increase strictly, as signed integers.\<close>

fun lookup_tables :: "expression \<Rightarrow> integer_lookup_case list set" where
  "lookup_tables (Equal l r) = lookup_tables l \<union> lookup_tables r"
| "lookup_tables (NotEqual l r) = lookup_tables l \<union> lookup_tables r"
| "lookup_tables (LessThan l r) = lookup_tables l \<union> lookup_tables r"
| "lookup_tables (BitSet v b) = lookup_tables v"
| "lookup_tables (EAnd vs) = (\<Union>v \<in> set vs. lookup_tables v)"
| "lookup_tables (EOr vs) = (\<Union>v \<in> set vs. lookup_tables v)"
| "lookup_tables (ENot v) = lookup_tables v"
| "lookup_tables (EAdd l r) = lookup_tables l \<union> lookup_tables r"
| "lookup_tables (ESubtract l r) = lookup_tables l \<union> lookup_tables r"
| "lookup_tables (EMultiply l r) = lookup_tables l \<union> lookup_tables r"
| "lookup_tables (EDivide l r) = lookup_tables l \<union> lookup_tables r"
| "lookup_tables (BitCount v) = lookup_tables v"
| "lookup_tables (IntegerLookup v cs d) = insert cs (lookup_tables v)"
| "lookup_tables (Select b t f) = lookup_tables b \<union> lookup_tables t \<union> lookup_tables f"
| "lookup_tables _ = {}"

definition increasing_cases :: "integer_lookup_case list \<Rightarrow> bool" where
  "increasing_cases cs = sorted_wrt (\<lambda>a b. case_input a <s case_input b) cs"

text \<open>An expression is good where the fields \<open>vis\<close> are visible.\<close>

definition expression_scoped :: "schema_load_limits \<Rightarrow> rstring set \<Rightarrow> expression \<Rightarrow> bool" where
  "expression_scoped lim vis e \<longleftrightarrow>
     (\<forall>q \<in> read_fields e. q \<in> vis \<and> length q \<le> maximum_string_bytes lim) \<and>
     (\<forall>cs \<in> lookup_tables e. increasing_cases cs)"

lemma increasing_adjacent:
  "increasing_cases cs \<longleftrightarrow> \<not> list_ex (\<lambda>(a, b). \<not> case_input a <s case_input b) (zip cs (tl cs))"
proof -
  have tr: "transp (\<lambda>a b. case_input a <s case_input b)"
    by (auto simp: transp_def word_sless_alt)
  show ?thesis unfolding increasing_cases_def
    by (induction cs rule: induct_list012) (simp_all only: sorted_wrt2 [OF tr], simp_all)
qed

lemma expression_scoped_fields:
  "validate_expression_fields e vis at lim = Inr () \<longleftrightarrow> expression_scoped lim vis e"
  by (induction e vis at lim rule: validate_expression_fields.induct)
     (auto simp: bindr_eq_Inr expression_scoped_def validate_string_def increasing_adjacent)

subsubsection \<open>The scope of a position\<close>

text \<open>
  The paths a node opens to its child at position \<open>i\<close>: a sequence those of the whole trees of the
  children before it, a structure those of the fields before it (not of what is inside them), an
  unordered group those of the trees of all its children. A choice opens none of its alternatives to
  the others.
\<close>

fun opened_by :: "('j, 'j schema_node) schema_node_kind \<Rightarrow> nat \<Rightarrow> rstring set" where
  "opened_by (Sequence cs) i = (\<Union>c \<in> set (take i cs). node_path ` set (preorder c))"
| "opened_by (Unordered cs) i = (\<Union>c \<in> set cs. node_path ` set (preorder c))"
| "opened_by (Struct cs) i = node_path ` set (take i cs)"
| "opened_by (OptionalStruct cs _) i = node_path ` set (take i cs)"
| "opened_by _ i = {}"

text \<open>A repetition and a subrecord start with nothing visible.\<close>

fun closes :: "('j, 'n) schema_node_kind \<Rightarrow> bool" where
  "closes (Repeat _ _ _) = True"
| "closes (Subrecord _ _) = True"
| "closes _ = False"

text \<open>
  A path is in scope at the end of a route when a node on the way opens it to the child the route goes
  on with, and no repetition or subrecord lies between. Nothing here mentions the validation.
\<close>

definition in_scope :: "'j schema_node \<Rightarrow> nat list \<Rightarrow> rstring \<Rightarrow> bool" where
  "in_scope root route q \<longleftrightarrow> (\<exists>j < length route. \<exists>a.
     walk (take j route) root = Some a \<and> q \<in> opened_by (node_kind a) (route ! j) \<and>
     (\<forall>k b. j < k \<and> k < length route \<and> walk (take k route) root = Some b \<longrightarrow> \<not> closes (node_kind b)))"

definition scoped :: "schema_load_limits \<Rightarrow> 'j schema_node \<Rightarrow> bool" where
  "scoped lim root \<longleftrightarrow> (\<forall>route n. walk route root = Some n \<longrightarrow>
     (\<forall>e \<in> set (node_expressions n). expression_scoped lim {q. in_scope root route q} e))"

text \<open>No node of a route but its last one is a repetition or a subrecord.\<close>

definition unclosed :: "'j schema_node \<Rightarrow> nat list \<Rightarrow> bool" where
  "unclosed n s \<longleftrightarrow> (\<forall>k < length s. \<forall>b. walk (take k s) n = Some b \<longrightarrow> \<not> closes (node_kind b))"

lemma unclosed_Cons:
  "i < length (children n) \<Longrightarrow> unclosed n (i # s) \<longleftrightarrow> \<not> closes (node_kind n) \<and> unclosed (children n ! i) s"
  by (simp add: unclosed_def All_less_Suc2)

lemma in_scope_Nil: "\<not> in_scope n [] q"
  by (simp add: in_scope_def)

lemma in_scope_Cons:
  assumes "i < length (children n)"
  shows "in_scope n (i # s) q \<longleftrightarrow>
    in_scope (children n ! i) s q \<or> q \<in> opened_by (node_kind n) i \<and> unclosed (children n ! i) s"
proof -
  have all: "(\<forall>k b. j < k \<and> k < length (i # s) \<and> walk (take k (i # s)) n = Some b \<longrightarrow> P b) \<longleftrightarrow>
      (\<forall>k b. j \<le> k \<and> k < length s \<and> walk (take k s) (children n ! i) = Some b \<longrightarrow> P b)" for j P
  proof (intro iffI allI impI; elim conjE)
    fix k b assume P: "\<forall>k b. j < k \<and> k < length (i # s) \<and> walk (take k (i # s)) n = Some b \<longrightarrow> P b"
      and "j \<le> k" "k < length s" "walk (take k s) (children n ! i) = Some b"
    then show "P b" using P [rule_format, of "Suc k" b] assms by simp
  next
    fix k b assume P: "\<forall>k b. j \<le> k \<and> k < length s \<and> walk (take k s) (children n ! i) = Some b \<longrightarrow> P b"
      and "j < k" "k < length (i # s)" "walk (take k (i # s)) n = Some b"
    then show "P b" using P [rule_format, of "k - 1" b] assms by (cases k) auto
  qed
  show ?thesis unfolding in_scope_def all unclosed_def
    using assms by (simp add: Ex_less_Suc2 Suc_le_eq) blast
qed

subsubsection \<open>The validation computes the scopes\<close>

lemma fold_union: "(\<And>x s. x \<in> set xs \<Longrightarrow> f x s = s \<union> g x) \<Longrightarrow> fold f xs s = s \<union> (\<Union>x \<in> set xs. g x)"
  by (induction xs arbitrary: s) auto

lemma collected_paths: "collect_expression_field_paths n vis = vis \<union> node_path ` set (preorder n)"
proof (induction n arbitrary: vis rule: preorder.induct)
  case (1 n)
  show ?case
    by (subst collect_expression_field_paths.simps, subst preorder.simps, subst fold_union [OF "1.IH"])
       auto
qed

text \<open>The set the validation carries to the child at position \<open>i\<close>, and along a route.\<close>

definition carried :: "'j schema_node \<Rightarrow> nat \<Rightarrow> rstring set \<Rightarrow> rstring set" where
  "carried n i vis = (if closes (node_kind n) then {} else vis \<union> opened_by (node_kind n) i)"

fun carried_along :: "'j schema_node \<Rightarrow> nat list \<Rightarrow> rstring set \<Rightarrow> rstring set" where
  "carried_along n [] vis = vis"
| "carried_along n (i # s) vis = carried_along (children n ! i) s (carried n i vis)"

lemma steps_carried:
  assumes "\<And>c l. h c l = l \<union> g c"
  shows "(\<exists>s. steps (\<lambda>c l. bindr (f c l) (\<lambda>_. Inr (h c l))) cs vis = Inr s) \<longleftrightarrow>
     (\<forall>i < length cs. f (cs ! i) (vis \<union> (\<Union>c \<in> set (take i cs). g c)) = Inr ())"
proof -
  have h: "h = (\<lambda>c l. l \<union> g c)" using assms by (simp add: fun_eq_iff)
  show ?thesis unfolding h
  proof (induction cs arbitrary: vis)
    case (Cons c cs)
    show ?case using Cons.IH [of "vis \<union> g c"]
      by (cases "f c vis") (simp_all add: All_less_Suc2 Un_assoc)
  qed simp
qed

lemma opened_steps: "(\<Union>c \<in> set (take i cs). {node_path c}) = node_path ` set (take i cs)"
  by auto

lemma validate_expression_field_order_step:
  "validate_expression_field_order n vis lim = Inr () \<longleftrightarrow>
     (\<forall>e \<in> set (node_expressions n). expression_scoped lim vis e) \<and>
     (\<forall>i < length (children n). validate_expression_field_order (children n ! i) (carried n i vis) lim = Inr ())"
proof -
  let ?v = "\<lambda>c l. validate_expression_field_order c l lim"
  have seq: "(\<exists>s. steps (\<lambda>c l. bindr (?v c l) (\<lambda>_. Inr (collect_expression_field_paths c l))) cs vis = Inr s) \<longleftrightarrow>
      (\<forall>i < length cs. ?v (cs ! i) (vis \<union> (\<Union>c \<in> set (take i cs). node_path ` set (preorder c))) = Inr ())" for cs
    by (rule steps_carried) (rule collected_paths)
  have str: "(\<exists>s. steps (\<lambda>c l. bindr (?v c l) (\<lambda>_. Inr (insert (node_path c) l))) cs vis = Inr s) \<longleftrightarrow>
      (\<forall>i < length cs. ?v (cs ! i) (vis \<union> node_path ` set (take i cs)) = Inr ())" for cs
    unfolding opened_steps [symmetric] by (rule steps_carried) simp
  have uno: "fold collect_expression_field_paths cs vis = vis \<union> (\<Union>c \<in> set cs. node_path ` set (preorder c))" for cs
    by (rule fold_union) (rule collected_paths)
  show ?thesis
    unfolding validate_expression_field_order.simps [of n] node_expressions_def children_def carried_def
    by (cases "node_condition n"; cases "node_kind n")
       (auto simp: bindr_eq_Inr kind_expressions_selector validate_selector_def Let_def uno
          validate_count_expression_def expression_scoped_fields seq [simplified] str [simplified] all_set_conv_all_nth
          split: union_selector.splits array_count.splits)
qed

lemma validate_along:
  "validate_expression_field_order n vis lim = Inr () \<longleftrightarrow>
     (\<forall>s x. walk s n = Some x \<longrightarrow> (\<forall>e \<in> set (node_expressions x). expression_scoped lim (carried_along n s vis) e))"
proof (induction n arbitrary: vis rule: preorder.induct)
  case (1 n)
  have split: "(\<forall>s x. walk s n = Some x \<longrightarrow> P s x) \<longleftrightarrow>
      P [] n \<and> (\<forall>i < length (children n). \<forall>s x. walk s (children n ! i) = Some x \<longrightarrow> P (i # s) x)" for P
  proof (intro iffI conjI allI impI)
    fix s x assume "P [] n \<and> (\<forall>i < length (children n). \<forall>s x. walk s (children n ! i) = Some x \<longrightarrow> P (i # s) x)" "walk s n = Some x"
    then show "P s x" by (cases s) (auto split: if_splits)
  qed auto
  show ?case
    unfolding validate_expression_field_order_step [of n] split using "1.IH" [OF nth_mem] by simp
qed

lemma carried_along_scope:
  "walk s n = Some x \<Longrightarrow> carried_along n s vis = {q. in_scope n s q \<or> q \<in> vis \<and> unclosed n s}"
proof (induction s arbitrary: n vis)
  case Nil
  then show ?case by (simp add: in_scope_Nil unclosed_def)
next
  case (Cons i s)
  then have i: "i < length (children n)" and w: "walk s (children n ! i) = Some x" by (auto split: if_splits)
  have none: "closes (node_kind n) \<Longrightarrow> opened_by (node_kind n) i = {}" by (cases "node_kind n") simp_all
  show ?case
    unfolding carried_along.simps Cons.IH [OF w] in_scope_Cons [OF i] unclosed_Cons [OF i] carried_def
    using none by auto
qed

lemma field_order_scoped: "validate_expression_field_order root {} lim = Inr () \<longleftrightarrow> scoped lim root"
  unfolding validate_along scoped_def using carried_along_scope [of _ root _ "{}"] by (metis (no_types, lifting) Collect_cong empty_iff)

subsection \<open>Packages\<close>

definition package_nodes :: "('j, 'z) package_payload_scheme \<Rightarrow> 'j schema_node list" where
  "package_nodes p = concat (map (\<lambda>r. preorder (srec_root r)) (pp_records p))"

lemma validate_record_step:
  "validate_record lim r s = Inr s' \<longleftrightarrow>
     srec_signature r \<notin> fst s \<and> length (srec_name r) \<le> maximum_string_bytes lim \<and>
     validate_node lim (srec_root r) 1 (snd s) = Inr (snd s') \<and>
     validate_expression_field_order (srec_root r) {} lim = Inr () \<and>
     fst s' = insert (srec_signature r) (fst s)"
  by (cases s; cases s') (auto simp: validate_record_def bindr_eq_Inr validate_string_def)

lemma validated_signatures:
  "steps (validate_record lim) rs s = Inr s' \<Longrightarrow>
     distinct (map srec_signature rs) \<and> fst s \<inter> srec_signature ` set rs = {} \<and> finite (set rs)"
proof (induction rs arbitrary: s)
  case (Cons r rs)
  then obtain t where "validate_record lim r s = Inr t" "steps (validate_record lim) rs t = Inr s'"
    by (auto simp: bindr_eq_Inr)
  then show ?case using Cons.IH [of t] by (auto simp: validate_record_step)
qed simp

lemma validated_package_records:
  assumes "validate_package p lim = Inr ()"
  obtains s where "steps (validate_record lim) (pp_records p) ({}, empty_node_state) = Inr s"
  using assms by (auto simp: validate_package_def Let_def bindr_eq_Inr)

lemma validated_record:
  assumes "validate_package p lim = Inr ()" "r \<in> set (pp_records p)"
  shows "\<exists>st st'. validate_node lim (srec_root r) 1 st = Inr st'"
    and "validate_expression_field_order (srec_root r) {} lim = Inr ()"
proof -
  obtain s where "steps (validate_record lim) (pp_records p) ({}, empty_node_state) = Inr s"
    using assms(1) by (rule validated_package_records)
  then have "\<exists>t t'. validate_record lim r t = Inr t'" using assms(2) by (rule steps_each)
  then show "\<exists>st st'. validate_node lim (srec_root r) 1 st = Inr st'"
    "validate_expression_field_order (srec_root r) {} lim = Inr ()"
    by (auto simp: validate_record_step)
qed

lemma validated_records_grown:
  assumes "steps (validate_record lim) rs s = Inr s'"
  shows "grown (concat (map (\<lambda>r. preorder (srec_root r)) rs)) (snd s) (snd s')"
  by (rule grown_steps [OF _ assms, of "\<lambda>r. preorder (srec_root r)" snd])
     (auto simp: validate_record_step intro: validate_node_grown)

lemma validated_unique:
  assumes "validate_package p lim = Inr ()"
  shows "distinct (map srec_signature (pp_records p))"
    and "distinct (map node_id (package_nodes p))" and "distinct (map node_path (package_nodes p))"
proof -
  obtain s where s: "steps (validate_record lim) (pp_records p) ({}, empty_node_state) = Inr s"
    using assms by (rule validated_package_records)
  show "distinct (map srec_signature (pp_records p))" using validated_signatures [OF s] by blast
  show "distinct (map node_id (package_nodes p))" "distinct (map node_path (package_nodes p))"
    using validated_records_grown [OF s] by (simp_all add: grown_def package_nodes_def)
qed

lemma steps_last_count:
  assumes "steps (validate_record lim) rs s = Inr s'" "vs_count (snd s) \<le> maximum_nodes lim"
  shows "vs_count (snd s') \<le> maximum_nodes lim"
  using assms
  by (induction rs arbitrary: s) (auto simp: bindr_eq_Inr validate_record_step dest: validate_node_count)

lemma validated_node_total:
  assumes "validate_package p lim = Inr ()"
  shows "length (package_nodes p) \<le> maximum_nodes lim"
proof -
  obtain s where s: "steps (validate_record lim) (pp_records p) ({}, empty_node_state) = Inr s"
    using assms by (rule validated_package_records)
  have "vs_count (snd s) \<le> maximum_nodes lim"
    using steps_last_count [OF s] by (simp add: empty_node_state_def)
  then show ?thesis
    using validated_records_grown [OF s] by (simp add: grown_def package_nodes_def empty_node_state_def)
qed

text \<open>
  C21: a package that passes validation has one record per signature; the identifiers and
  the paths of its nodes are unique over all its records; the package has no more nodes than the
  limit and no tree is higher than the limit.
\<close>

theorem validated_package_graph:
  assumes "validate_package p lim = Inr ()"
  shows "distinct (map srec_signature (pp_records p)) \<and>
    distinct (map node_id (package_nodes p)) \<and> distinct (map node_path (package_nodes p)) \<and>
    length (package_nodes p) \<le> maximum_nodes lim \<and>
    (\<forall>r \<in> set (pp_records p). height (srec_root r) \<le> maximum_depth lim)"
proof -
  have "height (srec_root r) \<le> maximum_depth lim" if r: "r \<in> set (pp_records p)" for r
    using validated_record(1) [OF assms r] validate_node_height by fastforce
  then show ?thesis using validated_unique [OF assms] validated_node_total [OF assms] by blast
qed

text \<open>
  C23: the validation of the expressions of a tree is exactly their scoping. A record's tree is
  accepted if and only if every condition, selector and element count in it reads only fields that
  are declared in its scope, with paths within the string limit, and looks values up only in tables
  with strictly increasing inputs. In scope at a node are the paths that an enclosing sequence,
  structure or unordered group opens to it with no repetition or subrecord between: an expression
  cannot read its own node, a later field of a sequence or structure, a field inside an earlier field
  of a structure, a field of another alternative of a choice, or anything outside the repetition or
  subrecord it is in. (A scope is one of declarations: a field of an earlier choice or an optional
  field is in scope whether or not it is decoded, and a sibling in an unordered group wherever it
  stands.) Every record of a package that passes validation is scoped so.
\<close>

theorem expression_scopes_exact:
  "(validate_expression_field_order root {} lim = Inr () \<longleftrightarrow> scoped lim root) \<and>
   (validate_package p lim = Inr () \<longrightarrow> (\<forall>r \<in> set (pp_records p). scoped lim (srec_root r)))"
  by (auto simp: field_order_scoped intro: field_order_scoped [THEN iffD1, OF validated_record(2)])

subsection \<open>A sample package\<close>

text \<open>
  One record whose payload is a counted array: the element count of the second field reads the first
  field, the shape of the counted arrays of the shipped schemas.
\<close>

definition sample_node :: "nat \<Rightarrow> rstring \<Rightarrow> (unit, unit schema_node) schema_node_kind \<Rightarrow> unit schema_node" where
  "sample_node i path k = SchemaNode (SchemaNodeId (of_nat i)) path path True Normal None k"

definition u8_type :: integer_type where
  "u8_type = \<lparr> it_width = 1, it_signed = False, it_byte_order = LittleEndian \<rparr>"

definition sample_count :: "unit schema_node" where
  "sample_count = sample_node 1 [0x54, 0x2F, 0x6E] (Primitive (PInteger u8_type))"

definition sample_element :: "unit schema_node" where
  "sample_element = sample_node 3 [0x54, 0x2F, 0x65] (Primitive (PInteger u8_type))"

definition sample_array :: "unit schema_node" where
  "sample_array = sample_node 2 [0x54, 0x2F, 0x61] (ArrayOf sample_element (CExpression (ReadField [0x54, 0x2F, 0x6E])))"

definition sample_root :: "unit schema_node" where
  "sample_root = sample_node 0 [0x54] (Struct [sample_count, sample_array])"

definition sample_schema_record :: "unit schema_record" where
  "sample_schema_record = \<lparr> srec_signature = Signature 0x54 0x45 0x53 0x54, srec_name = [0x54], srec_root = sample_root \<rparr>"

definition sample_manifest :: schema_manifest where
  "sample_manifest = \<lparr> sm_format_version = 3, sm_game = GSkyrimSe, sm_package_version = [],
     sm_source_repository = [], sm_source_tag = [], sm_source_commit = [], sm_source_archive_sha256 = [],
     sm_exporter_version = [], sm_exporter_binary_sha256 = [], sm_exporter_map_sha256 = [],
     sm_exporter_patch_sha256 = [], sm_exporter_build_sha256 = [], sm_conversion_rules_sha256 = [],
     sm_minimum_bethkit_version = [], sm_minimum_abi_version = 0, sm_validation_status = Candidate,
     sm_corpus_sha256 = [], sm_validated_records = 0, sm_byte_coverage = 0, sm_callbacks_total = 0,
     sm_callbacks_classified = 0, sm_required_decoders = [], sm_required_handlers = [] \<rparr>"

definition sample_package :: "unit package_payload" where
  "sample_package = \<lparr> pp_manifest = sample_manifest, pp_records = [sample_schema_record],
     pp_callback_bindings = [], pp_condition_functions = None \<rparr>"

lemmas tree_simps =
  validate_node.simps [of _ "SchemaNode i p nm r pr co k" for i p nm r pr co k]
  validate_expression_field_order.simps [of "SchemaNode i p nm r pr co k" for i p nm r pr co k]
  validate_semantic_selector_bindings.simps [of "SchemaNode i p nm r pr co k" for i p nm r pr co k]
  preorder.simps [of "SchemaNode i p nm r pr co k" for i p nm r pr co k]

lemmas sample_defs = sample_package_def sample_manifest_def sample_schema_record_def sample_root_def
  sample_array_def sample_element_def sample_count_def sample_node_def u8_type_def

lemma sample_valid: "validate_package sample_package default_limits = Inr ()"
  by (simp add: sample_defs validate_package_def tree_simps children_def validate_record_def
      empty_node_state_def default_limits_def validate_string_def ensure_def PACKAGE_FORMAT_VERSION_def
      validate_condition_function_table_def validate_callback_bindings_def validate_count_expression_def Let_def)

lemma sample_nodes: "preorder sample_root = [sample_root, sample_count, sample_array, sample_element]"
  by (simp add: sample_defs tree_simps children_def)

theorem validated_package_graph_witness:
  "length (package_nodes sample_package) = 4 \<and> distinct (map node_path (package_nodes sample_package)) \<and>
   length (package_nodes sample_package) \<le> 1000000"
  using validated_package_graph [OF sample_valid] sample_nodes
  by (simp add: default_limits_def package_nodes_def sample_package_def sample_schema_record_def)

text \<open>The sample with the array before its count.\<close>

definition swapped_root :: "unit schema_node" where
  "swapped_root = sample_node 0 [0x54] (Struct [sample_array, sample_count])"

theorem expression_scopes_exact_witness:
  "scoped default_limits sample_root \<and> \<not> scoped default_limits swapped_root"
proof -
  have "scoped default_limits (srec_root sample_schema_record)"
    using expression_scopes_exact [of sample_root default_limits sample_package] sample_valid
    by (simp add: sample_package_def)
  moreover have "validate_expression_field_order swapped_root {} default_limits \<noteq> Inr ()"
    by (simp add: swapped_root_def sample_array_def sample_node_def sample_count_def sample_element_def tree_simps
        validate_count_expression_def ensure_def default_limits_def validate_string_def)
  ultimately show ?thesis
    using expression_scopes_exact [of swapped_root default_limits sample_package]
    by (simp add: sample_schema_record_def)
qed
text \<open>
  An approved package is meant to have complete byte coverage, but the test \<open>byte_coverage < 1.0\<close> is
  false of NaN: a package approved with NaN coverage is accepted.
\<close>

lemma approved_nan_accepted:
  "validate_package (sample_package \<lparr> pp_manifest := sample_manifest
     \<lparr> sm_validation_status := Approved, sm_byte_coverage := 0x7FF8000000000000 \<rparr> \<rparr>) default_limits = Inr ()"
  by (simp add: sample_defs validate_package_def tree_simps children_def validate_record_def
      empty_node_state_def default_limits_def validate_string_def ensure_def PACKAGE_FORMAT_VERSION_def
      validate_condition_function_table_def validate_callback_bindings_def validate_count_expression_def
      f64_lt_one_def f64_is_nan_def f64_magnitude_def Let_def)

end
