(* ===== verification/SchemaRegistry.thy ===== *)
theory SchemaRegistry
  imports SchemaLaws OrderedMaps
begin

text \<open>
  \<open>bethkit-schema/src/registry.rs\<close>: the registry that indexes the records, nodes and callbacks of one
  package, and the catalog of packages by game; with the binary frames of \<open>package.rs\<close>. CBOR and
  SHA-256 are third-party code: \<open>encode\<close>, \<open>decode\<close> and \<open>sha256\<close> are parameters. An \<open>OnceLock\<close> that is
  initialised by a pure function of an immutable package is that function.
\<close>

unbundle bit_operations_syntax

subsection \<open>The registry\<close>

record 'j schema_registry =
  reg_package :: "'j schema_package"
  record_indices :: "(schema_signature \<times> nat) list"

definition registry_new :: "'j schema_package \<Rightarrow> 'j schema_registry" where
  "registry_new p = \<lparr> reg_package = p,
     record_indices = fold (\<lambda>(i, r). om_insert (srec_signature r) i) (enumerate 0 (pp_records p)) [] \<rparr>"

text \<open>\<open>records().get(index)\<close>.\<close>

definition nth_get :: "nat \<Rightarrow> 'a list \<Rightarrow> 'a option" where
  "nth_get i xs = (if i < length xs then Some (xs ! i) else None)"

definition registry_get :: "'j schema_registry \<Rightarrow> schema_signature \<Rightarrow> 'j schema_record option" where
  "registry_get reg sg = (case map_of (record_indices reg) sg of
      None \<Rightarrow> None
    | Some i \<Rightarrow> nth_get i (pp_records (reg_package reg)))"

definition registry_get_node :: "'j schema_registry \<Rightarrow> schema_signature \<Rightarrow> rstring \<Rightarrow> 'j schema_node option" where
  "registry_get_node reg sg path = (case registry_get reg sg of
      None \<Rightarrow> None
    | Some r \<Rightarrow> node_index_get (node_index_new (srec_root r)) (srec_root r) path)"

definition registry_len :: "'j schema_registry \<Rightarrow> nat" where
  "registry_len reg = length (record_indices reg)"

definition registry_is_empty :: "'j schema_registry \<Rightarrow> bool" where
  "registry_is_empty reg \<longleftrightarrow> record_indices reg = []"

text \<open>The callback index: for every path the positions of its bindings, in declaration order.\<close>

definition callback_indices :: "'j callback_binding list \<Rightarrow> rstring \<rightharpoonup> nat list" where
  "callback_indices bindings =
     fold (\<lambda>(i, b) m. m(cb_path b \<mapsto> (case m (cb_path b) of None \<Rightarrow> [] | Some is' \<Rightarrow> is') @ [i]))
       (enumerate 0 bindings) Map.empty"

definition callbacks_at :: "'j schema_registry \<Rightarrow> rstring \<Rightarrow> 'j callback_binding list" where
  "callbacks_at reg path =
     (let bindings = pp_callback_bindings (reg_package reg) in
      case callback_indices bindings path of
        None \<Rightarrow> []
      | Some is' \<Rightarrow> map (\<lambda>i. bindings ! i) is')"

lemma record_indices_load:
  "record_indices (registry_new p) = btree.load (map (\<lambda>(i, r). (srec_signature r, i)) (enumerate 0 (pp_records p)))"
  by (simp add: registry_new_def btree.load_def foldl_conv_fold fold_map comp_def case_prod_unfold)

lemma registry_get_Some:
  assumes d: "distinct (map srec_signature (pp_records p))"
  shows "registry_get (registry_new p) sg = Some r \<longleftrightarrow> r \<in> set (pp_records p) \<and> srec_signature r = sg"
proof -
  let ?rs = "pp_records p"
  let ?kvs = "map (\<lambda>(i, r). (srec_signature r, i)) (enumerate 0 ?rs)"
  have keys: "map fst ?kvs = map srec_signature ?rs"
    by (rule nth_equalityI) (simp_all add: nth_enumerate_eq)
  then have dk: "distinct (map fst ?kvs)" using d by simp
  have look: "map_of (record_indices (registry_new p)) sg = Some i \<longleftrightarrow> i < length ?rs \<and> srec_signature (?rs ! i) = sg" for i
  proof -
    have "map_of (record_indices (registry_new p)) = map_of ?kvs"
      by (simp only: record_indices_load btree.lookup_load map_of_rev_distinct [OF dk])
    moreover have "(sg, i) \<in> set ?kvs \<longleftrightarrow> (i, ?rs ! i) \<in> set (enumerate 0 ?rs) \<and> srec_signature (?rs ! i) = sg"
      by (force simp: in_set_enumerate_eq)
    ultimately show ?thesis by (simp add: map_of_eq_Some_iff [OF dk] in_set_enumerate_eq)
  qed
  have "reg_package (registry_new p) = p" by (simp add: registry_new_def)
  then show ?thesis
    by (auto simp: registry_get_def nth_get_def look in_set_conv_nth split: option.splits)
       (metis look option.distinct(1), metis d distinct_map inj_on_contraD look nth_mem option.sel)
qed

lemma find_unique:
  "distinct (map f xs) \<Longrightarrow> find (\<lambda>x. f x = v) xs = Some n \<longleftrightarrow> n \<in> set xs \<and> f n = v"
  by (induction xs) (auto simp: image_iff)

lemma record_paths_distinct:
  assumes "validate_package p lim = Inr ()" "r \<in> set (pp_records p)"
  shows "distinct (map node_path (preorder (srec_root r)))"
proof -
  have "map node_path (package_nodes p) = concat (map (\<lambda>r. map node_path (preorder (srec_root r))) (pp_records p))"
    by (simp add: package_nodes_def map_concat comp_def)
  then show ?thesis using validated_unique(3) [OF assms(1)] assms(2)
    by (force dest: distinct_concat_iff [THEN iffD1])
qed

text \<open>
  C22: in the registry of a validated package a lookup by signature and path finds a node exactly when a
  record of that signature contains a node with that path, and then finds that node.
\<close>

theorem registry_node_exact:
  assumes "validate_package p lim = Inr ()"
  shows "registry_get_node (registry_new p) sg path = Some n \<longleftrightarrow>
    (\<exists>r \<in> set (pp_records p). srec_signature r = sg \<and> n \<in> set (preorder (srec_root r)) \<and> node_path n = path)"
proof -
  note get = registry_get_Some [OF validated_unique(1) [OF assms], of sg]
  have look: "node_index_get (node_index_new (srec_root r)) (srec_root r) path = Some n \<longleftrightarrow>
      n \<in> set (preorder (srec_root r)) \<and> node_path n = path" if "r \<in> set (pp_records p)" for r
    using find_unique [OF record_paths_distinct [OF assms that]] by (simp add: node_index_search)
  show ?thesis
  proof (cases "registry_get (registry_new p) sg")
    case None
    then show ?thesis using get by (auto simp: registry_get_node_def)
  next
    case (Some r)
    then have "r' = r" if "r' \<in> set (pp_records p)" "srec_signature r' = sg" for r'
      using get [of r'] that by simp
    moreover have "r \<in> set (pp_records p) \<and> srec_signature r = sg" using get Some by blast
    ultimately show ?thesis using look Some by (auto simp: registry_get_node_def)
  qed
qed

lemma callback_indices_from:
  "fold (\<lambda>(i, b) m. m(cb_path b \<mapsto> (case m (cb_path b) of None \<Rightarrow> [] | Some is' \<Rightarrow> is') @ [i])) (enumerate k bs) m p
   = (let l = map fst (filter (\<lambda>(i, b). cb_path b = p) (enumerate k bs)) in
      if l = [] then m p else Some ((case m p of None \<Rightarrow> [] | Some is' \<Rightarrow> is') @ l))"
  by (induction bs arbitrary: k m) (auto simp: Let_def)

lemma filter_enumerate_nth:
  "map (\<lambda>i. xs ! (i - k)) (map fst (filter (\<lambda>(i, b). P b) (enumerate k xs))) = filter P xs"
proof -
  have "map snd (filter (\<lambda>(i, b). P b) (enumerate k xs)) = filter P xs"
    by (induction xs arbitrary: k) auto
  moreover have "map (\<lambda>i. xs ! (i - k)) (map fst (filter (\<lambda>(i, b). P b) (enumerate k xs)))
      = map snd (filter (\<lambda>(i, b). P b) (enumerate k xs))"
    by (auto simp: in_set_enumerate_eq)
  ultimately show ?thesis by simp
qed

text \<open>
  The callbacks at a path, looked up through the index, are the bindings of the package with that
  path, all of them and in the order of their declaration.
\<close>

lemma callbacks_at_exact:
  "callbacks_at (registry_new p) path = filter (\<lambda>b. cb_path b = path) (pp_callback_bindings p)"
  using filter_enumerate_nth [of "pp_callback_bindings p" 0 "\<lambda>b. cb_path b = path"]
  by (auto simp: callbacks_at_def callback_indices_def callback_indices_from registry_new_def Let_def)

subsection \<open>Package frames\<close>

definition PACKAGE_MAGIC :: bytes where
  "PACKAGE_MAGIC = ascii ''BKSC''"

definition BUNDLE_MAGIC :: bytes where
  "BUNDLE_MAGIC = ascii ''BKCT''"

definition payload_of :: "'j schema_package \<Rightarrow> 'j package_payload" where
  "payload_of p = \<lparr> pp_manifest = pp_manifest p, pp_records = pp_records p,
     pp_callback_bindings = pp_callback_bindings p, pp_condition_functions = pp_condition_functions p \<rparr>"

definition package_of :: "'j package_payload \<Rightarrow> bytes \<Rightarrow> 'j schema_package" where
  "package_of pl h = \<lparr> pp_manifest = pp_manifest pl, pp_records = pp_records pl,
     pp_callback_bindings = pp_callback_bindings pl, pp_condition_functions = pp_condition_functions pl,
     payload_sha256 = h \<rparr>"

type_synonym 'j cbor_encode = "'j package_payload \<Rightarrow> string + bytes"
type_synonym 'j cbor_decode = "bytes \<Rightarrow> string + 'j package_payload"

definition encode_package_payload :: "'j cbor_encode \<Rightarrow> 'j schema_package \<Rightarrow> schema_error + bytes" where
  "encode_package_payload encode p = map_err CborEncode (encode (payload_of p))"

definition new_with_semantics ::
  "'j cbor_encode \<Rightarrow> (bytes \<Rightarrow> bytes) \<Rightarrow> schema_manifest \<Rightarrow> 'j schema_record list
    \<Rightarrow> 'j callback_binding list \<Rightarrow> condition_function_table option \<Rightarrow> schema_error + 'j schema_package" where
  "new_with_semantics encode sha256 m rs bs tab =
     (let p = \<lparr> pp_manifest = m, pp_records = rs, pp_callback_bindings = bs,
                pp_condition_functions = tab, payload_sha256 = replicate 32 0 \<rparr> in
      bindr (validate_package p default_limits) (\<lambda>_.
      bindr (encode_package_payload encode p) (\<lambda>encoded.
      Inr (p \<lparr> payload_sha256 := sha256 encoded \<rparr>))))"

definition from_bytes_with_limits ::
  "'j cbor_decode \<Rightarrow> (bytes \<Rightarrow> bytes) \<Rightarrow> bytes \<Rightarrow> schema_load_limits \<Rightarrow> schema_error + 'j schema_package" where
  "from_bytes_with_limits decode sha256 bs lim =
     bindr (ensure (length bs \<le> maximum_package_bytes lim)
       (LimitExceeded (PackageBytes (length bs) (maximum_package_bytes lim)))) (\<lambda>_.
     bindr (ensure (\<not> (length bs < 48 \<or> take 4 bs \<noteq> PACKAGE_MAGIC)) InvalidMagic) (\<lambda>_.
     let version = le_word (slice 4 6 bs) in
     bindr (ensure (version = PACKAGE_FORMAT_VERSION) (UnsupportedVersion version)) (\<lambda>_.
     let payload_length = unat (le_word (slice 8 16 bs) :: u64) in
     bindr (ok_or (LimitExceeded PayloadLengthOverflowed) (checked_add 48 payload_length)) (\<lambda>expected_end.
     bindr (ensure (expected_end = length bs)
       (InvalidGraph (HeaderDeclares payload_length (length bs - 48)))) (\<lambda>_.
     let expected_hash = slice 16 48 bs; payload_bytes = drop 48 bs in
     bindr (ensure (expected_hash = sha256 payload_bytes) HashMismatch) (\<lambda>_.
     bindr (map_err CborDecode (decode payload_bytes)) (\<lambda>pl.
     let p = package_of pl (sha256 payload_bytes) in
     bindr (validate_package p lim) (\<lambda>_. Inr p))))))))"

definition to_bytes :: "'j cbor_encode \<Rightarrow> (bytes \<Rightarrow> bytes) \<Rightarrow> 'j schema_package \<Rightarrow> schema_error + bytes" where
  "to_bytes encode sha256 p =
     bindr (validate_package p default_limits) (\<lambda>_.
     bindr (encode_package_payload encode p) (\<lambda>pl.
     Inr (PACKAGE_MAGIC @ le_bytes 2 PACKAGE_FORMAT_VERSION @ le_bytes 2 (0 :: u16)
       @ le_bytes 8 (of_nat (length pl) :: u64) @ sha256 pl @ pl)))"

text \<open>
  What is relied on of the third-party code. \<open>ciborium::de::from_reader\<close> reads with a documented
  recursion limit of 256. Of the payloads whose encoding nests that deep at most, decoding inverts
  encoding; the encoding of a deeper one, which \<open>into_writer\<close> writes without a limit, is refused. How
  deep a payload nests is decided by the derived serialisation and is a parameter. A SHA-256 digest
  has 32 bytes.
\<close>

type_synonym 'j cbor_nesting = "'j package_payload \<Rightarrow> nat"

definition CBOR_RECURSION_LIMIT :: nat where
  "CBOR_RECURSION_LIMIT = 256"

definition codec_ok ::
  "'j cbor_nesting \<Rightarrow> 'j cbor_encode \<Rightarrow> 'j cbor_decode \<Rightarrow> (bytes \<Rightarrow> bytes) \<Rightarrow> bool" where
  "codec_ok nesting encode decode sha256 \<longleftrightarrow>
     (\<forall>pl bs. encode pl = Inr bs \<longrightarrow>
        (if nesting pl \<le> CBOR_RECURSION_LIMIT then decode bs = Inr pl else \<exists>e. decode bs = Inl e)) \<and>
     (\<forall>bs. length (sha256 bs) = 32)"

lemma package_of_payload: "package_of (payload_of p) h = p \<lparr> payload_sha256 := h \<rparr>"
  by (simp add: package_of_def payload_of_def)

lemma validate_package_payload:
  "validate_package (package_of (payload_of p) h) lim = validate_package p lim"
  by (simp add: validate_package_def package_of_def payload_of_def)

lemma unat_of_nat_u64: "n < 18446744073709551616 \<Longrightarrow> unat (of_nat n :: u64) = n"
  by (simp only: unat_of_nat take_bit_eq_mod) simp

lemma frame_fields:
  assumes "length m = 4" "length h = 32"
    and bs: "bs = m @ le_bytes 2 (v :: u16) @ le_bytes 2 (z :: u16) @ le_bytes 8 (n :: u64) @ h @ pl"
  shows "length bs = 48 + length pl" "take 4 bs = m" "le_word (slice 4 6 bs) = v"
    "le_word (slice 8 16 bs) = n" "slice 16 48 bs = h" "drop 48 bs = pl"
  using assms by (simp_all add: slice_def)

text \<open>Reading back what \<open>to_bytes\<close> wrote gets as far as decoding the payload it encoded.\<close>

lemma from_bytes_written:
  assumes sha: "\<And>bs. length (sha256 bs) = 32" and bs: "to_bytes encode sha256 p = Inr bs"
    and small: "length bs \<le> maximum_package_bytes default_limits"
  shows "\<exists>pl. encode (payload_of p) = Inr pl \<and> validate_package p default_limits = Inr () \<and>
    from_bytes_with_limits decode sha256 bs default_limits =
      bindr (map_err CborDecode (decode pl)) (\<lambda>d. let q = package_of d (sha256 pl) in
      bindr (validate_package q default_limits) (\<lambda>_. Inr q))"
proof -
  obtain pl where v: "validate_package p default_limits = Inr ()" and e: "encode (payload_of p) = Inr pl"
    and frame: "bs = PACKAGE_MAGIC @ le_bytes 2 PACKAGE_FORMAT_VERSION @ le_bytes 2 (0 :: u16)
       @ le_bytes 8 (of_nat (length pl) :: u64) @ sha256 pl @ pl"
    using bs by (auto simp: to_bytes_def encode_package_payload_def bindr_eq_Inr)
  have m: "length PACKAGE_MAGIC = 4" by (simp add: PACKAGE_MAGIC_def)
  note ff = frame_fields [OF m sha frame]
  have n: "length pl \<le> 67108864" using small ff(1) by (simp add: default_limits_def)
  then have u: "unat (of_nat (length pl) :: u64) = length pl" by (simp add: unat_of_nat_u64)
  show ?thesis
    using e v small n unfolding from_bytes_with_limits_def Let_def ff u
    by (simp add: ensure_def checked_add_def usize_max_def)
qed

lemma package_roundtrip:
  assumes ok: "codec_ok nesting encode decode sha256" and bs: "to_bytes encode sha256 p = Inr bs"
    and small: "length bs \<le> maximum_package_bytes default_limits"
  shows "\<exists>pl. encode (payload_of p) = Inr pl \<and>
    (if nesting (payload_of p) \<le> CBOR_RECURSION_LIMIT
     then from_bytes_with_limits decode sha256 bs default_limits = Inr (p \<lparr> payload_sha256 := sha256 pl \<rparr>)
     else \<exists>e. from_bytes_with_limits decode sha256 bs default_limits = Inl (CborDecode e))"
proof -
  have sha: "length (sha256 bs) = 32" for bs using ok by (simp add: codec_ok_def)
  obtain pl where e: "encode (payload_of p) = Inr pl" and v: "validate_package p default_limits = Inr ()"
    and r: "from_bytes_with_limits decode sha256 bs default_limits =
      bindr (map_err CborDecode (decode pl)) (\<lambda>d. let q = package_of d (sha256 pl) in
      bindr (validate_package q default_limits) (\<lambda>_. Inr q))"
    using from_bytes_written [OF sha bs small] by blast
  have d: "if nesting (payload_of p) \<le> CBOR_RECURSION_LIMIT then decode pl = Inr (payload_of p)
      else \<exists>x. decode pl = Inl x"
    using ok e by (simp add: codec_ok_def)
  show ?thesis
    using d e by (auto simp: r Let_def validate_package_payload v package_of_payload [symmetric])
qed

end
