(* ===== verification/SchemaCatalog.thy ===== *)
theory SchemaCatalog
  imports SchemaRegistry
begin

text \<open>
  The catalog of \<open>bethkit-schema/src/registry.rs\<close> and the catalog bundles of \<open>package.rs\<close>. The map
  from games to packages is an ordered association list; \<open>Arc\<close> shares an immutable package and is
  the package.
\<close>

unbundle bit_operations_syntax

subsection \<open>Bundles\<close>

definition package_game :: "'j schema_package \<Rightarrow> schema_game" where
  "package_game p = sm_game (pp_manifest p)"

definition encode_entry ::
  "'j cbor_encode \<Rightarrow> (bytes \<Rightarrow> bytes) \<Rightarrow> 'j schema_package \<Rightarrow> schema_game set \<times> bytes list
    \<Rightarrow> schema_error + schema_game set \<times> bytes list" where
  "encode_entry encode sha256 p = (\<lambda>(games, out).
     bindr (ensure (package_game p \<notin> games) (InvalidGraph (DuplicateGamePackage (package_game p)))) (\<lambda>_.
     bindr (to_bytes encode sha256 p) (\<lambda>bs.
     Inr (insert (package_game p) games, out @ [bs]))))"

definition bundle_entry :: "bytes \<Rightarrow> bytes" where
  "bundle_entry bs = le_bytes 8 (of_nat (length bs) :: u64) @ bs"

definition encode_bundle ::
  "'j cbor_encode \<Rightarrow> (bytes \<Rightarrow> bytes) \<Rightarrow> 'j schema_package list \<Rightarrow> schema_error + bytes" where
  "encode_bundle encode sha256 packages =
     bindr (steps (encode_entry encode sha256) (sort_key package_game packages) ({}, [])) (\<lambda>(_, encoded).
     bindr (ensure (length encoded < 2 ^ 32) (LimitExceeded TooManyPackageEntries)) (\<lambda>_.
     Inr (BUNDLE_MAGIC @ le_bytes 2 PACKAGE_FORMAT_VERSION @ le_bytes 2 (0 :: u16)
       @ le_bytes 4 (of_nat (length encoded) :: u32) @ concat (map bundle_entry encoded))))"

fun decode_entries ::
  "'j cbor_decode \<Rightarrow> (bytes \<Rightarrow> bytes) \<Rightarrow> schema_load_limits \<Rightarrow> bytes \<Rightarrow> nat \<Rightarrow> nat \<Rightarrow> 'j schema_package list
    \<Rightarrow> schema_error + nat \<times> 'j schema_package list" where
  "decode_entries decode sha256 lim bs 0 offset packages = Inr (offset, packages)"
| "decode_entries decode sha256 lim bs (Suc k) offset packages =
     bindr (ok_or (InvalidGraph BundleOffsetOverflowed) (checked_add offset 8)) (\<lambda>length_end.
     bindr (ok_or (InvalidGraph BundleEndedBeforeLength) (get_range (offset, length_end) bs)) (\<lambda>length_bytes.
     let len = unat (le_word length_bytes :: u64) in
     bindr (ok_or (InvalidGraph BundleEntryOverflowed) (checked_add length_end len)) (\<lambda>package_end.
     bindr (ok_or (InvalidGraph BundleEndedInsideEntry) (get_range (length_end, package_end) bs)) (\<lambda>package_bytes.
     bindr (from_bytes_with_limits decode sha256 package_bytes lim) (\<lambda>p.
     decode_entries decode sha256 lim bs k package_end (packages @ [p]))))))"

definition decode_bundle ::
  "'j cbor_decode \<Rightarrow> (bytes \<Rightarrow> bytes) \<Rightarrow> bytes \<Rightarrow> schema_load_limits \<Rightarrow> schema_error + 'j schema_package list" where
  "decode_bundle decode sha256 bs lim =
     bindr (ensure (\<not> (length bs < 12 \<or> take 4 bs \<noteq> BUNDLE_MAGIC)) InvalidMagic) (\<lambda>_.
     let version = le_word (slice 4 6 bs) in
     bindr (ensure (version = PACKAGE_FORMAT_VERSION) (UnsupportedVersion version)) (\<lambda>_.
     bindr (decode_entries decode sha256 lim bs (unat (le_word (slice 8 12 bs) :: u32)) 12 []) (\<lambda>(offset, packages).
     bindr (ensure (offset = length bs) (InvalidGraph BundleTrailingBytes)) (\<lambda>_.
     Inr packages))))"

subsection \<open>The catalog\<close>

type_synonym 'j schema_catalog = "(schema_game \<times> 'j schema_package) list"

definition catalog_new :: "'j schema_catalog" where
  "catalog_new = []"

definition catalog_insert :: "'j schema_package \<Rightarrow> 'j schema_catalog \<Rightarrow> schema_error + 'j schema_catalog" where
  "catalog_insert p c =
     bindr (ensure (map_of c (package_game p) = None) (InvalidGraph (CatalogAlreadyContains (package_game p)))) (\<lambda>_.
     Inr (om_insert (package_game p) p c))"

definition catalog_get :: "'j schema_catalog \<Rightarrow> game \<Rightarrow> 'j schema_package option" where
  "catalog_get c g = map_of c (schema_game_of g)"

definition catalog_require :: "'j schema_catalog \<Rightarrow> game \<Rightarrow> schema_error + 'j schema_package" where
  "catalog_require c g = ok_or (MissingGame (schema_game_of g)) (catalog_get c g)"

definition catalog_len :: "'j schema_catalog \<Rightarrow> nat" where
  "catalog_len c = length c"

definition catalog_is_empty :: "'j schema_catalog \<Rightarrow> bool" where
  "catalog_is_empty c \<longleftrightarrow> c = []"

definition from_bundle_bytes ::
  "'j cbor_decode \<Rightarrow> (bytes \<Rightarrow> bytes) \<Rightarrow> bytes \<Rightarrow> schema_error + 'j schema_catalog" where
  "from_bundle_bytes decode sha256 bs =
     bindr (decode_bundle decode sha256 bs default_limits) (\<lambda>packages. steps catalog_insert packages catalog_new)"

text \<open>
  \<open>load_embedded\<close> over the two constants the build script generates, and the process-wide cell that
  keeps the first successful load.
\<close>

definition load_embedded ::
  "'j cbor_decode \<Rightarrow> (bytes \<Rightarrow> bytes) \<Rightarrow> bytes option \<Rightarrow> bytes list \<Rightarrow> schema_error + 'j schema_catalog" where
  "load_embedded decode sha256 embedded_bundle embedded_packages = (case embedded_bundle of
      Some bs \<Rightarrow> from_bundle_bytes decode sha256 bs
    | None \<Rightarrow>
        (if embedded_packages = [] then Inl EmbeddedUnavailable
         else steps (\<lambda>bs c. bindr (from_bytes_with_limits decode sha256 bs default_limits) (\<lambda>p. catalog_insert p c))
           embedded_packages catalog_new))"

definition embedded ::
  "'j cbor_decode \<Rightarrow> (bytes \<Rightarrow> bytes) \<Rightarrow> bytes option \<Rightarrow> bytes list \<Rightarrow> 'j schema_catalog option
    \<Rightarrow> (schema_error + 'j schema_catalog) \<times> 'j schema_catalog option" where
  "embedded decode sha256 embedded_bundle embedded_packages cell = (case cell of
      Some c \<Rightarrow> (Inr c, cell)
    | None \<Rightarrow> (case load_embedded decode sha256 embedded_bundle embedded_packages of
        Inl e \<Rightarrow> (Inl e, None)
      | Inr c \<Rightarrow> (Inr c, Some c)))"

subsection \<open>Round trip\<close>

text \<open>A package as \<open>new_with_semantics\<close> builds it: its digest is that of its encoded payload.\<close>

definition sealed :: "'j cbor_encode \<Rightarrow> (bytes \<Rightarrow> bytes) \<Rightarrow> 'j schema_package \<Rightarrow> bool" where
  "sealed encode sha256 p \<longleftrightarrow> (\<forall>pl. encode (payload_of p) = Inr pl \<longrightarrow> payload_sha256 p = sha256 pl)"

lemma new_with_semantics_sealed:
  "new_with_semantics encode sha256 m rs bs tab = Inr p \<Longrightarrow>
     sealed encode sha256 p \<and> validate_package p default_limits = Inr ()"
  by (auto simp: new_with_semantics_def Let_def bindr_eq_Inr sealed_def encode_package_payload_def
      payload_of_def validate_package_def)

lemma sealed_roundtrip:
  assumes "codec_ok nesting encode decode sha256" "to_bytes encode sha256 p = Inr bs" "sealed encode sha256 p"
    and "length bs \<le> maximum_package_bytes default_limits"
  shows "if nesting (payload_of p) \<le> CBOR_RECURSION_LIMIT
    then from_bytes_with_limits decode sha256 bs default_limits = Inr p
    else \<exists>e. from_bytes_with_limits decode sha256 bs default_limits = Inl (CborDecode e)"
  using package_roundtrip [OF assms(1,2,4)] assms(3) by (auto simp: sealed_def)

lemma encode_entry_step:
  "encode_entry encode sha256 p (games, out) = Inr s \<longleftrightarrow>
     (\<exists>e. package_game p \<notin> games \<and> to_bytes encode sha256 p = Inr e \<and> s = (insert (package_game p) games, out @ [e]))"
  by (auto simp: encode_entry_def bindr_eq_Inr)

lemma encode_entries:
  "steps (encode_entry encode sha256) ps (games, out) = Inr (games', out') \<Longrightarrow>
     \<exists>es. out' = out @ es \<and> list_all2 (\<lambda>p e. to_bytes encode sha256 p = Inr e) ps es \<and>
       distinct (map package_game ps) \<and> games \<inter> package_game ` set ps = {}"
proof (induction ps arbitrary: games out)
  case (Cons p ps)
  then obtain e where e: "package_game p \<notin> games" "to_bytes encode sha256 p = Inr e"
      "steps (encode_entry encode sha256) ps (insert (package_game p) games, out @ [e]) = Inr (games', out')"
    by (auto simp: encode_entry_step bindr_eq_Inr)
  from Cons.IH [OF e(3)] obtain es where "out' = (out @ [e]) @ es"
      "list_all2 (\<lambda>p e. to_bytes encode sha256 p = Inr e) ps es" "distinct (map package_game ps)"
      "insert (package_game p) games \<inter> package_game ` set ps = {}" by blast
  then show ?case using e by (intro exI [of _ "e # es"]) auto
qed simp

text \<open>One encoded entry is read by the loader of a package, and the rest from where it ends.\<close>

lemma decode_entries_entry:
  assumes "length e < 2 ^ 64" "length (pre @ bundle_entry e @ rest) \<le> usize_max"
  shows "decode_entries decode sha256 lim (pre @ bundle_entry e @ rest) (Suc k) (length pre) acc =
    bindr (from_bytes_with_limits decode sha256 e lim) (\<lambda>p.
      decode_entries decode sha256 lim (pre @ bundle_entry e @ rest) k (length (pre @ bundle_entry e)) (acc @ [p]))"
proof -
  let ?n = "le_bytes 8 (of_nat (length e) :: u64)"
  let ?all = "pre @ ?n @ e @ rest"
  have all: "pre @ bundle_entry e @ rest = ?all" by (simp add: bundle_entry_def)
  have len: "length ?all \<le> usize_max" using assms(2) unfolding all .
  have u: "unat (of_nat (length e) :: u64) = length e" using assms(1) by (simp add: unat_of_nat_u64)
  have r1: "get_range (length pre, length pre + 8) ?all = Some ?n"
    using slice_in_append' [of "length pre" pre 8 ?n "e @ rest"] by (simp add: get_range_def)
  have r2: "get_range (length pre + 8, length pre + 8 + length e) ?all = Some e"
    using slice_in_append' [of "length pre + 8" "pre @ ?n" "length e" e rest] by (simp add: get_range_def)
  have c: "checked_add (length pre) 8 = Some (length pre + 8)"
    "checked_add (length pre + 8) (length e) = Some (length pre + 8 + length e)"
    using len by (simp_all add: checked_add_def)
  show ?thesis unfolding all
    by (simp only: decode_entries.simps c r1 r2 ok_or_simps bindr_simps Let_def le_word_le_bytes_widths u)
       (simp add: bundle_entry_def add.assoc)
qed

lemma decode_entries_encoded:
  assumes "list_all2 (\<lambda>p e. from_bytes_with_limits decode sha256 e lim = Inr p \<and> length e < 2 ^ 64) ps es"
    and "length (pre @ concat (map bundle_entry es) @ post) \<le> usize_max"
  shows "decode_entries decode sha256 lim (pre @ concat (map bundle_entry es) @ post) (length es) (length pre) acc
    = Inr (length pre + length (concat (map bundle_entry es)), acc @ ps)"
  using assms
proof (induction ps es arbitrary: pre acc rule: list_all2_induct)
  case (Cons p ps e es)
  let ?rest = "concat (map bundle_entry es) @ post"
  have "decode_entries decode sha256 lim ((pre @ bundle_entry e) @ ?rest) (length es) (length (pre @ bundle_entry e)) (acc @ [p])
      = Inr (length (pre @ bundle_entry e) + length (concat (map bundle_entry es)), (acc @ [p]) @ ps)"
    using Cons.prems by (intro Cons.IH) simp
  then show ?case
    using decode_entries_entry [of e pre ?rest decode sha256 lim "length es" acc] Cons.hyps(1) Cons.prems
    by (simp add: add.assoc)
qed simp

text \<open>An entry whose payload does not decode stops the loading.\<close>

lemma decode_entries_refused:
  assumes "list_all2 (\<lambda>p e. length e < 2 ^ 64 \<and> (if good p then from_bytes_with_limits decode sha256 e lim = Inr p
      else \<exists>x. from_bytes_with_limits decode sha256 e lim = Inl (CborDecode x))) ps es"
    and "length (pre @ concat (map bundle_entry es) @ post) \<le> usize_max" "\<exists>p \<in> set ps. \<not> good p"
  shows "\<exists>x. decode_entries decode sha256 lim (pre @ concat (map bundle_entry es) @ post) (length es) (length pre) acc
    = Inl (CborDecode x)"
  using assms
proof (induction ps es arbitrary: pre acc rule: list_all2_induct)
  case (Cons p ps e es)
  let ?rest = "concat (map bundle_entry es) @ post"
  note entry = decode_entries_entry [of e pre ?rest decode sha256 lim "length es" acc]
  show ?case
  proof (cases "good p")
    case True
    have "\<exists>x. decode_entries decode sha256 lim ((pre @ bundle_entry e) @ ?rest) (length es)
        (length (pre @ bundle_entry e)) (acc @ [p]) = Inl (CborDecode x)"
      using Cons.prems True by (intro Cons.IH) auto
    then show ?thesis using entry Cons.hyps(1) Cons.prems True by simp
  next
    case False
    then obtain x where "from_bytes_with_limits decode sha256 e lim = Inl (CborDecode x)"
      using Cons.hyps(1) by auto
    then show ?thesis using entry Cons.hyps(1) Cons.prems by simp
  qed
qed simp

lemma catalog_inserts:
  "distinct (map package_game ps) \<Longrightarrow> dom (map_of c) \<inter> package_game ` set ps = {} \<Longrightarrow> om_ok c \<Longrightarrow>
     steps catalog_insert ps c = Inr (foldl (\<lambda>m (k, v). om_insert k v m) c (map (\<lambda>p. (package_game p, p)) ps))"
proof (induction ps arbitrary: c)
  case (Cons p ps)
  have "map_of c (package_game p) = None" using Cons.prems(2) by (auto simp: dom_def)
  then have i: "catalog_insert p c = Inr (om_insert (package_game p) p c)"
    by (simp add: catalog_insert_def ensure_def)
  have "dom (map_of (om_insert (package_game p) p c)) \<inter> package_game ` set ps = {}"
    using Cons.prems by (auto simp: om_insert_lookup split: if_splits)
  then show ?case using Cons.IH [of "om_insert (package_game p) p c"] Cons.prems(1,3)
    by (simp add: i om_insert_ok)
qed simp

lemma bundle_frame:
  assumes "bs = BUNDLE_MAGIC @ le_bytes 2 PACKAGE_FORMAT_VERSION @ le_bytes 2 (0 :: u16)
       @ le_bytes 4 (of_nat (length es) :: u32) @ concat (map bundle_entry es)" "length es < 4294967296"
  shows "decode_bundle decode sha256 bs lim =
    bindr (decode_entries decode sha256 lim bs (length es) 12 []) (\<lambda>(offset, packages).
    bindr (ensure (offset = length bs) (InvalidGraph BundleTrailingBytes)) (\<lambda>_. Inr packages))"
proof -
  have m: "length BUNDLE_MAGIC = 4" by (simp add: BUNDLE_MAGIC_def)
  have "take 4 bs = BUNDLE_MAGIC" "le_word (slice 4 6 bs) = PACKAGE_FORMAT_VERSION"
    "le_word (slice 8 12 bs) = (of_nat (length es) :: u32)" "\<not> length bs < 12"
    using m unfolding assms(1) by (simp_all add: slice_def)
  then show ?thesis using assms(2) by (simp add: decode_bundle_def ensure_def Let_def)
qed

text \<open>
  C26: what becomes of a catalog bundle. Let a list of packages built by the library be encoded, with
  every encoded package within the size limit of the loader. If the payload of every package nests
  within the recursion limit of the CBOR reader, loading the bundle gives back exactly those packages,
  each under its game, in the order of the games. If one nests deeper, which the depth limit of the
  validation does not exclude, the bundle is written all the same and loading it fails with the error
  of the CBOR reader.
\<close>

theorem catalog_roundtrip:
  assumes codec: "codec_ok nesting encode decode sha256"
    and enc: "encode_bundle encode sha256 ps = Inr bs"
    and sealed: "\<forall>p \<in> set ps. sealed encode sha256 p"
    and small: "\<forall>p \<in> set ps. \<forall>e. to_bytes encode sha256 p = Inr e \<longrightarrow> length e \<le> maximum_package_bytes default_limits"
    and fits: "length bs \<le> isize_max"
  shows "if \<forall>p \<in> set ps. nesting (payload_of p) \<le> CBOR_RECURSION_LIMIT
    then from_bundle_bytes decode sha256 bs = Inr (map (\<lambda>p. (package_game p, p)) (sort_key package_game ps))
    else \<exists>e. from_bundle_bytes decode sha256 bs = Inl (CborDecode e)"
proof -
  let ?ps = "sort_key package_game ps" and ?good = "\<lambda>p. nesting (payload_of p) \<le> CBOR_RECURSION_LIMIT"
  obtain games es where st: "steps (encode_entry encode sha256) ?ps ({}, []) = Inr (games, es)"
    and n: "length es < 4294967296"
    and bs: "bs = BUNDLE_MAGIC @ le_bytes 2 PACKAGE_FORMAT_VERSION @ le_bytes 2 (0 :: u16)
       @ le_bytes 4 (of_nat (length es) :: u32) @ concat (map bundle_entry es)"
    using enc by (auto simp: encode_bundle_def bindr_eq_Inr)
  have es: "list_all2 (\<lambda>p e. to_bytes encode sha256 p = Inr e) ?ps es" and d: "distinct (map package_game ?ps)"
    using encode_entries [OF st] by auto
  have each: "list_all2 (\<lambda>p e. length e < 2 ^ 64 \<and> (if ?good p
      then from_bytes_with_limits decode sha256 e default_limits = Inr p
      else \<exists>x. from_bytes_with_limits decode sha256 e default_limits = Inl (CborDecode x))) ?ps es"
    using es
  proof (rule list.rel_mono_strong)
    fix p e assume "p \<in> set ?ps" and e: "to_bytes encode sha256 p = Inr e"
    then have p: "p \<in> set ps" by simp
    then have s: "length e \<le> maximum_package_bytes default_limits" using small e by blast
    then have "length e < 2 ^ 64" by (simp add: default_limits_def)
    then show "length e < 2 ^ 64 \<and> (if ?good p
        then from_bytes_with_limits decode sha256 e default_limits = Inr p
        else \<exists>x. from_bytes_with_limits decode sha256 e default_limits = Inl (CborDecode x))"
      using sealed_roundtrip [OF codec e _ s] sealed p by blast
  qed
  let ?h = "BUNDLE_MAGIC @ le_bytes 2 PACKAGE_FORMAT_VERSION @ le_bytes 2 (0 :: u16)
       @ le_bytes 4 (of_nat (length es) :: u32)"
  have h: "length ?h = 12" "bs = ?h @ concat (map bundle_entry es) @ []" unfolding bs by (simp_all add: BUNDLE_MAGIC_def)
  have len: "length (?h @ concat (map bundle_entry es) @ []) \<le> usize_max"
    using fits unfolding bs by (simp add: isize_max_def usize_max_def)
  show ?thesis
  proof (cases "\<forall>p \<in> set ps. ?good p")
    case True
    have "list_all2 (\<lambda>p e. from_bytes_with_limits decode sha256 e default_limits = Inr p \<and> length e < 2 ^ 64) ?ps es"
      using each by (rule list.rel_mono_strong) (use True in auto)
    from decode_entries_encoded [OF this len, of "[]"]
    have "decode_entries decode sha256 default_limits bs (length es) 12 [] = Inr (length bs, ?ps)"
      using h by simp
    then have dec: "decode_bundle decode sha256 bs default_limits = Inr ?ps"
      by (simp add: bundle_frame [OF bs n] ensure_def)
    have s: "sorted_wrt (<) (map fst (map (\<lambda>p. (package_game p, p)) ?ps))"
      using d by (simp add: comp_def strict_sorted_iff)
    have "steps catalog_insert ?ps catalog_new = Inr (btree.load (map (\<lambda>p. (package_game p, p)) ?ps))"
      using catalog_inserts [OF d, of "[]"] by (simp add: btree.load_def catalog_new_def om_ok_def)
    then show ?thesis using True by (simp add: from_bundle_bytes_def dec btree.items_load [OF s])
  next
    case False
    then have "\<exists>p \<in> set ?ps. \<not> ?good p" by simp
    from decode_entries_refused [OF each len this, of "[]"]
    obtain x where "decode_entries decode sha256 default_limits bs (length es) 12 [] = Inl (CborDecode x)"
      using h by metis
    then have "decode_bundle decode sha256 bs default_limits = Inl (CborDecode x)"
      by (simp add: bundle_frame [OF bs n])
    then show ?thesis using False by (simp add: from_bundle_bytes_def)
  qed
qed

subsection \<open>Catalogs of two packages\<close>

text \<open>
  Three packages for three games; the codec numbers their payloads, and reports the third as nested
  too deep.
\<close>

definition sample_of :: "schema_game \<Rightarrow> unit package_payload" where
  "sample_of g = sample_package \<lparr> pp_manifest := sample_manifest \<lparr> sm_game := g \<rparr> \<rparr>"

definition sample_encode :: "unit cbor_encode" where
  "sample_encode pl = (if pl = sample_of GSkyrimSe then Inr [1] else if pl = sample_of GFallout4 then Inr [2]
     else if pl = sample_of GStarfield then Inr [3] else Inl ''no encoding'')"

definition sample_decode :: "unit cbor_decode" where
  "sample_decode bs = (if bs = [1] then Inr (sample_of GSkyrimSe) else if bs = [2] then Inr (sample_of GFallout4)
     else Inl ''recursion limit exceeded'')"

definition sample_nesting :: "unit cbor_nesting" where
  "sample_nesting pl = (if pl = sample_of GStarfield then 257 else 8)"

definition sample_digest :: "bytes \<Rightarrow> bytes" where
  "sample_digest bs = replicate 32 (hd bs)"

definition sample_schema_package :: "unit schema_package" where
  "sample_schema_package = package_of (sample_of GSkyrimSe) (replicate 32 1)"

definition sample_fallout_package :: "unit schema_package" where
  "sample_fallout_package = package_of (sample_of GFallout4) (replicate 32 2)"

definition sample_deep_package :: "unit schema_package" where
  "sample_deep_package = package_of (sample_of GStarfield) (replicate 32 3)"

lemma sample_of_eq [simp]: "sample_of g = sample_of h \<longleftrightarrow> g = h"
  by (auto simp: sample_of_def sample_package_def sample_manifest_def)

lemma sample_cbor: "codec_ok sample_nesting sample_encode sample_decode sample_digest"
  by (auto simp: codec_ok_def sample_encode_def sample_decode_def sample_digest_def sample_nesting_def
      CBOR_RECURSION_LIMIT_def)

lemma sample_of_valid: "validate_package (package_of (sample_of g) h) default_limits = Inr ()"
  using sample_valid
  by (simp add: sample_of_def package_of_def validate_package_def sample_package_def sample_manifest_def Let_def)

lemma sample_payload: "payload_of (package_of (sample_of g) h) = sample_of g"
  by (simp add: package_of_def payload_of_def)

lemma sample_game: "package_game (package_of (sample_of g) h) = g"
  by (simp add: package_game_def package_of_def sample_of_def sample_manifest_def)

lemmas sample_packages = sample_schema_package_def sample_fallout_package_def sample_deep_package_def

lemma sample_to_bytes:
  "to_bytes sample_encode sample_digest (package_of (sample_of g) h) = bindr (map_err CborEncode (sample_encode (sample_of g))) (\<lambda>pl.
     Inr (PACKAGE_MAGIC @ le_bytes 2 PACKAGE_FORMAT_VERSION @ le_bytes 2 (0 :: u16)
       @ le_bytes 8 (of_nat (length pl) :: u64) @ sample_digest pl @ pl))"
  by (simp add: to_bytes_def sample_of_valid encode_package_payload_def sample_payload)

lemma sample_sealed:
  "sealed sample_encode sample_digest sample_schema_package"
  "sealed sample_encode sample_digest sample_fallout_package"
  "sealed sample_encode sample_digest sample_deep_package"
  by (simp_all add: sealed_def sample_packages sample_payload sample_encode_def sample_digest_def)
     (simp_all add: package_of_def)

definition sample_entry :: "u8 \<Rightarrow> bytes" where
  "sample_entry n = PACKAGE_MAGIC @ [3, 0, 0, 0, 1, 0, 0, 0, 0, 0, 0, 0] @ replicate 32 n @ [n]"

definition sample_bundle :: "u8 \<Rightarrow> u8 \<Rightarrow> bytes" where
  "sample_bundle m n = BUNDLE_MAGIC @ [3, 0, 0, 0, 2, 0, 0, 0]
     @ [49, 0, 0, 0, 0, 0, 0, 0] @ sample_entry m @ [49, 0, 0, 0, 0, 0, 0, 0] @ sample_entry n"

lemma sample_entries:
  "to_bytes sample_encode sample_digest sample_schema_package = Inr (sample_entry 1)"
  "to_bytes sample_encode sample_digest sample_fallout_package = Inr (sample_entry 2)"
  "to_bytes sample_encode sample_digest sample_deep_package = Inr (sample_entry 3)"
  by (simp_all add: sample_packages sample_to_bytes sample_encode_def sample_digest_def sample_entry_def
      PACKAGE_FORMAT_VERSION_def le_bytes_def upt_rec)

lemma sample_encode_bundle:
  "encode_bundle sample_encode sample_digest [sample_fallout_package, sample_schema_package] = Inr (sample_bundle 1 2)"
  "encode_bundle sample_encode sample_digest [sample_schema_package, sample_deep_package] = Inr (sample_bundle 1 3)"
  using sample_entries
  by (simp_all add: encode_bundle_def encode_entry_def ensure_def sample_packages sample_game less_eq_schema_game_def
      bundle_entry_def sample_bundle_def PACKAGE_FORMAT_VERSION_def le_bytes_def upt_rec sample_entry_def PACKAGE_MAGIC_def)

lemma sample_lengths:
  "length (sample_entry n) \<le> maximum_package_bytes default_limits" "length (sample_bundle m n) \<le> isize_max"
  by (simp_all add: sample_entry_def sample_bundle_def BUNDLE_MAGIC_def PACKAGE_MAGIC_def isize_max_def default_limits_def)

theorem catalog_roundtrip_witness:
  "bindr (encode_bundle sample_encode sample_digest [sample_fallout_package, sample_schema_package])
     (from_bundle_bytes sample_decode sample_digest)
     = Inr [(GSkyrimSe, sample_schema_package), (GFallout4, sample_fallout_package)] \<and>
   (\<exists>e. bindr (encode_bundle sample_encode sample_digest [sample_schema_package, sample_deep_package])
     (from_bundle_bytes sample_decode sample_digest) = Inl (CborDecode e))"
proof
  have "if \<forall>p \<in> set [sample_fallout_package, sample_schema_package]. sample_nesting (payload_of p) \<le> CBOR_RECURSION_LIMIT
    then from_bundle_bytes sample_decode sample_digest (sample_bundle 1 2) = Inr (map (\<lambda>p. (package_game p, p))
      (sort_key package_game [sample_fallout_package, sample_schema_package]))
    else \<exists>e. from_bundle_bytes sample_decode sample_digest (sample_bundle 1 2) = Inl (CborDecode e)"
    by (rule catalog_roundtrip [OF sample_cbor sample_encode_bundle(1)])
       (simp_all add: sample_sealed sample_entries sample_lengths)
  then show "bindr (encode_bundle sample_encode sample_digest [sample_fallout_package, sample_schema_package])
     (from_bundle_bytes sample_decode sample_digest)
     = Inr [(GSkyrimSe, sample_schema_package), (GFallout4, sample_fallout_package)]"
    unfolding sample_encode_bundle bindr_simps
    by (simp add: sample_packages sample_payload sample_game sample_nesting_def
        CBOR_RECURSION_LIMIT_def less_eq_schema_game_def)
next
  have "if \<forall>p \<in> set [sample_schema_package, sample_deep_package]. sample_nesting (payload_of p) \<le> CBOR_RECURSION_LIMIT
    then from_bundle_bytes sample_decode sample_digest (sample_bundle 1 3) = Inr (map (\<lambda>p. (package_game p, p))
      (sort_key package_game [sample_schema_package, sample_deep_package]))
    else \<exists>e. from_bundle_bytes sample_decode sample_digest (sample_bundle 1 3) = Inl (CborDecode e)"
    by (rule catalog_roundtrip [OF sample_cbor sample_encode_bundle(2)])
       (simp_all add: sample_sealed sample_entries sample_lengths)
  then show "\<exists>e. bindr (encode_bundle sample_encode sample_digest [sample_schema_package, sample_deep_package])
     (from_bundle_bytes sample_decode sample_digest) = Inl (CborDecode e)"
    unfolding sample_encode_bundle bindr_simps
    by (simp add: sample_packages sample_payload sample_nesting_def CBOR_RECURSION_LIMIT_def)
qed

theorem registry_node_exact_witness:
  "registry_get_node (registry_new sample_schema_package) (Signature 0x54 0x45 0x53 0x54) [0x54, 0x2F, 0x65]
     = Some sample_element"
proof -
  have "validate_package sample_schema_package default_limits = Inr ()"
    by (simp add: sample_schema_package_def sample_of_valid)
  moreover have "sample_schema_record \<in> set (pp_records sample_schema_package)"
    by (simp add: sample_schema_package_def package_of_def sample_of_def sample_package_def)
  moreover have "sample_element \<in> set (preorder (srec_root sample_schema_record))"
    using sample_nodes by (simp add: sample_schema_record_def)
  moreover have "srec_signature sample_schema_record = Signature 0x54 0x45 0x53 0x54"
    "node_path sample_element = [0x54, 0x2F, 0x65]"
    by (simp_all add: sample_schema_record_def sample_element_def sample_node_def)
  ultimately show ?thesis using registry_node_exact [THEN iffD2] by blast
qed

end
