(* ===== verification/SemanticCore.thy ===== *)
theory SemanticCore
  imports SchemaCatalog PluginWriter LoadOrder
begin

text \<open>
  The shared vocabulary of \<open>bethkit-semantic\<close>: \<open>error.rs\<close>, the decoded values of \<open>value.rs\<close> and the
  named plugins of \<open>analysis.rs\<close>. A message of an error is a constructor of \<open>semantic_reason\<close> with
  the values it formats, or its text (\<open>Text\<close>, \<open>TextOf\<close>) with them.
\<close>

unbundle bit_operations_syntax

subsection \<open>Errors\<close>

datatype (plugins only: size) semantic_reason =
    TargetPluginEntries rstring nat
  | NonInfoRecord signature
  | UnresolvedInfo form_id rstring
  | UnresolvedDial form_id
  | PlannedOfTarget nat nat
  | InfoGroups form_id nat
  | DialGroups rstring nat
  | NonFormIdLabel
  | NoTopicGroup form_id
  | PnamTooShort nat
  | CyclicPnam rstring u32
  | IndexPanic
  | SelectorBoolean
  | SelectorNotDeclarative rstring
  | NegativeAlternative
  | AlternativeMissing int
  | NumericCursorOverflow
  | SelectorFieldRange nat nat nat
  | ConditionNotBoolean
  | ZeroWidthOnlyZero
  | LengthMismatch nat nat
  | IntegerWidthUnsupported u8
  | UnsignedExceedsI64
  | CountPrefixSigned
  | MatrixCountOverflow
  | FloatWidthUnsupported u8
  | Utf8Malformed nat "nat option"
  | CodecRejects rstring
  | CodecUnknown rstring
  | TerminatorAbsent
  | TerminatorDiffers u8 u8
  | StringLengthOverflow
  | StringSizeOverflow
  | PrefixWidthUnsupported u8
  | LocalizedIdExceedsU32
  | LocalizedNeedsId
  | CodecCannotRepresent rstring
  | ByteArrayLength
  | UnusedBytesLength
  | ValueTypeMismatch
  | StringExceedsFixedLength
  | StringExceedsPrefix
  | IntegerDoesNotFit
  | PackedExceeds30Bits
  | NotPerfectSquare
  | CursorExceedsPayload
  | SizeOverflow
  | NeedsBytes nat nat
  | ElementWithoutBytes
  | DynamicCountNeedsContext
  | Text string "nat list"
  | TextOf string rstring

datatype semantic_error =
    EncodingPolicyError semantic_reason
  | SemCore core_error
  | SemSchema schema_error
  | MissingRecordSchema signature
  | MissingSemanticDecoder rstring
  | MissingSemanticHandler rstring
  | DecoderError rstring semantic_reason
  | HandlerError rstring semantic_reason
  | DecodeError rstring semantic_reason
  | MissingPath rstring
  | MissingOccurrence rstring nat
  | EncodeError rstring semantic_reason

text \<open>\<open>#[from]\<close>: the conversions the question mark operator applies.\<close>

abbreviation core_err :: "core_error + 'a \<Rightarrow> semantic_error + 'a" where
  "core_err m \<equiv> map_err SemCore m"

abbreviation schema_err :: "schema_error + 'a \<Rightarrow> semantic_error + 'a" where
  "schema_err m \<equiv> map_err SemSchema m"

subsection \<open>Values\<close>

record byte_span =
  bs_start :: nat
  bs_end :: nat

definition byte_span_new :: "nat \<Rightarrow> nat \<Rightarrow> byte_span option" where
  "byte_span_new a b = (if b < a then None else Some \<lparr> bs_start = a, bs_end = b \<rparr>)"

definition byte_span_len :: "byte_span \<Rightarrow> nat" where
  "byte_span_len s = bs_end s - bs_start s"

definition byte_span_is_empty :: "byte_span \<Rightarrow> bool" where
  "byte_span_is_empty s \<longleftrightarrow> bs_start s = bs_end s"

datatype field_origin = OriginSchema | UnknownSubrecord | UnmatchedKnownSubrecord | OriginCustomDecoder

datatype 'v named_value =
  NamedValue (nv_node_id: schema_node_id) (nv_path: rstring) (nv_effective_path: "rstring option")
    (nv_name: rstring) (nv_span: byte_span) (nv_value: 'v)

datatype field_value =
    FInt i64
  | FUInt u64
  | FFloat f64
  | FString rstring
  | FFormId form_id "signature list"
  | FEnumeration i64 "rstring option"
  | FFlags u64 "rstring list"
  | FBytes bytes
  | FStruct "field_value named_value list"
  | FArray "field_value list"
  | FAbsent

datatype owned_field_value =
    OInt i64
  | OUInt u64
  | OFloat f64
  | OString rstring
  | OFormId form_id
  | OBytes bytes
  | OStruct "owned_field_value list"
  | OArray "owned_field_value list"
  | OAbsent

primrec handler_to_owned_value :: "field_value \<Rightarrow> owned_field_value" where
  "handler_to_owned_value (FInt v) = OInt v"
| "handler_to_owned_value (FUInt v) = OUInt v"
| "handler_to_owned_value (FFloat v) = OFloat v"
| "handler_to_owned_value (FString v) = OString v"
| "handler_to_owned_value (FFormId v _) = OFormId v"
| "handler_to_owned_value (FEnumeration v _) = OInt v"
| "handler_to_owned_value (FFlags v _) = OUInt v"
| "handler_to_owned_value (FBytes v) = OBytes v"
| "handler_to_owned_value (FArray vs) = OArray (map handler_to_owned_value vs)"
| "handler_to_owned_value (FStruct vs) = OStruct (map nv_value (map (map_named_value handler_to_owned_value) vs))"
| "handler_to_owned_value FAbsent = OAbsent"

subsection \<open>Named plugins\<close>

record plugin_input =
  pi_name :: rstring
  pi_plugin :: plugin

definition eq_ignore_ascii_case :: "rstring \<Rightarrow> rstring \<Rightarrow> bool" where
  "eq_ignore_ascii_case a b \<longleftrightarrow> map to_ascii_lowercase a = map to_ascii_lowercase b"

end
