(* ===== verification/InfoOrder.thy ===== *)
theory InfoOrder
  imports SemanticCore
begin

text \<open>
  The ordering algorithm of \<open>bethkit-semantic/src/info_sort.rs\<close>: \<open>insert_info_node\<close> and the loop that
  calls it. The vectors \<open>state\<close> (0 unvisited, 1 in progress, 2 placed) and \<open>ordered\<close> are threaded.
  An index outside the vectors, which is a panic in the source, is the error \<open>IndexPanic\<close>.
\<close>

record info_node =
  in_plugin_index :: nat
  in_raw_form_id :: form_id
  in_identity :: global_form_id
  in_previous :: "global_form_id option"
  in_has_previous_field :: bool

definition SORT_HANDLER :: rstring where
  "SORT_HANDLER = ascii ''edit.sort_info_group''"

text \<open>\<open>iter().position(|candidate| *candidate == x)\<close>.\<close>

fun index_of :: "'a \<Rightarrow> 'a list \<Rightarrow> nat option" where
  "index_of x [] = None"
| "index_of x (y # ys) = (if y = x then Some 0 else map_option Suc (index_of x ys))"

definition insert_at :: "nat \<Rightarrow> 'a \<Rightarrow> 'a list \<Rightarrow> 'a list" where
  "insert_at i x xs = take i xs @ [x] @ drop i xs"

definition remove_at :: "nat \<Rightarrow> 'a list \<Rightarrow> 'a list" where
  "remove_at i xs = take i xs @ drop (Suc i) xs"

text \<open>The end of the function: the node is taken out where it already is and inserted.\<close>

definition place :: "nat \<Rightarrow> nat list \<Rightarrow> nat list \<Rightarrow> nat \<Rightarrow> nat list \<times> nat list" where
  "place index state ordered insertion =
     (let ordered' = (case index_of index ordered of None \<Rightarrow> ordered | Some k \<Rightarrow> remove_at k ordered) in
      (state[index := 2], insert_at (min insertion (length ordered')) index ordered'))"

definition unvisited :: "nat list \<Rightarrow> nat" where
  "unvisited state = length (filter (\<lambda>x. x \<noteq> 1) state)"

lemma unvisited_update: "i < length st \<Longrightarrow> st ! i \<noteq> 1 \<Longrightarrow> unvisited (st[i := 1]) < unvisited st"
  by (induction st arbitrary: i) (auto simp: unvisited_def nth_Cons split: nat.splits)

function insert_info_node ::
  "info_node list \<Rightarrow> (global_form_id \<rightharpoonup> nat) \<Rightarrow> nat \<Rightarrow> nat list \<times> nat list \<Rightarrow> semantic_error + nat list \<times> nat list" where
  "insert_info_node nodes latest index (state, ordered) =
     (if \<not> (index < length state \<and> index < length nodes) then Inl (HandlerError SORT_HANDLER IndexPanic)
      else if state ! index = 2 then Inr (state, ordered)
      else if state ! index = 1 then
        Inl (HandlerError SORT_HANDLER (CyclicPnam (gf_plugin_name (in_identity (nodes ! index)))
          (gf_object_id (in_identity (nodes ! index)))))
      else
        let state' = state[index := 1] in
        case in_previous (nodes ! index) of
          Some previous \<Rightarrow>
            (case latest previous of
               Some target \<Rightarrow>
                 bindr (insert_info_node nodes latest target (state', ordered)) (\<lambda>(st, ord).
                 Inr (place index st ord
                   (case index_of target ord of Some k \<Rightarrow> k + 1 | None \<Rightarrow> length ord)))
             | None \<Rightarrow> Inr (place index state' ordered 0))
        | None \<Rightarrow>
            Inr (place index state' ordered
              (if in_has_previous_field (nodes ! index) then 0 else length ordered)))"
  by pat_completeness auto
termination
  by (relation "measure (\<lambda>(_, _, _, st, _). unvisited st)") (auto simp: unvisited_update [unfolded One_nat_def])

declare insert_info_node.simps [simp del]

text \<open>\<open>latest_by_identity\<close>: later nodes overwrite earlier ones.\<close>

definition latest_by_identity :: "info_node list \<Rightarrow> global_form_id \<rightharpoonup> nat" where
  "latest_by_identity nodes = fold (\<lambda>(i, n) m. m(in_identity n \<mapsto> i)) (enumerate 0 nodes) Map.empty"

definition info_order :: "info_node list \<Rightarrow> semantic_error + nat list" where
  "info_order nodes =
     bindr (steps (insert_info_node nodes (latest_by_identity nodes)) [0..<length nodes]
       (replicate (length nodes) 0, [])) (\<lambda>(_, ordered). Inr ordered)"

subsection \<open>Links\<close>

text \<open>The node a node is linked to: the latest version of the record its \<open>PNAM\<close> names.\<close>

definition link :: "info_node list \<Rightarrow> nat \<Rightarrow> nat option" where
  "link nodes i = Option.bind (in_previous (nodes ! i)) (latest_by_identity nodes)"

definition links :: "info_node list \<Rightarrow> (nat \<times> nat) set" where
  "links nodes = {(i, t). i < length nodes \<and> link nodes i = Some t}"

lemma latest_from:
  "fold (\<lambda>(i, n) m. m(in_identity n \<mapsto> i)) (enumerate k ns) m g = Some t \<Longrightarrow>
     m g = Some t \<or> (k \<le> t \<and> t < k + length ns \<and> in_identity (ns ! (t - k)) = g)"
proof (induction ns arbitrary: k m)
  case (Cons n ns)
  from Cons.IH [of "Suc k" "m(in_identity n \<mapsto> k)"] Cons.prems
  have "(m(in_identity n \<mapsto> k)) g = Some t \<or> (Suc k \<le> t \<and> t < Suc k + length ns \<and> in_identity (ns ! (t - Suc k)) = g)"
    by simp
  then show ?case
  proof
    assume "(m(in_identity n \<mapsto> k)) g = Some t"
    then show ?thesis by (auto split: if_splits)
  next
    assume t: "Suc k \<le> t \<and> t < Suc k + length ns \<and> in_identity (ns ! (t - Suc k)) = g"
    then have "Suc k \<le> t" by blast
    then have "t - k = Suc (t - Suc k)" by simp
    then show ?thesis using t by simp
  qed
qed simp

lemma latest_bound: "latest_by_identity nodes g = Some t \<Longrightarrow> t < length nodes \<and> in_identity (nodes ! t) = g"
  using latest_from [of 0 nodes Map.empty g t] by (simp add: latest_by_identity_def)

lemma link_bound: "link nodes i = Some t \<Longrightarrow> t < length nodes"
  by (auto simp: link_def bind_eq_Some_conv dest: latest_bound)

subsection \<open>The invariant\<close>

text \<open>\<open>a\<close> stands before \<open>b\<close>.\<close>

definition precedes :: "'a list \<Rightarrow> 'a \<Rightarrow> 'a \<Rightarrow> bool" where
  "precedes xs a b \<longleftrightarrow> (\<exists>us vs. xs = us @ vs \<and> a \<in> set us \<and> b \<in> set vs)"

lemma precedes_insert:
  assumes "precedes xs a b" shows "precedes (insert_at i x xs) a b"
proof -
  obtain us vs where xs: "xs = us @ vs" "a \<in> set us" "b \<in> set vs"
    using assms by (auto simp: precedes_def)
  show ?thesis
  proof (cases "i \<le> length us")
    case True
    then have "insert_at i x xs = (take i us @ x # drop i us) @ vs" by (simp add: insert_at_def xs(1))
    moreover have "a \<in> set (take i us @ x # drop i us)" using xs(2) by (metis UnCI append_take_drop_id in_set_conv_decomp set_append Un_iff insert_iff list.simps(15))
    ultimately show ?thesis using xs(3) unfolding precedes_def by blast
  next
    case False
    then have "insert_at i x xs = us @ (take (i - length us) vs @ x # drop (i - length us) vs)"
      by (simp add: insert_at_def xs(1))
    moreover have "b \<in> set (take (i - length us) vs @ x # drop (i - length us) vs)" using xs(3) by (metis UnCI append_take_drop_id set_append Un_iff insert_iff list.simps(15))
    ultimately show ?thesis using xs(2) unfolding precedes_def by blast
  qed
qed

lemma precedes_insert_after:
  assumes "index_of t xs = Some k" shows "precedes (insert_at (Suc k) x xs) t x"
proof -
  have "k < length xs \<and> xs ! k = t"
    using assms by (induction xs arbitrary: k) (auto split: if_splits)
  then have "t \<in> set (take (Suc k) xs)" by (simp add: take_Suc_conv_app_nth)
  then show ?thesis unfolding precedes_def insert_at_def
    by (intro exI [of _ "take (Suc k) xs"] exI [of _ "x # drop (Suc k) xs"]) simp
qed

lemma index_of_None: "index_of x xs = None \<longleftrightarrow> x \<notin> set xs"
  by (induction xs) auto

lemma set_insert_at [simp]: "set (insert_at i x xs) = insert x (set xs)"
  unfolding insert_at_def by (metis append_take_drop_id set_append Un_insert_right list.simps(15) append_Cons append_Nil)

lemma distinct_insert_at: "x \<notin> set xs \<Longrightarrow> distinct xs \<Longrightarrow> distinct (insert_at i x xs)"
proof -
  assume x: "x \<notin> set xs" and "distinct xs"
  then have "distinct (take i xs @ drop i xs)" by simp
  moreover have "x \<notin> set (take i xs) \<and> x \<notin> set (drop i xs)" using x by (meson in_set_dropD in_set_takeD)
  ultimately show ?thesis unfolding insert_at_def by (simp only: distinct_append) auto
qed

lemma index_of_Some: "index_of x xs = Some k \<Longrightarrow> k < length xs \<and> xs ! k = x"
  by (induction xs arbitrary: k) (auto split: if_splits)

lemma precedes_index:
  assumes "precedes xs a b" "distinct xs"
  shows "the (index_of a xs) < the (index_of b xs)"
proof -
  obtain us vs where xs: "xs = us @ vs" "a \<in> set us" "b \<in> set vs"
    using assms by (auto simp: precedes_def)
  have left: "a \<in> set us \<Longrightarrow> the (index_of a (us @ vs)) < length us" for us
    by (induction us) (auto, metis index_of_None option.collapse option.map_sel Suc_mono Un_iff set_append)
  have right: "b \<notin> set us \<Longrightarrow> length us \<le> the (index_of b (us @ vs))" for us
    using xs(3) by (induction us) (auto, metis index_of_None option.collapse option.map_sel Suc_le_mono Un_iff set_append)
  have "b \<notin> set us" using xs assms(2) by auto
  then show ?thesis using left [OF xs(2)] right xs(1) by fastforce
qed

definition order_inv :: "info_node list \<Rightarrow> nat list \<Rightarrow> nat list \<Rightarrow> bool" where
  "order_inv nodes st ord \<longleftrightarrow>
     length st = length nodes \<and> set ord = {i. i < length nodes \<and> st ! i = 2} \<and> distinct ord \<and>
     (\<forall>i \<in> set ord. \<forall>t. link nodes i = Some t \<longrightarrow> precedes ord t i)"

lemma order_inv_started:
  "order_inv nodes st ord \<Longrightarrow> st ! index \<noteq> 2 \<Longrightarrow> order_inv nodes (st[index := 1]) ord"
  by (cases "index < length st") (auto simp: order_inv_def nth_list_update)

lemma order_inv_place:
  assumes inv: "order_inv nodes st ord" and i: "index < length nodes" "st ! index = 1"
    and l: "\<And>t. link nodes index = Some t \<Longrightarrow> \<exists>k. index_of t ord = Some k \<and> insertion = Suc k"
    and p: "place index st ord insertion = (st', ord')"
  shows "order_inv nodes st' ord' \<and> st' = st[index := 2] \<and> (\<forall>a b. precedes ord a b \<longrightarrow> precedes ord' a b)"
proof -
  have new: "index \<notin> set ord" using inv i by (auto simp: order_inv_def)
  then have "index_of index ord = None" by (simp add: index_of_None)
  then have st: "st' = st[index := 2]" and ord: "ord' = insert_at (min insertion (length ord)) index ord"
    using p by (simp_all add: place_def Let_def)
  have keep: "precedes ord' a b" if "precedes ord a b" for a b using that by (simp add: ord precedes_insert)
  have "precedes ord' t index" if t: "link nodes index = Some t" for t
  proof -
    obtain k where k: "index_of t ord = Some k" "insertion = Suc k" using l [OF t] by blast
    then have "min insertion (length ord) = Suc k" using index_of_Some [of t ord k] by simp
    then show ?thesis using precedes_insert_after [OF k(1)] by (simp add: ord)
  qed
  moreover have "set ord' = {j. j < length nodes \<and> st' ! j = 2}"
    using inv i by (auto simp: ord st order_inv_def nth_list_update)
  moreover have "distinct ord'" using inv new by (simp add: ord distinct_insert_at order_inv_def)
  moreover have "length st' = length nodes" using inv by (simp add: st order_inv_def)
  moreover have "precedes ord' t i" if "i \<in> set ord'" "link nodes i = Some t" for i t
  proof (cases "i = index")
    case False
    then have "i \<in> set ord" using that(1) by (simp add: ord)
    then show ?thesis using inv that(2) keep by (simp add: order_inv_def)
  qed (use calculation(1) that(2) in simp)
  ultimately show ?thesis using keep st unfolding order_inv_def by blast
qed

lemma insert_info_node_ok:
  assumes "insert_info_node nodes (latest_by_identity nodes) index (st, ord) = Inr (st', ord')"
    and "order_inv nodes st ord"
  shows "order_inv nodes st' ord' \<and> index \<in> set ord' \<and> st ! index \<noteq> 1 \<and>
    (\<forall>j < length nodes. (st' ! j = 1) = (st ! j = 1) \<and> (st ! j = 2 \<longrightarrow> st' ! j = 2))"
  using assms
proof (induction nodes "latest_by_identity nodes" index "(st, ord)" arbitrary: st ord st' ord' rule: insert_info_node.induct)
  case (1 nodes index st ord)
  show ?case
  proof (cases "st ! index = 2")
    case True
    then show ?thesis using "1.prems" by (auto simp: insert_info_node.simps [of _ _ index] order_inv_def split: if_splits)
  next
    case False
    have i: "index < length nodes" "index < length st" "st ! index \<noteq> 1"
      using "1.prems"(1) False by (auto simp: insert_info_node.simps [of _ _ index] split: if_splits)
    let ?s = "st[index := 1]"
    have inv: "order_inv nodes ?s ord" using "1.prems"(2) False by (rule order_inv_started)
    show ?thesis
    proof (cases "link nodes index")
      case None
      then obtain n where pl: "place index ?s ord n = (st', ord')"
        using "1.prems"(1) i False
        by (auto simp: insert_info_node.simps [of _ _ index] link_def Let_def split: option.splits)
      have s1: "?s ! index = 1" using i by simp
      have "order_inv nodes st' ord' \<and> st' = ?s[index := 2] \<and> (\<forall>a b. precedes ord a b \<longrightarrow> precedes ord' a b)"
        by (rule order_inv_place [OF inv i(1) s1 _ pl]) (simp add: None)
      then show ?thesis using i False by (auto simp: order_inv_def nth_list_update)
    next
      case (Some t)
      then obtain p where p: "in_previous (nodes ! index) = Some p" "latest_by_identity nodes p = Some t"
        by (auto simp: link_def bind_eq_Some_conv)
      obtain st1 ord1 where r: "insert_info_node nodes (latest_by_identity nodes) t (?s, ord) = Inr (st1, ord1)"
        and pl: "place index st1 ord1 (case index_of t ord1 of Some k \<Rightarrow> k + 1 | None \<Rightarrow> length ord1) = (st', ord')"
        using "1.prems"(1) i False p
        by (auto simp: insert_info_node.simps [of _ _ index] Let_def bindr_eq_Inr)
      have ih: "order_inv nodes st1 ord1 \<and> t \<in> set ord1 \<and> ?s ! t \<noteq> 1 \<and>
          (\<forall>j < length nodes. (st1 ! j = 1) = (?s ! j = 1) \<and> (?s ! j = 2 \<longrightarrow> st1 ! j = 2))"
        using "1.hyps" [OF _ False i(3) refl p r inv] i by simp
      then have s1: "st1 ! index = 1" using i by simp
      obtain k where k: "index_of t ord1 = Some k" using ih by (metis index_of_None not_None_eq)
      have "order_inv nodes st' ord' \<and> st' = st1[index := 2] \<and> (\<forall>a b. precedes ord1 a b \<longrightarrow> precedes ord' a b)"
        by (rule order_inv_place [OF _ i(1) s1 _ pl]) (use ih k Some in simp_all)
      then show ?thesis using ih i False s1 by (auto simp: order_inv_def nth_list_update)
    qed
  qed
qed

definition cyclic_error :: "semantic_error \<Rightarrow> bool" where
  "cyclic_error e \<longleftrightarrow> (\<exists>name obj. e = HandlerError SORT_HANDLER (CyclicPnam name obj))"

lemma insert_info_node_error:
  assumes "insert_info_node nodes (latest_by_identity nodes) index (st, ord) = Inl e"
    and "length st = length nodes" "index < length nodes"
    and "\<forall>j < length nodes. st ! j = 1 \<longrightarrow> (j, index) \<in> (links nodes)\<^sup>+"
  shows "\<not> acyclic (links nodes) \<and> cyclic_error e"
  using assms
proof (induction nodes "latest_by_identity nodes" index "(st, ord)" arbitrary: st ord rule: insert_info_node.induct)
  case (1 nodes index st ord)
  show ?case
  proof (cases "st ! index = 1")
    case True
    moreover have "cyclic_error e"
      using "1.prems"(1,2,3) True
      by (auto simp: insert_info_node.simps [of _ _ index] cyclic_error_def split: if_splits)
    ultimately show ?thesis using "1.prems"(3,4) by (auto simp: acyclic_def)
  next
    case False
    let ?s = "st[index := 1]"
    have two: "st ! index \<noteq> 2" and i: "\<not> \<not> (index < length st \<and> index < length nodes)"
      using "1.prems"(1,2,3) by (auto simp: insert_info_node.simps [of _ _ index] split: if_splits)
    obtain p t where p: "in_previous (nodes ! index) = Some p" "latest_by_identity nodes p = Some t"
      and r: "insert_info_node nodes (latest_by_identity nodes) t (?s, ord) = Inl e"
      using "1.prems"(1,2,3) two False
      by (auto simp: insert_info_node.simps [of _ _ index] Let_def bindr_eq_Inl split: option.splits)
    have l: "(index, t) \<in> links nodes" using p "1.prems"(3) by (simp add: links_def link_def)
    have t: "t < length nodes" using p(2) latest_bound by blast
    have "(j, t) \<in> (links nodes)\<^sup>+" if "j < length nodes" "?s ! j = 1" for j
    proof (cases "j = index")
      case True
      then show ?thesis using l by blast
    next
      case False
      then have "(j, index) \<in> (links nodes)\<^sup>+" using that "1.prems"(4) by simp
      then show ?thesis using l by (rule trancl.trancl_into_trancl)
    qed
    then show ?thesis using "1.hyps" [OF i two False refl p r] t "1.prems"(2) by simp
  qed
qed

lemma insert_all_ok:
  assumes "steps (insert_info_node nodes (latest_by_identity nodes)) is' (st, ord) = Inr (st', ord')"
    and "order_inv nodes st ord" "\<forall>j < length nodes. st ! j \<noteq> 1" "set is' \<subseteq> {..<length nodes}"
  shows "order_inv nodes st' ord' \<and> set is' \<union> set ord \<subseteq> set ord'"
  using assms
proof (induction is' arbitrary: st ord)
  case (Cons i is')
  obtain st1 ord1 where r: "insert_info_node nodes (latest_by_identity nodes) i (st, ord) = Inr (st1, ord1)"
    and rest: "steps (insert_info_node nodes (latest_by_identity nodes)) is' (st1, ord1) = Inr (st', ord')"
    using Cons.prems(1) by (auto simp: bindr_eq_Inr)
  note ok = insert_info_node_ok [OF r Cons.prems(2)]
  have "set ord \<subseteq> set ord1" using ok Cons.prems(2) by (auto simp: order_inv_def)
  moreover have "order_inv nodes st' ord' \<and> set is' \<union> set ord1 \<subseteq> set ord'"
    by (rule Cons.IH [OF rest]) (use ok Cons.prems in auto)
  ultimately show ?case using ok by auto
qed simp

lemma insert_all_error:
  assumes "steps (insert_info_node nodes (latest_by_identity nodes)) is' (st, ord) = Inl e"
    and "order_inv nodes st ord" "\<forall>j < length nodes. st ! j \<noteq> 1" "set is' \<subseteq> {..<length nodes}"
  shows "\<not> acyclic (links nodes) \<and> cyclic_error e"
  using assms
proof (induction is' arbitrary: st ord)
  case (Cons i is')
  show ?case
  proof (cases "insert_info_node nodes (latest_by_identity nodes) i (st, ord)")
    case (Inl e')
    then have "e' = e" using Cons.prems(1) by simp
    then show ?thesis using Inl
      by (intro insert_info_node_error) (use Cons.prems in \<open>auto simp: order_inv_def\<close>)
  next
    case (Inr p)
    then obtain st1 ord1 where r: "insert_info_node nodes (latest_by_identity nodes) i (st, ord) = Inr (st1, ord1)"
      by (cases p) simp
    have "steps (insert_info_node nodes (latest_by_identity nodes)) is' (st1, ord1) = Inl e"
      using Cons.prems(1) r by simp
    then show ?thesis
      by (rule Cons.IH) (use insert_info_node_ok [OF r Cons.prems(2)] Cons.prems in auto)
  qed
qed simp

lemma order_inv_initial: "order_inv nodes (replicate (length nodes) 0) []"
  by (auto simp: order_inv_def)

lemma info_order_ok:
  assumes "info_order nodes = Inr ord"
  shows "distinct ord" "set ord = {..<length nodes}"
    and "link nodes i = Some t \<Longrightarrow> i < length nodes \<Longrightarrow> precedes ord t i"
proof -
  obtain st where st: "steps (insert_info_node nodes (latest_by_identity nodes)) [0..<length nodes]
      (replicate (length nodes) 0, []) = Inr (st, ord)"
    using assms by (auto simp: info_order_def bindr_eq_Inr)
  have inv: "order_inv nodes st ord" and all: "{..<length nodes} \<subseteq> set ord"
    using insert_all_ok [OF st order_inv_initial] by (auto simp: atLeast0LessThan)
  then show "distinct ord" "set ord = {..<length nodes}" by (auto simp: order_inv_def)
  then show "precedes ord t i" if "link nodes i = Some t" "i < length nodes"
    using inv that by (auto simp: order_inv_def)
qed

lemma info_order_iff: "(\<exists>ord. info_order nodes = Inr ord) \<longleftrightarrow> acyclic (links nodes)"
proof
  assume "\<exists>ord. info_order nodes = Inr ord"
  then obtain ord where ord: "info_order nodes = Inr ord" by blast
  have d: "distinct ord" by (rule info_order_ok [OF ord])
  show "acyclic (links nodes)"
  proof (rule acyclicI_order [where f = "\<lambda>i. the (index_of i ord)"])
    fix i t assume "(i, t) \<in> links nodes"
    then show "the (index_of t ord) < the (index_of i ord)"
      using info_order_ok(3) [OF ord] d by (auto simp: links_def intro: precedes_index)
  qed
next
  assume "acyclic (links nodes)"
  then have "steps (insert_info_node nodes (latest_by_identity nodes)) [0..<length nodes]
      (replicate (length nodes) 0, []) \<noteq> Inl e" for e
    using insert_all_error [OF _ order_inv_initial, of nodes "[0..<length nodes]"] by (auto simp: atLeast0LessThan)
  then show "\<exists>ord. info_order nodes = Inr ord"
    by (cases "steps (insert_info_node nodes (latest_by_identity nodes)) [0..<length nodes]
      (replicate (length nodes) 0, [])") (auto simp: info_order_def)
qed

lemma info_order_error: "info_order nodes = Inl e \<Longrightarrow> cyclic_error e"
  using insert_all_error [OF _ order_inv_initial, of nodes "[0..<length nodes]"]
  by (auto simp: info_order_def bindr_eq_Inl atLeast0LessThan)

text \<open>
  C29: the PNAM ordering fails only on a cycle. An order is found exactly when no chain of links returns
  to its start, and the only error is the one that names a cyclic chain; the order lists every node
  once, and every linked node stands after the node it is linked to.
\<close>

theorem info_order_linked:
  "(case info_order nodes of
      Inl e \<Rightarrow> cyclic_error e \<and> \<not> acyclic (links nodes)
    | Inr ord \<Rightarrow> acyclic (links nodes) \<and> distinct ord \<and> set ord = {..<length nodes} \<and>
        (\<forall>(i, t) \<in> links nodes. precedes ord t i))"
proof (cases "info_order nodes")
  case (Inl e)
  then show ?thesis using info_order_error info_order_iff [of nodes] by auto
next
  case (Inr ord)
  then show ?thesis using info_order_ok [OF Inr] info_order_iff [of nodes] by (auto simp: links_def)
qed

end
