(* ===== verification/InfoSort.thy ===== *)
theory InfoSort
  imports InfoOrder PatcherLaws PluginCache
begin

text \<open>
  \<open>bethkit-semantic/src/info_sort.rs\<close>: the plan that orders the INFO records of a topic group, over
  the plugins of a load order. Rust's Unicode \<open>to_lowercase\<close> is the parameter \<open>lower\<close>, the zlib
  decoder of compressed records the parameter \<open>inflate\<close>. The edit of a record through the schema
  editor (\<open>edit_info_previous\<close>) is not modelled.
\<close>

unbundle bit_operations_syntax

definition SIG_INFO :: signature where "SIG_INFO = sig_lit ''INFO''"
definition SIG_PNAM :: signature where "SIG_PNAM = sig_lit ''PNAM''"

record info_group_sort_plan =
  sp_form_ids :: "form_id list"
  sp_changed :: bool

definition sort_error :: "semantic_reason \<Rightarrow> semantic_error" where
  "sort_error r = HandlerError SORT_HANDLER r"

definition plan_apply :: "info_group_sort_plan \<Rightarrow> group \<Rightarrow> plugin_patcher \<Rightarrow> semantic_error + plugin_patcher" where
  "plan_apply plan g pt =
     (if sp_changed plan then core_err (reorder_group_records g (sp_form_ids plan) pt) else Inr pt)"

subsection \<open>Finding the topic group\<close>

fun grp_all :: "('r, 'h) grp \<Rightarrow> ('r, 'h) grp list"
  and child_all :: "('r, 'h) child \<Rightarrow> ('r, 'h) grp list" where
  "grp_all (Grp h cs) = Grp h cs # concat (map child_all cs)"
| "child_all (Record r) = []"
| "child_all (Group g) = grp_all g"

text \<open>\<open>groups_recursive\<close>: a group, then its subgroups in order.\<close>

definition groups_recursive :: "group \<Rightarrow> group list" where
  "groups_recursive = grp_all"

definition topic_groups :: "plugin \<Rightarrow> group list" where
  "topic_groups p =
     filter (\<lambda>g. gh_group_type (gi_header (grp_head g)) = TopicChildren)
       (concat (map groups_recursive (pl_groups p)))"

text \<open>\<open>match matches.as_slice()\<close>.\<close>

fun at_most_one :: "(nat \<Rightarrow> semantic_error) \<Rightarrow> 'a list \<Rightarrow> semantic_error + 'a option" where
  "at_most_one e [] = Inr None"
| "at_most_one e [x] = Inr (Some x)"
| "at_most_one e xs = Inl (e (length xs))"

definition find_topic_group_record :: "plugin_input \<Rightarrow> form_id \<Rightarrow> semantic_error + (group \<times> main_record) option" where
  "find_topic_group_record plugin form_id =
     at_most_one (\<lambda>n. sort_error (InfoGroups form_id n))
       (List.map_filter (\<lambda>g. map_option (\<lambda>r. (g, r)) (find (\<lambda>r. record_fid r = form_id) (direct_records g)))
         (topic_groups (pi_plugin plugin)))"

definition find_topic_group ::
  "(rstring \<Rightarrow> rstring) \<Rightarrow> load_order \<Rightarrow> plugin_input \<Rightarrow> global_form_id \<Rightarrow> semantic_error + group option" where
  "find_topic_group lower lo plugin dial =
     at_most_one (\<lambda>n. sort_error (DialGroups (pi_name plugin) n))
       (filter (\<lambda>g. case gh_label (gi_header (grp_head g)) of
           LFormId label \<Rightarrow> load_order_resolve lower label (pi_name plugin) (pl_masters (pi_plugin plugin)) lo = Some dial
         | _ \<Rightarrow> False)
         (topic_groups (pi_plugin plugin)))"

subsection \<open>The previous INFO\<close>

definition pnam_raw :: "bytes \<Rightarrow> semantic_error + u32" where
  "pnam_raw bs = ok_or (DecodeError (ascii ''INFO/PNAM'') (PnamTooShort (length bs)))
     (if length bs \<ge> 4 then Some (le_word (take 4 bs)) else None)"

definition previous_identity ::
  "(rstring \<Rightarrow> rstring) \<Rightarrow> load_order \<Rightarrow> plugin_input \<Rightarrow> bytes option \<Rightarrow> semantic_error + bool \<times> global_form_id option" where
  "previous_identity lower lo plugin pnam = (case pnam of
      None \<Rightarrow> Inr (False, None)
    | Some bs \<Rightarrow>
        bindr (pnam_raw bs) (\<lambda>raw.
        Inr (True, if raw \<noteq> 0 then load_order_resolve lower (FormId raw) (pi_name plugin) (pl_masters (pi_plugin plugin)) lo
                   else None)))"

definition info_previous ::
  "(bytes \<Rightarrow> string + bytes) \<Rightarrow> (rstring \<Rightarrow> rstring) \<Rightarrow> load_order \<Rightarrow> plugin_input \<Rightarrow> main_record
    \<Rightarrow> semantic_error + bool \<times> global_form_id option" where
  "info_previous inflate lower lo plugin r =
     bindr (core_err (subrecs inflate r)) (\<lambda>srs.
     previous_identity lower lo plugin (map_option sr_bytes (find (\<lambda>s. sr_signature s = SIG_PNAM) srs)))"

definition info_previous_writable ::
  "(rstring \<Rightarrow> rstring) \<Rightarrow> load_order \<Rightarrow> plugin_input \<Rightarrow> writable_record \<Rightarrow> semantic_error + bool \<times> global_form_id option" where
  "info_previous_writable lower lo plugin r =
     previous_identity lower lo plugin (map_option ws_data (find (\<lambda>s. ws_signature s = SIG_PNAM) (wr_subrecords r)))"

definition info_previous_raw :: "(bytes \<Rightarrow> string + bytes) \<Rightarrow> main_record \<Rightarrow> semantic_error + form_id option" where
  "info_previous_raw inflate r =
     bindr (core_err (subrecs inflate r)) (\<lambda>srs.
     case find (\<lambda>s. sr_signature s = SIG_PNAM) srs of
       None \<Rightarrow> Inr None
     | Some s \<Rightarrow> bindr (pnam_raw (sr_bytes s)) (\<lambda>raw. Inr (Some (FormId raw))))"

definition writable_record_of :: "(bytes \<Rightarrow> string + bytes) \<Rightarrow> main_record \<Rightarrow> semantic_error + writable_record" where
  "writable_record_of inflate r =
     bindr (core_err (subrecs inflate r)) (\<lambda>srs.
     Inr \<lparr> wr_signature = rh_signature (rec_header r), wr_flags = rh_flags (rec_header r),
           wr_form_id = rh_form_id (rec_header r), wr_form_version = rh_form_version (rec_header r),
           wr_subrecords = map (\<lambda>s. \<lparr> ws_signature = sr_signature s, ws_data = sr_bytes s \<rparr>) srs \<rparr>)"

subsection \<open>The plan\<close>

definition target_entries :: "(rstring \<Rightarrow> rstring) \<Rightarrow> plugin_input list \<Rightarrow> rstring \<Rightarrow> (nat \<times> plugin_input) list" where
  "target_entries lower plugins target_plugin =
     filter (\<lambda>(_, p). eq_ignore_ascii_case (pi_name p) (lower target_plugin)) (enumerate 0 plugins)"

text \<open>The previous INFO of a record; that of the edited record is read from the edit.\<close>

definition previous_of ::
  "(bytes \<Rightarrow> string + bytes) \<Rightarrow> (rstring \<Rightarrow> rstring) \<Rightarrow> load_order \<Rightarrow> nat \<Rightarrow> writable_record option
    \<Rightarrow> nat \<Rightarrow> plugin_input \<Rightarrow> main_record \<Rightarrow> semantic_error + bool \<times> global_form_id option" where
  "previous_of inflate lower lo target_index edited plugin_index plugin r = (case edited of
      Some e \<Rightarrow>
        (if plugin_index = target_index \<and> wr_form_id e = record_fid r
         then info_previous_writable lower lo plugin e
         else info_previous inflate lower lo plugin r)
    | None \<Rightarrow> info_previous inflate lower lo plugin r)"

text \<open>The body of the loop over the records of a group: one node per record.\<close>

definition record_node ::
  "(bytes \<Rightarrow> string + bytes) \<Rightarrow> (rstring \<Rightarrow> rstring) \<Rightarrow> load_order \<Rightarrow> nat \<Rightarrow> writable_record option
    \<Rightarrow> nat \<Rightarrow> plugin_input \<Rightarrow> main_record \<Rightarrow> info_node list \<Rightarrow> semantic_error + info_node list" where
  "record_node inflate lower lo target_index edited plugin_index plugin r nodes =
     bindr (ensure (rh_signature (rec_header r) = SIG_INFO)
       (sort_error (NonInfoRecord (rh_signature (rec_header r))))) (\<lambda>_.
     bindr (ok_or (sort_error (UnresolvedInfo (record_fid r) (pi_name plugin)))
       (load_order_resolve lower (record_fid r) (pi_name plugin) (pl_masters (pi_plugin plugin)) lo)) (\<lambda>identity.
     bindr (previous_of inflate lower lo target_index edited plugin_index plugin r) (\<lambda>(has_previous_field, previous).
     Inr (nodes @ [\<lparr> in_plugin_index = plugin_index, in_raw_form_id = record_fid r,
       in_identity = identity, in_previous = previous, in_has_previous_field = has_previous_field \<rparr>]))))"

definition plugin_nodes ::
  "(bytes \<Rightarrow> string + bytes) \<Rightarrow> (rstring \<Rightarrow> rstring) \<Rightarrow> load_order \<Rightarrow> nat \<Rightarrow> writable_record option
    \<Rightarrow> global_form_id \<Rightarrow> nat \<times> plugin_input \<Rightarrow> info_node list \<Rightarrow> semantic_error + info_node list" where
  "plugin_nodes inflate lower lo target_index edited dial = (\<lambda>(plugin_index, plugin) nodes.
     bindr (find_topic_group lower lo plugin dial) (\<lambda>found.
     case found of
       None \<Rightarrow> Inr nodes
     | Some g \<Rightarrow>
         steps (record_node inflate lower lo target_index edited plugin_index plugin) (direct_records g) nodes))"

definition plan_info_group_sort_with_override ::
  "(bytes \<Rightarrow> string + bytes) \<Rightarrow> (rstring \<Rightarrow> rstring) \<Rightarrow> load_order \<Rightarrow> plugin_input list \<Rightarrow> rstring
    \<Rightarrow> global_form_id \<Rightarrow> writable_record option \<Rightarrow> semantic_error + info_group_sort_plan option" where
  "plan_info_group_sort_with_override inflate lower lo plugins target_plugin dial edited =
     (case target_entries lower plugins target_plugin of
        [(target_index, target)] \<Rightarrow>
          bindr (find_topic_group lower lo target dial) (\<lambda>found.
          case found of
            None \<Rightarrow> Inr None
          | Some target_group \<Rightarrow>
              bindr (steps (plugin_nodes inflate lower lo target_index edited dial)
                (take (target_index + 1) (enumerate 0 plugins)) []) (\<lambda>nodes.
              bindr (info_order nodes) (\<lambda>ordered.
              let form_ids = map (\<lambda>i. in_raw_form_id (nodes ! i))
                    (filter (\<lambda>i. in_plugin_index (nodes ! i) = target_index) ordered);
                  current = map record_fid (direct_records target_group) in
              if length form_ids \<noteq> length current
              then Inl (sort_error (PlannedOfTarget (length form_ids) (length current)))
              else Inr (Some \<lparr> sp_form_ids = form_ids, sp_changed = (form_ids \<noteq> current) \<rparr>))))
      | matches \<Rightarrow> Inl (sort_error (TargetPluginEntries target_plugin (length matches))))"

definition plan_info_group_sort ::
  "(bytes \<Rightarrow> string + bytes) \<Rightarrow> (rstring \<Rightarrow> rstring) \<Rightarrow> load_order \<Rightarrow> plugin_input list \<Rightarrow> rstring
    \<Rightarrow> global_form_id \<Rightarrow> semantic_error + info_group_sort_plan option" where
  "plan_info_group_sort inflate lower lo plugins target_plugin dial =
     plan_info_group_sort_with_override inflate lower lo plugins target_plugin dial None"

subsection \<open>What a plan is\<close>

text \<open>The node made of a record of the plugin at \<open>pi\<close>.\<close>

definition node_for ::
  "(rstring \<Rightarrow> rstring) \<Rightarrow> load_order \<Rightarrow> nat \<Rightarrow> plugin_input \<Rightarrow> (main_record \<Rightarrow> semantic_error + bool \<times> global_form_id option)
    \<Rightarrow> main_record \<Rightarrow> info_node \<Rightarrow> bool" where
  "node_for lower lo pi plugin prev r n \<longleftrightarrow>
     in_raw_form_id n = record_fid r \<and> in_plugin_index n = pi \<and>
     load_order_resolve lower (record_fid r) (pi_name plugin) (pl_masters (pi_plugin plugin)) lo = Some (in_identity n) \<and>
     prev r = Inr (in_has_previous_field n, in_previous n)"

lemma record_node_Inr:
  assumes "record_node inflate lower lo ti edited pi plugin r nodes = Inr nodes'"
  shows "\<exists>n. nodes' = nodes @ [n] \<and>
    node_for lower lo pi plugin (previous_of inflate lower lo ti edited pi plugin) r n"
  using assms unfolding record_node_def node_for_def by (auto simp: bindr_eq_Inr)

lemma record_nodes:
  "steps (record_node inflate lower lo ti edited pi plugin) rs nodes = Inr nodes' \<Longrightarrow>
     \<exists>ns. nodes' = nodes @ ns \<and>
       list_all2 (node_for lower lo pi plugin (previous_of inflate lower lo ti edited pi plugin)) rs ns"
proof (induction rs arbitrary: nodes)
  case (Cons r rs)
  obtain nodes1 where n1: "record_node inflate lower lo ti edited pi plugin r nodes = Inr nodes1"
    and rest: "steps (record_node inflate lower lo ti edited pi plugin) rs nodes1 = Inr nodes'"
    using Cons.prems by (auto simp: bindr_eq_Inr)
  obtain n where n: "nodes1 = nodes @ [n]"
    "node_for lower lo pi plugin (previous_of inflate lower lo ti edited pi plugin) r n"
    using record_node_Inr [OF n1] by blast
  have "steps (record_node inflate lower lo ti edited pi plugin) rs (nodes @ [n]) = Inr nodes'"
    using rest n(1) by simp
  from Cons.IH [OF this] obtain ns where "nodes' = (nodes @ [n]) @ ns"
    "list_all2 (node_for lower lo pi plugin (previous_of inflate lower lo ti edited pi plugin)) rs ns" by blast
  then show ?case using n by (intro exI [of _ "n # ns"]) simp
qed simp

definition group_of :: "(rstring \<Rightarrow> rstring) \<Rightarrow> load_order \<Rightarrow> plugin_input \<Rightarrow> global_form_id \<Rightarrow> main_record list" where
  "group_of lower lo plugin dial = (case find_topic_group lower lo plugin dial of
      Inr (Some g) \<Rightarrow> direct_records g | _ \<Rightarrow> [])"

lemma plugin_nodes_Inr:
  assumes "plugin_nodes inflate lower lo ti edited dial (pi, plugin) nodes = Inr nodes'"
  shows "\<exists>ns. nodes' = nodes @ ns \<and>
    list_all2 (node_for lower lo pi plugin (previous_of inflate lower lo ti edited pi plugin))
      (group_of lower lo plugin dial) ns"
proof -
  obtain found where f: "find_topic_group lower lo plugin dial = Inr found"
    and s: "(case found of None \<Rightarrow> Inr nodes | Some g \<Rightarrow>
         steps (record_node inflate lower lo ti edited pi plugin) (direct_records g) nodes) = Inr nodes'"
    using assms by (auto simp: plugin_nodes_def bindr_eq_Inr)
  show ?thesis
    using s f by (cases found) (auto simp: group_of_def dest: record_nodes)
qed

lemma earlier_nodes:
  "steps (plugin_nodes inflate lower lo ti edited dial) ips nodes = Inr nodes' \<Longrightarrow> \<forall>(i, p) \<in> set ips. i \<noteq> ti \<Longrightarrow>
     \<exists>ns. nodes' = nodes @ ns \<and> (\<forall>n \<in> set ns. in_plugin_index n \<noteq> ti)"
proof (induction ips arbitrary: nodes)
  case (Cons ip ips)
  obtain i p where ip: "ip = (i, p)" by (cases ip)
  obtain nodes1 where n1: "plugin_nodes inflate lower lo ti edited dial (i, p) nodes = Inr nodes1"
    and rest: "steps (plugin_nodes inflate lower lo ti edited dial) ips nodes1 = Inr nodes'"
    using Cons.prems(1) ip by (auto simp: bindr_eq_Inr)
  obtain ns1 where ns1: "nodes1 = nodes @ ns1"
    and all: "list_all2 (node_for lower lo i p (previous_of inflate lower lo ti edited i p)) (group_of lower lo p dial) ns1"
    using plugin_nodes_Inr [OF n1] by blast
  have "\<forall>n \<in> set ns1. in_plugin_index n = i"
    using all by (auto simp: list_all2_conv_all_nth node_for_def in_set_conv_nth)
  moreover note ns1
  moreover obtain ns2 where "nodes' = nodes1 @ ns2" "\<forall>n \<in> set ns2. in_plugin_index n \<noteq> ti"
    using Cons.IH [OF rest] Cons.prems(2) by auto
  ultimately show ?case using Cons.prems(2) ip by (intro exI [of _ "ns1 @ ns2"]) auto
qed simp

text \<open>The nodes of a plan: those of earlier plugins, then those of the target.\<close>

lemma plan_nodes:
  assumes "target_entries lower plugins name = [(ti, target)]"
    and "steps (plugin_nodes inflate lower lo ti edited dial) (take (ti + 1) (enumerate 0 plugins)) [] = Inr nodes"
  shows "\<exists>pre ns. nodes = pre @ ns \<and> (\<forall>n \<in> set pre. in_plugin_index n \<noteq> ti) \<and>
    list_all2 (node_for lower lo ti target (previous_of inflate lower lo ti edited ti target))
      (group_of lower lo target dial) ns"
proof -
  have "(ti, target) \<in> set (enumerate 0 plugins)"
    using assms(1) unfolding target_entries_def by (metis (no_types) filter_is_subset list.set_intros(1) subsetD)
  then have t: "ti < length plugins" "plugins ! ti = target" by (auto simp: in_set_enumerate_eq)
  have tk: "take (ti + 1) (enumerate 0 plugins) = take ti (enumerate 0 plugins) @ [(ti, target)]"
    using t by (simp add: take_Suc_conv_app_nth nth_enumerate_eq)
  have "\<forall>(i, p) \<in> set (take ti (enumerate 0 plugins)). i \<noteq> ti"
    by (auto simp: in_set_conv_nth nth_enumerate_eq)
  moreover obtain nodes1 where
      n1: "steps (plugin_nodes inflate lower lo ti edited dial) (take ti (enumerate 0 plugins)) [] = Inr nodes1"
    and last: "plugin_nodes inflate lower lo ti edited dial (ti, target) nodes1 = Inr nodes"
    using assms(2) unfolding tk steps_append by (auto simp: bindr_eq_Inr)
  ultimately have "\<forall>n \<in> set nodes1. in_plugin_index n \<noteq> ti" using earlier_nodes [OF n1] by auto
  then show ?thesis using plugin_nodes_Inr [OF last] by blast
qed

text \<open>The last node of an identity is the one other nodes are linked to.\<close>

lemma latest_complete:
  "(\<exists>i < length ns. in_identity (ns ! i) = g) \<Longrightarrow>
     \<exists>t. fold (\<lambda>(i, n) m. m(in_identity n \<mapsto> i)) (enumerate k ns) m g = Some (k + t) \<and> t < length ns \<and>
       in_identity (ns ! t) = g \<and> (\<forall>j < length ns. in_identity (ns ! j) = g \<longrightarrow> j \<le> t)"
proof (induction ns rule: rev_induct)
  case (snoc n ns)
  show ?case
  proof (cases "in_identity n = g")
    case True
    then show ?thesis by (intro exI [of _ "length ns"]) (simp add: enumerate_append_eq nth_append)
  next
    case False
    then have "\<exists>i < length ns. in_identity (ns ! i) = g"
      using snoc.prems by (auto simp: nth_append less_Suc_eq split: if_splits)
    then obtain t where t: "fold (\<lambda>(i, n) m. m(in_identity n \<mapsto> i)) (enumerate k ns) m g = Some (k + t)"
      "t < length ns" "in_identity (ns ! t) = g" "\<forall>j < length ns. in_identity (ns ! j) = g \<longrightarrow> j \<le> t"
      using snoc.IH by blast
    have "fold (\<lambda>(i, n) m. m(in_identity n \<mapsto> i)) (enumerate k (ns @ [n])) m g = Some (k + t)"
      using t(1) False by (simp add: enumerate_append_eq)
    moreover have "t < length (ns @ [n])" "in_identity ((ns @ [n]) ! t) = g" using t(2,3) by (simp_all add: nth_append)
    moreover have "\<forall>j < length (ns @ [n]). in_identity ((ns @ [n]) ! j) = g \<longrightarrow> j \<le> t"
      using t(4) False by (auto simp: nth_append less_Suc_eq)
    ultimately show ?thesis by blast
  qed
qed simp

lemma latest_last:
  assumes "i < length nodes" "in_identity (nodes ! i) = g"
  shows "\<exists>t. latest_by_identity nodes g = Some t \<and> i \<le> t \<and> t < length nodes \<and> in_identity (nodes ! t) = g"
  using latest_complete [of nodes g 0 Map.empty] assms by (auto simp: latest_by_identity_def)

lemma precedes_filter_map:
  assumes "precedes xs a b" "P a" "P b"
  shows "precedes (map f (filter P xs)) (f a) (f b)"
proof -
  obtain us vs where "xs = us @ vs" "a \<in> set us" "b \<in> set vs" using assms(1) by (auto simp: precedes_def)
  then show ?thesis using assms(2,3) unfolding precedes_def
    by (intro exI [of _ "map f (filter P us)"] exI [of _ "map f (filter P vs)"]) auto
qed

lemma plan_Inr:
  assumes "plan_info_group_sort_with_override inflate lower lo plugins name dial edited = Inr (Some plan)"
    and t: "target_entries lower plugins name = [(ti, target)]"
    and g: "find_topic_group lower lo target dial = Inr (Some g)"
  obtains pre ns ordered where
    "info_order (pre @ ns) = Inr ordered" "\<forall>n \<in> set pre. in_plugin_index n \<noteq> ti"
    "list_all2 (node_for lower lo ti target (previous_of inflate lower lo ti edited ti target)) (direct_records g) ns"
    "sp_form_ids plan = map (\<lambda>i. in_raw_form_id ((pre @ ns) ! i))
       (filter (\<lambda>i. in_plugin_index ((pre @ ns) ! i) = ti) ordered)"
    "sp_changed plan = (sp_form_ids plan \<noteq> map record_fid (direct_records g))"
proof -
  obtain nodes ordered where st: "steps (plugin_nodes inflate lower lo ti edited dial)
      (take (ti + 1) (enumerate 0 plugins)) [] = Inr nodes"
    and o: "info_order nodes = Inr ordered"
    and p: "sp_form_ids plan = map (\<lambda>i. in_raw_form_id (nodes ! i)) (filter (\<lambda>i. in_plugin_index (nodes ! i) = ti) ordered)"
      "sp_changed plan = (sp_form_ids plan \<noteq> map record_fid (direct_records g))"
    using assms(1) by (auto simp: plan_info_group_sort_with_override_def t g bindr_eq_Inr Let_def split: if_splits)
  obtain pre ns where "nodes = pre @ ns" "\<forall>n \<in> set pre. in_plugin_index n \<noteq> ti"
    "list_all2 (node_for lower lo ti target (previous_of inflate lower lo ti edited ti target)) (direct_records g) ns"
    using plan_nodes [OF t st] g by (auto simp: group_of_def)
  then show ?thesis using that o p by blast
qed

lemma plan_positions:
  assumes "info_order (pre @ ns) = Inr ordered" "\<forall>n \<in> set pre. in_plugin_index n \<noteq> ti"
    and "\<forall>n \<in> set ns. in_plugin_index n = ti"
  shows "mset (map (\<lambda>i. f ((pre @ ns) ! i)) (filter (\<lambda>i. in_plugin_index ((pre @ ns) ! i) = ti) ordered)) = mset (map f ns)"
proof -
  have eq: "mset ordered = mset [0..<length (pre @ ns)]"
    using info_order_ok(1,2) [OF assms(1)]
    by (intro set_eq_iff_mset_eq_distinct [THEN iffD1]) (auto simp: set_eq_iff)
  have "mset (map (\<lambda>i. f ((pre @ ns) ! i)) (filter (\<lambda>i. in_plugin_index ((pre @ ns) ! i) = ti) ordered))
      = mset (map (\<lambda>i. f ((pre @ ns) ! i)) (filter (\<lambda>i. in_plugin_index ((pre @ ns) ! i) = ti) [0..<length (pre @ ns)]))"
    unfolding mset_map mset_filter eq ..
  also have "filter (\<lambda>i. in_plugin_index ((pre @ ns) ! i) = ti) [0..<length (pre @ ns)] = [length pre..<length (pre @ ns)]"
  proof -
    have a: "in_plugin_index ((pre @ ns) ! i) \<noteq> ti" if "i < length pre" for i
      using assms(2) that by (simp add: nth_append)
    have b: "in_plugin_index ((pre @ ns) ! i) = ti" if "length pre \<le> i" "i < length (pre @ ns)" for i
      using assms(3) that by (simp add: nth_append)
    have "filter (\<lambda>i. in_plugin_index ((pre @ ns) ! i) = ti) [0..<length pre] = []"
      using a by (simp add: filter_empty_conv)
    moreover have "filter (\<lambda>i. in_plugin_index ((pre @ ns) ! i) = ti) [length pre..<length (pre @ ns)] = [length pre..<length (pre @ ns)]"
      using b by (intro filter_True) simp
    moreover have "[0..<length (pre @ ns)] = [0..<length pre] @ [length pre..<length (pre @ ns)]"
      by (metis le_add1 length_append upt_add_eq_append le_add_diff_inverse zero_le)
    ultimately show ?thesis by (metis append_Nil filter_append)
  qed
  also have "map (\<lambda>i. f ((pre @ ns) ! i)) [length pre..<length (pre @ ns)] = map f ns"
    by (rule nth_equalityI) (simp_all add: nth_append)
  finally show ?thesis .
qed

text \<open>
  C30: a sort plan is a permutation of the target group's records, which the patcher accepts whenever the
  group is flat, known to the source file and free of duplicates; and it puts an INFO record after
  the record of the same group that its PNAM names.
\<close>

theorem info_plan_sorts:
  assumes plan: "plan_info_group_sort inflate lower lo plugins name dial = Inr (Some plan)"
    and t: "target_entries lower plugins name = [(ti, target)]"
    and g: "find_topic_group lower lo target dial = Inr (Some g)"
  shows "mset (sp_form_ids plan) = mset (map record_fid (direct_records g)) \<and>
    (group_range g \<noteq> None \<and> (\<forall>c \<in> set (grp_children g). \<exists>r. c = Record r) \<and>
       distinct (map record_fid (direct_records g)) \<longrightarrow> (\<exists>pt'. plan_apply plan g pt = Inr pt')) \<and>
    (\<forall>r \<in> set (direct_records g). \<forall>q \<in> set (direct_records g). \<forall>ident.
       info_previous inflate lower lo target r = Inr (True, Some ident) \<and>
       (\<forall>x \<in> set (direct_records g).
          load_order_resolve lower (record_fid x) (pi_name target) (pl_masters (pi_plugin target)) lo = Some ident \<longleftrightarrow> x = q)
       \<longrightarrow> precedes (sp_form_ids plan) (record_fid q) (record_fid r))"
proof (intro conjI impI ballI allI)
  obtain pre ns ordered where o: "info_order (pre @ ns) = Inr ordered" and pre: "\<forall>n \<in> set pre. in_plugin_index n \<noteq> ti"
    and all: "list_all2 (node_for lower lo ti target (previous_of inflate lower lo ti None ti target)) (direct_records g) ns"
    and ids: "sp_form_ids plan = map (\<lambda>i. in_raw_form_id ((pre @ ns) ! i))
       (filter (\<lambda>i. in_plugin_index ((pre @ ns) ! i) = ti) ordered)"
    and ch: "sp_changed plan = (sp_form_ids plan \<noteq> map record_fid (direct_records g))"
    using plan unfolding plan_info_group_sort_def by (rule plan_Inr [OF _ t g])
  have len: "length ns = length (direct_records g)" using all by (simp add: list_all2_lengthD)
  have node: "node_for lower lo ti target (info_previous inflate lower lo target) (direct_records g ! k) (ns ! k)"
    if "k < length ns" for k
    using all that by (simp add: list_all2_conv_all_nth node_for_def previous_of_def)
  have own: "\<forall>n \<in> set ns. in_plugin_index n = ti" using node by (auto simp: in_set_conv_nth node_for_def)
  have raw: "map in_raw_form_id ns = map record_fid (direct_records g)"
    using node by (intro nth_equalityI) (simp_all add: len node_for_def)
  show perm: "mset (sp_form_ids plan) = mset (map record_fid (direct_records g))"
    unfolding ids raw [symmetric] by (rule plan_positions [OF o pre own])
  show "\<exists>pt'. plan_apply plan g pt = Inr pt'"
    if c: "group_range g \<noteq> None \<and> (\<forall>c \<in> set (grp_children g). \<exists>r. c = Record r) \<and> distinct (map record_fid (direct_records g))"
  proof -
    obtain rs where rs: "grp_children g = map Record rs" using c by (metis ex_map_conv)
    then have "direct_records g = rs"
      by (simp add: direct_records_def map_filter_map_filter comp_def) (simp add: map_filter_def comp_def)
    then have "\<exists>pt'. reorder_group_records g (sp_form_ids plan) pt = Inr pt'"
      using c rs perm by (auto simp: reorder_Inr)
    then show ?thesis by (auto simp: plan_apply_def)
  qed
  fix r q ident
  assume r: "r \<in> set (direct_records g)" and q: "q \<in> set (direct_records g)"
    and h: "info_previous inflate lower lo target r = Inr (True, Some ident) \<and>
       (\<forall>x \<in> set (direct_records g).
          load_order_resolve lower (record_fid x) (pi_name target) (pl_masters (pi_plugin target)) lo = Some ident \<longleftrightarrow> x = q)"
  obtain i j where i: "i < length ns" "direct_records g ! i = r" and j: "j < length ns" "direct_records g ! j = q"
    using r q by (auto simp: in_set_conv_nth len)
  have "load_order_resolve lower (record_fid q) (pi_name target) (pl_masters (pi_plugin target)) lo = Some ident"
    using h q by blast
  then have "in_identity (ns ! j) = ident" using node [OF j(1)] j(2) by (simp add: node_for_def)
  then obtain t where t: "latest_by_identity (pre @ ns) ident = Some t" "length pre + j \<le> t" "t < length (pre @ ns)"
      "in_identity ((pre @ ns) ! t) = ident"
    using latest_last [of "length pre + j" "pre @ ns" ident] j(1) by auto
  define k where "k = t - length pre"
  have k: "t = length pre + k" "k < length ns" using t(2,3) by (simp_all add: k_def)
  have "direct_records g ! k \<in> set (direct_records g)" using k(2) len by simp
  moreover have "load_order_resolve lower (record_fid (direct_records g ! k)) (pi_name target)
      (pl_masters (pi_plugin target)) lo = Some ident"
    using node [OF k(2)] t(4) k(1) by (simp add: node_for_def)
  ultimately have "direct_records g ! k = q" using h by blast
  then have tq: "in_raw_form_id ((pre @ ns) ! t) = record_fid q" using node [OF k(2)] k by (simp add: node_for_def)
  have "in_previous (ns ! i) = Some ident" using node [OF i(1)] i(2) h by (simp add: node_for_def)
  then have "link (pre @ ns) (length pre + i) = Some t" using i(1) t(1) by (simp add: link_def)
  from info_order_ok(3) [OF o this] have "precedes ordered t (length pre + i)" using i(1) by simp
  then have "precedes (sp_form_ids plan) (in_raw_form_id ((pre @ ns) ! t)) (in_raw_form_id ((pre @ ns) ! (length pre + i)))"
    unfolding ids using own k i(1) by (intro precedes_filter_map) simp_all
  then show "precedes (sp_form_ids plan) (record_fid q) (record_fid r)"
    using tq node [OF i(1)] i(2) by (simp add: node_for_def)
qed

subsection \<open>A sample\<close>

text \<open>A topic group of two records: the PNAM of the first names the second.\<close>

definition sample_info :: "u32 \<Rightarrow> u32 option \<Rightarrow> main_record" where
  "sample_info f p = record_from_writable
     \<lparr> wr_signature = SIG_INFO, wr_flags = 0, wr_form_id = FormId f, wr_form_version = 44,
       wr_subrecords = (case p of None \<Rightarrow> [] | Some q \<Rightarrow> [\<lparr> ws_signature = SIG_PNAM, ws_data = le_bytes 4 q \<rparr>]) \<rparr>"

definition sample_topic :: group where
  "sample_topic = Grp \<lparr> gi_header = \<lparr> gh_group_size = 0, gh_label = LFormId (FormId 0x700),
       gh_group_type = TopicChildren, gh_version_control = 0, gh_unknown = 0 \<rparr>,
     gi_source_range = Some (24, 48) \<rparr> [Record (sample_info 0x800 (Some 0x801)), Record (sample_info 0x801 None)]"

definition sample_dialogue :: plugin where
  "sample_dialogue = sample_first\<lparr> pl_groups := [sample_topic] \<rparr>"

definition sample_dial :: global_form_id where
  "sample_dial = \<lparr> gf_plugin_name = [65], gf_object_id = 0x700 \<rparr>"

definition sample_input :: plugin_input where
  "sample_input = \<lparr> pi_name = [65], pi_plugin = sample_dialogue \<rparr>"

lemma sample_masters: "pl_masters (pi_plugin sample_input) = []"
  by (simp add: sample_input_def sample_dialogue_def sample_first_def sample_plugin_def pl_masters_def Let_def)

lemma sample_resolve:
  "load_order_resolve (\<lambda>s. s) (FormId 0x700) [65] [] lo = Some sample_dial"
  "load_order_resolve (\<lambda>s. s) (FormId 0x800) [65] [] lo = Some \<lparr> gf_plugin_name = [65], gf_object_id = 0x800 \<rparr>"
  "load_order_resolve (\<lambda>s. s) (FormId 0x801) [65] [] lo = Some \<lparr> gf_plugin_name = [65], gf_object_id = 0x801 \<rparr>"
  by (simp_all add: load_order_resolve_def file_index_def object_id_def Let_def sample_dial_def)

lemma sample_find: "find_topic_group (\<lambda>s. s) lo sample_input sample_dial = Inr (Some sample_topic)"
  unfolding find_topic_group_def sample_masters
  by (simp add: sample_input_def sample_dialogue_def topic_groups_def groups_recursive_def sample_topic_def sample_resolve)

lemma sample_targets: "target_entries (\<lambda>s. s) [sample_input] [65] = [(0, sample_input)]"
  by (simp add: target_entries_def sample_input_def eq_ignore_ascii_case_def)

lemma sample_direct: "direct_records sample_topic = [sample_info 0x800 (Some 0x801), sample_info 0x801 None]"
  by (simp add: direct_records_def sample_topic_def map_filter_simps)

lemma sample_topic_shape: "group_range sample_topic = Some (24, 48)" "\<forall>c \<in> set (grp_children sample_topic). \<exists>r. c = Record r"
  by (simp_all add: sample_topic_def)

lemma sample_fids: "record_fid (sample_info f p) = FormId f"
  by (simp add: sample_info_def record_from_writable_def)

lemma sample_previous:
  "info_previous Inr (\<lambda>s. s) lo sample_input (sample_info f None) = Inr (False, None)"
  "info_previous Inr (\<lambda>s. s) lo sample_input (sample_info f (Some 0x801)) =
     Inr (True, Some \<lparr> gf_plugin_name = [65], gf_object_id = 0x801 \<rparr>)"
  unfolding info_previous_def previous_identity_def sample_masters
  by (simp_all add: sample_info_def record_from_writable_def subrecords_def pnam_raw_def
      sample_input_def sample_resolve sr_bytes_def)

lemma sample_info_signature: "rh_signature (rec_header (sample_info f p)) = SIG_INFO"
  by (simp add: sample_info_def record_from_writable_def)

definition sample_nodes :: "info_node list" where
  "sample_nodes =
     [\<lparr> in_plugin_index = 0, in_raw_form_id = FormId 0x800, in_identity = \<lparr> gf_plugin_name = [65], gf_object_id = 0x800 \<rparr>,
        in_previous = Some \<lparr> gf_plugin_name = [65], gf_object_id = 0x801 \<rparr>, in_has_previous_field = True \<rparr>,
      \<lparr> in_plugin_index = 0, in_raw_form_id = FormId 0x801, in_identity = \<lparr> gf_plugin_name = [65], gf_object_id = 0x801 \<rparr>,
        in_previous = None, in_has_previous_field = False \<rparr>]"

lemma sample_plugin_nodes:
  "plugin_nodes Inr (\<lambda>s. s) lo 0 None sample_dial (0, sample_input) [] = Inr sample_nodes"
proof -
  have name: "pi_name sample_input = [65]" by (simp add: sample_input_def)
  show ?thesis
    by (simp add: plugin_nodes_def sample_find sample_direct record_node_def previous_of_def sample_previous
        sample_fids sample_info_signature sample_masters sample_resolve sample_nodes_def name ensure_def)
qed

lemma sample_order: "info_order sample_nodes = Inr [1, 0]"
  by (simp add: info_order_def sample_nodes_def latest_by_identity_def upt_rec insert_info_node.simps place_def
      insert_at_def Let_def)

theorem info_order_linked_witness:
  "acyclic (links sample_nodes) \<and> precedes [1, 0] (1::nat) 0"
proof -
  have "latest_by_identity sample_nodes \<lparr> gf_plugin_name = [65], gf_object_id = 0x801 \<rparr> = Some 1"
    by (simp add: latest_by_identity_def sample_nodes_def)
  then have "(0, 1) \<in> links sample_nodes"
    by (simp add: links_def link_def) (simp add: sample_nodes_def)
  then show ?thesis using info_order_linked [of sample_nodes] by (auto simp: sample_order)
qed

lemma sample_sort_plan:
  "plan_info_group_sort Inr (\<lambda>s. s) lo [sample_input] [65] sample_dial =
     Inr (Some \<lparr> sp_form_ids = [FormId 0x801, FormId 0x800], sp_changed = True \<rparr>)"
  by (simp add: plan_info_group_sort_def plan_info_group_sort_with_override_def sample_targets sample_find
      sample_plugin_nodes sample_order sample_direct sample_fids Let_def) (simp add: sample_nodes_def)

theorem info_plan_sorts_witness:
  "\<exists>plan. plan_info_group_sort Inr (\<lambda>s. s) load_order_new [sample_input] [65] sample_dial = Inr (Some plan) \<and>
     mset (sp_form_ids plan) = {#FormId 0x800, FormId 0x801#} \<and>
     (\<exists>pt'. plan_apply plan sample_topic (patcher_new sample_dialogue) = Inr pt') \<and>
     precedes (sp_form_ids plan) (FormId 0x801) (FormId 0x800)"
proof -
  note T = info_plan_sorts [OF sample_sort_plan [of load_order_new] sample_targets sample_find,
    of "patcher_new sample_dialogue"]
  have "\<exists>pt'. plan_apply \<lparr> sp_form_ids = [FormId 0x801, FormId 0x800], sp_changed = True \<rparr> sample_topic (patcher_new sample_dialogue) = Inr pt'"
    using T [THEN conjunct2, THEN conjunct1] sample_topic_shape by (simp add: sample_direct sample_fids)
  moreover have "precedes [FormId 0x801, FormId 0x800] (FormId 0x801) (FormId 0x800)"
    using T [THEN conjunct2, THEN conjunct2]
    by (simp add: sample_direct sample_fids sample_previous sample_masters)
       (simp add: sample_input_def sample_resolve sample_info_def record_from_writable_def)
  moreover have "mset [FormId 0x801, FormId 0x800] = {#FormId 0x800, FormId 0x801#}"
    using T [THEN conjunct1] by (simp add: sample_direct sample_fids)
  ultimately show ?thesis using sample_sort_plan [of load_order_new] by auto
qed

end
