(* ===== verification/TextEncoding.thy ===== *)
theory TextEncoding
  imports SemanticCore
begin

text \<open>
  \<open>bethkit-semantic/src/text_encoding.rs\<close> and \<open>opaque_text.rs\<close>: the policies for text stored inside
  records. The codecs of \<open>encoding_rs\<close> are the parameter \<open>text_codecs\<close>; a codec is its name. Decoding
  and encoding return the text or bytes with the flag that reports replaced characters.
\<close>

unbundle bit_operations_syntax

record text_codecs =
  tc_for_label :: "bytes \<Rightarrow> rstring option"
  tc_decode :: "rstring \<Rightarrow> bytes \<Rightarrow> rstring \<times> bool"
  tc_encode :: "rstring \<Rightarrow> rstring \<Rightarrow> bytes \<times> bool"

datatype inline_string_encoding =
    IUtf8
  | IWindows1252
  | IPreferUtf8
  | IPreferUtf8WithFallback rstring
  | IPreserveUtf8WithFallback rstring bool
  | ILegacy rstring
  | IPreserveExplicit rstring

fun schema_name :: "inline_string_encoding \<Rightarrow> rstring" where
  "schema_name IUtf8 = ascii ''utf8''"
| "schema_name IWindows1252 = ascii ''windows_1252''"
| "schema_name IPreferUtf8 = ascii ''prefer_utf8''"
| "schema_name (IPreferUtf8WithFallback _) = ascii ''prefer_utf8''"
| "schema_name (IPreserveUtf8WithFallback _ _) = ascii ''prefer_utf8''"
| "schema_name (ILegacy c) = c"
| "schema_name (IPreserveExplicit c) = c"

fun prefers_utf8 :: "inline_string_encoding \<Rightarrow> bool" where
  "prefers_utf8 IPreferUtf8 = True"
| "prefers_utf8 (IPreferUtf8WithFallback _) = True"
| "prefers_utf8 (IPreserveUtf8WithFallback _ _) = True"
| "prefers_utf8 _ = False"

subsection \<open>Labels\<close>

text \<open>\<open>str::trim\<close>.\<close>

fun trim_start :: "rstring \<Rightarrow> rstring" where
  "trim_start [] = []"
| "trim_start (b # bs) =
     (if 0x09 \<le> b \<and> b \<le> 0x0D \<or> b = 0x20 then trim_start bs
      else if blank (b # take 1 bs) then trim_start (drop 1 bs)
      else if blank (b # take 2 bs) then trim_start (drop 2 bs)
      else b # bs)"

fun trim_end :: "rstring \<Rightarrow> rstring" where
  "trim_end [] = []"
| "trim_end (b # bs) = (if blank (b # bs) then [] else b # trim_end bs)"

text \<open>\<open>parse::<u16>\<close> followed by \<open>to_string\<close>: an optional plus sign and decimal digits up to 65535.\<close>

definition decimal_value :: "bytes \<Rightarrow> nat" where
  "decimal_value bs = foldl (\<lambda>n b. n * 10 + (unat b - 0x30)) 0 bs"

fun decimal_digits :: "nat \<Rightarrow> bytes" where
  "decimal_digits n = (if n < 10 then [0x30 + of_nat n] else decimal_digits (n div 10) @ [0x30 + of_nat (n mod 10)])"

declare decimal_digits.simps [simp del]

definition parse_u16 :: "rstring \<Rightarrow> nat option" where
  "parse_u16 s =
     (let ds = (case s of b # bs \<Rightarrow> if b = 0x2B then bs else s | [] \<Rightarrow> []) in
      if ds \<noteq> [] \<and> (\<forall>b \<in> set ds. 0x30 \<le> b \<and> b \<le> 0x39) \<and> decimal_value ds < 65536
      then Some (decimal_value ds) else None)"

definition code_page_labels :: "(string \<times> string) list" where
  "code_page_labels =
     [(''utf8'', ''utf-8''), (''65001'', ''utf-8''), (''windows_1252'', ''windows-1252''), (''1252'', ''windows-1252''),
      (''1250'', ''windows-1250''), (''1251'', ''windows-1251''), (''1253'', ''windows-1253''), (''1254'', ''windows-1254''),
      (''1255'', ''windows-1255''), (''1256'', ''windows-1256''), (''1257'', ''windows-1257''), (''1258'', ''windows-1258''),
      (''874'', ''windows-874''), (''932'', ''shift_jis''), (''936'', ''gbk''), (''949'', ''euc-kr''), (''950'', ''big5''),
      (''866'', ''ibm866'')]"

definition from_label :: "text_codecs \<Rightarrow> rstring \<Rightarrow> inline_string_encoding option" where
  "from_label tc label =
     (let l = map to_ascii_lowercase (trim_end (trim_start label));
          l = (case parse_u16 l of None \<Rightarrow> l | Some n \<Rightarrow> decimal_digits n);
          normalized = (case map_of (map (\<lambda>(a, b). (ascii a, ascii b)) code_page_labels) l of None \<Rightarrow> l | Some m \<Rightarrow> m) in
      Option.bind (tc_for_label tc normalized) (\<lambda>c.
      if c = ascii ''UTF-8'' then Some IUtf8
      else if c = ascii ''windows-1252'' then Some IWindows1252
      else if c = ascii ''UTF-16LE'' \<or> c = ascii ''UTF-16BE'' \<or> c = ascii ''ISO-2022-JP'' \<or> c = ascii ''replacement''
      then None
      else Some (ILegacy c)))"

fun fallback_encoding :: "text_codecs \<Rightarrow> inline_string_encoding \<Rightarrow> inline_string_encoding option" where
  "fallback_encoding tc IPreferUtf8 = None"
| "fallback_encoding tc (IPreferUtf8WithFallback c) = from_label tc c"
| "fallback_encoding tc (IPreserveUtf8WithFallback c _) = from_label tc c"
| "fallback_encoding tc p = Some p"

text \<open>A fallback is a concrete codec: it never prefers UTF-8 and never preserves by heuristics.\<close>

lemma fallback_concrete: "fallback_encoding tc p = Some q \<Longrightarrow> \<not> prefers_utf8 q"
  by (cases p) (auto simp: from_label_def Let_def bind_eq_Some_conv split: if_splits)

subsection \<open>UTF-8 errors\<close>

text \<open>
  \<open>std::str::from_utf8\<close>: the length of the character a string starts with, or the length of the
  malformed sequence (\<open>None\<close> where the input ends within a character).
\<close>

fun utf8_char :: "bytes \<Rightarrow> nat option + nat" where
  "utf8_char [] = Inl None"
| "utf8_char (b # bs) =
     (if b < 0x80 then Inr 1
      else if 0xC2 \<le> b \<and> b \<le> 0xDF then
        (case bs of [] \<Rightarrow> Inl None | c # _ \<Rightarrow> if utf8_cont c then Inr 2 else Inl (Some 1))
      else if 0xE0 \<le> b \<and> b \<le> 0xEF then
        (case bs of [] \<Rightarrow> Inl None | c # r \<Rightarrow>
           if (if b = 0xE0 then 0xA0 \<le> c \<and> c \<le> 0xBF
               else if b = 0xED then 0x80 \<le> c \<and> c \<le> 0x9F else utf8_cont c)
           then (case r of [] \<Rightarrow> Inl None | d # _ \<Rightarrow> if utf8_cont d then Inr 3 else Inl (Some 2))
           else Inl (Some 1))
      else if 0xF0 \<le> b \<and> b \<le> 0xF4 then
        (case bs of [] \<Rightarrow> Inl None | c # r \<Rightarrow>
           if (if b = 0xF0 then 0x90 \<le> c \<and> c \<le> 0xBF
               else if b = 0xF4 then 0x80 \<le> c \<and> c \<le> 0x8F else utf8_cont c)
           then (case r of [] \<Rightarrow> Inl None | d # r' \<Rightarrow>
              if utf8_cont d
              then (case r' of [] \<Rightarrow> Inl None | e # _ \<Rightarrow> if utf8_cont e then Inr 4 else Inl (Some 3))
              else Inl (Some 2))
           else Inl (Some 1))
      else Inl (Some 1))"

lemma utf8_char_pos: "utf8_char bs = Inr k \<Longrightarrow> 0 < k"
  by (cases bs) (auto split: if_splits list.splits)

text \<open>\<open>valid_up_to\<close> and \<open>error_len\<close> of the error, \<open>None\<close> when the string is valid.\<close>

function utf8_error :: "bytes \<Rightarrow> nat \<Rightarrow> (nat \<times> nat option) option" where
  "utf8_error bs i =
     (if length bs \<le> i then None
      else case utf8_char (drop i bs) of
        Inl e \<Rightarrow> Some (i, e)
      | Inr k \<Rightarrow> utf8_error bs (i + k))"
  by pat_completeness auto
termination
  by (relation "measure (\<lambda>(bs, i). length bs - i)") (auto dest: utf8_char_pos)

declare utf8_error.simps [simp del]

lemma utf8_valid_char:
  "bs \<noteq> [] \<Longrightarrow> utf8_valid bs \<longleftrightarrow> (case utf8_char bs of Inl _ \<Rightarrow> False | Inr k \<Rightarrow> utf8_valid (drop k bs))"
proof -
  assume "bs \<noteq> []"
  then obtain b r where bs: "bs = b # r" by (cases bs) auto
  have drops: "drop 2 (b # r) = drop 1 r" "drop 3 (b # r) = drop 2 r" "drop 4 (b # r) = drop 3 r"
    by (simp_all add: numeral_eq_Suc)
  show ?thesis
  proof (cases r)
    case Nil
    then show ?thesis by (simp add: bs)
  next
    case c: (Cons c r1)
    show ?thesis
    proof (cases r1)
      case Nil
      then show ?thesis by (simp add: bs c drops)
    next
      case d: (Cons d r2)
      have "drop 2 (c # d # r2) = r2" "drop 3 (c # d # r2) = drop 1 r2" by (simp_all add: numeral_eq_Suc)
      then show ?thesis by (cases r2) (simp_all add: bs c d drops)
    qed
  qed
qed

text \<open>The scan agrees with the grammar of well-formed sequences.\<close>

lemma utf8_error_None: "utf8_error bs i = None \<longleftrightarrow> utf8_valid (drop i bs)"
proof (induction bs i rule: utf8_error.induct)
  case (1 bs i)
  show ?case
  proof (cases "length bs \<le> i")
    case False
    then have "drop i bs \<noteq> []" by simp
    then show ?thesis using 1 False
      by (subst utf8_error.simps) (auto simp: utf8_valid_char [of "drop i bs"] add.commute split: sum.splits)
  qed (subst utf8_error.simps, simp)
qed

lemma utf8_error_bound: "utf8_error bs i = Some (v, l) \<Longrightarrow> i \<le> v \<and> v < length bs \<and> (\<forall>k. l = Some k \<longrightarrow> 0 < k)"
proof (induction bs i rule: utf8_error.induct)
  case (1 bs i)
  have e: "utf8_char xs = Inl (Some k) \<Longrightarrow> 0 < k" for xs k
    by (cases xs) (auto split: if_splits list.splits)
  show ?case using 1 e
    by (subst (asm) (2) utf8_error.simps) (force split: if_splits sum.splits)
qed

subsection \<open>Opaque text\<close>

text \<open>The loop over the malformed sequences: the non-ASCII bytes in the valid parts.\<close>

definition non_ascii :: "bytes \<Rightarrow> nat" where
  "non_ascii bs = length (filter (\<lambda>b. \<not> b < 0x80) bs)"

function valid_non_ascii :: "bytes \<Rightarrow> nat \<Rightarrow> nat" where
  "valid_non_ascii rest n = (case utf8_error rest 0 of
      None \<Rightarrow> n + non_ascii rest
    | Some (v, l) \<Rightarrow>
        let skip = v + (case l of Some k \<Rightarrow> k | None \<Rightarrow> length rest - v) in
        valid_non_ascii (drop skip rest) (n + non_ascii (take v rest)))"
  by pat_completeness auto
termination
  by (relation "measure (\<lambda>(bs, _). length bs)") (auto simp: Let_def dest!: utf8_error_bound split: option.splits)

declare valid_non_ascii.simps [simp del]

definition preserve :: "bytes \<Rightarrow> inline_string_encoding option \<Rightarrow> bool" where
  "preserve bs policy = (case policy of
      Some (IPreserveUtf8WithFallback _ uncertain_legacy) \<Rightarrow>
        \<not> utf8_valid bs \<and>
        (uncertain_legacy \<or> (\<exists>b \<in> set bs. b \<in> {0x81, 0x8D, 0x8F, 0x90, 0x9D}) \<or>
         (let v = valid_non_ascii bs 0 in v \<ge> 6 \<and> v * 2 \<ge> non_ascii bs))
    | _ \<Rightarrow> False)"

end
