(* ===== verification/FieldCodec.thy ===== *)
theory FieldCodec
  imports TextEncoding
begin

text \<open>
  The primitive payloads of \<open>bethkit-semantic\<close>: the decoders at the end of \<open>view.rs\<close> and the encoders at
  the end of \<open>editor.rs\<close>. The conversions between \<open>f32\<close> and \<open>f64\<close> bit patterns are the parameters \<open>widen\<close>
  and \<open>narrow\<close>. A slice assignment outside its vector, a panic in the source, is \<open>codec_panic\<close>.
\<close>

unbundle bit_operations_syntax

definition codec_panic :: semantic_error where
  "codec_panic = EncodeError [] IndexPanic"

definition decode_length_error :: "rstring \<Rightarrow> nat \<Rightarrow> nat \<Rightarrow> semantic_error" where
  "decode_length_error path expected actual = DecodeError path (LengthMismatch expected actual)"

subsection \<open>Integers\<close>

definition in_order :: "byte_order \<Rightarrow> bytes \<Rightarrow> bytes" where
  "in_order order bs = (case order of LittleEndian \<Rightarrow> bs | BigEndian \<Rightarrow> rev bs)"

lemma in_order_twice [simp]: "in_order order (in_order order bs) = bs" "length (in_order order bs) = length bs"
  by (simp_all add: in_order_def split: byte_order.split)

definition integer_as_u64 :: "integer_type \<Rightarrow> bytes \<Rightarrow> rstring \<Rightarrow> semantic_error + u64" where
  "integer_as_u64 i data path =
     (if length data \<noteq> unat (it_width i) then Inl (decode_length_error path (unat (it_width i)) (length data))
      else if it_width i \<in> {1, 2, 4, 8} then Inr (le_word (in_order (it_byte_order i) data))
      else Inl (DecodeError path (IntegerWidthUnsupported (it_width i))))"

definition integer_as_i64 :: "integer_type \<Rightarrow> bytes \<Rightarrow> rstring \<Rightarrow> semantic_error + i64" where
  "integer_as_i64 i data path =
     (if \<not> it_signed i then
        bindr (integer_as_u64 i data path) (\<lambda>v.
        if unat v < 2 ^ 63 then Inr v else Inl (DecodeError path UnsignedExceedsI64))
      else if length data \<noteq> unat (it_width i) then Inl (decode_length_error path (unat (it_width i)) (length data))
      else
        let bs = in_order (it_byte_order i) data in
        if it_width i = 1 then Inr (scast (le_word bs :: u8))
        else if it_width i = 2 then Inr (scast (le_word bs :: u16))
        else if it_width i = 4 then Inr (scast (le_word bs :: u32))
        else if it_width i = 8 then Inr (le_word bs)
        else Inl (DecodeError path (IntegerWidthUnsupported (it_width i))))"

definition decode_integer :: "integer_type \<Rightarrow> bytes \<Rightarrow> rstring \<Rightarrow> semantic_error + field_value" where
  "decode_integer i data path =
     (if it_signed i then bindr (integer_as_i64 i data path) (\<lambda>v. Inr (FInt v))
      else bindr (integer_as_u64 i data path) (\<lambda>v. Inr (FUInt v)))"

definition decode_unsigned_integer :: "integer_type \<Rightarrow> bytes \<Rightarrow> rstring \<Rightarrow> semantic_error + u64" where
  "decode_unsigned_integer i data path =
     (if it_signed i then Inl (DecodeError path CountPrefixSigned)
      else
        let width = unat (it_width i) in
        bindr (ok_or (decode_length_error path width (length data)) (get_range (0, width) data)) (\<lambda>prefix.
        integer_as_u64 i prefix path))"

definition encode_integer :: "integer_type \<Rightarrow> u64 \<Rightarrow> rstring \<Rightarrow> semantic_error + bytes" where
  "encode_integer i v path =
     (let full = in_order (it_byte_order i) (le_bytes 8 v);
          part = (\<lambda>n. case it_byte_order i of LittleEndian \<Rightarrow> take n full | BigEndian \<Rightarrow> drop (8 - n) full) in
      if it_width i = 1 \<and> v \<le> 0xFF then Inr [ucast v]
      else if it_width i = 2 \<and> v \<le> 0xFFFF then Inr (part 2)
      else if it_width i = 4 \<and> v \<le> 0xFFFFFFFF then Inr (part 4)
      else if it_width i = 8 then Inr full
      else Inl (EncodeError path IntegerDoesNotFit))"

subsection \<open>Packed integers and counts\<close>

definition decode_packed_unsigned :: "bytes \<Rightarrow> rstring \<Rightarrow> semantic_error + u64 \<times> nat" where
  "decode_packed_unsigned data path =
     (if data = [] then Inl (decode_length_error path 1 0)
      else
        let sel = hd data AND 3;
            width = (if sel = 1 then 2 else if sel = 2 then 4 else 1) in
        bindr (ok_or (decode_length_error path width (length data)) (get_range (0, width) data)) (\<lambda>bs.
        Inr (drop_bit 2 (le_word bs), width)))"

definition encode_packed_unsigned :: "u64 \<Rightarrow> rstring \<Rightarrow> semantic_error + bytes" where
  "encode_packed_unsigned v path =
     (if v \<le> 0x3F then Inr (take 1 (le_bytes 8 (push_bit 2 v)))
      else if v \<le> 0x3FFF then Inr (take 2 (le_bytes 8 (push_bit 2 v + 1)))
      else if v \<le> 0x3FFFFFFF then Inr (take 4 (le_bytes 8 (push_bit 2 v + 2)))
      else Inl (EncodeError path PackedExceeds30Bits))"

definition array_count_value :: "u64 \<Rightarrow> bool \<Rightarrow> rstring \<Rightarrow> semantic_error + nat" where
  "array_count_value v square path =
     (if square then (if unat v * unat v < 2 ^ 64 then Inr (unat v * unat v) else Inl (DecodeError path MatrixCountOverflow))
      else Inr (unat v))"

text \<open>The bisection of \<open>array_prefix_count\<close>.\<close>

function matrix_root :: "nat \<Rightarrow> nat \<Rightarrow> nat \<Rightarrow> nat" where
  "matrix_root len low high =
     (if low + 1 < high then
        let middle = low + (high - low) div 2 in
        if middle \<le> len div max middle 1 then matrix_root len middle high else matrix_root len low middle
      else low)"
  by pat_completeness auto
termination by (relation "measure (\<lambda>(_, low, high). high - low)") (auto simp: Let_def)

declare matrix_root.simps [simp del]

definition array_prefix_count :: "nat \<Rightarrow> bool \<Rightarrow> rstring \<Rightarrow> semantic_error + u64" where
  "array_prefix_count len square path =
     (if \<not> square then Inr (of_nat len)
      else let low = matrix_root len 0 (min len 0xFFFFFFFF + 1) in
        if low * low = len \<and> low * low < 2 ^ 64 then Inr (of_nat low) else Inl (EncodeError path NotPerfectSquare))"

subsection \<open>Floats\<close>

definition decode_float :: "(u32 \<Rightarrow> f64) \<Rightarrow> u8 \<Rightarrow> byte_order \<Rightarrow> bytes \<Rightarrow> rstring \<Rightarrow> semantic_error + field_value" where
  "decode_float widen width order data path =
     (if length data \<noteq> unat width then Inl (decode_length_error path (unat width) (length data))
      else if width = 4 then Inr (FFloat (widen (le_word (in_order order data))))
      else if width = 8 then Inr (FFloat (le_word (in_order order data)))
      else Inl (DecodeError path (FloatWidthUnsupported width)))"

subsection \<open>Strings\<close>

definition is_localized_string :: "string_type \<Rightarrow> bool" where
  "is_localized_string st \<longleftrightarrow> st_localized st \<or> st_encoding st = ascii ''localized''"

definition text_encoding :: "string_type \<Rightarrow> rstring" where
  "text_encoding st = (if st_encoding st = ascii ''localized'' then ascii ''windows_1252'' else st_encoding st)"

definition read_string_length :: "u8 \<Rightarrow> bytes \<Rightarrow> rstring \<Rightarrow> semantic_error + nat" where
  "read_string_length width data path =
     (if width = 1 \<and> data \<noteq> [] then Inr (unat (hd data))
      else if width = 2 \<and> length data \<ge> 2 then Inr (unat (le_word (take 2 data) :: u16))
      else if width = 4 \<and> length data \<ge> 4 then Inr (unat (le_word (take 4 data) :: u32))
      else if width \<in> {1, 2, 4} then Inl (decode_length_error path (unat width) (length data))
      else Inl (DecodeError path (PrefixWidthUnsupported width)))"

definition string_body :: "string_type \<Rightarrow> bytes \<Rightarrow> rstring \<Rightarrow> semantic_error + bytes" where
  "string_body st data path =
     bindr (case st_trailing_terminator st of
         None \<Rightarrow> Inr data
       | Some t \<Rightarrow>
           if data = [] then Inl (DecodeError path TerminatorAbsent)
           else if last data \<noteq> t then Inl (DecodeError path (TerminatorDiffers t (last data)))
           else Inr (butlast data)) (\<lambda>rep.
     case st_length_prefix st of
       Some prefix \<Rightarrow>
         let offset = unat (lp_offset prefix) in
         if length rep < offset then Inl (decode_length_error path offset (length rep))
         else
           bindr (read_string_length (lp_width prefix) rep path) (\<lambda>len.
           bindr (ok_or (DecodeError path StringLengthOverflow) (checked_add offset len)) (\<lambda>stop.
           if stop \<noteq> length rep then Inl (decode_length_error path stop (length rep))
           else Inr (slice offset stop rep)))
     | None \<Rightarrow>
         (case st_fixed_length st of
            Some l \<Rightarrow> if length rep \<noteq> unat l then Inl (decode_length_error path (unat l) (length rep)) else Inr rep
          | None \<Rightarrow> Inr rep))"

text \<open>The codec of a body, and the choice that is reported when it differs from the schema's.\<close>

definition string_encoding ::
  "text_codecs \<Rightarrow> string_type \<Rightarrow> bytes \<Rightarrow> inline_string_encoding option \<Rightarrow> bool \<Rightarrow> rstring \<times> inline_string_encoding option" where
  "string_encoding tc st bs inline preferred =
     (case (if is_localized_string st then inline else None) of
        None \<Rightarrow> (text_encoding st, None)
      | Some policy \<Rightarrow>
          if prefers_utf8 policy \<and> preferred then
            (ascii ''utf8'', if non_ascii bs \<noteq> 0 \<and> text_encoding st \<noteq> ascii ''utf8'' then Some IUtf8 else None)
          else if prefers_utf8 policy then
            let fallback = fallback_encoding tc policy;
                enc = (case fallback of None \<Rightarrow> text_encoding st | Some v \<Rightarrow> schema_name v) in
            (enc, if enc \<noteq> text_encoding st then fallback else None)
          else (schema_name policy, if schema_name policy \<noteq> text_encoding st then Some policy else None))"

definition decode_text :: "text_codecs \<Rightarrow> rstring \<Rightarrow> bool \<Rightarrow> bytes \<Rightarrow> rstring \<Rightarrow> semantic_error + rstring" where
  "decode_text tc enc preferred bs path =
     (if enc = ascii ''utf8'' then
        if preferred then Inr bs
        else (case utf8_error bs 0 of None \<Rightarrow> Inr bs | Some (v, l) \<Rightarrow> Inl (DecodeError path (Utf8Malformed v l)))
      else if enc = ascii ''windows_1252'' then
        let (s, had_errors) = tc_decode tc (ascii ''windows-1252'') bs in
        if had_errors then Inl (DecodeError path (CodecRejects enc)) else Inr s
      else
        bindr (ok_or (DecodeError path (CodecUnknown enc)) (tc_for_label tc enc)) (\<lambda>codec.
        let (s, had_errors) = tc_decode tc codec bs in
        if had_errors then Inl (DecodeError path (CodecRejects enc)) else Inr s))"

definition preserves_text :: "inline_string_encoding option \<Rightarrow> bool" where
  "preserves_text inline = (case inline of
      Some (IPreserveUtf8WithFallback _ _) \<Rightarrow> True | Some (IPreserveExplicit _) \<Rightarrow> True | _ \<Rightarrow> False)"

definition decode_string_selected ::
  "text_codecs \<Rightarrow> string_type \<Rightarrow> bytes \<Rightarrow> bool \<Rightarrow> inline_string_encoding option \<Rightarrow> rstring
    \<Rightarrow> (semantic_error + field_value) \<times> inline_string_encoding option" where
  "decode_string_selected tc st data localized inline path =
     (if is_localized_string st \<and> localized then
        (if length data \<noteq> 4 then Inl (decode_length_error path 4 (length data))
         else Inr (FUInt (ucast (le_word data :: u32))), None)
      else case string_body st data path of
        Inl e \<Rightarrow> (Inl e, None)
      | Inr body \<Rightarrow>
          let bs = (if st_zero_terminated st then takeWhile (\<lambda>b. b \<noteq> 0) body else body);
              preferred = ((case inline of Some p \<Rightarrow> prefers_utf8 p | None \<Rightarrow> False) \<and> is_localized_string st \<and> utf8_valid bs) in
          if is_localized_string st \<and> \<not> preferred \<and> preserve bs inline then (Inr (FBytes bs), None)
          else
            let (enc, selected) = string_encoding tc st bs inline preferred in
            (case decode_text tc enc preferred bs path of
               Inr s \<Rightarrow> Inr (FString s)
             | Inl e \<Rightarrow> if preserves_text inline then Inr (FBytes bs) else Inl e, selected))"

definition finish_string_encoding :: "string_type \<Rightarrow> bytes \<Rightarrow> rstring \<Rightarrow> semantic_error + bytes" where
  "finish_string_encoding st bytes path =
     (let body = (if st_zero_terminated st then bytes @ [0] else bytes) in
      bindr (case st_fixed_length st of
          None \<Rightarrow> Inr body
        | Some l \<Rightarrow>
            if length body > unat l then Inl (EncodeError path StringExceedsFixedLength)
            else Inr (body @ replicate (unat l - length body) 0)) (\<lambda>body.
      bindr (case st_length_prefix st of
          None \<Rightarrow> Inr body
        | Some prefix \<Rightarrow>
            let width = lp_width prefix; offset = unat (lp_offset prefix); len = length body in
            if width = 1 \<and> len \<le> 0xFF \<or> width = 2 \<and> len \<le> 0xFFFF \<or> width = 4 \<and> len \<le> 0xFFFFFFFF then
              if offset < unat width then Inl codec_panic
              else Inr (le_bytes (unat width) (of_nat len :: u64) @ replicate (offset - unat width) 0 @ body)
            else if width \<in> {1, 2, 4} then Inl (EncodeError path StringExceedsPrefix)
            else Inl (EncodeError path (PrefixWidthUnsupported width))) (\<lambda>out.
      Inr (case st_trailing_terminator st of None \<Rightarrow> out | Some t \<Rightarrow> out @ [t]))))"

definition encode_text :: "text_codecs \<Rightarrow> rstring \<Rightarrow> rstring \<Rightarrow> rstring \<Rightarrow> semantic_error + bytes" where
  "encode_text tc enc s path =
     (if enc = ascii ''utf8'' then Inr s
      else if enc = ascii ''windows_1252'' then
        let (bs, had_errors) = tc_encode tc (ascii ''windows-1252'') s in
        if had_errors then Inl (EncodeError path (CodecCannotRepresent enc)) else Inr bs
      else
        bindr (ok_or (EncodeError path (CodecUnknown enc)) (tc_for_label tc enc)) (\<lambda>codec.
        let (bs, had_errors) = tc_encode tc codec s in
        if had_errors then Inl (EncodeError path (CodecCannotRepresent enc)) else Inr bs))"

subsection \<open>Primitives\<close>

definition decode_primitive ::
  "text_codecs \<Rightarrow> (u32 \<Rightarrow> f64) \<Rightarrow> primitive_type \<Rightarrow> bytes \<Rightarrow> bool \<Rightarrow> inline_string_encoding option \<Rightarrow> rstring
    \<Rightarrow> (semantic_error + field_value) \<times> inline_string_encoding option" where
  "decode_primitive tc widen p data localized inline path = (case p of
      PInteger i \<Rightarrow> (decode_integer i data path, None)
    | PackedUnsigned \<Rightarrow>
        (bindr (decode_packed_unsigned data path) (\<lambda>(v, width).
         if width \<noteq> length data then Inl (decode_length_error path width (length data)) else Inr (FUInt v)), None)
    | PFloat width order _ _ \<Rightarrow> (decode_float widen width order data path, None)
    | PString st \<Rightarrow> decode_string_selected tc st data localized inline path
    | PBytes l \<Rightarrow>
        (case l of
           Some expected \<Rightarrow> if length data \<noteq> unat expected then Inl (decode_length_error path (unat expected) (length data)) else Inr (FBytes data)
         | None \<Rightarrow> Inr (FBytes data), None)
    | PFormId targets \<Rightarrow>
        (if length data \<noteq> 4 then Inl (decode_length_error path 4 (length data))
         else Inr (FFormId (FormId (le_word data)) targets), None)
    | PEnumeration i values \<Rightarrow>
        (bindr (integer_as_i64 i data path) (\<lambda>raw.
         Inr (FEnumeration raw (map_option snd (find (\<lambda>(v, _). v = raw) values)))), None)
    | PFlags i bits \<Rightarrow>
        (bindr (integer_as_u64 i data path) (\<lambda>raw.
         Inr (FFlags raw (map snd (filter (\<lambda>(b, _). b < 64 \<and> raw AND push_bit (unat b) 1 \<noteq> 0) bits)))), None)
    | PUnused l \<Rightarrow>
        (if length data \<noteq> unat l then Inl (decode_length_error path (unat l) (length data)) else Inr (FBytes data), None))"

definition encode_primitive ::
  "text_codecs \<Rightarrow> (f64 \<Rightarrow> u32) \<Rightarrow> primitive_type \<Rightarrow> owned_field_value \<Rightarrow> bool \<Rightarrow> inline_string_encoding option \<Rightarrow> rstring
    \<Rightarrow> semantic_error + bytes" where
  "encode_primitive tc narrow p value localized inline path =
     (let mismatch = Inl (EncodeError path ValueTypeMismatch) in
      case p of
        PInteger i \<Rightarrow>
          (case value of OInt v \<Rightarrow> encode_integer i v path | OUInt v \<Rightarrow> encode_integer i v path | _ \<Rightarrow> mismatch)
      | PackedUnsigned \<Rightarrow> (case value of OUInt v \<Rightarrow> encode_packed_unsigned v path | _ \<Rightarrow> mismatch)
      | PFloat width order _ _ \<Rightarrow>
          (case value of
             OFloat v \<Rightarrow>
               if width = 4 then Inr (in_order order (le_bytes 4 (narrow v)))
               else if width = 8 then Inr (in_order order (le_bytes 8 v))
               else mismatch
           | _ \<Rightarrow> mismatch)
      | PString st \<Rightarrow>
          (case value of
             OUInt v \<Rightarrow>
               if is_localized_string st \<and> localized then
                 if v \<le> 0xFFFFFFFF then Inr (le_bytes 4 (ucast v :: u32)) else Inl (EncodeError path LocalizedIdExceedsU32)
               else mismatch
           | OString s \<Rightarrow>
               if is_localized_string st \<and> localized then Inl (EncodeError path LocalizedNeedsId)
               else
                 bindr (encode_text tc (case (if is_localized_string st then inline else None) of
                     Some q \<Rightarrow> schema_name q | None \<Rightarrow> text_encoding st) s path) (\<lambda>bs.
                 finish_string_encoding st bs path)
           | _ \<Rightarrow> mismatch)
      | PBytes l \<Rightarrow>
          (case value of
             OBytes bs \<Rightarrow>
               (case l of
                  Some n \<Rightarrow> if length bs \<noteq> unat n then Inl (EncodeError path ByteArrayLength) else Inr bs
                | None \<Rightarrow> Inr bs)
           | _ \<Rightarrow> mismatch)
      | PUnused l \<Rightarrow>
          (case value of
             OBytes bs \<Rightarrow> if length bs \<noteq> unat l then Inl (EncodeError path UnusedBytesLength) else Inr bs
           | _ \<Rightarrow> mismatch)
      | PFormId _ \<Rightarrow> (case value of OFormId f \<Rightarrow> Inr (le_bytes 4 (fid_raw f)) | _ \<Rightarrow> mismatch)
      | PEnumeration i _ \<Rightarrow> (case value of OInt v \<Rightarrow> encode_integer i v path | _ \<Rightarrow> mismatch)
      | PFlags i _ \<Rightarrow> (case value of OUInt v \<Rightarrow> encode_integer i v path | _ \<Rightarrow> mismatch))"

end
