(* ===== verification/Handlers.thy ===== *)
theory Handlers
  imports FieldCodec
begin

text \<open>
  The registries of \<open>bethkit-semantic\<close>: \<open>decoder.rs\<close> with its built-in decoder, and the vocabulary and
  the dispatch of \<open>handler.rs\<close>. A trait object is a record of its methods; the handlers themselves, some
  two hundred built-in ones and those of the caller, are the entries of the registry.
\<close>

unbundle bit_operations_syntax

subsection \<open>Decoders\<close>

record decoded_payload =
  dp_value :: field_value
  dp_consumed :: nat

record custom_decoder =
  cd_id :: rstring
  cd_version :: u32
  cd_decode :: "bytes \<Rightarrow> semantic_error + decoded_payload"
  cd_encode :: "owned_field_value \<Rightarrow> semantic_error + bytes"

type_synonym decoder_registry = "rstring \<rightharpoonup> custom_decoder"

definition XEDIT_DTINTEGER_ID :: rstring where
  "XEDIT_DTINTEGER_ID = ascii ''xedit.dtinteger''"

definition zero_width_integer_decoder :: custom_decoder where
  "zero_width_integer_decoder = \<lparr> cd_id = XEDIT_DTINTEGER_ID, cd_version = 1,
     cd_decode = (\<lambda>_. Inr \<lparr> dp_value = FUInt 0, dp_consumed = 0 \<rparr>),
     cd_encode = (\<lambda>value. if value \<noteq> OUInt 0 then Inl (DecoderError XEDIT_DTINTEGER_ID ZeroWidthOnlyZero) else Inr []) \<rparr>"

definition register_decoder :: "custom_decoder \<Rightarrow> decoder_registry \<Rightarrow> decoder_registry" where
  "register_decoder d reg = reg(cd_id d \<mapsto> d)"

definition builtin_decoders :: decoder_registry where
  "builtin_decoders = register_decoder zero_width_integer_decoder Map.empty"

text \<open>\<open>format!("{id} version {minimum_version} or newer")\<close>\<close>

definition version_message :: "rstring \<Rightarrow> u32 \<Rightarrow> rstring" where
  "version_message name minimum = name @ ascii '' version '' @ decimal_digits (unat minimum) @ ascii '' or newer''"

definition require_decoder :: "decoder_registry \<Rightarrow> rstring \<Rightarrow> u32 \<Rightarrow> semantic_error + custom_decoder" where
  "require_decoder reg name minimum =
     bindr (ok_or (MissingSemanticDecoder name) (reg name)) (\<lambda>d.
     if cd_version d < minimum then Inl (MissingSemanticDecoder (version_message name minimum)) else Inr d)"

subsection \<open>Invocations\<close>

datatype (plugins only: size) handler_phase =
    DecodeNormalize | Display | Summary | SortKey | EditValue | NativeValue | ParseEditValue | UnionSelection
  | ArrayCountPhase | ArrayElementInclusion | DefaultValue | ValidationPhase | AfterLoad | AfterSet
  | ReferenceResolution | ConflictPhase | RecordMetadata | Removability

datatype (plugins only: size) value_format = FormatDisplay | FormatSummary | FormatSortKey | FormatEditValue | FormatNativeValue

primrec phase_of_format :: "value_format \<Rightarrow> handler_phase" where
  "phase_of_format FormatDisplay = Display"
| "phase_of_format FormatSummary = Summary"
| "phase_of_format FormatSortKey = SortKey"
| "phase_of_format FormatEditValue = EditValue"
| "phase_of_format FormatNativeValue = NativeValue"

record handler_record_context =
  hrc_signature :: signature
  hrc_form_id :: form_id
  hrc_form_version :: u16
  hrc_game :: schema_game
  hrc_plugin_localized :: bool

definition handler_record_context_new :: "signature \<Rightarrow> form_id \<Rightarrow> u16 \<Rightarrow> schema_game \<Rightarrow> handler_record_context" where
  "handler_record_context_new sig fid fv game = \<lparr> hrc_signature = sig, hrc_form_id = fid,
     hrc_form_version = fv, hrc_game = game, hrc_plugin_localized = False \<rparr>"

record record_grid_cell =
  gc_x :: i32
  gc_y :: i32

record record_index_key =
  rik_index :: rstring
  rik_key :: rstring

datatype (plugins only: size) handler_mutation =
    SetRecordFlags rstring record_flags
  | SetField rstring nat owned_field_value
  | SetIfEqual rstring nat owned_field_value owned_field_value
  | ReplacePayload rstring nat bytes
  | InsertPayload rstring bytes
  | ResetToDefault rstring nat
  | InsertDefault rstring
  | InsertField rstring owned_field_value
  | RemoveField rstring nat
  | RemoveAllFields rstring
  | RemoveContainer rstring
  | RemoveContainerOccurrence rstring nat
  | RemoveAllBySignature rstring signature
  | RemoveFirstBySignature rstring signature
  | SynchronizeCount rstring nat u64 bool
  | SynchronizePresence rstring nat bool owned_field_value

datatype (plugins only: size) semantic_link =
    LinkRecord form_id
  | LinkQuestAlias form_id i64
  | LinkElement rstring "nat list"
  | LinkExternalElement form_id rstring "nat list"

datatype (plugins only: size) handler_output =
    HNone
  | HValue field_value
  | HParsedValue field_value "handler_mutation list"
  | HBoolean bool
  | HInteger i64
  | HConflictPriority conflict_priority
  | HText rstring
  | HFormId form_id
  | HLink semantic_link
  | HGridCell record_grid_cell
  | HIndexKeys "record_index_key list"
  | HMutations "handler_mutation list"
  | HGroupSortRequested
  | HSubrecordPayload bytes

datatype (plugins only: size) handler_record_source =
    SourceNone
  | SourceReadOnly main_record
  | SourceWritable writable_record

record handler_invocation_access =
  hia_source :: handler_record_source
  hia_value_scope :: "field_value option"
  hia_subrecord_index :: "nat option"
  hia_array_indices :: "nat list"

definition default_access :: handler_invocation_access where
  "default_access = \<lparr> hia_source = SourceNone, hia_value_scope = None, hia_subrecord_index = None, hia_array_indices = [] \<rparr>"

definition read_only_with_scope :: "main_record \<Rightarrow> field_value option \<Rightarrow> handler_invocation_access" where
  "read_only_with_scope r scope = \<lparr> hia_source = SourceReadOnly r, hia_value_scope = scope,
     hia_subrecord_index = None, hia_array_indices = [] \<rparr>"

definition read_only_subrecord_with_scope :: "main_record \<Rightarrow> nat \<Rightarrow> field_value option \<Rightarrow> handler_invocation_access" where
  "read_only_subrecord_with_scope r index scope = \<lparr> hia_source = SourceReadOnly r, hia_value_scope = scope,
     hia_subrecord_index = Some index, hia_array_indices = [] \<rparr>"

definition with_array_indices :: "nat list \<Rightarrow> handler_invocation_access \<Rightarrow> handler_invocation_access" where
  "with_array_indices indices a = a\<lparr> hia_array_indices := indices \<rparr>"

record 'j handler_context =
  hc_binding :: "'j callback_binding"
  hc_record :: handler_record_context
  hc_configuration :: 'j

record 'j handler_invocation =
  hi_context :: "'j handler_context"
  hi_phase :: handler_phase
  hi_value :: "field_value option"
  hi_old_value :: "field_value option"
  hi_value_scope :: "field_value option"
  hi_source_record :: "main_record option"
  hi_source_writable_record :: "writable_record option"
  hi_source_subrecord_index :: "nat option"
  hi_array_indices :: "nat list"

subsection \<open>The handler registry\<close>

record 'j semantic_handler =
  sh_id :: rstring
  sh_version :: u32
  sh_invoke :: "'j handler_invocation \<Rightarrow> semantic_error + handler_output"

text \<open>
  \<open>json_null\<close> is \<open>serde_json::Value::Null\<close> and \<open>json_phase\<close> the text a configuration has under the key
  \<open>phase\<close>, if any. The resolvers and switches of the registry only
  parametrise its built-in handlers.
\<close>

record 'j handler_registry =
  hreg_handlers :: "rstring \<rightharpoonup> 'j semantic_handler"
  hreg_table :: "condition_function_table option"
  json_null :: 'j
  json_phase :: "'j \<Rightarrow> rstring option"

definition register_handler :: "'j semantic_handler \<Rightarrow> 'j handler_registry \<Rightarrow> 'j handler_registry" where
  "register_handler h reg = reg\<lparr> hreg_handlers := (hreg_handlers reg)(sh_id h \<mapsto> h) \<rparr>"

definition require_handler :: "'j handler_registry \<Rightarrow> rstring \<Rightarrow> u32 \<Rightarrow> semantic_error + 'j semantic_handler" where
  "require_handler reg name minimum =
     bindr (ok_or (MissingSemanticHandler name) (hreg_handlers reg name)) (\<lambda>h.
     if sh_version h < minimum then Inl (MissingSemanticHandler (version_message name minimum)) else Inr h)"

text \<open>
  \<open>set_condition_function_table\<close>; the three handlers it builds from the table are the argument
  \<open>table_handlers\<close>.
\<close>

definition set_condition_function_table ::
  "(condition_function_table \<Rightarrow> 'j semantic_handler list) \<Rightarrow> condition_function_table \<Rightarrow> 'j handler_registry \<Rightarrow> 'j handler_registry" where
  "set_condition_function_table table_handlers table reg =
     fold register_handler (table_handlers table) (reg\<lparr> hreg_table := Some table \<rparr>)"

definition is_validation_binding :: "'j handler_registry \<Rightarrow> 'j callback_binding \<Rightarrow> bool" where
  "is_validation_binding reg b = (case cb_implementation b of
      BuiltIn operation \<Rightarrow> json_phase reg (op_configuration operation) = Some (ascii ''validation'')
    | _ \<Rightarrow> False)"

definition runs_during_validation :: "'j handler_registry \<Rightarrow> 'j callback_binding \<Rightarrow> bool" where
  "runs_during_validation reg b \<longleftrightarrow> is_validation_binding reg b \<or>
     cb_callback_id b = ascii ''integer.formatter'' \<or> cb_callback_id b = ascii ''string.formatter''"

definition executable_binding :: "'j callback_binding \<Rightarrow> bool" where
  "executable_binding b = (case cb_implementation b of BuiltIn _ \<Rightarrow> True | CustomHandler _ _ \<Rightarrow> True | _ \<Rightarrow> False)"

definition invoke_with_records ::
  "'j handler_registry \<Rightarrow> 'j callback_binding \<Rightarrow> handler_record_context \<Rightarrow> handler_invocation_access \<Rightarrow> handler_phase
    \<Rightarrow> field_value option \<Rightarrow> field_value option \<Rightarrow> semantic_error + handler_output" where
  "invoke_with_records reg b rc access phase value old_value =
     bindr (case cb_implementation b of
         BuiltIn operation \<Rightarrow> Inr (op_id operation, op_minimum_version operation, op_configuration operation)
       | CustomHandler handler minimum \<Rightarrow> Inr (handler, minimum, json_null reg)
       | _ \<Rightarrow> Inl (HandlerError (cb_callback_id b) (Text ''binding is not a semantic handler'' []))) (\<lambda>(name, minimum, config).
     bindr (require_handler reg name minimum) (\<lambda>h.
     sh_invoke h \<lparr> hi_context = \<lparr> hc_binding = b, hc_record = rc, hc_configuration = config \<rparr>,
       hi_phase = phase, hi_value = value, hi_old_value = old_value,
       hi_value_scope = hia_value_scope access,
       hi_source_record = (case hia_source access of SourceReadOnly r \<Rightarrow> Some r | _ \<Rightarrow> None),
       hi_source_writable_record = (case hia_source access of SourceWritable r \<Rightarrow> Some r | _ \<Rightarrow> None),
       hi_source_subrecord_index = hia_subrecord_index access,
       hi_array_indices = hia_array_indices access \<rparr>))"

definition invoke_handler ::
  "'j handler_registry \<Rightarrow> 'j callback_binding \<Rightarrow> handler_record_context \<Rightarrow> handler_phase
    \<Rightarrow> field_value option \<Rightarrow> field_value option \<Rightarrow> semantic_error + handler_output" where
  "invoke_handler reg b rc phase value old_value = invoke_with_records reg b rc default_access phase value old_value"

definition invoke_with_source_record ::
  "'j handler_registry \<Rightarrow> 'j callback_binding \<Rightarrow> handler_record_context \<Rightarrow> main_record option \<Rightarrow> handler_phase
    \<Rightarrow> field_value option \<Rightarrow> field_value option \<Rightarrow> semantic_error + handler_output" where
  "invoke_with_source_record reg b rc source phase value old_value =
     invoke_with_records reg b rc
       (default_access\<lparr> hia_source := (case source of None \<Rightarrow> SourceNone | Some r \<Rightarrow> SourceReadOnly r) \<rparr>)
       phase value old_value"

end
