(* ===== verification/SemanticContexts.thy ===== *)
theory SemanticContexts
  imports Handlers
begin

text \<open>
  \<open>bethkit-semantic/src/context.rs\<close>: a schema package with the decoders and handlers that interpret it.
  The conversions to handler values are deep copies, which are the value itself. The retained decision
  of the encoding detection is not part of the state, since nothing here reads it.
\<close>

unbundle bit_operations_syntax

text \<open>
  The operations on \<open>f64\<close> bit patterns that the layer uses: the conversions of \<open>f32\<close>, products, quotients,
  powers of ten and rounding to even. \<open>lib_uppercase\<close> is \<open>str::to_uppercase\<close>.
\<close>

record library_ops =
  lib_text :: text_codecs
  lib_widen :: "u32 \<Rightarrow> f64"
  lib_narrow :: "f64 \<Rightarrow> u32"
  lib_times :: "f64 \<Rightarrow> f64 \<Rightarrow> f64"
  lib_over :: "f64 \<Rightarrow> f64 \<Rightarrow> f64"
  lib_powi10 :: "i32 \<Rightarrow> f64"
  lib_round_even :: "f64 \<Rightarrow> f64"
  lib_uppercase :: "rstring \<Rightarrow> rstring"

definition is_finite :: "f64 \<Rightarrow> bool" where
  "is_finite v \<longleftrightarrow> drop_bit 52 v AND 0x7FF \<noteq> 0x7FF"

definition round_float_to_digits :: "library_ops \<Rightarrow> f64 \<Rightarrow> i32 \<Rightarrow> f64" where
  "round_float_to_digits lib v digits =
     (if digits = 0x80000000 \<or> \<not> is_finite v then v
      else let factor = lib_powi10 lib (- digits) in
        lib_times lib (lib_round_even lib (lib_over lib v factor)) factor)"

definition float_from_raw :: "library_ops \<Rightarrow> f64 \<Rightarrow> f64 \<Rightarrow> i32 \<Rightarrow> f64" where
  "float_from_raw lib v scale digits = round_float_to_digits lib (lib_times lib v scale) digits"

definition float_to_raw :: "library_ops \<Rightarrow> f64 \<Rightarrow> f64 \<Rightarrow> i32 \<Rightarrow> f64" where
  "float_to_raw lib v scale digits = lib_over lib (round_float_to_digits lib v digits) scale"

subsection \<open>Construction\<close>

record 'j semantic_context =
  sc_registry :: "'j schema_registry"
  sc_decoders :: decoder_registry
  sc_handlers :: "'j handler_registry"
  sc_inline :: "inline_string_encoding option"

record parsed_edit_value =
  pev_value :: owned_field_value
  pev_mutations :: "handler_mutation list"

definition new_with_handlers ::
  "(condition_function_table \<Rightarrow> 'j semantic_handler list) \<Rightarrow> 'j schema_package \<Rightarrow> decoder_registry \<Rightarrow> 'j handler_registry
    \<Rightarrow> semantic_error + 'j semantic_context" where
  "new_with_handlers table_handlers p decoders handlers0 =
     (let handlers = (case pp_condition_functions p of
          None \<Rightarrow> handlers0 | Some table \<Rightarrow> set_condition_function_table table_handlers table handlers0) in
      bindr (if sm_game (pp_manifest p) \<noteq> GMorrowind \<and> (\<exists>r \<in> set (pp_records p). srec_signature r = sig_lit ''WRLD'')
          then bindr (require_handler handlers (ascii ''migrate.remove_worldspace_offset_data'') 1) (\<lambda>_. Inr ()) else Inr ()) (\<lambda>_.
      bindr (steps (\<lambda>q _. bindr (require_decoder decoders (dr_id q) (dr_minimum_version q)) (\<lambda>_. Inr ()))
        (sm_required_decoders (pp_manifest p)) ()) (\<lambda>_.
      bindr (steps (\<lambda>q _. bindr (require_handler handlers (hr_id q) (hr_minimum_version q)) (\<lambda>_. Inr ()))
        (sm_required_handlers (pp_manifest p)) ()) (\<lambda>_.
      Inr \<lparr> sc_registry = registry_new p, sc_decoders = decoders, sc_handlers = handlers, sc_inline = None \<rparr>))))"

definition with_inline_string_encoding :: "inline_string_encoding \<Rightarrow> 'j semantic_context \<Rightarrow> 'j semantic_context" where
  "with_inline_string_encoding e c = c\<lparr> sc_inline := Some e \<rparr>"

definition handler_record :: "'j semantic_context \<Rightarrow> main_record \<Rightarrow> handler_record_context" where
  "handler_record c r = handler_record_context_new (rh_signature (rec_header r)) (rh_form_id (rec_header r))
     (rh_form_version (rec_header r)) (sm_game (pp_manifest (reg_package (sc_registry c))))"

text \<open>\<open>package().callback_bindings()\<close>, filtered.\<close>

definition bindings_where :: "'j semantic_context \<Rightarrow> rstring \<Rightarrow> ('j callback_binding \<Rightarrow> bool) \<Rightarrow> 'j callback_binding list" where
  "bindings_where c path P = filter (\<lambda>b. cb_path b = path \<and> P b) (pp_callback_bindings (reg_package (sc_registry c)))"

definition callback_is :: "string list \<Rightarrow> 'j callback_binding \<Rightarrow> bool" where
  "callback_is names b \<longleftrightarrow> cb_callback_id b \<in> set (map ascii names)"

text \<open>The handler errors of this file.\<close>

definition handler_text :: "'j callback_binding \<Rightarrow> string \<Rightarrow> semantic_error" where
  "handler_text b message = HandlerError (cb_callback_id b) (Text message [])"

subsection \<open>Values\<close>

definition conflict_priority_with_value ::
  "'j semantic_context \<Rightarrow> main_record \<Rightarrow> rstring \<Rightarrow> field_value option \<Rightarrow> semantic_error + conflict_priority" where
  "conflict_priority_with_value c r path value =
     bindr (ok_or (MissingPath path) (registry_get_node (sc_registry c) (rh_signature (rec_header r)) path)) (\<lambda>n.
     steps (\<lambda>b priority.
         if \<not> executable_binding b then Inr priority
         else bindr (invoke_with_source_record (sc_handlers c) b (handler_record c r) (Some r) ConflictPhase value None) (\<lambda>out.
           case out of
             HConflictPriority priority1 \<Rightarrow> Inr priority1
           | _ \<Rightarrow> Inl (handler_text b ''conflict-priority callback returned an invalid result'')))
       (bindings_where c path (callback_is [''def.conflict_priority''])) (node_priority n))"

definition string_enumeration :: "'j semantic_context \<Rightarrow> main_record \<Rightarrow> rstring \<Rightarrow> rstring list option" where
  "string_enumeration c r path =
     Option.bind (registry_get_node (sc_registry c) (rh_signature (rec_header r)) path) (\<lambda>n.
     case node_kind n of
       Primitive (PString st) \<Rightarrow> if st_allowed_values st \<noteq> [] then Some (st_allowed_values st) else None
     | _ \<Rightarrow> None)"

definition format_string_enumeration_value :: "library_ops \<Rightarrow> rstring list \<Rightarrow> rstring \<Rightarrow> value_format \<Rightarrow> rstring" where
  "format_string_enumeration_value lib allowed value format =
     (if format \<in> {FormatDisplay, FormatSummary} \<and> value \<noteq> [] \<and> value \<notin> set allowed
      then ascii ''<Unknown: '' @ value @ ascii ''>''
      else if format = FormatSortKey then lib_uppercase lib value
      else value)"

definition format_string_enumeration ::
  "library_ops \<Rightarrow> 'j semantic_context \<Rightarrow> main_record \<Rightarrow> rstring \<Rightarrow> field_value \<Rightarrow> value_format \<Rightarrow> rstring option" where
  "format_string_enumeration lib c r path value format =
     Option.bind (string_enumeration c r path) (\<lambda>allowed.
     case value of FString s \<Rightarrow> Some (format_string_enumeration_value lib allowed s format) | _ \<Rightarrow> None)"

text \<open>The loop over the formatters carries the value they see and the text so far.\<close>

definition format_value_as_with_scope ::
  "library_ops \<Rightarrow> 'j semantic_context \<Rightarrow> main_record \<Rightarrow> rstring \<Rightarrow> field_value \<Rightarrow> field_value option \<Rightarrow> nat list \<Rightarrow> value_format
    \<Rightarrow> semantic_error + rstring option" where
  "format_value_as_with_scope lib c r path value scope indices format =
     (let formatted = format_string_enumeration lib c r path value format;
          handler_value = (case formatted of Some text \<Rightarrow> FString text | None \<Rightarrow> value) in
      bindr (steps (\<lambda>b (handler_value, formatted).
          if \<not> executable_binding b then Inr (handler_value, formatted)
          else bindr (invoke_with_records (sc_handlers c) b (handler_record c r)
              (with_array_indices indices (read_only_with_scope r scope)) (phase_of_format format) (Some handler_value) None) (\<lambda>out.
            case out of
              HNone \<Rightarrow> Inr (handler_value, formatted)
            | HValue v \<Rightarrow> Inr (v, formatted)
            | HText text \<Rightarrow> Inr (FString text, Some text)
            | _ \<Rightarrow> Inl (handler_text b ''value formatter returned a non-text result'')))
        (bindings_where c path (\<lambda>b. \<not> is_validation_binding (sc_handlers c) b \<and>
          callback_is [''def.value_transform'', ''integer.formatter'', ''integer.overlay'', ''string.formatter''] b))
        (handler_value, formatted)) (\<lambda>(_, formatted). Inr formatted))"

fun first_link ::
  "'j semantic_context \<Rightarrow> main_record \<Rightarrow> handler_invocation_access \<Rightarrow> field_value \<Rightarrow> 'j callback_binding list
    \<Rightarrow> semantic_error + semantic_link option" where
  "first_link c r access value [] = Inr None"
| "first_link c r access value (b # bs) =
     (if \<not> executable_binding b then first_link c r access value bs
      else bindr (invoke_with_records (sc_handlers c) b (handler_record c r) access ReferenceResolution (Some value) None) (\<lambda>out.
        case out of
          HNone \<Rightarrow> first_link c r access value bs
        | HLink link \<Rightarrow> Inr (Some link)
        | _ \<Rightarrow> Inl (handler_text b ''link resolver returned a non-link result'')))"

definition resolve_link_with_scope ::
  "'j semantic_context \<Rightarrow> main_record \<Rightarrow> rstring \<Rightarrow> field_value \<Rightarrow> field_value option \<Rightarrow> nat list
    \<Rightarrow> semantic_error + semantic_link option" where
  "resolve_link_with_scope c r path value scope indices =
     first_link c r (with_array_indices indices (read_only_with_scope r scope)) value
       (bindings_where c path (callback_is [''integer.overlay'', ''value.links_to'']))"

definition parse_edit_value_with_scope ::
  "'j semantic_context \<Rightarrow> main_record \<Rightarrow> rstring \<Rightarrow> rstring \<Rightarrow> field_value option \<Rightarrow> semantic_error + parsed_edit_value option" where
  "parse_edit_value_with_scope c r path text scope =
     steps (\<lambda>b parsed.
         if \<not> executable_binding b then Inr parsed
         else bindr (invoke_with_records (sc_handlers c) b (handler_record c r) (read_only_with_scope r scope)
             ParseEditValue (Some (FString text)) None) (\<lambda>out.
           let mutations = (case parsed of None \<Rightarrow> [] | Some p \<Rightarrow> pev_mutations p) in
           case out of
             HNone \<Rightarrow> Inr parsed
           | HValue v \<Rightarrow> Inr (Some \<lparr> pev_value = handler_to_owned_value v, pev_mutations = mutations \<rparr>)
           | HParsedValue v ms \<Rightarrow> Inr (Some \<lparr> pev_value = handler_to_owned_value v, pev_mutations = mutations @ ms \<rparr>)
           | _ \<Rightarrow> Inl (handler_text b ''edit parser returned a non-value result'')))
       (bindings_where c path (\<lambda>b.
         callback_is [''def.value_transform'', ''integer.formatter'', ''string.formatter''] b \<and>
         \<not> is_validation_binding (sc_handlers c) b))
       (map_option (\<lambda>_. \<lparr> pev_value = OString text, pev_mutations = [] \<rparr>) (string_enumeration c r path))"

definition is_removable ::
  "'j semantic_context \<Rightarrow> main_record \<Rightarrow> rstring \<Rightarrow> field_value \<Rightarrow> semantic_error + bool" where
  "is_removable c r path value =
     steps (\<lambda>b removable.
         if \<not> executable_binding b then Inr removable
         else bindr (invoke_handler (sc_handlers c) b (handler_record c r) Removability (Some value) None) (\<lambda>out.
           case out of
             HBoolean v \<Rightarrow> Inr v
           | _ \<Rightarrow> Inl (handler_text b ''removability callback returned a non-boolean result'')))
       (bindings_where c path (callback_is [''def.is_removeable''])) True"

definition array_is_sorted :: "'j semantic_context \<Rightarrow> main_record \<Rightarrow> rstring \<Rightarrow> semantic_error + bool option" where
  "array_is_sorted c r path =
     steps (\<lambda>b decision.
         if decision \<noteq> None then Inl (handler_text b ''array sorting callback is bound more than once'')
         else if \<not> executable_binding b then Inl (handler_text b ''array sorting callback is not executable'')
         else bindr (invoke_with_source_record (sc_handlers c) b (handler_record c r) (Some r) RecordMetadata None None) (\<lambda>out.
           case out of
             HBoolean v \<Rightarrow> Inr (Some v)
           | _ \<Rightarrow> Inl (handler_text b ''array sorting callback returned a non-boolean result'')))
       (bindings_where c path (callback_is [''subrecord_array.is_sorted''])) None"

text \<open>\<open>apply_normalizers\<close>\<close>

definition apply_normalizer ::
  "'j semantic_context \<Rightarrow> main_record \<Rightarrow> 'j callback_binding \<Rightarrow> field_value \<Rightarrow> semantic_error + field_value" where
  "apply_normalizer c r b value =
     (if \<not> executable_binding b then Inr value
      else if (case value of FFloat v \<Rightarrow> \<not> is_finite v | _ \<Rightarrow> False) then Inr value
      else bindr (invoke_handler (sc_handlers c) b (handler_record c r) DecodeNormalize (Some value) None) (\<lambda>out.
        case out of
          HValue transformed \<Rightarrow> Inr transformed
        | _ \<Rightarrow> Inl (handler_text b ''value callback returned a non-value result'')))"

definition apply_normalizers ::
  "'j semantic_context \<Rightarrow> rstring \<Rightarrow> main_record \<Rightarrow> field_value \<Rightarrow> semantic_error + field_value" where
  "apply_normalizers c path r value =
     steps (apply_normalizer c r) (filter (callback_is [''float.normalizer'']) (callbacks_at (sc_registry c) path)) value"

subsection \<open>Record metadata\<close>

definition record_metadata_binding ::
  "'j semantic_context \<Rightarrow> main_record \<Rightarrow> string \<Rightarrow> semantic_error + 'j callback_binding option" where
  "record_metadata_binding c r callback_id =
     (case bindings_where c (fmt_signature (rh_signature (rec_header r))) (callback_is [callback_id]) of
        [] \<Rightarrow> Inr None
      | [b] \<Rightarrow>
          if \<not> executable_binding b
          then Inl (HandlerError (ascii callback_id) (Text ''record metadata callback is not executable'' []))
          else Inr (Some b)
      | _ \<Rightarrow> Inl (HandlerError (ascii callback_id) (Text ''record metadata callback is bound more than once'' [])))"

definition invoke_record_metadata ::
  "'j semantic_context \<Rightarrow> main_record \<Rightarrow> 'j callback_binding \<Rightarrow> semantic_error + handler_output" where
  "invoke_record_metadata c r b =
     invoke_with_source_record (sc_handlers c) b (handler_record c r) (Some r) RecordMetadata None None"

text \<open>The shape the five queries share: \<open>accept\<close> reads the output, \<open>None\<close> rejects it.\<close>

definition record_metadata ::
  "'j semantic_context \<Rightarrow> main_record \<Rightarrow> string \<Rightarrow> string \<Rightarrow> (handler_output \<Rightarrow> 'a option option) \<Rightarrow> semantic_error + 'a option" where
  "record_metadata c r callback_id message accept =
     bindr (record_metadata_binding c r callback_id) (\<lambda>found.
     case found of
       None \<Rightarrow> Inr None
     | Some b \<Rightarrow>
         bindr (invoke_record_metadata c r b) (\<lambda>out. ok_or (handler_text b message) (accept out)))"

definition record_grid_cell_of :: "'j semantic_context \<Rightarrow> main_record \<Rightarrow> semantic_error + record_grid_cell option" where
  "record_grid_cell_of c r = record_metadata c r ''record.grid_cell'' ''grid-cell callback returned a non-grid result''
     (\<lambda>out. case out of HGridCell v \<Rightarrow> Some (Some v) | HNone \<Rightarrow> Some None | _ \<Rightarrow> None)"

definition record_form_id :: "'j semantic_context \<Rightarrow> main_record \<Rightarrow> semantic_error + form_id option" where
  "record_form_id c r = record_metadata c r ''record.form_id'' ''FormID callback returned a non-FormID result''
     (\<lambda>out. case out of HFormId v \<Rightarrow> Some (Some v) | HNone \<Rightarrow> Some None | _ \<Rightarrow> None)"

definition record_identity :: "'j semantic_context \<Rightarrow> main_record \<Rightarrow> semantic_error + rstring option" where
  "record_identity c r = record_metadata c r ''record.identity'' ''identity callback returned a non-text result''
     (\<lambda>out. case out of HText v \<Rightarrow> Some (Some v) | _ \<Rightarrow> None)"

definition record_editor_id :: "'j semantic_context \<Rightarrow> main_record \<Rightarrow> semantic_error + rstring option" where
  "record_editor_id c r = record_metadata c r ''record.get_editor_id'' ''editor-ID callback returned a non-text result''
     (\<lambda>out. case out of HText v \<Rightarrow> Some (Some v) | _ \<Rightarrow> None)"

definition record_index_keys :: "'j semantic_context \<Rightarrow> main_record \<Rightarrow> semantic_error + record_index_key list option" where
  "record_index_keys c r = record_metadata c r ''record.index_keys'' ''index-key callback returned an invalid result''
     (\<lambda>out. case out of HIndexKeys v \<Rightarrow> Some (Some v) | _ \<Rightarrow> None)"

end
