(* ===== verification/LegacyPayload.thy ===== *)
theory LegacyPayload
  imports SemanticContexts
begin

text \<open>
  The payload shapes of \<open>bethkit-semantic\<close> that the decoder and the editor share: \<open>legacy_payload.rs\<close>,
  \<open>decode_retention.rs\<close> and the sizes of \<open>view.rs\<close>.
\<close>

unbundle bit_operations_syntax

subsection \<open>Legacy payloads\<close>

definition strip_suffix :: "'a list \<Rightarrow> 'a list \<Rightarrow> 'a list option" where
  "strip_suffix suf xs =
     (if length suf \<le> length xs \<and> drop (length xs - length suf) xs = suf
      then Some (take (length xs - length suf) xs) else None)"

definition info_fragment_limit :: "'j schema_node \<Rightarrow> bool" where
  "info_fragment_limit n \<longleftrightarrow>
     take 5 (node_path n) = ascii ''INFO/'' \<and>
     strip_suffix (ascii ''/3:Script Fragments/3:Fragments'') (node_path n) \<noteq> None \<and>
     (case node_kind n of
        ArrayOf element (CExpression (BitCount (ReadField path))) \<Rightarrow>
          (case node_kind element of
             Struct fs \<Rightarrow>
               (case strip_suffix (ascii ''/3:Fragments'') (node_path n) of
                  None \<Rightarrow> False
                | Some parent \<Rightarrow>
                    strip_suffix (ascii ''/1:Flags'') path = Some parent \<and> length fs = 3 \<and>
                    (case node_kind (hd fs) of Primitive (PInteger i) \<Rightarrow> it_width i = 1 | _ \<Rightarrow> False) \<and>
                    (\<forall>f \<in> set (tl fs). case node_kind f of
                       Primitive (PString st) \<Rightarrow>
                         (case st_length_prefix st of Some lp \<Rightarrow> lp_width lp = 2 \<and> lp_offset lp = 2 | None \<Rightarrow> False)
                     | _ \<Rightarrow> False))
           | _ \<Rightarrow> False)
      | _ \<Rightarrow> False)"

definition empty_unused_form_id :: "signature \<Rightarrow> signature \<Rightarrow> 'j schema_node \<Rightarrow> bool" where
  "empty_unused_form_id sig sub n \<longleftrightarrow>
     sig = sig_lit ''MESG'' \<and> sub = sig_lit ''INAM'' \<and> node_priority n = Ignore \<and>
     (case node_kind n of
        Primitive (PFormId targets) \<Rightarrow> \<forall>t \<in> set targets. t = sig_lit ''NULL''
      | _ \<Rightarrow> False)"

definition fixed_string_terminator :: "'j schema_node \<Rightarrow> bytes \<Rightarrow> bool" where
  "fixed_string_terminator n data \<longleftrightarrow>
     (case node_kind n of
        Primitive (PString st) \<Rightarrow>
          \<not> st_localized st \<and> \<not> st_zero_terminated st \<and> st_length_prefix st = None \<and> st_trailing_terminator st = None \<and>
          (case st_fixed_length st of Some l \<Rightarrow> checked_add (unat l) 1 = Some (length data) | None \<Rightarrow> False) \<and>
          data \<noteq> [] \<and> last data = 0
      | _ \<Rightarrow> False)"

definition bytes_node :: "u32 \<Rightarrow> 'j schema_node \<Rightarrow> bool" where
  "bytes_node l n \<longleftrightarrow> node_kind n = Primitive (PBytes (Some l))"

definition with_kind :: "('j, 'j schema_node) schema_node_kind \<Rightarrow> 'j schema_node \<Rightarrow> 'j schema_node" where
  "with_kind k n = SchemaNode (node_id n) (node_path n) (node_name n) (node_required n) (node_priority n) (node_condition n) k"

definition weapon_critical_data :: "signature \<Rightarrow> signature \<Rightarrow> 'j schema_node \<Rightarrow> nat \<Rightarrow> 'j schema_node option" where
  "weapon_critical_data sig sub n len =
     (if sig \<noteq> sig_lit ''WEAP'' \<or> sub \<noteq> sig_lit ''CRDT'' \<or> len \<noteq> 16 then None
      else case node_kind n of
        Struct [f0, f1, f2, f3, f4, f5, f6] \<Rightarrow>
          if (case node_kind f0 of Primitive (PInteger i) \<Rightarrow> it_width i = 2 | _ \<Rightarrow> False) \<and>
             bytes_node 2 f1 \<and>
             (case node_kind f2 of Primitive (PFloat width _ _ _) \<Rightarrow> width = 4 | _ \<Rightarrow> False) \<and>
             (case node_kind f3 of
                Primitive (PInteger i) \<Rightarrow> it_width i = 1 | Primitive (PFlags i _) \<Rightarrow> it_width i = 1 | _ \<Rightarrow> False) \<and>
             bytes_node 7 f4 \<and>
             (case node_kind f5 of Primitive (PFormId _) \<Rightarrow> True | _ \<Rightarrow> False) \<and>
             bytes_node 4 f6
          then Some (with_kind (Struct [f0, f1, f2, f3, with_kind (Primitive (PBytes (Some 3))) f4, f5]) n)
          else None
      | _ \<Rightarrow> None)"

subsection \<open>Sizes\<close>

definition checked_mul :: "nat \<Rightarrow> nat \<Rightarrow> nat option" where
  "checked_mul a b = (if a * b \<le> usize_max then Some (a * b) else None)"

definition primitive_node_size :: "primitive_type \<Rightarrow> nat option" where
  "primitive_node_size p = (case p of
      PInteger i \<Rightarrow> Some (unat (it_width i))
    | PackedUnsigned \<Rightarrow> None
    | PFloat width _ _ _ \<Rightarrow> Some (unat width)
    | PString st \<Rightarrow>
        if is_localized_string st then None
        else Option.bind (st_fixed_length st) (\<lambda>l.
          checked_add (unat l) (if st_trailing_terminator st = None then 0 else 1))
    | PBytes l \<Rightarrow> map_option unat l
    | PFormId _ \<Rightarrow> Some 4
    | PEnumeration i _ \<Rightarrow> Some (unat (it_width i))
    | PFlags i _ \<Rightarrow> Some (unat (it_width i))
    | PUnused l \<Rightarrow> Some (unat l))"

text \<open>\<open>try_fold\<close> with \<open>checked_add\<close>: the children's sizes are given in order.\<close>

fun sum_sizes :: "nat option list \<Rightarrow> nat \<Rightarrow> nat option" where
  "sum_sizes [] t = Some t"
| "sum_sizes (s # ss) t = Option.bind s (\<lambda>k. Option.bind (checked_add t k) (sum_sizes ss))"

function fixed_node_size :: "'j schema_node \<Rightarrow> nat option" where
  "fixed_node_size n = (case node_kind n of
      Primitive p \<Rightarrow> primitive_node_size p
    | Struct fs \<Rightarrow> sum_sizes (map fixed_node_size fs) 0
    | ArrayOf element count \<Rightarrow>
        Option.bind (fixed_node_size element) (\<lambda>s.
        case count of CFixed c \<Rightarrow> checked_mul s (unat c) | _ \<Rightarrow> None)
    | Terminated _ child \<Rightarrow> Option.bind (fixed_node_size child) (\<lambda>s. checked_add s 1)
    | _ \<Rightarrow> None)"
  by auto
termination by (relation "measure size") (auto simp: children_def intro: children_size)

declare fixed_node_size.simps [simp del]

definition array_prefix_size :: "nat \<Rightarrow> u8 option \<Rightarrow> bytes \<Rightarrow> rstring \<Rightarrow> semantic_error + nat" where
  "array_prefix_size integer_size terminator data path = (case terminator of
      None \<Rightarrow> Inr integer_size
    | Some expected \<Rightarrow>
        if length data \<le> integer_size then Inl (DecodeError path (Text ''array count prefix is missing its terminator'' []))
        else if data ! integer_size \<noteq> expected
        then Inl (DecodeError path (Text ''expected array prefix terminator, got'' [unat expected, unat (data ! integer_size)]))
        else ok_or (DecodeError path (Text ''array prefix size overflowed'' [])) (checked_add integer_size 1))"

text \<open>\<open>usize::try_from\<close> of the count of a prefix never fails on a 64-bit target.\<close>

definition array_prefix :: "array_count \<Rightarrow> bytes \<Rightarrow> rstring \<Rightarrow> (semantic_error + nat \<times> nat option) option" where
  "array_prefix count data path = (case count of
      CFixed c \<Rightarrow> Some (Inr (0, Some (unat c)))
    | CPrefixed i t \<Rightarrow> Some (
        bindr (decode_unsigned_integer i data path) (\<lambda>c.
        bindr (array_prefix_size (unat (it_width i)) t data path) (\<lambda>s. Inr (s, Some (unat c)))))
    | CPackedPrefixed square t \<Rightarrow> Some (
        bindr (decode_packed_unsigned data path) (\<lambda>(c, width).
        bindr (array_count_value c square path) (\<lambda>c1.
        bindr (array_prefix_size width t data path) (\<lambda>s. Inr (s, Some c1)))))
    | CSquaredPrefixed i t \<Rightarrow> Some (
        bindr (decode_unsigned_integer i data path) (\<lambda>c.
        bindr (array_count_value c True path) (\<lambda>c1.
        bindr (array_prefix_size (unat (it_width i)) t data path) (\<lambda>s. Inr (s, Some c1)))))
    | CRemainder \<Rightarrow> Some (Inr (0, None))
    | CExpression _ \<Rightarrow> None
    | CCallback _ \<Rightarrow> None)"

text \<open>The same in \<open>node_data_size_with_resolver\<close>, which looks at the terminator before the count.\<close>

definition array_size_prefix :: "array_count \<Rightarrow> bytes \<Rightarrow> rstring \<Rightarrow> (semantic_error + nat \<times> nat option) option" where
  "array_size_prefix count data path = (case count of
      CFixed c \<Rightarrow> Some (Inr (0, Some (unat c)))
    | CPrefixed i t \<Rightarrow> Some (
        bindr (decode_unsigned_integer i data path) (\<lambda>c.
        bindr (array_prefix_size (unat (it_width i)) t data path) (\<lambda>s. Inr (s, Some (unat c)))))
    | CPackedPrefixed square t \<Rightarrow> Some (
        bindr (decode_packed_unsigned data path) (\<lambda>(c, width).
        bindr (array_prefix_size width t data path) (\<lambda>s.
        bindr (array_count_value c square path) (\<lambda>c1. Inr (s, Some c1)))))
    | CSquaredPrefixed i t \<Rightarrow> Some (
        bindr (decode_unsigned_integer i data path) (\<lambda>c.
        bindr (array_prefix_size (unat (it_width i)) t data path) (\<lambda>s.
        bindr (array_count_value c True path) (\<lambda>c1. Inr (s, Some c1)))))
    | CRemainder \<Rightarrow> Some (Inr (0, None))
    | CExpression _ \<Rightarrow> None
    | CCallback _ \<Rightarrow> None)"

definition string_data_size :: "string_type \<Rightarrow> bytes \<Rightarrow> bool \<Rightarrow> rstring \<Rightarrow> semantic_error + nat" where
  "string_data_size st data localized path =
     (if is_localized_string st \<and> localized then Inr 4
      else
        let trailing = (if st_trailing_terminator st = None then 0 else 1);
            overflow = DecodeError path StringSizeOverflow in
        case st_length_prefix st of
          Some prefix \<Rightarrow>
            bindr (read_string_length (lp_width prefix) data path) (\<lambda>l.
            ok_or overflow (Option.bind (checked_add (unat (lp_offset prefix)) l) (\<lambda>v. checked_add v trailing)))
        | None \<Rightarrow>
            (case st_fixed_length st of
               Some l \<Rightarrow> ok_or overflow (checked_add (unat l) trailing)
             | None \<Rightarrow>
                 if st_zero_terminated st
                 then ok_or overflow (checked_add
                   (if 0 \<in> set data then length (takeWhile (\<lambda>b. b \<noteq> 0) data) + 1 else length data) trailing)
                 else Inr (length data)))"

text \<open>
  \<open>node_data_size\<close> of a primitive node, the case the decoder uses, and the whole of
  \<open>node_data_size_with_resolver\<close> below, with its loops over the fields and the elements.
\<close>

definition primitive_data_size :: "'j schema_node \<Rightarrow> primitive_type \<Rightarrow> bytes \<Rightarrow> bool \<Rightarrow> semantic_error + nat" where
  "primitive_data_size n p data localized = (case p of
      PString st \<Rightarrow> string_data_size st data localized (node_path n)
    | _ \<Rightarrow> Inr (case primitive_node_size p of Some k \<Rightarrow> k | None \<Rightarrow> length data))"

fun struct_data_size ::
  "('j schema_node \<times> (bytes \<Rightarrow> semantic_error + nat)) list \<Rightarrow> nat option \<Rightarrow> nat \<Rightarrow> nat \<Rightarrow> bytes \<Rightarrow> semantic_error + nat" where
  "struct_data_size [] start index cursor data = Inr cursor"
| "struct_data_size ((f, size_of) # fs) start index cursor data =
     (if cursor > length data then Inl (DecodeError (node_path f) (Text ''struct size cursor exceeded payload'' []))
      else
        let rest = drop cursor data in
        if (case start of None \<Rightarrow> False | Some s \<Rightarrow> s \<le> index) \<and>
           (rest = [] \<or> (case fixed_node_size f of None \<Rightarrow> False | Some k \<Rightarrow> k > length rest))
        then Inr cursor
        else bindr (size_of rest) (\<lambda>consumed.
          bindr (ok_or (DecodeError (node_path f) (Text ''struct size overflowed'' [])) (checked_add cursor consumed)) (\<lambda>cursor1.
          if cursor1 > length data
          then Inl (DecodeError (node_path f) (Text ''field needs bytes, only remain'' [consumed, length rest]))
          else struct_data_size fs start (index + 1) cursor1 data)))"

function (sequential) array_data_size ::
  "'j schema_node \<Rightarrow> 'j schema_node \<Rightarrow> (bytes \<Rightarrow> semantic_error + nat) \<Rightarrow> nat option \<Rightarrow> nat \<Rightarrow> nat \<Rightarrow> bytes \<Rightarrow> semantic_error + nat" where
  "array_data_size n element size_of count decoded cursor data =
     (if \<not> (case count of None \<Rightarrow> True | Some c \<Rightarrow> decoded < c) then Inr cursor
      else if cursor = length data \<and> (count = None \<or> info_fragment_limit n) then Inr cursor
      else if cursor > length data then Inl (DecodeError (node_path n) (Text ''array size cursor exceeded payload'' []))
      else case size_of (drop cursor data) of
        Inl e \<Rightarrow> Inl e
      | Inr consumed \<Rightarrow>
          if consumed = 0 then Inl (DecodeError (node_path element) ElementWithoutBytes)
          else if cursor + consumed > usize_max then Inl (DecodeError (node_path n) (Text ''array size overflowed'' []))
          else if cursor + consumed > length data
          then Inl (DecodeError (node_path element) (Text ''array element needs bytes, only remain'' [consumed, length data - cursor]))
          else array_data_size n element size_of count (decoded + 1) (cursor + consumed) data)"
  by pat_completeness auto
termination by (relation "measure (\<lambda>(_, _, _, _, _, cursor, data). length data - cursor)") auto

declare array_data_size.simps [simp del]

function node_data_size_with_resolver ::
  "('j schema_node \<Rightarrow> array_count \<Rightarrow> semantic_error + nat) \<Rightarrow> bool \<Rightarrow> 'j schema_node \<Rightarrow> bytes \<Rightarrow> semantic_error + nat" where
  "node_data_size_with_resolver resolve localized n data = (case node_kind n of
      Primitive p \<Rightarrow> primitive_data_size n p data localized
    | Struct fs \<Rightarrow>
        struct_data_size (map (\<lambda>f. (f, \<lambda>d. node_data_size_with_resolver resolve localized f d)) fs) None 0 0 data
    | OptionalStruct fs from_index \<Rightarrow>
        struct_data_size (map (\<lambda>f. (f, \<lambda>d. node_data_size_with_resolver resolve localized f d)) fs) (Some (unat from_index)) 0 0 data
    | ArrayOf element count \<Rightarrow>
        bindr (case array_size_prefix count data (node_path n) of
            Some r \<Rightarrow> r | None \<Rightarrow> bindr (resolve n count) (\<lambda>c. Inr (0, Some c))) (\<lambda>(cursor, limit).
        array_data_size n element (\<lambda>d. node_data_size_with_resolver resolve localized element d) limit 0 cursor data)
    | Terminated terminator child \<Rightarrow>
        bindr (node_data_size_with_resolver resolve localized child data) (\<lambda>k.
        if length data \<le> k then Inl (DecodeError (node_path n) (Text ''terminated value is missing its terminator'' []))
        else if data ! k \<noteq> terminator
        then Inl (DecodeError (node_path n) (Text ''expected terminator, got'' [unat terminator, unat (data ! k)]))
        else ok_or (DecodeError (node_path n) (Text ''terminated value size overflowed'' [])) (checked_add k 1))
    | _ \<Rightarrow> Inr (case fixed_node_size n of Some k \<Rightarrow> k | None \<Rightarrow> length data))"
  by auto
termination by (relation "measure (\<lambda>(_, _, n, _). size n)") (auto simp: children_def intro: children_size)

declare node_data_size_with_resolver.simps [simp del]

definition node_data_size :: "'j schema_node \<Rightarrow> bytes \<Rightarrow> bool \<Rightarrow> semantic_error + nat" where
  "node_data_size n data localized =
     node_data_size_with_resolver (\<lambda>n _. Inl (DecodeError (node_path n) DynamicCountNeedsContext)) localized n data"

subsection \<open>Retention\<close>

datatype decode_retention = RetainFull | Discard bool

definition materializes :: "decode_retention \<Rightarrow> bool" where
  "materializes r \<longleftrightarrow> r = RetainFull"

definition tracks_numeric :: "decode_retention \<Rightarrow> bool" where
  "tracks_numeric r \<longleftrightarrow> r \<noteq> Discard False"

function unconstrained_size :: "'j schema_node \<Rightarrow> nat \<Rightarrow> nat option" where
  "unconstrained_size n depth =
     (if node_condition n \<noteq> None \<or> depth > 128 then None
      else case node_kind n of
        Primitive (PInteger i) \<Rightarrow> if it_width i \<in> {1, 2, 4, 8} then Some (unat (it_width i)) else None
      | Primitive (PBytes (Some l)) \<Rightarrow> Some (unat l)
      | Struct fs \<Rightarrow> sum_sizes (map (\<lambda>f. unconstrained_size f (depth + 1)) fs) 0
      | ArrayOf element (CFixed c) \<Rightarrow>
          Option.bind (unconstrained_size element (depth + 1)) (\<lambda>s. checked_mul s (unat c))
      | _ \<Rightarrow> None)"
  by auto
termination by (relation "measure (\<lambda>(n, _). size n)") (auto simp: children_def intro: children_size)

declare unconstrained_size.simps [simp del]

definition array_bytes :: "decode_retention \<Rightarrow> 'j schema_node \<Rightarrow> nat option \<Rightarrow> nat \<Rightarrow> nat option" where
  "array_bytes r element count available =
     (if materializes r \<or> tracks_numeric r then None
      else Option.bind (unconstrained_size element 0) (\<lambda>s.
        Option.bind (case count of
            Some c \<Rightarrow> Some c
          | None \<Rightarrow> if s \<noteq> 0 \<and> available mod s = 0 then Some (available div s) else None) (\<lambda>c.
        Option.bind (checked_mul s c) (\<lambda>consumed.
        if consumed \<le> available then Some consumed else None))))"

text \<open>The fold over the children: \<open>None\<close> as soon as a child has none.\<close>

fun any_numeric :: "bool option list \<Rightarrow> bool \<Rightarrow> bool option" where
  "any_numeric [] b = Some b"
| "any_numeric (r # rs) b = Option.bind r (\<lambda>c. any_numeric rs (b \<or> c))"

definition observed_binding :: "'j callback_binding \<Rightarrow> bool" where
  "observed_binding b \<longleftrightarrow> callback_is [''float.normalizer'', ''array.should_include''] b"

function analyze_retention :: "'j schema_registry \<Rightarrow> 'j schema_node \<Rightarrow> nat \<Rightarrow> bool option" where
  "analyze_retention reg n depth =
     (if depth > 128 \<or> (\<exists>b \<in> set (callbacks_at reg (node_path n)). observed_binding b) then None
      else
        let numeric = (node_condition n \<noteq> None) in
        case node_kind n of
          Primitive _ \<Rightarrow> Some numeric
        | Struct fs \<Rightarrow> any_numeric (map (\<lambda>f. analyze_retention reg f (depth + 1)) fs) numeric
        | OptionalStruct fs _ \<Rightarrow> any_numeric (map (\<lambda>f. analyze_retention reg f (depth + 1)) fs) numeric
        | ArrayOf element count \<Rightarrow>
            (case count of
               CCallback _ \<Rightarrow> None
             | _ \<Rightarrow> any_numeric [analyze_retention reg element (depth + 1)]
                 (numeric \<or> (case count of CExpression _ \<Rightarrow> True | _ \<Rightarrow> False)))
        | UnionOf selector vs \<Rightarrow>
            (case selector of
               SelCallback _ \<Rightarrow> None
             | SelExpression _ \<Rightarrow> any_numeric (map (\<lambda>v. analyze_retention reg v (depth + 1)) vs) True)
        | Terminated _ child \<Rightarrow> any_numeric [analyze_retention reg child (depth + 1)] numeric
        | _ \<Rightarrow> None)"
  by auto
termination by (relation "measure (\<lambda>(_, n, _). size n)") (auto simp: children_def intro: children_size)

declare analyze_retention.simps [simp del]

definition for_payload :: "'j schema_registry \<Rightarrow> 'j schema_node \<Rightarrow> decode_retention" where
  "for_payload reg n = (case analyze_retention reg n 0 of Some b \<Rightarrow> Discard b | None \<Rightarrow> RetainFull)"

end
