(* ===== verification/Grammar.thy ===== *)
theory Grammar
  imports SemanticCore
begin

text \<open>
  \<open>bethkit-semantic/src/grammar.rs\<close>: the match of a record's subrecords against its schema grammar.
  The states of the source share one append-only vector of assignments, \<open>history\<close>; a state keeps the
  index of its last assignment and every assignment that of the one before. A subrecord is its
  signature with its payload, the two methods of the trait \<open>GrammarInput\<close>.

  An index outside a vector, which is a panic in the source, and an exhausted fuel are the error
  \<open>grammar_stop\<close>; the theory \<open>GrammarLaws\<close> shows that it is never returned.
\<close>

unbundle bit_operations_syntax

type_synonym grammar_input = "signature \<times> bytes"

definition sub_record_input :: "sub_record \<Rightarrow> grammar_input" where
  "sub_record_input s = (sr_signature s, sr_bytes s)"

definition writable_input :: "writable_sub_record \<Rightarrow> grammar_input" where
  "writable_input s = (ws_signature s, ws_data s)"

record repeat_scope =
  rs_path :: rstring
  rs_occurrence :: u32

record grammar_violation =
  gv_path :: rstring
  gv_minimum :: u32
  gv_actual :: u32

text \<open>The fields of \<open>MatchState\<close>; the loops below read all but the last.\<close>

record match_core =
  ms_cursor :: nat
  ms_active_repeat_scopes :: "repeat_scope list"
  ms_assigned :: nat
  ms_violations :: "grammar_violation list"

record match_state = match_core +
  ms_history_head :: "nat option"

record 'j matched_assignment =
  ma_previous :: "nat option"
  ma_index :: nat
  ma_node :: "'j schema_node"
  ma_repeat_scopes :: "repeat_scope list"

record 'j grammar_match =
  gm_assignments :: "'j schema_node option list"
  gm_repeat_scopes :: "repeat_scope list list"
  gm_declared_signatures :: "signature set"
  gm_violations :: "grammar_violation list"

type_synonym 'j match_history = "'j matched_assignment list"

definition grammar_stop :: semantic_error where
  "grammar_stop = DecodeError [] IndexPanic"

subsection \<open>Signatures and conditions\<close>

function collect_signatures :: "'j schema_node \<Rightarrow> signature set \<Rightarrow> signature set" where
  "collect_signatures n out = (case node_kind n of
      Subrecord sig _ \<Rightarrow> insert sig out
    | _ \<Rightarrow> fold (\<lambda>c out. collect_signatures c out) (children n) out)"
  by auto
termination by (relation "measure (\<lambda>(n, _). size n)") (auto simp: children_size)

declare collect_signatures.simps [simp del]

definition payload_at :: "grammar_input list \<Rightarrow> nat \<Rightarrow> bytes" where
  "payload_at subs cursor = (if cursor < length subs then snd (subs ! cursor) else [])"

definition condition_applies ::
  "signature \<Rightarrow> u16 \<Rightarrow> grammar_input list \<Rightarrow> 'j schema_node \<Rightarrow> nat \<Rightarrow> semantic_error + bool" where
  "condition_applies sig fv subs n cursor = (case node_condition n of
      None \<Rightarrow> Inr True
    | Some c \<Rightarrow>
        bindr (schema_err (map_err ExpressionError (evaluate c
          \<lparr> payload = payload_at subs cursor, field_values = Map.empty, ctx_form_version = fv,
            record_signature = sig \<rparr> 1024))) (\<lambda>v.
        case v of VBool b \<Rightarrow> Inr b | VInt _ \<Rightarrow> Inl (DecodeError (node_path n) ConditionNotBoolean)))"

definition skip_unknown :: "grammar_input list \<Rightarrow> signature set \<Rightarrow> nat \<Rightarrow> nat" where
  "skip_unknown subs declared cursor =
     cursor + length (takeWhile (\<lambda>s. fst s \<notin> declared) (drop cursor subs))"

definition repeat_anchor_matches ::
  "grammar_input list \<Rightarrow> signature set \<Rightarrow> 'j schema_node \<Rightarrow> nat \<Rightarrow> semantic_error + bool" where
  "repeat_anchor_matches subs declared child cursor = (case node_kind child of
      Sequence (first # _) \<Rightarrow>
        (case node_kind first of
           Subrecord sig _ \<Rightarrow>
             if \<not> node_required first \<or> node_condition first \<noteq> None then Inr True
             else if cursor > length subs then Inl grammar_stop
             else Inr (case find (\<lambda>s. fst s \<in> declared) (drop cursor subs) of
                None \<Rightarrow> False | Some s \<Rightarrow> fst s = sig)
         | _ \<Rightarrow> Inr True)
    | _ \<Rightarrow> Inr True)"

subsection \<open>Numeric fields\<close>

text \<open>A shift by the full width or more wraps, as in a release build.\<close>

definition decode_selector_integer :: "bytes \<Rightarrow> integer_type \<Rightarrow> i64" where
  "decode_selector_integer bs i =
     (let u = (case it_byte_order i of
          LittleEndian \<Rightarrow> fold (\<lambda>(k, b) v. v OR push_bit (k * 8 mod 64) (ucast b)) (enumerate 0 bs) 0
        | BigEndian \<Rightarrow> fold (\<lambda>b v. push_bit 8 v OR ucast b) bs (0 :: u64)) in
      if \<not> it_signed i then u
      else let shift = (64 - unat (it_width i) * 8) mod 64 in signed_drop_bit shift (push_bit shift u))"

definition numeric_payload_value :: "'j schema_node \<Rightarrow> bytes \<Rightarrow> nat \<Rightarrow> semantic_error + i64 option" where
  "numeric_payload_value n pl offset =
     (case (case node_kind n of
         Primitive (PInteger i) \<Rightarrow> Some i
       | Primitive (PEnumeration i _) \<Rightarrow> Some i
       | Primitive (PFlags i _) \<Rightarrow> Some i
       | _ \<Rightarrow> None) of
       None \<Rightarrow> Inr None
     | Some i \<Rightarrow>
         let width = unat (it_width i) in
         bindr (ok_or (DecodeError (node_path n) (SelectorFieldRange width offset (length pl)))
           (get_range (offset, min usize_max (offset + width)) pl)) (\<lambda>bs.
         Inr (Some (decode_selector_integer bs i))))"

fun primitive_fixed_size :: "primitive_type \<Rightarrow> nat option" where
  "primitive_fixed_size (PInteger i) = Some (unat (it_width i))"
| "primitive_fixed_size (PEnumeration i _) = Some (unat (it_width i))"
| "primitive_fixed_size (PFlags i _) = Some (unat (it_width i))"
| "primitive_fixed_size (PFloat w _ _ _) = Some (unat w)"
| "primitive_fixed_size (PFormId _) = Some 4"
| "primitive_fixed_size (PString s) = map_option unat (st_fixed_length s)"
| "primitive_fixed_size (PBytes l) = map_option unat l"
| "primitive_fixed_size (PUnused l) = Some (unat l)"
| "primitive_fixed_size PackedUnsigned = None"

text \<open>The loop over the fields of a struct; each field is its path with its own walk.\<close>

fun struct_fields ::
  "(rstring \<times> (nat \<Rightarrow> (rstring \<rightharpoonup> i64) \<Rightarrow> semantic_error + nat option \<times> (rstring \<rightharpoonup> i64))) list
    \<Rightarrow> nat \<Rightarrow> (rstring \<rightharpoonup> i64) \<Rightarrow> semantic_error + nat option \<times> (rstring \<rightharpoonup> i64)" where
  "struct_fields [] cursor vs = Inr (Some cursor, vs)"
| "struct_fields ((path, f) # fs) cursor vs =
     bindr (f cursor vs) (\<lambda>(consumed, vs1). case consumed of
       None \<Rightarrow> Inr (None, vs1)
     | Some k \<Rightarrow>
         bindr (ok_or (DecodeError path NumericCursorOverflow) (checked_add cursor k)) (\<lambda>cursor1.
         struct_fields fs cursor1 vs1))"

function collect_numeric_payload_fields ::
  "'j schema_node \<Rightarrow> bytes \<Rightarrow> nat \<Rightarrow> (rstring \<rightharpoonup> i64) \<Rightarrow> semantic_error + nat option \<times> (rstring \<rightharpoonup> i64)" where
  "collect_numeric_payload_fields n pl offset vs =
     bindr (numeric_payload_value n pl offset) (\<lambda>v.
     let vs1 = (case v of None \<Rightarrow> vs | Some i \<Rightarrow> vs(node_path n \<mapsto> i));
         walk = (\<lambda>fs. bindr (struct_fields fs offset vs1) (\<lambda>(c, vs2). Inr (map_option (\<lambda>c. c - offset) c, vs2))) in
     case node_kind n of
       Struct cs \<Rightarrow> walk (map (\<lambda>c. (node_path c, \<lambda>off vs. collect_numeric_payload_fields c pl off vs)) cs)
     | OptionalStruct cs _ \<Rightarrow> walk (map (\<lambda>c. (node_path c, \<lambda>off vs. collect_numeric_payload_fields c pl off vs)) cs)
     | Primitive p \<Rightarrow> Inr (primitive_fixed_size p, vs1)
     | _ \<Rightarrow> Inr (None, vs1))"
  by auto
termination
  by (relation "measure (\<lambda>(n, _). size n)") (auto simp: children_def intro: children_size)

declare collect_numeric_payload_fields.simps [simp del]

subsection \<open>The history\<close>

text \<open>The walk from a state's last assignment to its first.\<close>

fun history_path :: "nat \<Rightarrow> 'j match_history \<Rightarrow> nat option \<Rightarrow> 'j matched_assignment list option" where
  "history_path fuel h None = Some []"
| "history_path 0 h (Some i) = None"
| "history_path (Suc k) h (Some i) =
     (if i < length h then map_option ((#) (h ! i)) (history_path k h (ma_previous (h ! i))) else None)"

definition assigned_field ::
  "grammar_input list \<Rightarrow> nat \<times> 'j schema_node \<Rightarrow> (rstring \<rightharpoonup> i64) \<Rightarrow> semantic_error + (rstring \<rightharpoonup> i64)" where
  "assigned_field subs = (\<lambda>(index, n) vs.
     if index < length subs then
       (case node_kind n of
          Subrecord _ p \<Rightarrow>
            bindr (collect_numeric_payload_fields p (snd (subs ! index)) 0 vs) (\<lambda>(_, vs1).
            bindr (numeric_payload_value p (snd (subs ! index)) 0) (\<lambda>v.
            Inr (case v of None \<Rightarrow> vs1 | Some i \<Rightarrow> vs1(node_path n \<mapsto> i))))
        | _ \<Rightarrow> Inr vs)
     else Inl grammar_stop)"

definition assigned_numeric_fields ::
  "grammar_input list \<Rightarrow> match_state \<Rightarrow> 'j match_history \<Rightarrow> semantic_error + (rstring \<rightharpoonup> i64)" where
  "assigned_numeric_fields subs st h =
     bindr (ok_or grammar_stop (history_path (length h) h (ms_history_head st))) (\<lambda>es.
     steps (assigned_field subs) (rev (map (\<lambda>e. (ma_index e, ma_node e)) es)) Map.empty)"

text \<open>The value of the selector of a \<open>SelectedChoice\<close>, as an index into its alternatives.\<close>

definition selected_index ::
  "signature \<Rightarrow> u16 \<Rightarrow> grammar_input list \<Rightarrow> rstring \<Rightarrow> union_selector \<Rightarrow> nat \<Rightarrow> (rstring \<rightharpoonup> i64) \<Rightarrow> semantic_error + nat" where
  "selected_index sig fv subs path selector cursor fvs = (case selector of
      SelCallback callback_id \<Rightarrow> Inl (HandlerError callback_id (SelectorNotDeclarative path))
    | SelExpression e \<Rightarrow>
        bindr (schema_err (map_err ExpressionError (evaluate e
          \<lparr> payload = payload_at subs cursor, field_values = fvs, ctx_form_version = fv,
            record_signature = sig \<rparr> 1024))) (\<lambda>v.
        case v of
          VBool _ \<Rightarrow> Inl (DecodeError path SelectorBoolean)
        | VInt i \<Rightarrow> if sint i < 0 then Inl (DecodeError path NegativeAlternative) else Inr (nat (sint i))))"

subsection \<open>Matching\<close>

text \<open>
  A matcher is \<open>match_node\<close> at a node: it takes a state and the history. The loops over children take
  the children's matchers, in order.
\<close>

type_synonym ('s, 'h) matcher = "'s match_core_scheme \<Rightarrow> 'h \<Rightarrow> semantic_error + 's match_core_scheme \<times> 'h"

fun match_sequence :: "('s, 'h) matcher list \<Rightarrow> ('s, 'h) matcher" where
  "match_sequence [] st h = Inr (st, h)"
| "match_sequence (m # ms) st h = bindr (m st h) (\<lambda>(st1, h1). match_sequence ms st1 h1)"

definition longer :: "'s match_core_scheme \<Rightarrow> 's match_core_scheme \<Rightarrow> bool" where
  "longer c b \<longleftrightarrow> ms_assigned c > ms_assigned b \<or> ms_assigned c = ms_assigned b \<and> ms_cursor c > ms_cursor b"

fun match_choice ::
  "('s, 'h) matcher list \<Rightarrow> 's match_core_scheme \<Rightarrow> 's match_core_scheme \<Rightarrow> 'h \<Rightarrow> semantic_error + 's match_core_scheme \<times> 'h" where
  "match_choice [] st best h = Inr (best, h)"
| "match_choice (m # ms) st best h =
     bindr (m st h) (\<lambda>(c, h1). match_choice ms st (if longer c best then c else best) h1)"

text \<open>The inner loop of \<open>Unordered\<close> over the children that are not matched yet.\<close>

fun unordered_scan ::
  "(nat \<times> ('s, 'h) matcher) list \<Rightarrow> 's match_core_scheme \<Rightarrow> (nat \<times> 's match_core_scheme) option \<Rightarrow> 'h
    \<Rightarrow> semantic_error + (nat \<times> 's match_core_scheme) option \<times> 'h" where
  "unordered_scan [] st best h = Inr (best, h)"
| "unordered_scan ((i, m) # ms) st best h =
     bindr (m st h) (\<lambda>(c, h1).
     if ms_assigned c = ms_assigned st then unordered_scan ms st best h1
     else if (case best of None \<Rightarrow> True | Some (_, b) \<Rightarrow> longer c b) then unordered_scan ms st (Some (i, c)) h1
     else unordered_scan ms st best h1)"

lemma unordered_scan_index:
  "unordered_scan ims st best h = Inr (Some (i, c), h') \<Longrightarrow> best = Some (i, c) \<or> i \<in> fst ` set ims"
  by (induction ims arbitrary: best h) (auto simp: bindr_eq_Inr split: if_splits option.splits; fastforce)+

function (sequential) match_unordered :: "('s, 'h) matcher list \<Rightarrow> nat set \<Rightarrow> ('s, 'h) matcher" where
  "match_unordered ms matched st h =
     bindr (unordered_scan (filter (\<lambda>(i, _). i \<notin> matched) (enumerate 0 ms)) st None h) (\<lambda>(best, h1).
     case best of
       None \<Rightarrow> Inr (st, h1)
     | Some (i, c) \<Rightarrow> match_unordered ms (insert i matched) c h1)"
  by pat_completeness auto
termination
proof (relation "measure (\<lambda>(ms, matched, _). card ({..<length ms} - matched))", goal_cases)
  case (2 ms matched st h x best h1 p i c)
  then have "i \<in> {..<length ms} - matched"
    using unordered_scan_index [of "filter (\<lambda>(i, _). i \<notin> matched) (enumerate 0 ms)" st None h i c h1]
    by (auto simp: in_set_enumerate_eq)
  then have "{..<length ms} - insert i matched \<subset> {..<length ms} - matched" by auto
  then show ?case using psubset_card_mono [of "{..<length ms} - matched"] by simp
qed simp

declare match_unordered.simps [simp del]

text \<open>The loop of \<open>Repeat\<close>; every pass assigns a subrecord, so \<open>length subs + 1\<close> is fuel enough.\<close>

fun match_repeat ::
  "nat \<Rightarrow> u32 option \<Rightarrow> rstring \<Rightarrow> (nat \<Rightarrow> semantic_error + bool) \<Rightarrow> ('s, 'h) matcher \<Rightarrow> u32
    \<Rightarrow> 's match_core_scheme \<Rightarrow> 'h \<Rightarrow> semantic_error + (u32 \<times> 's match_core_scheme) \<times> 'h" where
  "match_repeat 0 maximum path anchor m n st h = Inl grammar_stop"
| "match_repeat (Suc k) maximum path anchor m n st h =
     (if \<not> (case maximum of None \<Rightarrow> True | Some limit \<Rightarrow> n < limit) then Inr ((n, st), h)
      else bindr (anchor (ms_cursor st)) (\<lambda>a.
        if \<not> a then Inr ((n, st), h)
        else bindr (m (st\<lparr> ms_active_repeat_scopes := ms_active_repeat_scopes st @ [\<lparr> rs_path = path, rs_occurrence = n \<rparr>] \<rparr>) h) (\<lambda>(c, h1).
        if ms_assigned c = ms_assigned st then Inr ((n, st), h1)
        else match_repeat k maximum path anchor m (n + 1)
          (c\<lparr> ms_active_repeat_scopes := butlast (ms_active_repeat_scopes c) \<rparr>) h1)))"

definition match_subrecord ::
  "grammar_input list \<Rightarrow> signature set \<Rightarrow> 'j schema_node \<Rightarrow> signature \<Rightarrow> match_state \<Rightarrow> 'j match_history \<Rightarrow> match_state \<times> 'j match_history" where
  "match_subrecord subs declared n sig state h =
     (let st = state\<lparr> ms_cursor := skip_unknown subs declared (ms_cursor state) \<rparr> in
      if ms_cursor st < length subs \<and> fst (subs ! ms_cursor st) = sig
      then (st\<lparr> ms_history_head := Some (length h), ms_cursor := ms_cursor st + 1, ms_assigned := ms_assigned st + 1 \<rparr>,
            h @ [\<lparr> ma_previous = ms_history_head st, ma_index = ms_cursor st, ma_node = n,
                   ma_repeat_scopes = ms_active_repeat_scopes st \<rparr>])
      else (st, h))"

definition repeat_result ::
  "rstring \<Rightarrow> u32 \<Rightarrow> (u32 \<times> 's match_core_scheme) \<times> 'h \<Rightarrow> 's match_core_scheme \<times> 'h" where
  "repeat_result path minimum = (\<lambda>((n, st), h).
     (if n < minimum
      then st\<lparr> ms_violations := ms_violations st @ [\<lparr> gv_path = path, gv_minimum = minimum, gv_actual = n \<rparr>] \<rparr>
      else st, h))"

function match_node ::
  "signature \<Rightarrow> u16 \<Rightarrow> grammar_input list \<Rightarrow> signature set \<Rightarrow> 'j schema_node
    \<Rightarrow> match_state \<Rightarrow> 'j match_history \<Rightarrow> semantic_error + match_state \<times> 'j match_history" where
  "match_node sig fv subs declared n st h =
     bindr (condition_applies sig fv subs n (ms_cursor st)) (\<lambda>applies.
     if \<not> applies then Inr (st, h)
     else case node_kind n of
       Sequence cs \<Rightarrow> match_sequence (map (\<lambda>c st h. match_node sig fv subs declared c st h) cs) st h
     | Unordered cs \<Rightarrow> match_unordered (map (\<lambda>c st h. match_node sig fv subs declared c st h) cs) {} st h
     | Choice cs \<Rightarrow> match_choice (map (\<lambda>c st h. match_node sig fv subs declared c st h) cs) st st h
     | SelectedChoice selector cs \<Rightarrow>
         bindr (assigned_numeric_fields subs st h) (\<lambda>fvs.
         bindr (selected_index sig fv subs (node_path n) selector (ms_cursor st) fvs) (\<lambda>index.
         let ms = map (\<lambda>c st h. match_node sig fv subs declared c st h) cs in
         if index < length ms then (ms ! index) st h
         else Inl (DecodeError (node_path n) (AlternativeMissing (int index)))))
     | Repeat minimum maximum c \<Rightarrow>
         bindr (match_repeat (length subs + 1) maximum (node_path c)
           (repeat_anchor_matches subs declared c)
           (\<lambda>st h. match_node sig fv subs declared c st h) 0 st h) (\<lambda>r.
         Inr (repeat_result (node_path n) minimum r))
     | Subrecord s _ \<Rightarrow> Inr (match_subrecord subs declared n s st h)
     | _ \<Rightarrow> Inr (st, h))"
  by auto
termination
  by (relation "measure (\<lambda>(_, _, _, _, n, _). size n)") (auto simp: children_def intro: children_size)

declare match_node.simps [simp del]

subsection \<open>The result\<close>

definition fill_assignment ::
  "'j matched_assignment \<Rightarrow> 'j schema_node option list \<times> repeat_scope list list
    \<Rightarrow> semantic_error + 'j schema_node option list \<times> repeat_scope list list" where
  "fill_assignment e = (\<lambda>(as, rs).
     if ma_index e < length as
     then Inr (as[ma_index e := Some (ma_node e)], rs[ma_index e := ma_repeat_scopes e])
     else Inl grammar_stop)"

definition match_initial :: match_state where
  "match_initial = \<lparr> ms_cursor = 0, ms_active_repeat_scopes = [], ms_assigned = 0, ms_violations = [],
     ms_history_head = None \<rparr>"

definition interpret_inputs ::
  "'j schema_node \<Rightarrow> signature \<Rightarrow> u16 \<Rightarrow> grammar_input list \<Rightarrow> semantic_error + 'j grammar_match" where
  "interpret_inputs root sig fv subs =
     (let declared = collect_signatures root {} in
      bindr (match_node sig fv subs declared root match_initial []) (\<lambda>(st, h).
      bindr (ok_or grammar_stop (history_path (length h) h (ms_history_head st))) (\<lambda>es.
      bindr (steps fill_assignment es (replicate (length subs) None, replicate (length subs) [])) (\<lambda>(as, rs).
      Inr \<lparr> gm_assignments = as, gm_repeat_scopes = rs, gm_declared_signatures = declared,
            gm_violations = ms_violations st \<rparr>))))"

definition interpret_grammar ::
  "'j schema_node \<Rightarrow> signature \<Rightarrow> u16 \<Rightarrow> sub_record list \<Rightarrow> semantic_error + 'j grammar_match" where
  "interpret_grammar root sig fv srs = interpret_inputs root sig fv (map sub_record_input srs)"

definition interpret_writable ::
  "'j schema_node \<Rightarrow> signature \<Rightarrow> u16 \<Rightarrow> writable_sub_record list \<Rightarrow> semantic_error + 'j grammar_match" where
  "interpret_writable root sig fv srs = interpret_inputs root sig fv (map writable_input srs)"

end
