(* ===== verification/GrammarLaws.thy ===== *)
theory GrammarLaws
  imports Grammar "HOL-Library.Sublist"
begin

text \<open>
  What the match of \<open>Grammar\<close> is. \<open>branch_node\<close> is the same grammar over states that carry their own
  list of assignments: sharing one history between the branches implements it. The assignments of a
  match are exactly the declared subrecords of a prefix of the record.
\<close>

subsection \<open>The specification\<close>

text \<open>A state with its assignments, the last one first.\<close>

record 'j branch_state = match_core +
  bs_entries :: "(nat \<times> 'j schema_node \<times> repeat_scope list) list"

definition branch_fields :: "grammar_input list \<Rightarrow> 'j branch_state \<Rightarrow> semantic_error + (rstring \<rightharpoonup> i64)" where
  "branch_fields subs b = steps (assigned_field subs) (rev (map (\<lambda>(i, n, _). (i, n)) (bs_entries b))) Map.empty"

definition branch_subrecord ::
  "grammar_input list \<Rightarrow> signature set \<Rightarrow> 'j schema_node \<Rightarrow> signature \<Rightarrow> 'j branch_state \<Rightarrow> 'j branch_state" where
  "branch_subrecord subs declared n sig b =
     (let i = skip_unknown subs declared (ms_cursor b) in
      if i < length subs \<and> fst (subs ! i) = sig
      then b\<lparr> ms_cursor := i + 1, ms_assigned := ms_assigned b + 1,
              bs_entries := (i, n, ms_active_repeat_scopes b) # bs_entries b \<rparr>
      else b\<lparr> ms_cursor := i \<rparr>)"

function branch_node ::
  "signature \<Rightarrow> u16 \<Rightarrow> grammar_input list \<Rightarrow> signature set \<Rightarrow> 'j schema_node
    \<Rightarrow> 'j branch_state \<Rightarrow> 'u \<Rightarrow> semantic_error + 'j branch_state \<times> 'u" where
  "branch_node sig fv subs declared n b u =
     bindr (condition_applies sig fv subs n (ms_cursor b)) (\<lambda>applies.
     if \<not> applies then Inr (b, u)
     else case node_kind n of
       Sequence cs \<Rightarrow> match_sequence (map (\<lambda>c b u. branch_node sig fv subs declared c b u) cs) b u
     | Unordered cs \<Rightarrow> match_unordered (map (\<lambda>c b u. branch_node sig fv subs declared c b u) cs) {} b u
     | Choice cs \<Rightarrow> match_choice (map (\<lambda>c b u. branch_node sig fv subs declared c b u) cs) b b u
     | SelectedChoice selector cs \<Rightarrow>
         bindr (branch_fields subs b) (\<lambda>fvs.
         bindr (selected_index sig fv subs (node_path n) selector (ms_cursor b) fvs) (\<lambda>index.
         let ms = map (\<lambda>c b u. branch_node sig fv subs declared c b u) cs in
         if index < length ms then (ms ! index) b u
         else Inl (DecodeError (node_path n) (AlternativeMissing (int index)))))
     | Repeat minimum maximum c \<Rightarrow>
         bindr (match_repeat (length subs + 1) maximum (node_path c)
           (repeat_anchor_matches subs declared c)
           (\<lambda>b u. branch_node sig fv subs declared c b u) 0 b u) (\<lambda>r.
         Inr (repeat_result (node_path n) minimum r))
     | Subrecord s _ \<Rightarrow> Inr (branch_subrecord subs declared n s b, u)
     | _ \<Rightarrow> Inr (b, u))"
  by auto
termination
  by (relation "measure (\<lambda>(_, _, _, _, n, _). size n)") (auto simp: children_def intro: children_size)

declare branch_node.simps [simp del]

subsection \<open>The shared history\<close>

text \<open>A state with the history represents a state of the specification.\<close>

definition represents :: "'j match_history \<Rightarrow> match_state \<Rightarrow> 'j branch_state \<Rightarrow> bool" where
  "represents h st b \<longleftrightarrow>
     ms_cursor st = ms_cursor b \<and> ms_active_repeat_scopes st = ms_active_repeat_scopes b \<and>
     ms_assigned st = ms_assigned b \<and> ms_violations st = ms_violations b \<and>
     (\<exists>es. history_path (length h) h (ms_history_head st) = Some es \<and>
        bs_entries b = map (\<lambda>e. (ma_index e, ma_node e, ma_repeat_scopes e)) es)"

lemma history_path_extend:
  "history_path k h head = Some es \<Longrightarrow> history_path (k + j) (h @ xs) head = Some es"
  by (induction k h head arbitrary: es rule: history_path.induct) (auto simp: nth_append split: if_splits)

lemma represents_extend:
  assumes "represents h st b" "prefix h h'"
  shows "represents h' st b"
proof -
  obtain xs where "h' = h @ xs" using assms(2) by (auto simp: prefix_def)
  then show ?thesis using assms(1) history_path_extend [of "length h" h _ _ "length xs" xs]
    by (auto simp: represents_def)
qed

definition agrees ::
  "'j match_history \<Rightarrow> ('j match_history \<Rightarrow> 'a \<Rightarrow> 'b \<Rightarrow> bool) \<Rightarrow> semantic_error + 'a \<times> 'j match_history
    \<Rightarrow> semantic_error + 'b \<times> unit \<Rightarrow> bool" where
  "agrees h Q x y \<longleftrightarrow> (case y of
      Inl e \<Rightarrow> x = Inl e
    | Inr (b, _) \<Rightarrow> \<exists>a h'. x = Inr (a, h') \<and> prefix h h' \<and> Q h' a b)"

lemma agrees_Inr [intro]: "Q h a b \<Longrightarrow> agrees h Q (Inr (a, h)) (Inr (b, u))"
  by (simp add: agrees_def)

lemma agrees_Inl [simp]: "agrees h Q (Inl e) (Inl e)"
  by (simp add: agrees_def)

lemma agrees_bind:
  assumes "agrees h Q x y"
    and "\<And>a h' b. y = Inr (b, ()) \<Longrightarrow> prefix h h' \<Longrightarrow> Q h' a b \<Longrightarrow> agrees h' Q' (f (a, h')) (g (b, ()))"
  shows "agrees h Q' (bindr x f) (bindr y g)"
proof (cases y)
  case (Inl e)
  then show ?thesis using assms(1) by (simp add: agrees_def)
next
  case (Inr r)
  then obtain a h' b where *: "x = Inr (a, h')" "prefix h h'" "Q h' a b" "y = Inr (b, ())"
    using assms(1) by (cases r) (auto simp: agrees_def)
  then have "agrees h' Q' (f (a, h')) (g (b, ()))" using assms(2) by blast
  then have "agrees h Q' (f (a, h')) (g (b, ()))"
    using *(2) by (auto simp: agrees_def split: sum.splits intro: prefix_order.trans)
  then show ?thesis using * by simp
qed

lemma agrees_same:
  assumes "\<And>v. x = Inr v \<Longrightarrow> agrees h Q (f v) (g v)"
  shows "agrees h Q (bindr x f) (bindr x g)"
  using assms by (cases x) simp_all

lemma agrees_if:
  "(c \<Longrightarrow> agrees h Q x y) \<Longrightarrow> (\<not> c \<Longrightarrow> agrees h Q x' y') \<Longrightarrow> agrees h Q (if c then x else x') (if c then y else y')"
  by simp

definition implements ::
  "(match_state \<Rightarrow> 'j match_history \<Rightarrow> semantic_error + match_state \<times> 'j match_history)
    \<Rightarrow> ('j branch_state \<Rightarrow> unit \<Rightarrow> semantic_error + 'j branch_state \<times> unit) \<Rightarrow> bool" where
  "implements m p \<longleftrightarrow> (\<forall>h st b. represents h st b \<longrightarrow> agrees h represents (m st h) (p b ()))"

lemma implementsD: "implements m p \<Longrightarrow> represents h st b \<Longrightarrow> agrees h represents (m st h) (p b ())"
  by (simp add: implements_def)

lemma implements_sequence:
  "list_all2 implements ms ps \<Longrightarrow> represents h st b \<Longrightarrow> agrees h represents (match_sequence ms st h) (match_sequence ps b ())"
proof (induction arbitrary: h st b rule: list_all2_induct)
  case (Cons m ms p ps)
  show ?case unfolding match_sequence.simps
    by (rule agrees_bind [OF implementsD [OF Cons.hyps(1) Cons.prems]]) (simp add: Cons.IH)
qed auto

lemma represents_longer: "represents h a b \<Longrightarrow> represents h' c d \<Longrightarrow> longer a c = longer b d"
  by (simp add: represents_def longer_def)

lemma implements_choice:
  "list_all2 implements ms ps \<Longrightarrow> represents h st b \<Longrightarrow> represents h st' b'
    \<Longrightarrow> agrees h represents (match_choice ms st st' h) (match_choice ps b b' ())"
proof (induction arbitrary: h st' b' rule: list_all2_induct)
  case (Cons m ms p ps)
  show ?case unfolding match_choice.simps
  proof (rule agrees_bind [OF implementsD [OF Cons.hyps(1) Cons.prems(1)]], clarsimp, goal_cases)
    case (1 a h' c)
    then have r: "represents h' st b" "represents h' st' b'" using Cons.prems represents_extend by blast+
    then show ?case using 1 represents_longer [OF 1(3) r(2)] by (auto intro!: Cons.IH)
  qed
qed auto

definition represents_best ::
  "'j match_history \<Rightarrow> (nat \<times> match_state) option \<Rightarrow> (nat \<times> 'j branch_state) option \<Rightarrow> bool" where
  "represents_best h = rel_option (rel_prod (=) (represents h))"

lemma represents_best_extend: "represents_best h x y \<Longrightarrow> prefix h h' \<Longrightarrow> represents_best h' x y"
  unfolding represents_best_def
  by (cases x; cases y) (auto simp: rel_prod_sel intro: represents_extend)

lemma implements_scan:
  "list_all2 (rel_prod (=) implements) ms ps \<Longrightarrow> represents h st b \<Longrightarrow> represents_best h x y
    \<Longrightarrow> agrees h represents_best (unordered_scan ms st x h) (unordered_scan ps b y ())"
proof (induction arbitrary: h x y rule: list_all2_induct)
  case (Cons im ms ip ps)
  obtain i m p where ip: "im = (i, m)" "ip = (i, p)" "implements m p"
    using Cons.hyps(1) by (cases im; cases ip) auto
  show ?case unfolding ip unordered_scan.simps
  proof (rule agrees_bind [OF implementsD [OF ip(3) Cons.prems(1)]], unfold prod.case, goal_cases)
    case (1 a h' c)
    have r: "represents h' st b" "represents_best h' x y"
      using Cons.prems 1(2) represents_extend represents_best_extend by blast+
    have eq: "(ms_assigned a = ms_assigned st) = (ms_assigned c = ms_assigned b)"
      using 1(3) r(1) by (simp add: represents_def)
    have best: "(case x of None \<Rightarrow> True | Some (_, s) \<Rightarrow> longer a s) = (case y of None \<Rightarrow> True | Some (_, s) \<Rightarrow> longer c s)"
      using r(2) represents_longer [OF 1(3)]
      by (cases x; cases y) (auto simp: represents_best_def rel_prod_sel split: prod.splits)
    have new: "represents_best h' (Some (i, a)) (Some (i, c))" using 1(3) by (simp add: represents_best_def)
    show ?case unfolding eq best
      using Cons.IH [OF r] Cons.IH [OF r(1) new] by simp
  qed
qed (auto simp: represents_best_def)

lemma enumerate_all2:
  "list_all2 P ms ps \<Longrightarrow> list_all2 (rel_prod (=) P) (filter (\<lambda>(i, _). i \<notin> M) (enumerate k ms))
      (filter (\<lambda>(i, _). i \<notin> M) (enumerate k ps))"
  by (induction arbitrary: k rule: list_all2_induct) auto

lemma implements_unordered:
  "list_all2 implements ms ps \<Longrightarrow> represents h st b
    \<Longrightarrow> agrees h represents (match_unordered ms matched st h) (match_unordered ps matched b ())"
proof (induction ps matched b "()" arbitrary: h st rule: match_unordered.induct)
  case (1 ps matched b)
  have none: "represents_best h None None" by (simp add: represents_best_def)
  note IH = 1(1) and all = 1(2) and st = 1(3)
  note scan = implements_scan [OF enumerate_all2 [OF all] st none]
  show ?case
  proof (subst match_unordered.simps [of ms matched], subst match_unordered.simps [of ps matched],
      rule agrees_bind [OF scan], goal_cases)
    case (1 x h' y)
    show ?case
    proof (cases y)
      case None
      then show ?thesis using 1 \<open>represents h st b\<close> by (auto simp: represents_best_def intro: represents_extend)
    next
      case (Some ic)
      then obtain i c a where y: "y = Some (i, c)" "x = Some (i, a)" "represents h' a c"
        using 1(3) by (cases ic; cases x) (auto simp: represents_best_def rel_prod_sel)
      have "agrees h' represents (match_unordered ms (insert i matched) a h') (match_unordered ps (insert i matched) c ())"
        using IH [OF 1(1)] y all by simp
      then show ?thesis using y by simp
    qed
  qed
qed

lemma implements_repeat:
  assumes "implements m p"
  shows "represents h st b \<Longrightarrow>
    agrees h (\<lambda>h (n, st) (n', b). n = n' \<and> represents h st b)
      (match_repeat k maximum path anchor m n st h) (match_repeat k maximum path anchor p n b ())"
proof (induction k arbitrary: n h st b)
  case (Suc k)
  have c: "ms_cursor st = ms_cursor b" using Suc.prems by (simp add: represents_def)
  have scoped: "represents h (st\<lparr> ms_active_repeat_scopes := ms_active_repeat_scopes st @ [r] \<rparr>)
      (b\<lparr> ms_active_repeat_scopes := ms_active_repeat_scopes b @ [r] \<rparr>)" for r
    using Suc.prems by (simp add: represents_def)
  have here: "agrees h' (\<lambda>h (n, st) (n', b). n = n' \<and> represents h st b) (Inr ((n, st), h')) (Inr ((n, b), ()))"
    if "prefix h h'" for h'
    using represents_extend [OF Suc.prems that] by (simp add: agrees_def)
  show ?case unfolding match_repeat.simps c
  proof (intro agrees_if here agrees_same agrees_bind [OF implementsD [OF assms scoped]], simp_all only: prefix_order.refl, goal_cases)
    case (1 a c' h' d)
    have "(ms_assigned c' = ms_assigned st) = (ms_assigned d = ms_assigned b)"
      using 1 Suc.prems by (simp add: represents_def)
    moreover have "represents h' (c'\<lparr> ms_active_repeat_scopes := butlast (ms_active_repeat_scopes c') \<rparr>)
        (d\<lparr> ms_active_repeat_scopes := butlast (ms_active_repeat_scopes d) \<rparr>)"
      using 1 by (simp add: represents_def)
    ultimately show ?case using Suc.IH here [OF 1(5)] by simp
  qed
qed simp

lemma implements_fields: "represents h st b \<Longrightarrow> assigned_numeric_fields subs st h = branch_fields subs b"
  by (auto simp: represents_def assigned_numeric_fields_def branch_fields_def comp_def)

lemma implements_subrecord:
  assumes "represents h st b"
  shows "agrees h represents (Inr (match_subrecord subs declared n sig st h)) (Inr (branch_subrecord subs declared n sig b, u))"
proof -
  obtain es where es: "history_path (length h) h (ms_history_head st) = Some es"
      "bs_entries b = map (\<lambda>e. (ma_index e, ma_node e, ma_repeat_scopes e)) es"
    using assms by (auto simp: represents_def)
  define e where "e = \<lparr> ma_previous = ms_history_head st, ma_index = skip_unknown subs declared (ms_cursor b),
    ma_node = n, ma_repeat_scopes = ms_active_repeat_scopes b \<rparr>"
  have "history_path (length (h @ [e])) (h @ [e]) (Some (length h)) = Some (e # es)"
    using history_path_extend [OF es(1), of 0 "[e]"] by (simp add: e_def)
  then show ?thesis using assms es
    by (auto simp: agrees_def match_subrecord_def branch_subrecord_def represents_def Let_def e_def)
qed

lemma represents_violation:
  "represents h st b \<Longrightarrow> represents h (st\<lparr> ms_violations := ms_violations st @ [v] \<rparr>) (b\<lparr> ms_violations := ms_violations b @ [v] \<rparr>)"
  by (simp add: represents_def)

lemma implements_node:
  fixes n :: "'j schema_node"
  shows "implements (match_node sig fv subs declared n) (branch_node sig fv subs declared n)"
proof (induction n rule: measure_induct_rule [of size])
  case (less n)
  have kids: "list_all2 implements (map (\<lambda>c st h. match_node sig fv subs declared c st h) cs)
      (map (\<lambda>c b u. branch_node sig fv subs declared c b u) cs)" if "cs = children n" for cs
    using less children_size [of _ n] that by (auto simp: list_all2_map1 list_all2_map2 list_all2_same)
  show ?case unfolding implements_def
  proof (intro allI impI)
    fix h :: "'j match_history" and st b assume r: "represents h st b"
    have c: "ms_cursor st = ms_cursor b" using r by (simp add: represents_def)
    have here: "agrees h represents (Inr (st, h)) (Inr (b, ()))" using r by (simp add: agrees_def)
    show "agrees h represents (match_node sig fv subs declared n st h) (branch_node sig fv subs declared n b ())"
    proof (subst match_node.simps, subst branch_node.simps, unfold c, intro agrees_same agrees_if here, goal_cases)
      case (1 applies)
      show ?case
      proof (cases "node_kind n")
        case (SelectedChoice selector cs)
        have nth: "agrees h represents
            ((map (\<lambda>c st h. match_node sig fv subs declared c st h) cs ! i) st h)
            ((map (\<lambda>c b u. branch_node sig fv subs declared c b u) cs ! i) b ())" if "i < length cs" for i
          using implementsD [OF list_all2_nthD [OF kids [of cs]] r, of i] that SelectedChoice by (simp add: children_def)
        show ?thesis unfolding SelectedChoice implements_fields [OF r]
          by (simp add: Let_def nth del: nth_map cong: if_cong) (intro agrees_same agrees_if; simp add: nth del: nth_map)
      next
        case (Repeat minimum maximum child)
        have "implements (match_node sig fv subs declared child) (branch_node sig fv subs declared child)"
          using less children_size [of child n] Repeat by (simp add: children_def)
        then show ?thesis unfolding Repeat schema_node_kind.case
          by (intro agrees_bind [OF implements_repeat [OF _ r]])
             (auto simp: repeat_result_def agrees_def represents_violation)
      qed (use here kids implements_sequence [OF kids r] implements_unordered [OF kids r]
          implements_choice [OF kids r r] implements_subrecord [OF r] in \<open>simp_all add: children_def\<close>)
    qed
  qed
qed

subsection \<open>The contract of a matcher\<close>

text \<open>
  A matcher keeps the invariant \<open>ok\<close> of its states, relates its result to its input by \<open>grows\<close>, and
  never stops. Every loop over matchers that keep the contract keeps it.
\<close>

locale matcher_contract =
  fixes ok :: "'s match_core_scheme \<Rightarrow> bool"
    and grows :: "'s match_core_scheme \<Rightarrow> 's match_core_scheme \<Rightarrow> bool"
    and bound :: nat
  assumes grows_refl: "grows b b"
    and grows_trans: "grows b c \<Longrightarrow> grows c d \<Longrightarrow> grows b d"
    and grows_assigned: "ok b \<Longrightarrow> ok c \<Longrightarrow> grows b c \<Longrightarrow> ms_assigned b \<le> ms_assigned c"
    and ok_bound: "ok b \<Longrightarrow> ms_assigned b \<le> bound \<and> ms_cursor b \<le> bound"
    and ok_scopes: "ok b \<Longrightarrow> ok (b\<lparr> ms_active_repeat_scopes := ss \<rparr>)"
    and grows_scoped: "grows (b\<lparr> ms_active_repeat_scopes := ms_active_repeat_scopes b @ [s] \<rparr>) c
      \<Longrightarrow> grows b (c\<lparr> ms_active_repeat_scopes := butlast (ms_active_repeat_scopes c) \<rparr>)"
begin

definition keeps where
  "keeps b r \<longleftrightarrow> (case r of Inl e \<Rightarrow> e \<noteq> grammar_stop | Inr (c, _) \<Rightarrow> ok c \<and> grows b c)"

definition contract where
  "contract m \<longleftrightarrow> (\<forall>b h. ok b \<longrightarrow> keeps b (m b h))"

lemma contractD: "contract m \<Longrightarrow> ok b \<Longrightarrow> keeps b (m b h)"
  by (simp add: contract_def)

lemma keeps_here: "ok b \<Longrightarrow> keeps b (Inr (b, h))"
  by (simp add: keeps_def grows_refl)

lemma keeps_bind:
  assumes "keeps b r" and "\<And>c h. r = Inr (c, h) \<Longrightarrow> ok c \<Longrightarrow> grows b c \<Longrightarrow> keeps b (f (c, h))"
  shows "keeps b (bindr r f)"
  using assms by (cases r) (auto simp: keeps_def)

lemma keeps_after: "grows b c \<Longrightarrow> keeps c r \<Longrightarrow> keeps b r"
  by (auto simp: keeps_def split: sum.splits intro: grows_trans)

lemma contract_sequence: "\<forall>m \<in> set ms. contract m \<Longrightarrow> ok b \<Longrightarrow> keeps b (match_sequence ms b h)"
proof (induction ms arbitrary: b h)
  case (Cons m ms)
  then have "contract m" "\<forall>m \<in> set ms. contract m" by simp_all
  then show ?case using Cons.IH Cons.prems(2)
    by (auto intro!: keeps_bind [OF contractD [of m]] intro: keeps_after)
qed (simp add: keeps_here)

lemma contract_choice:
  "\<forall>m \<in> set ms. contract m \<Longrightarrow> ok b \<Longrightarrow> ok best \<Longrightarrow> grows b best \<Longrightarrow> keeps b (match_choice ms b best h)"
proof (induction ms arbitrary: best h)
  case (Cons m ms)
  then have "contract m" by simp
  then show ?case using Cons by (auto intro!: keeps_bind [OF contractD [of m]])
qed (simp add: keeps_def)

lemma contract_scan:
  "\<forall>(i, m) \<in> set ims. contract m \<Longrightarrow> ok b \<Longrightarrow> (\<forall>i c. best = Some (i, c) \<longrightarrow> ok c \<and> grows b c)
    \<Longrightarrow> (case unordered_scan ims b best h of
        Inl e \<Rightarrow> e \<noteq> grammar_stop | Inr (r, _) \<Rightarrow> \<forall>i c. r = Some (i, c) \<longrightarrow> ok c \<and> grows b c)"
proof (induction ims arbitrary: best h)
  case (Cons im ims)
  obtain i m where im: "im = (i, m)" by (cases im)
  have k: "keeps b (m b h)" using Cons.prems im by (auto intro: contractD)
  show ?case
  proof (cases "m b h")
    case (Inl e)
    then show ?thesis using k by (simp add: im keeps_def)
  next
    case (Inr r)
    then obtain c h1 where r: "r = (c, h1)" "ok c" "grows b c" using k by (cases r) (auto simp: keeps_def)
    show ?thesis using Cons.IH Cons.prems r Inr by (auto simp: im)
  qed
qed simp

lemma contract_unordered:
  "\<forall>m \<in> set ms. contract m \<Longrightarrow> ok b \<Longrightarrow> keeps b (match_unordered ms matched b h)"
proof (induction ms matched b h rule: match_unordered.induct)
  case (1 ms matched b h)
  note IH = 1(1) and ms = 1(2) and b = 1(3)
  let ?ims = "filter (\<lambda>(i, _). i \<notin> matched) (enumerate 0 ms)"
  have "\<forall>(i, m) \<in> set ?ims. contract m" using ms by (auto simp: in_set_enumerate_eq)
  note scan = contract_scan [OF this b, of None h]
  show ?case
  proof (cases "unordered_scan ?ims b None h")
    case (Inl e)
    then show ?thesis using scan by (subst match_unordered.simps) (simp add: keeps_def)
  next
    case (Inr r)
    obtain best h1 where r: "r = (best, h1)" by (cases r)
    show ?thesis
    proof (cases best)
      case None
      then show ?thesis using Inr r b by (subst match_unordered.simps) (simp add: keeps_here)
    next
      case (Some ic)
      then obtain i c where ic: "best = Some (i, c)" by (cases ic) auto
      then have c: "ok c" "grows b c" using scan Inr r by auto
      have "keeps c (match_unordered ms (insert i matched) c h1)"
        using IH [OF Inr r [symmetric] _ refl ms c(1)] ic by simp
      then have "keeps b (match_unordered ms (insert i matched) c h1)" using c(2) by (rule keeps_after [rotated])
      then show ?thesis using Inr r ic by (subst match_unordered.simps) simp
    qed
  qed
qed

lemma contract_repeat:
  assumes "contract m" and anchor: "\<And>c. c \<le> bound \<Longrightarrow> anchor c \<noteq> Inl grammar_stop"
  shows "ok b \<Longrightarrow> bound < ms_assigned b + k \<Longrightarrow>
    (case match_repeat k maximum path anchor m n b h of
       Inl e \<Rightarrow> e \<noteq> grammar_stop | Inr ((n', c), _) \<Rightarrow> ok c \<and> grows b c)"
proof (induction k arbitrary: n b h)
  case 0
  then show ?case using ok_bound [OF 0(1)] by simp
next
  case (Suc k)
  let ?b = "b\<lparr> ms_active_repeat_scopes := ms_active_repeat_scopes b @ [\<lparr> rs_path = path, rs_occurrence = n \<rparr>] \<rparr>"
  have k: "keeps ?b (m ?b h)" by (rule contractD [OF assms(1) ok_scopes [OF Suc.prems(1)]])
  show ?case
  proof (cases "anchor (ms_cursor b)")
    case (Inl e)
    then show ?thesis using anchor [of "ms_cursor b"] ok_bound [OF Suc.prems(1)] Suc.prems(1)
      by (simp add: grows_refl)
  next
    case (Inr a)
    show ?thesis
    proof (cases "m ?b h")
      case (Inl e)
      then show ?thesis using k Inr Suc.prems(1) by (simp add: keeps_def grows_refl)
    next
      case r: (Inr r)
      then obtain c h1 where c: "r = (c, h1)" "ok c" "grows ?b c" using k by (cases r) (auto simp: keeps_def)
      let ?c = "c\<lparr> ms_active_repeat_scopes := butlast (ms_active_repeat_scopes c) \<rparr>"
      have c': "ok ?c" "grows b ?c" by (simp_all add: ok_scopes c(2) grows_scoped [OF c(3)])
      have "ms_assigned b \<le> ms_assigned c"
        using grows_assigned [OF Suc.prems(1) c'] by simp
      then have "bound < ms_assigned ?c + k" if "ms_assigned c \<noteq> ms_assigned b"
        using Suc.prems(2) that by simp
      note IH = Suc.IH [OF c'(1) this, of "n + 1" h1]
      show ?thesis using IH r c(1) Inr Suc.prems(1) c'
        by (auto simp: grows_refl split: sum.splits intro: grows_trans)
    qed
  qed
qed

end

subsection \<open>The invariant of a match\<close>

text \<open>
  The assigned positions are those of the declared subrecords before the cursor, and every node has
  the signature of the subrecord it is assigned to.
\<close>

definition declared_before :: "grammar_input list \<Rightarrow> signature set \<Rightarrow> nat \<Rightarrow> nat list" where
  "declared_before subs declared c = filter (\<lambda>i. fst (subs ! i) \<in> declared) [0..<c]"

definition branch_ok :: "grammar_input list \<Rightarrow> signature set \<Rightarrow> 'j schema_node \<Rightarrow> 'j branch_state \<Rightarrow> bool" where
  "branch_ok subs declared root b \<longleftrightarrow>
     ms_cursor b \<le> length subs \<and> ms_assigned b = length (bs_entries b) \<and>
     map fst (rev (bs_entries b)) = declared_before subs declared (ms_cursor b) \<and>
     (\<forall>(i, n, _) \<in> set (bs_entries b). n \<in> set (preorder root) \<and> (\<exists>p. node_kind n = Subrecord (fst (subs ! i)) p)) \<and>
     (\<forall>v \<in> set (ms_violations b). gv_actual v < gv_minimum v)"

definition branch_grows :: "'j branch_state \<Rightarrow> 'j branch_state \<Rightarrow> bool" where
  "branch_grows b c \<longleftrightarrow>
     ms_cursor b \<le> ms_cursor c \<and> ms_active_repeat_scopes c = ms_active_repeat_scopes b \<and>
     suffix (bs_entries b) (bs_entries c) \<and> prefix (ms_violations b) (ms_violations c)"

lemma declared_before_le: "length (declared_before subs declared c) \<le> c"
  using length_filter_le [of _ "[0..<c]"] by (simp add: declared_before_def)

interpretation gm: matcher_contract "branch_ok subs declared root" branch_grows "length subs"
  for subs declared root
proof
  fix b c d :: "'a branch_state" and s ss
  show "branch_grows b b" by (simp add: branch_grows_def)
  show "branch_grows b d" if "branch_grows b c" "branch_grows c d"
    using that by (auto simp: branch_grows_def intro: suffix_order.trans prefix_order.trans)
  show "ms_assigned b \<le> ms_assigned c"
    if "branch_ok subs declared root b" "branch_ok subs declared root c" "branch_grows b c"
    using that by (auto simp: branch_ok_def branch_grows_def dest: suffix_length_le)
  show "ms_assigned b \<le> length subs \<and> ms_cursor b \<le> length subs" if "branch_ok subs declared root b"
  proof -
    have "map fst (rev (bs_entries b)) = declared_before subs declared (ms_cursor b)"
      and c: "ms_assigned b = length (bs_entries b)" "ms_cursor b \<le> length subs"
      using that unfolding branch_ok_def by blast+
    from this(1) have "length (map fst (rev (bs_entries b))) \<le> ms_cursor b"
      by (simp only: declared_before_le)
    then show ?thesis using c by simp
  qed
  show "branch_ok subs declared root (b\<lparr> ms_active_repeat_scopes := ss \<rparr>)" if "branch_ok subs declared root b"
    using that by (simp add: branch_ok_def)
  show "branch_grows b (c\<lparr> ms_active_repeat_scopes := butlast (ms_active_repeat_scopes c) \<rparr>)"
    if "branch_grows (b\<lparr> ms_active_repeat_scopes := ms_active_repeat_scopes b @ [s] \<rparr>) c"
    using that by (simp add: branch_grows_def)
qed

lemma skip_unknown_declared:
  assumes "c \<le> length subs"
  shows "c \<le> skip_unknown subs declared c" "skip_unknown subs declared c \<le> length subs"
    and "declared_before subs declared (skip_unknown subs declared c) = declared_before subs declared c"
    and "skip_unknown subs declared c < length subs \<Longrightarrow> fst (subs ! skip_unknown subs declared c) \<in> declared"
proof -
  let ?w = "takeWhile (\<lambda>s. fst s \<notin> declared) (drop c subs)"
  show le: "c \<le> skip_unknown subs declared c" by (simp add: skip_unknown_def)
  have "length ?w \<le> length subs - c" using length_takeWhile_le [of _ "drop c subs"] by simp
  then show "skip_unknown subs declared c \<le> length subs" using assms by (simp add: skip_unknown_def)
  have un: "fst (subs ! i) \<notin> declared" if "c \<le> i" "i < skip_unknown subs declared c" for i
  proof -
    have j: "i - c < length ?w" using that by (simp add: skip_unknown_def)
    then have "?w ! (i - c) \<in> set ?w" by simp
    moreover have "?w ! (i - c) = subs ! i" using j that(1) assms by (simp add: takeWhile_nth)
    ultimately show ?thesis by (metis (no_types, lifting) set_takeWhileD)
  qed
  have "[0..<skip_unknown subs declared c] = [0..<c] @ [c..<skip_unknown subs declared c]"
    using le upt_add_eq_append [of 0 c "skip_unknown subs declared c - c"] by simp
  moreover have "filter (\<lambda>i. fst (subs ! i) \<in> declared) [c..<skip_unknown subs declared c] = []"
    using un by (simp add: filter_empty_conv)
  ultimately show "declared_before subs declared (skip_unknown subs declared c) = declared_before subs declared c"
    unfolding declared_before_def by (metis append_Nil2 filter_append)
  show "fst (subs ! skip_unknown subs declared c) \<in> declared" if "skip_unknown subs declared c < length subs"
    using that nth_length_takeWhile [of "\<lambda>s. fst s \<notin> declared" "drop c subs"] assms
    by (simp add: skip_unknown_def)
qed

lemma branch_subrecord_ok:
  assumes "branch_ok subs declared root b" "n \<in> set (preorder root)" "node_kind n = Subrecord sig p"
  shows "branch_ok subs declared root (branch_subrecord subs declared n sig b) \<and>
    branch_grows b (branch_subrecord subs declared n sig b)"
proof -
  let ?i = "skip_unknown subs declared (ms_cursor b)"
  have c: "ms_cursor b \<le> length subs" using assms(1) by (simp add: branch_ok_def)
  note skip = skip_unknown_declared [OF c, of declared]
  have "declared_before subs declared (?i + 1) = declared_before subs declared ?i @ [?i]" if "?i < length subs"
    using skip(4) that by (simp add: declared_before_def)
  then show ?thesis using assms skip(1-3)
    by (auto simp: branch_subrecord_def Let_def branch_ok_def branch_grows_def suffix_ConsI)
qed

lemma preorder_trans: "y \<in> set (preorder x) \<Longrightarrow> z \<in> set (preorder y) \<Longrightarrow> z \<in> set (preorder x)"
proof (induction x rule: measure_induct_rule [of size])
  case (less x)
  show ?case
  proof (cases "y = x")
    case False
    then obtain c where c: "c \<in> set (children x)" "y \<in> set (preorder c)"
      using less.prems(1) by (subst (asm) preorder.simps) auto
    then show ?thesis using less.IH [OF children_size [OF c(1)] c(2) less.prems(2)] by (rule_tac preorder_child)
  qed (use less.prems in simp)
qed

subsection \<open>No index panics\<close>

lemma condition_applies_stop: "condition_applies sig fv subs n c \<noteq> Inl grammar_stop"
  by (auto simp: condition_applies_def grammar_stop_def bindr_eq_Inl map_err_def
      split: option.split eval_value.splits sum.splits)

lemma selected_index_stop: "selected_index sig fv subs path sel c fvs \<noteq> Inl grammar_stop"
  by (auto simp: selected_index_def grammar_stop_def bindr_eq_Inl map_err_def
      split: union_selector.splits eval_value.splits sum.splits if_splits)

lemma repeat_anchor_stop: "c \<le> length subs \<Longrightarrow> repeat_anchor_matches subs declared child c \<noteq> Inl grammar_stop"
  by (auto simp: repeat_anchor_matches_def split: schema_node_kind.split list.split option.split)

lemma numeric_payload_value_stop: "numeric_payload_value n pl off \<noteq> Inl grammar_stop"
  by (auto simp: numeric_payload_value_def Let_def bindr_eq_Inl ok_or_def grammar_stop_def
      split: option.splits)

lemma struct_fields_stop:
  "(\<And>path f c vs. (path, f) \<in> set fs \<Longrightarrow> f c vs \<noteq> Inl grammar_stop) \<Longrightarrow> struct_fields fs c vs \<noteq> Inl grammar_stop"
proof (induction fs arbitrary: c vs)
  case (Cons pf fs)
  obtain path f where pf: "pf = (path, f)" by (cases pf)
  have f: "f c vs \<noteq> Inl grammar_stop" using Cons.prems [of path f] pf by simp
  have rest: "struct_fields fs c vs \<noteq> Inl grammar_stop" for c vs
    by (intro Cons.IH, rule Cons.prems) auto
  have "ok_or (DecodeError path NumericCursorOverflow) x \<noteq> Inl grammar_stop" for x :: "nat option"
    by (cases x) (simp_all add: grammar_stop_def)
  then show ?case using f rest by (auto simp: pf bindr_eq_Inl split: option.split)
qed simp

lemma collect_numeric_stop: "collect_numeric_payload_fields n pl off vs \<noteq> Inl grammar_stop"
proof (induction n arbitrary: off vs rule: measure_induct_rule [of size])
  case (less n)
  have fields: "struct_fields (map (\<lambda>c. (node_path c, \<lambda>off vs. collect_numeric_payload_fields c pl off vs)) (children n)) off vs
      \<noteq> Inl grammar_stop" for vs
    by (intro struct_fields_stop) (auto simp: less.IH [OF children_size])
  show ?case
    using fields numeric_payload_value_stop [of n pl off]
    by (subst collect_numeric_payload_fields.simps)
       (auto simp: bindr_eq_Inl Let_def children_def split: schema_node_kind.splits)
qed

lemma assigned_field_stop: "i < length subs \<Longrightarrow> assigned_field subs (i, n) vs \<noteq> Inl grammar_stop"
  by (auto simp: assigned_field_def bindr_eq_Inl collect_numeric_stop numeric_payload_value_stop split: schema_node_kind.splits)

lemma steps_stop: "\<forall>x \<in> set xs. \<forall>s. f x s \<noteq> Inl e \<Longrightarrow> steps f xs s \<noteq> Inl e"
  by (induction xs arbitrary: s) (auto simp: bindr_eq_Inl)

lemma entries_in_range:
  assumes "branch_ok subs declared root b" "(i, n, sc) \<in> set (bs_entries b)"
  shows "i < ms_cursor b" "ms_cursor b \<le> length subs" "fst (subs ! i) \<in> declared"
proof -
  have m: "map fst (rev (bs_entries b)) = declared_before subs declared (ms_cursor b)"
    and "ms_cursor b \<le> length subs"
    using assms(1) unfolding branch_ok_def by blast+
  then show "ms_cursor b \<le> length subs" by blast
  have "i \<in> set (map fst (rev (bs_entries b)))" using assms(2) by force
  then show "i < ms_cursor b" "fst (subs ! i) \<in> declared" unfolding m by (auto simp: declared_before_def)
qed

lemma branch_fields_stop:
  assumes "branch_ok subs declared root b"
  shows "branch_fields subs b \<noteq> Inl grammar_stop"
  unfolding branch_fields_def
proof (rule steps_stop, intro ballI allI)
  fix x vs assume "x \<in> set (rev (map (\<lambda>(i, n, _). (i, n)) (bs_entries b)))"
  then obtain i n sc where x: "x = (i, n)" "(i, n, sc) \<in> set (bs_entries b)" by auto
  have "i < length subs" using entries_in_range(1,2) [OF assms x(2)] by linarith
  then show "assigned_field subs x vs \<noteq> Inl grammar_stop" unfolding x by (rule assigned_field_stop)
qed

lemma branch_violation_ok:
  "branch_ok subs declared root c \<Longrightarrow> branch_grows b c \<Longrightarrow> n < minimum \<Longrightarrow>
    branch_ok subs declared root (c\<lparr> ms_violations := ms_violations c @ [\<lparr> gv_path = path, gv_minimum = minimum, gv_actual = n \<rparr>] \<rparr>) \<and>
    branch_grows b (c\<lparr> ms_violations := ms_violations c @ [\<lparr> gv_path = path, gv_minimum = minimum, gv_actual = n \<rparr>] \<rparr>)"
  by (auto simp: branch_ok_def branch_grows_def)

lemma branch_node_contract:
  "n \<in> set (preorder root) \<Longrightarrow>
     gm.contract subs declared root (branch_node sig fv subs declared n :: _ \<Rightarrow> unit \<Rightarrow> _)"
proof (induction n rule: measure_induct_rule [of size])
  case (less n)
  let ?keeps = "gm.keeps subs declared root"
  have kids: "\<forall>m \<in> set (map (\<lambda>c b (u::unit). branch_node sig fv subs declared c b u) cs). gm.contract subs declared root m"
    if "cs = children n" for cs
  proof -
    have "c \<in> set (preorder root)" if "c \<in> set (children n)" for c
      using preorder_trans [OF less.prems preorder_child [OF that preorder_self]] .
    then show ?thesis using less.IH [OF children_size] that by auto
  qed
  show ?case unfolding gm.contract_def
  proof (intro allI impI)
    fix b and h :: unit assume b: "branch_ok subs declared root b"
    note here = gm.keeps_here [OF b, of h]
    have same: "?keeps b (bindr x f)" if "x \<noteq> Inl grammar_stop" "\<And>v. x = Inr v \<Longrightarrow> ?keeps b (f v)" for x f
      using that by (cases x) (auto simp: gm.keeps_def)
    have cond: "?keeps b (if c then x else y)" if "c \<Longrightarrow> ?keeps b x" "\<not> c \<Longrightarrow> ?keeps b y" for c x y
      using that by simp
    show "?keeps b (branch_node sig fv subs declared n b h)"
    proof (subst branch_node.simps, intro same condition_applies_stop cond here, goal_cases)
      case (1 applies)
      show ?case
      proof (cases "node_kind n")
        case (SelectedChoice selector cs)
        have nth: "?keeps b (branch_node sig fv subs declared (cs ! i) b h)" if "i < length cs" for i
          using gm.contractD [OF bspec [OF kids [of cs]] b, of "branch_node sig fv subs declared (cs ! i)" h]
            that SelectedChoice by (simp add: children_def)
        show ?thesis unfolding SelectedChoice schema_node_kind.case
          by (intro same branch_fields_stop [OF b] selected_index_stop)
             (use nth in \<open>auto simp: Let_def gm.keeps_def grammar_stop_def\<close>)
      next
        case (Repeat minimum maximum child)
        have c: "gm.contract subs declared root (\<lambda>b (u::unit). branch_node sig fv subs declared child b u)"
          using kids [of "[child]"] Repeat by (simp add: children_def)
        have R: "case match_repeat (length subs + 1) maximum (node_path child) (repeat_anchor_matches subs declared child)
              (\<lambda>b (u::unit). branch_node sig fv subs declared child b u) 0 b h of
            Inl e \<Rightarrow> e \<noteq> grammar_stop | Inr ((n', c), _) \<Rightarrow> branch_ok subs declared root c \<and> branch_grows b c"
          by (rule gm.contract_repeat [OF c repeat_anchor_stop b]) simp_all
        show ?thesis unfolding Repeat schema_node_kind.case
          by (rule same)
             (use R in \<open>auto simp: gm.keeps_def repeat_result_def branch_violation_ok\<close>)
      next
        case (Subrecord s p)
        then show ?thesis using branch_subrecord_ok [OF b less.prems Subrecord] by (simp add: gm.keeps_def)
      qed (use here kids gm.contract_sequence [OF kids b] gm.contract_unordered [OF kids b]
            gm.contract_choice [OF kids b b] in \<open>simp_all add: children_def branch_grows_def\<close>)
    qed
  qed
qed

subsection \<open>The result\<close>

abbreviation entry_of :: "'j matched_assignment \<Rightarrow> nat \<times> 'j schema_node \<times> repeat_scope list" where
  "entry_of e \<equiv> (ma_index e, ma_node e, ma_repeat_scopes e)"

lemma fill_assignments:
  "distinct (map ma_index es) \<Longrightarrow> \<forall>e \<in> set es. ma_index e < length as \<Longrightarrow> length rs = length as \<Longrightarrow>
    steps fill_assignment es (as, rs) = Inr
      (map (\<lambda>i. case map_of (map entry_of es) i of None \<Rightarrow> as ! i | Some (n, _) \<Rightarrow> Some n) [0..<length as],
       map (\<lambda>i. case map_of (map entry_of es) i of None \<Rightarrow> rs ! i | Some (_, s) \<Rightarrow> s) [0..<length as])"
proof (induction es arbitrary: as rs)
  case Nil
  then show ?case by (auto intro: nth_equalityI)
next
  case (Cons e es)
  have "map_of (map entry_of es) (ma_index e) = None"
    using Cons.prems(1) by (auto simp: map_of_eq_None_iff)
  then show ?case using Cons by (auto simp: fill_assignment_def nth_list_update split: option.split)
qed

definition branch_initial :: "'j branch_state" where
  "branch_initial = \<lparr> ms_cursor = 0, ms_active_repeat_scopes = [], ms_assigned = 0, ms_violations = [],
     bs_entries = [] \<rparr>"

lemma branch_initial_ok: "branch_ok subs declared root branch_initial"
  by (simp add: branch_ok_def branch_initial_def declared_before_def)

lemma branch_run:
  "case branch_node sig fv subs declared root branch_initial () of
     Inl e \<Rightarrow> e \<noteq> grammar_stop | Inr (b, _) \<Rightarrow> branch_ok subs declared root b"
proof -
  have "gm.keeps subs declared root branch_initial (branch_node sig fv subs declared root branch_initial ())"
    by (rule gm.contractD [OF branch_node_contract branch_initial_ok]) simp
  then show ?thesis by (auto simp: gm.keeps_def split: sum.splits)
qed

lemma represents_initial: "represents [] match_initial branch_initial"
  by (simp add: represents_def match_initial_def branch_initial_def)

definition branch_result :: "grammar_input list \<Rightarrow> signature set \<Rightarrow> 'j branch_state \<Rightarrow> 'j grammar_match" where
  "branch_result subs declared b =
     \<lparr> gm_assignments = map (\<lambda>i. map_option fst (map_of (bs_entries b) i)) [0..<length subs],
       gm_repeat_scopes = map (\<lambda>i. case map_of (bs_entries b) i of None \<Rightarrow> [] | Some (_, s) \<Rightarrow> s) [0..<length subs],
       gm_declared_signatures = declared, gm_violations = ms_violations b \<rparr>"

lemma branch_entries_distinct: "branch_ok subs declared root b \<Longrightarrow> distinct (map fst (bs_entries b))"
proof -
  assume "branch_ok subs declared root b"
  then have "map fst (rev (bs_entries b)) = declared_before subs declared (ms_cursor b)" unfolding branch_ok_def by blast
  then have "distinct (map fst (rev (bs_entries b)))" by (simp only: declared_before_def distinct_filter distinct_upt)
  then show ?thesis by (simp add: rev_map [symmetric])
qed

text \<open>
  C27: one history shared by all branches of a match, of which a state keeps only an index, gives the same
  result, the same errors included, as states that carry their own list of assignments.
\<close>

theorem grammar_branches:
  "interpret_inputs root sig fv subs =
     (case branch_node sig fv subs (collect_signatures root {}) root branch_initial () of
        Inl e \<Rightarrow> Inl e
      | Inr (b, _) \<Rightarrow> Inr (branch_result subs (collect_signatures root {}) b))"
proof -
  let ?d = "collect_signatures root {}"
  have a: "agrees [] represents (match_node sig fv subs ?d root match_initial []) (branch_node sig fv subs ?d root branch_initial ())"
    by (rule implementsD [OF implements_node represents_initial])
  note k = branch_run [where subs = subs and declared = ?d and root = root and sig = sig and fv = fv]
  show ?thesis
  proof (cases "branch_node sig fv subs ?d root branch_initial ()")
    case (Inl e)
    then show ?thesis using a by (simp add: agrees_def interpret_inputs_def)
  next
    case (Inr r)
    obtain b where b: "r = (b, ())" by (cases r) auto
    then have ok: "branch_ok subs ?d root b" using k Inr by simp
    obtain st h where m: "match_node sig fv subs ?d root match_initial [] = Inr (st, h)" "represents h st b"
      using a Inr b by (auto simp: agrees_def)
    then obtain es where es: "history_path (length h) h (ms_history_head st) = Some es" "bs_entries b = map entry_of es"
      by (auto simp: represents_def)
    have dist: "distinct (map ma_index es)"
      using branch_entries_distinct [OF ok] by (simp add: es(2) comp_def)
    have range: "\<forall>e \<in> set es. ma_index e < length subs"
    proof
      fix e assume "e \<in> set es"
      then have "(ma_index e, ma_node e, ma_repeat_scopes e) \<in> set (bs_entries b)" by (auto simp: es(2))
      from entries_in_range(1,2) [OF ok this] show "ma_index e < length subs" by simp
    qed
    have eq: "(case x of None \<Rightarrow> None | Some (n, _) \<Rightarrow> Some n) = map_option fst x" for x :: "('a schema_node \<times> repeat_scope list) option"
      by (cases x) auto
    have "steps fill_assignment es (replicate (length subs) None, replicate (length subs) []) = Inr
        (gm_assignments (branch_result subs ?d b), gm_repeat_scopes (branch_result subs ?d b))"
      using fill_assignments [OF dist, of "replicate (length subs) None" "replicate (length subs) []"] range
      by (auto simp: branch_result_def es(2) eq [symmetric] split: option.split)
    then show ?thesis using m es Inr b
      by (simp add: interpret_inputs_def branch_result_def represents_def)
  qed
qed

text \<open>
  C28: a match never panics and never runs out of fuel. It assigns exactly the declared subrecords
  before some position, each to a subrecord node of the grammar with its signature: a declared
  subrecord is never skipped, an undeclared one never assigned. A reported repeat has fewer
  occurrences than its minimum.
\<close>

theorem grammar_assigns_prefix:
  "(case interpret_inputs root sig fv subs of
      Inl e \<Rightarrow> e \<noteq> grammar_stop
    | Inr m \<Rightarrow>
        length (gm_assignments m) = length subs \<and> length (gm_repeat_scopes m) = length subs \<and>
        (\<exists>c \<le> length subs. \<forall>i < length subs.
           (gm_assignments m ! i \<noteq> None \<longleftrightarrow> i < c \<and> fst (subs ! i) \<in> gm_declared_signatures m) \<and>
           (\<forall>n. gm_assignments m ! i = Some n \<longrightarrow>
              n \<in> set (preorder root) \<and> (\<exists>p. node_kind n = Subrecord (fst (subs ! i)) p))) \<and>
        (\<forall>v \<in> set (gm_violations m). gv_actual v < gv_minimum v))"
proof -
  let ?d = "collect_signatures root {}"
  note k = branch_run [where subs = subs and declared = ?d and root = root and sig = sig and fv = fv]
  show ?thesis
  proof (cases "branch_node sig fv subs ?d root branch_initial ()")
    case (Inl e)
    then show ?thesis using k by (simp add: grammar_branches)
  next
    case (Inr r)
    obtain b where b: "r = (b, ())" by (cases r) auto
    then have ok: "branch_ok subs ?d root b" using k Inr by simp
    then have c: "ms_cursor b \<le> length subs"
      and m: "map fst (rev (bs_entries b)) = declared_before subs ?d (ms_cursor b)"
      and n: "\<forall>(i, n, _) \<in> set (bs_entries b). n \<in> set (preorder root) \<and> (\<exists>p. node_kind n = Subrecord (fst (subs ! i)) p)"
      and v: "\<forall>v \<in> set (ms_violations b). gv_actual v < gv_minimum v"
      unfolding branch_ok_def by blast+
    have dom: "map_of (bs_entries b) i \<noteq> None \<longleftrightarrow> i < ms_cursor b \<and> fst (subs ! i) \<in> ?d" for i
    proof -
      have "i \<in> fst ` set (bs_entries b) \<longleftrightarrow> i \<in> set (map fst (rev (bs_entries b)))" by simp
      then show ?thesis unfolding m by (auto simp: map_of_eq_None_iff declared_before_def)
    qed
    have node: "n' \<in> set (preorder root) \<and> (\<exists>p. node_kind n' = Subrecord (fst (subs ! i)) p)"
      if "map_of (bs_entries b) i = Some (n', s)" for i n' s
      using n map_of_SomeD [OF that] by blast
    have "\<exists>c \<le> length subs. \<forall>i < length subs.
        (map_of (bs_entries b) i \<noteq> None \<longleftrightarrow> i < c \<and> fst (subs ! i) \<in> ?d) \<and>
        (\<forall>n. map_option fst (map_of (bs_entries b) i) = Some n \<longrightarrow>
           n \<in> set (preorder root) \<and> (\<exists>p. node_kind n = Subrecord (fst (subs ! i)) p))"
      using c dom node by (intro exI [of _ "ms_cursor b"]) (auto simp del: not_None_eq)
    then show ?thesis using Inr b v by (simp add: grammar_branches branch_result_def)
  qed
qed

subsection \<open>A sample\<close>

text \<open>The optional AAAA is not found after the undeclared XXXX; the one after BBBB is left over.\<close>

definition payload_node :: "u32 \<Rightarrow> unit schema_node" where
  "payload_node i = SchemaNode (SchemaNodeId (i + 100)) [] [] True conflict_priority.Normal None (Primitive (PBytes None))"

definition sample_subrecord :: "u32 \<Rightarrow> signature \<Rightarrow> unit schema_node" where
  "sample_subrecord i s = SchemaNode (SchemaNodeId i) (sig_bytes s) [] False conflict_priority.Normal None
     (Subrecord s (payload_node i))"

definition sample_grammar :: "unit schema_node" where
  "sample_grammar = SchemaNode (SchemaNodeId 0) [84] [] True conflict_priority.Normal None
     (Sequence [sample_subrecord 1 (sig_lit ''AAAA''), sample_subrecord 2 (sig_lit ''BBBB'')])"

definition sample_inputs :: "grammar_input list" where
  "sample_inputs = [(SIG_XXXX, []), (sig_lit ''BBBB'', []), (sig_lit ''AAAA'', [])]"

lemma sample_signatures: "collect_signatures sample_grammar {} = {sig_lit ''AAAA'', sig_lit ''BBBB''}"
  by (simp add: collect_signatures.simps sample_grammar_def sample_subrecord_def children_def insert_commute)

lemma sample_interpret:
  "interpret_inputs sample_grammar (sig_lit ''TEST'') 44 sample_inputs = Inr
     \<lparr> gm_assignments = [None, Some (sample_subrecord 2 (sig_lit ''BBBB'')), None], gm_repeat_scopes = [[], [], []],
       gm_declared_signatures = {sig_lit ''AAAA'', sig_lit ''BBBB''}, gm_violations = [] \<rparr>"
  unfolding interpret_inputs_def Let_def sample_signatures
  by (simp add: sample_grammar_def sample_subrecord_def match_node.simps
      condition_applies_def match_subrecord_def skip_unknown_def sample_inputs_def match_initial_def Let_def
      sig_lit_def sig_of_def ascii_def SIG_XXXX_def fill_assignment_def)

theorem grammar_assigns_prefix_witness:
  "\<exists>c. c \<le> length sample_inputs \<and> 1 < c \<and> \<not> 2 < c \<and>
     node_kind (sample_subrecord 2 (sig_lit ''BBBB'')) = Subrecord (fst (sample_inputs ! 1)) (payload_node 2)"
proof -
  have three: "length sample_inputs = 3" "fst (sample_inputs ! 1) = sig_lit ''BBBB''" "fst (sample_inputs ! 2) = sig_lit ''AAAA''"
    by (simp_all add: sample_inputs_def numeral_2_eq_2 numeral_3_eq_3)
  let ?as = "[None, Some (sample_subrecord 2 (sig_lit ''BBBB'')), None]"
  obtain c where c: "c \<le> length sample_inputs" and all: "\<And>i. i < length sample_inputs \<Longrightarrow>
      (?as ! i \<noteq> None \<longleftrightarrow> i < c \<and> fst (sample_inputs ! i) \<in> {sig_lit ''AAAA'', sig_lit ''BBBB''})"
    using grammar_assigns_prefix [where root = sample_grammar and sig = "sig_lit ''TEST''" and fv = 44 and subs = sample_inputs]
    unfolding sample_interpret sum.case grammar_match.simps by blast
  have "1 < c" "\<not> 2 < c" using all [of 1] all [of 2] three by (simp_all add: numeral_2_eq_2)
  then show ?thesis using c three(2) by (intro exI [of _ c]) (simp add: sample_subrecord_def)
qed

end
