(* ===== verification/PayloadDecoder.thy ===== *)
theory PayloadDecoder
  imports LegacyPayload GrammarLaws
begin

text \<open>
  \<open>RecordView\<close> of \<open>bethkit-semantic/src/view.rs\<close>: the decoding of one payload by its schema node and of
  a whole record by its schema. The arguments \<open>field_values\<close> and \<open>metadata\<close> that the source mutates are
  the state \<open>decode_state\<close>; it is dropped with an error. A vector's capacity is not modelled.
\<close>

unbundle bit_operations_syntax

subsection \<open>Views\<close>

record inline_string_codec =
  isc_path :: rstring
  isc_array_indices :: "nat list"
  isc_encoding :: inline_string_encoding
  isc_heuristic :: bool

record value_selection =
  vs_schema_path :: rstring
  vs_array_indices :: "nat list"
  vs_effective_path :: rstring

record 'j record_view =
  rv_context :: "'j semantic_context"
  rv_record :: main_record
  rv_schema :: "'j schema_record"
  rv_localized :: bool
  rv_inline_codecs :: "inline_string_codec list list option"
  rv_retention :: decode_retention

record decode_frame =
  df_offset :: nat
  df_source_subrecord_index :: nat
  df_sibling_values :: "field_value named_value list"
  df_array_indices :: "nat list"

record decode_state =
  ds_values :: "rstring \<rightharpoonup> i64"
  ds_selections :: "value_selection list"
  ds_codecs :: "inline_string_codec list"

type_synonym decoded = "(field_value \<times> nat \<times> rstring option) \<times> decode_state"

abbreviation view_registry :: "'j record_view \<Rightarrow> 'j schema_registry" where
  "view_registry v \<equiv> sc_registry (rv_context v)"

abbreviation view_header :: "'j record_view \<Rightarrow> record_header" where
  "view_header v \<equiv> rec_header (rv_record v)"

definition record_view_new :: "'j semantic_context \<Rightarrow> main_record \<Rightarrow> bool \<Rightarrow> semantic_error + 'j record_view" where
  "record_view_new c r localized =
     bindr (ok_or (MissingRecordSchema (rh_signature (rec_header r)))
       (registry_get (sc_registry c) (rh_signature (rec_header r)))) (\<lambda>schema.
     Inr \<lparr> rv_context = c, rv_record = r, rv_schema = schema, rv_localized = localized,
       rv_inline_codecs = None, rv_retention = RetainFull \<rparr>)"

definition new_with_inline_codecs ::
  "'j semantic_context \<Rightarrow> main_record \<Rightarrow> bool \<Rightarrow> inline_string_codec list list \<Rightarrow> semantic_error + 'j record_view" where
  "new_with_inline_codecs c r localized codecs =
     bindr (record_view_new c r localized) (\<lambda>v. Inr (v\<lparr> rv_inline_codecs := Some codecs \<rparr>))"

abbreviation text_error :: "rstring \<Rightarrow> string \<Rightarrow> semantic_error" where
  "text_error path message \<equiv> DecodeError path (Text message [])"

subsection \<open>Expressions and callbacks\<close>

definition view_eval ::
  "'j record_view \<Rightarrow> expression \<Rightarrow> bytes \<Rightarrow> (rstring \<rightharpoonup> i64) \<Rightarrow> semantic_error + eval_value" where
  "view_eval v e pl values = schema_err (map_err ExpressionError (evaluate e
     \<lparr> payload = pl, field_values = values, ctx_form_version = rh_form_version (view_header v),
       record_signature = rh_signature (view_header v) \<rparr> 1024))"

definition node_applies :: "'j record_view \<Rightarrow> 'j schema_node \<Rightarrow> bytes \<Rightarrow> (rstring \<rightharpoonup> i64) \<Rightarrow> semantic_error + bool" where
  "node_applies v n pl values = (case node_condition n of
      None \<Rightarrow> Inr True
    | Some c \<Rightarrow>
        bindr (view_eval v c pl values) (\<lambda>r.
        case r of VBool b \<Rightarrow> Inr b | VInt _ \<Rightarrow> Inl (text_error (node_path n) ''field condition did not return a boolean'')))"

definition view_handler_access :: "'j record_view \<Rightarrow> decode_frame \<Rightarrow> field_value option \<Rightarrow> handler_invocation_access" where
  "view_handler_access v frame scope = with_array_indices (df_array_indices frame)
     (read_only_subrecord_with_scope (rv_record v) (df_source_subrecord_index frame) scope)"

definition invoke_integer_callback ::
  "'j record_view \<Rightarrow> 'j schema_node \<Rightarrow> rstring \<Rightarrow> bytes \<Rightarrow> decode_frame \<Rightarrow> handler_phase \<Rightarrow> field_value option
    \<Rightarrow> semantic_error + i64" where
  "invoke_integer_callback v n callback_id pl frame phase scope =
     bindr (ok_or (HandlerError callback_id (TextOf ''schema node has no callback binding'' (node_path n)))
       (find (\<lambda>b. cb_callback_id b = callback_id) (callbacks_at (view_registry v) (node_path n)))) (\<lambda>b.
     bindr (invoke_with_records (sc_handlers (rv_context v)) b (handler_record (rv_context v) (rv_record v))
       (view_handler_access v frame scope) phase (Some (FBytes pl)) None) (\<lambda>out.
     case out of
       HInteger i \<Rightarrow> Inr i
     | _ \<Rightarrow> Inl (HandlerError callback_id (Text ''callback returned a non-integer result'' []))))"

definition expression_index ::
  "'j record_view \<Rightarrow> expression \<Rightarrow> bytes \<Rightarrow> (rstring \<rightharpoonup> i64) \<Rightarrow> semantic_error \<Rightarrow> semantic_error + i64" where
  "expression_index v e pl values err =
     bindr (view_eval v e pl values) (\<lambda>r. case r of VInt i \<Rightarrow> Inr i | VBool _ \<Rightarrow> Inl err)"

definition select_union_index ::
  "'j record_view \<Rightarrow> 'j schema_node \<Rightarrow> union_selector \<Rightarrow> bytes \<Rightarrow> bytes \<Rightarrow> (rstring \<rightharpoonup> i64) \<Rightarrow> decode_frame
    \<Rightarrow> semantic_error + nat" where
  "select_union_index v n selector pl current values frame =
     bindr (case selector of
         SelExpression e \<Rightarrow>
           expression_index v e current values (text_error (node_path n) ''union selector did not return an integer'')
       | SelCallback callback_id \<Rightarrow>
           invoke_integer_callback v n callback_id pl frame UnionSelection (Some (FStruct (df_sibling_values frame)))) (\<lambda>i.
     if sint i < 0 then Inl (text_error (node_path n) ''union selector returned a negative index'')
     else Inr (nat (sint i)))"

definition resolve_array_count ::
  "'j record_view \<Rightarrow> 'j schema_node \<Rightarrow> array_count \<Rightarrow> bytes \<Rightarrow> (rstring \<rightharpoonup> i64) \<Rightarrow> decode_frame \<Rightarrow> semantic_error + nat" where
  "resolve_array_count v n count pl values frame =
     bindr (case count of
         CExpression e \<Rightarrow>
           expression_index v e pl values (text_error (node_path n) ''array count expression did not return an integer'')
       | CCallback callback_id \<Rightarrow> invoke_integer_callback v n callback_id pl frame ArrayCountPhase None
       | _ \<Rightarrow> Inl (text_error (node_path n) ''array count is not dynamically selected'')) (\<lambda>i.
     if sint i < 0 then Inl (text_error (node_path n) ''array count returned a negative value'')
     else Inr (nat (sint i)))"

definition should_include_array_element ::
  "'j record_view \<Rightarrow> 'j schema_node \<Rightarrow> bytes \<Rightarrow> decode_frame \<Rightarrow> semantic_error + bool" where
  "should_include_array_element v n rest frame =
     (if \<not> materializes (rv_retention v) then Inr True
      else case find (callback_is [''array.should_include'']) (callbacks_at (view_registry v) (node_path n)) of
        None \<Rightarrow> Inr True
      | Some b \<Rightarrow>
          bindr (invoke_with_records (sc_handlers (rv_context v)) b (handler_record (rv_context v) (rv_record v))
            (view_handler_access v frame None) ArrayElementInclusion (Some (FBytes rest)) None) (\<lambda>out.
          case out of
            HInteger i \<Rightarrow> Inr (i \<noteq> 0)
          | _ \<Rightarrow> Inl (handler_text b ''array inclusion callback returned a non-integer result'')))"

subsection \<open>The kinds of node\<close>

definition explicit_codec :: "'j record_view \<Rightarrow> 'j schema_node \<Rightarrow> decode_frame \<Rightarrow> inline_string_codec option" where
  "explicit_codec v n frame =
     Option.bind (rv_inline_codecs v) (\<lambda>codecs.
     Option.bind (nth_get (df_source_subrecord_index frame) codecs) (\<lambda>cs.
     find (\<lambda>c. isc_path c = node_path n \<and> isc_array_indices c = df_array_indices frame) cs))"

text \<open>\<open>decode_node\<close> at a primitive; an error drops the codec recorded before it.\<close>

definition decode_primitive_node ::
  "library_ops \<Rightarrow> 'j record_view \<Rightarrow> 'j schema_node \<Rightarrow> primitive_type \<Rightarrow> bytes \<Rightarrow> decode_frame \<Rightarrow> decode_state \<Rightarrow> semantic_error + decoded" where
  "decode_primitive_node lib v n p current frame st =
     bindr (node_data_size n current (rv_localized v)) (\<lambda>consumed.
     bindr (ok_or (DecodeError (node_path n) (Text ''primitive needs bytes, only remain'' [consumed, length current]))
       (get_range (0, consumed) current)) (\<lambda>data.
     let explicit = explicit_codec v n frame;
         policy = sc_inline (rv_context v);
         (result, selected) = decode_primitive (lib_text lib) (lib_widen lib) p data (rv_localized v)
           (case explicit of Some c \<Rightarrow> Some (isc_encoding c) | None \<Rightarrow> policy) (node_path n);
         chosen = (case selected of Some e \<Rightarrow> Some e | None \<Rightarrow> map_option isc_encoding explicit);
         st1 = (case chosen of
             None \<Rightarrow> st
           | Some e \<Rightarrow> st\<lparr> ds_codecs := ds_codecs st @ [\<lparr> isc_path = node_path n, isc_array_indices = df_array_indices frame,
               isc_encoding = e,
               isc_heuristic = (case explicit of
                   Some c \<Rightarrow> isc_heuristic c
                 | None \<Rightarrow> (case policy of Some q \<Rightarrow> prefers_utf8 q | None \<Rightarrow> False)) \<rparr>] \<rparr>) in
     bindr result (\<lambda>value. Inr ((value, consumed, None), st1))))"

definition retained :: "'j record_view \<Rightarrow> 'a list \<Rightarrow> 'a \<Rightarrow> 'a list" where
  "retained v xs x = (if materializes (rv_retention v) then xs @ [x] else xs)"

definition named :: "'j schema_node \<Rightarrow> rstring option \<Rightarrow> nat \<Rightarrow> nat \<Rightarrow> field_value \<Rightarrow> field_value named_value" where
  "named n effective a b value = NamedValue (node_id n) (node_path n) effective (node_name n) \<lparr> bs_start = a, bs_end = b \<rparr> value"

text \<open>The loop over the fields of a struct; each field comes with its decoder.\<close>

type_synonym node_decoder = "bytes \<Rightarrow> decode_frame \<Rightarrow> decode_state \<Rightarrow> semantic_error + decoded"

fun decode_fields ::
  "'j record_view \<Rightarrow> bytes \<Rightarrow> bytes \<Rightarrow> decode_frame \<Rightarrow> nat option \<Rightarrow> ('j schema_node \<times> node_decoder) list
    \<Rightarrow> nat \<Rightarrow> nat \<Rightarrow> bool \<Rightarrow> field_value named_value list \<Rightarrow> decode_state
    \<Rightarrow> semantic_error + (field_value named_value list \<times> nat) \<times> decode_state" where
  "decode_fields v pl current frame start [] index cursor absent values st = Inr ((values, cursor), st)"
| "decode_fields v pl current frame start ((f, dec) # fs) index cursor absent values st =
     bindr (node_applies v f pl (ds_values st)) (\<lambda>applies.
     let here = df_offset frame + cursor;
         missing = retained v values (named f None here here FAbsent) in
     if \<not> applies then decode_fields v pl current frame start fs (index + 1) cursor absent missing st
     else if cursor > length current then Inl (text_error (node_path f) ''struct cursor exceeded payload'')
     else
       let rest = drop cursor current;
           optional = (case start of None \<Rightarrow> False | Some s \<Rightarrow> s \<le> index);
           unfit = (optional \<and> (case fixed_node_size f of None \<Rightarrow> False | Some k \<Rightarrow> k > length rest)) in
       if optional \<and> (absent \<or> rest = [] \<or> unfit)
       then decode_fields v pl current frame start fs (index + 1) cursor True missing st
       else
         bindr (dec rest (frame\<lparr> df_offset := here, df_sibling_values := values \<rparr>) st) (\<lambda>((value, consumed, effective), st1).
         bindr (ok_or (text_error (node_path f) ''struct cursor overflowed'') (checked_add cursor consumed)) (\<lambda>cursor1.
         decode_fields v pl current frame start fs (index + 1) cursor1 absent
           (retained v values (named f effective here (here + consumed) value)) st1)))"

text \<open>The loop over the elements of an array.\<close>

function (sequential) decode_elements ::
  "'j record_view \<Rightarrow> 'j schema_node \<Rightarrow> 'j schema_node \<Rightarrow> node_decoder \<Rightarrow> bytes \<Rightarrow> decode_frame \<Rightarrow> nat option
    \<Rightarrow> nat \<Rightarrow> nat \<Rightarrow> field_value list \<Rightarrow> decode_state \<Rightarrow> semantic_error + (field_value list \<times> nat) \<times> decode_state" where
  "decode_elements v n element dec current frame limit k cursor values st =
     (if \<not> (case limit of None \<Rightarrow> True | Some c \<Rightarrow> k < c) then Inr ((values, cursor), st)
      else if cursor = length current \<and> (limit = None \<or> info_fragment_limit n) then Inr ((values, cursor), st)
      else if cursor > length current then Inl (text_error (node_path n) ''array cursor exceeded payload'')
      else
        case should_include_array_element v n (drop cursor current) frame of
          Inl e \<Rightarrow> Inl e
        | Inr False \<Rightarrow> Inr ((values, cursor), st)
        | Inr True \<Rightarrow>
            (case dec (drop cursor current)
               (frame\<lparr> df_offset := df_offset frame + cursor, df_array_indices := df_array_indices frame @ [k] \<rparr>) st of
               Inl e \<Rightarrow> Inl e
             | Inr ((value, consumed, _), st1) \<Rightarrow>
                 if consumed = 0 \<and> limit = None then Inl (DecodeError (node_path element) ElementWithoutBytes)
                 else if cursor + consumed > usize_max then Inl (text_error (node_path n) ''array cursor overflowed'')
                 else if cursor + consumed > length current
                 then Inl (DecodeError (node_path element)
                   (Text ''array element needs bytes, only remain'' [consumed, length current - cursor]))
                 else decode_elements v n element dec current frame limit (k + 1) (cursor + consumed)
                   (retained v values value) st1))"
  by pat_completeness auto
termination
  by (relation "measures [\<lambda>(_, _, _, _, _, _, limit, k, _, _, _). case limit of None \<Rightarrow> 0 | Some c \<Rightarrow> c - k,
      \<lambda>(_, _, _, _, current, _, _, _, cursor, _, _). length current - cursor]") (auto split: option.splits)

declare decode_elements.simps [simp del]

definition container_value :: "'j record_view \<Rightarrow> field_value \<Rightarrow> field_value" where
  "container_value v value = (if materializes (rv_retention v) then value else FAbsent)"

definition decode_struct ::
  "'j record_view \<Rightarrow> bytes \<Rightarrow> bytes \<Rightarrow> decode_frame \<Rightarrow> nat option \<Rightarrow> ('j schema_node \<times> node_decoder) list \<Rightarrow> decode_state
    \<Rightarrow> semantic_error + decoded" where
  "decode_struct v pl current frame start fs st =
     bindr (decode_fields v pl current frame start fs 0 0 False [] st) (\<lambda>((values, cursor), st1).
     Inr ((container_value v (FStruct values), cursor, None), st1))"

definition decode_array ::
  "'j record_view \<Rightarrow> 'j schema_node \<Rightarrow> 'j schema_node \<Rightarrow> array_count \<Rightarrow> node_decoder \<Rightarrow> bytes \<Rightarrow> bytes \<Rightarrow> decode_frame
    \<Rightarrow> decode_state \<Rightarrow> semantic_error + decoded" where
  "decode_array v n element count dec pl current frame st =
     bindr (case array_prefix count current (node_path n) of
         Some r \<Rightarrow> r
       | None \<Rightarrow> bindr (resolve_array_count v n count pl (ds_values st) frame) (\<lambda>c. Inr (0, Some c))) (\<lambda>(prefix, limit).
     if prefix > length current
     then Inl (DecodeError (node_path n) (Text ''array prefix needs bytes, payload has'' [prefix, length current]))
     else case array_bytes (rv_retention v) element limit (length current - prefix) of
       Some consumed \<Rightarrow> Inr ((FAbsent, prefix + consumed, None), st)
     | None \<Rightarrow>
         bindr (decode_elements v n element dec current frame limit 0 prefix [] st) (\<lambda>((values, cursor), st1).
         Inr ((container_value v (FArray values), cursor, None), st1)))"

definition decode_union ::
  "'j schema_node \<Rightarrow> decode_frame \<Rightarrow> ('j schema_node \<times> (decode_state \<Rightarrow> semantic_error + decoded)) list \<Rightarrow> nat \<Rightarrow> decode_state
    \<Rightarrow> semantic_error + decoded" where
  "decode_union n frame variants index st =
     (if index < length variants then
        let (variant, dec) = variants ! index in
        bindr (dec st) (\<lambda>((value, consumed, selected), st1).
        Inr ((value, consumed, Some (case selected of Some p \<Rightarrow> p | None \<Rightarrow> node_path variant)),
          st1\<lparr> ds_selections := ds_selections st1 @ [\<lparr> vs_schema_path = node_path n,
            vs_array_indices = df_array_indices frame, vs_effective_path = node_path variant \<rparr>] \<rparr>))
      else Inl (DecodeError (node_path n) (Text ''union variant does not exist'' [index])))"

definition decode_custom :: "'j record_view \<Rightarrow> 'j schema_node \<Rightarrow> rstring \<Rightarrow> bytes \<Rightarrow> semantic_error + field_value \<times> nat \<times> rstring option" where
  "decode_custom v n decoder current =
     bindr (ok_or (MissingSemanticDecoder decoder) (sc_decoders (rv_context v) decoder)) (\<lambda>d.
     bindr (cd_decode d current) (\<lambda>r.
     if dp_consumed r > length current
     then Inl (DecodeError (node_path n) (Text ''custom decoder consumed bytes, only remain'' [dp_consumed r, length current]))
     else Inr (dp_value r, dp_consumed r, None)))"

definition finish_terminated :: "'j schema_node \<Rightarrow> u8 \<Rightarrow> bytes \<Rightarrow> decoded \<Rightarrow> semantic_error + decoded" where
  "finish_terminated n terminator current = (\<lambda>((value, body, effective), st).
     if length current \<le> body then Inl (text_error (node_path n) ''terminated value is missing its terminator'')
     else if current ! body \<noteq> terminator
     then Inl (DecodeError (node_path n) (Text ''expected terminator, got'' [unat terminator, unat (current ! body)]))
     else bindr (ok_or (text_error (node_path n) ''terminated value size overflowed'') (checked_add body 1)) (\<lambda>consumed.
       Inr ((value, consumed, effective), st)))"

definition apply_float_read_semantics :: "library_ops \<Rightarrow> 'j schema_node \<Rightarrow> field_value \<Rightarrow> semantic_error + field_value" where
  "apply_float_read_semantics lib n value = (case node_kind n of
      Primitive (PFloat _ _ scale digits) \<Rightarrow>
        (case value of
           FFloat f \<Rightarrow> Inr (FFloat (float_from_raw lib f scale digits))
         | _ \<Rightarrow> Inl (text_error (node_path n) ''float schema node decoded a non-floating-point value''))
    | _ \<Rightarrow> Inr value)"

definition numeric_value :: "field_value \<Rightarrow> i64 option" where
  "numeric_value value = (case value of
      FInt i \<Rightarrow> Some i
    | FEnumeration i _ \<Rightarrow> Some i
    | FUInt u \<Rightarrow> if unat u < 2 ^ 63 then Some u else None
    | FFlags u _ \<Rightarrow> if unat u < 2 ^ 63 then Some u else None
    | FFormId f _ \<Rightarrow> Some (ucast (fid_raw f))
    | _ \<Rightarrow> None)"

text \<open>The end of \<open>decode_node\<close>: normalisation, float scaling and the value that expressions see.\<close>

definition finish_node :: "library_ops \<Rightarrow> 'j record_view \<Rightarrow> 'j schema_node \<Rightarrow> decoded \<Rightarrow> semantic_error + decoded" where
  "finish_node lib v n = (\<lambda>((value, consumed, effective), st).
     bindr (if materializes (rv_retention v) then apply_normalizers (rv_context v) (node_path n) (rv_record v) value
       else Inr value) (\<lambda>normalized.
     bindr (apply_float_read_semantics lib n normalized) (\<lambda>value1.
     Inr ((value1, consumed, effective),
       (case numeric_value value1 of
          Some i \<Rightarrow> if tracks_numeric (rv_retention v) then st\<lparr> ds_values := (ds_values st)(node_path n \<mapsto> i) \<rparr> else st
        | None \<Rightarrow> st)))))"

subsection \<open>Nodes\<close>

function decode_node ::
  "library_ops \<Rightarrow> 'j record_view \<Rightarrow> 'j schema_node \<Rightarrow> bytes \<Rightarrow> bytes \<Rightarrow> decode_frame \<Rightarrow> decode_state \<Rightarrow> semantic_error + decoded" where
  "decode_node lib v n pl current frame st =
     bindr (node_applies v n pl (ds_values st)) (\<lambda>applies.
     if \<not> applies then Inr ((FAbsent, 0, None), st)
     else
       bindr (case node_kind n of
           Primitive p \<Rightarrow> decode_primitive_node lib v n p current frame st
         | Struct fs \<Rightarrow>
             decode_struct v pl current frame None (map (\<lambda>f. (f, \<lambda>c fr s. decode_node lib v f pl c fr s)) fs) st
         | OptionalStruct fs start \<Rightarrow>
             decode_struct v pl current frame (Some (unat start)) (map (\<lambda>f. (f, \<lambda>c fr s. decode_node lib v f pl c fr s)) fs) st
         | ArrayOf element count \<Rightarrow>
             decode_array v n element count (\<lambda>c fr s. decode_node lib v element pl c fr s) pl current frame st
         | UnionOf selector variants \<Rightarrow>
             bindr (select_union_index v n selector pl current (ds_values st) frame) (\<lambda>index.
             decode_union n frame (map (\<lambda>w. (w, \<lambda>s. decode_node lib v w pl current frame s)) variants) index st)
         | Custom decoder _ \<Rightarrow> bindr (decode_custom v n decoder current) (\<lambda>r. Inr (r, st))
         | Terminated terminator child \<Rightarrow>
             bindr (decode_node lib v child pl current frame st) (finish_terminated n terminator current)
         | CompressedNode _ _ \<Rightarrow> Inl (text_error (node_path n) ''compressed nodes require a registered custom decoder'')
         | Reference target \<Rightarrow> Inl (DecodeError (node_path n) (TextOf ''unresolved schema reference'' target))
         | _ \<Rightarrow> Inl (text_error (node_path n) ''container node cannot decode a payload directly''))
       (finish_node lib v n))"
  by auto
termination by (relation "measure (\<lambda>(_, _, n, _). size n)") (auto simp: children_def intro: children_size)

declare decode_node.simps [simp del]

end
