(* ===== verification/RecordFields.thy ===== *)
theory RecordFields
  imports PayloadDecoder
begin

text \<open>
  \<open>RecordView::fields\<close> and \<open>check_decodable\<close> of \<open>view.rs\<close>: the fields of a record, one for each subrecord,
  and the check that decodes without keeping what nothing observes.
\<close>

unbundle bit_operations_syntax

record view_field =
  fld_subrecord_index :: nat
  fld_repeat_scopes :: "repeat_scope list"
  fld_node_id :: schema_node_id
  fld_path :: rstring
  fld_effective_path :: "rstring option"
  fld_value_selections :: "value_selection list"
  fld_inline_string_codecs :: "inline_string_codec list"
  fld_name :: rstring
  fld_subrecord_signature :: signature
  fld_occurrence :: nat
  fld_span :: byte_span
  fld_origin :: field_origin
  fld_value :: field_value

definition uses_handler :: "'j record_view \<Rightarrow> rstring \<Rightarrow> string \<Rightarrow> bool" where
  "uses_handler v path handler \<longleftrightarrow>
     (\<exists>b \<in> set (callbacks_at (view_registry v) path). case cb_implementation b of
        BuiltIn operation \<Rightarrow> op_id operation = ascii handler | _ \<Rightarrow> False)"

definition is_model_info_payload :: "'j record_view \<Rightarrow> 'j schema_node \<Rightarrow> 'j schema_node \<Rightarrow> bool" where
  "is_model_info_payload v subrecord pn \<longleftrightarrow>
     uses_handler v (node_path subrecord) ''conflict.model_info_form_version'' \<and>
     (case node_kind pn of
        UnionOf _ variants \<Rightarrow> \<exists>w \<in> set variants. uses_handler v (node_path w) ''edit.model_info_counts''
      | _ \<Rightarrow> False)"

definition decode_start :: decode_state where
  "decode_start = \<lparr> ds_values = Map.empty, ds_selections = [], ds_codecs = [] \<rparr>"

definition payload_frame :: "nat \<Rightarrow> decode_frame" where
  "payload_frame index = \<lparr> df_offset = 0, df_source_subrecord_index = index, df_sibling_values = [], df_array_indices = [] \<rparr>"

definition view_signature :: "'j record_view \<Rightarrow> signature" where
  "view_signature v = rh_signature (view_header v)"

text \<open>The payload definition of a subrecord, after the legacy adjustments.\<close>

definition effective_payload :: "'j record_view \<Rightarrow> sub_record \<Rightarrow> 'j schema_node \<Rightarrow> 'j schema_node" where
  "effective_payload v s pn = (case weapon_critical_data (view_signature v) (sr_signature s) pn (length (sr_bytes s)) of
      Some legacy \<Rightarrow> legacy | None \<Rightarrow> pn)"

definition payload_view :: "bool \<Rightarrow> 'j record_view \<Rightarrow> 'j schema_node \<Rightarrow> 'j record_view" where
  "payload_view discard v pn =
     v\<lparr> rv_retention := (if discard then for_payload (view_registry v) pn else RetainFull) \<rparr>"

definition decode_subrecord ::
  "library_ops \<Rightarrow> 'j record_view \<Rightarrow> bool \<Rightarrow> nat \<Rightarrow> sub_record \<Rightarrow> 'j schema_node \<Rightarrow> 'j schema_node
    \<Rightarrow> semantic_error + field_value \<times> rstring option \<times> decode_state" where
  "decode_subrecord lib v discard index s n pn =
     (let data = sr_bytes s;
          fixed_terminator = fixed_string_terminator pn data;
          decode_data = (if fixed_terminator then butlast data else data) in
      bindr (if data = [] \<and> (is_model_info_payload v n pn \<or>
            empty_unused_form_id (view_signature v) (sr_signature s) pn)
          then Inr ((FAbsent, 0, None), decode_start)
          else decode_node lib (payload_view discard v pn) pn decode_data decode_data (payload_frame index) decode_start)
        (\<lambda>((value, consumed0, effective), st).
      let consumed = (if fixed_terminator \<and> consumed0 = length decode_data then consumed0 + 1 else consumed0) in
      if consumed \<noteq> length data
      then Inl (DecodeError (node_path pn) (Text ''payload bytes were not consumed'' [length data - consumed]))
      else Inr (value, effective, st)))"

text \<open>\<open>entry(key).and_modify(|value| *value += 1).or_insert(0)\<close>\<close>

definition next_occurrence :: "('k \<rightharpoonup> nat) \<Rightarrow> 'k \<Rightarrow> nat" where
  "next_occurrence m k = (case m k of Some i \<Rightarrow> i + 1 | None \<Rightarrow> 0)"

type_synonym fields_state = "(signature \<rightharpoonup> nat) \<times> (rstring \<rightharpoonup> nat) \<times> view_field list"

definition raw_field :: "'j grammar_match \<Rightarrow> nat \<Rightarrow> sub_record \<Rightarrow> nat \<Rightarrow> view_field" where
  "raw_field g index s occurrence =
     (let declared = (sr_signature s \<in> gm_declared_signatures g) in
      \<lparr> fld_subrecord_index = index, fld_repeat_scopes = gm_repeat_scopes g ! index,
        fld_node_id = SchemaNodeId (- 1),
        fld_path = (if declared then ascii ''unmatched'' else ascii ''unknown'') @ ascii ''.'' @
          fmt_signature (sr_signature s) @ ascii ''.'' @ decimal_digits occurrence,
        fld_effective_path = None, fld_value_selections = [], fld_inline_string_codecs = [],
        fld_name = (if declared then ascii ''Out-of-order known subrecord'' else ascii ''Unknown subrecord''),
        fld_subrecord_signature = sr_signature s, fld_occurrence = occurrence,
        fld_span = \<lparr> bs_start = 0, bs_end = length (sr_bytes s) \<rparr>,
        fld_origin = (if declared then UnmatchedKnownSubrecord else UnknownSubrecord),
        fld_value = FBytes (sr_bytes s) \<rparr>)"

definition add_field ::
  "library_ops \<Rightarrow> 'j record_view \<Rightarrow> bool \<Rightarrow> 'j grammar_match \<Rightarrow> nat \<times> sub_record \<Rightarrow> fields_state \<Rightarrow> semantic_error + fields_state" where
  "add_field lib v discard g = (\<lambda>(index, s) (signatures, paths, out).
     let occurrence = next_occurrence signatures (sr_signature s);
         signatures1 = signatures(sr_signature s \<mapsto> occurrence) in
     case gm_assignments g ! index of
       None \<Rightarrow> Inr (signatures1, paths, out @ [raw_field g index s occurrence])
     | Some n \<Rightarrow>
         (case node_kind n of
            Subrecord _ declared_payload \<Rightarrow>
              let pn = effective_payload v s declared_payload;
                  path_occurrence = next_occurrence paths (node_path n) in
              bindr (decode_subrecord lib v discard index s n pn) (\<lambda>(value, effective, st).
              Inr (signatures1, paths(node_path n \<mapsto> path_occurrence), out @
                [\<lparr> fld_subrecord_index = index, fld_repeat_scopes = gm_repeat_scopes g ! index,
                   fld_node_id = node_id n, fld_path = node_path n, fld_effective_path = effective,
                   fld_value_selections = ds_selections st, fld_inline_string_codecs = ds_codecs st,
                   fld_name = node_name n, fld_subrecord_signature = sr_signature s,
                   fld_occurrence = path_occurrence,
                   fld_span = \<lparr> bs_start = 0, bs_end = length (sr_bytes s) \<rparr>,
                   fld_origin = (case node_kind pn of Custom _ _ \<Rightarrow> OriginCustomDecoder | _ \<Rightarrow> OriginSchema),
                   fld_value = value \<rparr>]))
          | _ \<Rightarrow> Inl grammar_stop))"

definition fields_impl ::
  "library_ops \<Rightarrow> (bytes \<Rightarrow> string + bytes) \<Rightarrow> 'j record_view \<Rightarrow> bool \<Rightarrow> semantic_error + view_field list" where
  "fields_impl lib inflate v discard =
     bindr (core_err (subrecs inflate (rv_record v))) (\<lambda>subs.
     bindr (interpret_grammar (srec_root (rv_schema v)) (view_signature v) (rh_form_version (view_header v)) subs) (\<lambda>g.
     bindr (steps (add_field lib v discard g) (enumerate 0 subs) (Map.empty, Map.empty, [])) (\<lambda>(_, _, out).
     Inr out)))"

definition view_fields :: "library_ops \<Rightarrow> (bytes \<Rightarrow> string + bytes) \<Rightarrow> 'j record_view \<Rightarrow> semantic_error + view_field list" where
  "view_fields lib inflate v = fields_impl lib inflate v False"

definition check_decodable :: "library_ops \<Rightarrow> (bytes \<Rightarrow> string + bytes) \<Rightarrow> 'j record_view \<Rightarrow> semantic_error + unit" where
  "check_decodable lib inflate v = bindr (fields_impl lib inflate v True) (\<lambda>_. Inr ())"

end
