(* ===== verification/DecodeLaws.thy ===== *)
theory DecodeLaws
  imports RecordFields
begin

text \<open>
  Decoding without retention is decoding: \<open>check_decodable\<close> fails on the records \<open>fields\<close> fails on, with
  the same error. The two decodes run in step; they differ in the containers that one of them drops and,
  where no expression reads them, in the numeric values.
\<close>

unbundle bit_operations_syntax

subsection \<open>The simulation\<close>

definition same_value :: "field_value \<Rightarrow> field_value \<Rightarrow> bool" where
  "same_value x y \<longleftrightarrow> y = x \<or> y = FAbsent \<and> (case x of FStruct _ \<Rightarrow> True | FArray _ \<Rightarrow> True | _ \<Rightarrow> False)"

definition same_state :: "bool \<Rightarrow> decode_state \<Rightarrow> decode_state \<Rightarrow> bool" where
  "same_state t s u \<longleftrightarrow> (t \<longrightarrow> ds_values s = ds_values u)"

definition same_frame :: "decode_frame \<Rightarrow> decode_frame \<Rightarrow> bool" where
  "same_frame f g \<longleftrightarrow> df_offset f = df_offset g \<and> df_source_subrecord_index f = df_source_subrecord_index g \<and>
     df_array_indices f = df_array_indices g"

abbreviation in_step :: "('a \<Rightarrow> 'b \<Rightarrow> bool) \<Rightarrow> semantic_error + 'a \<Rightarrow> semantic_error + 'b \<Rightarrow> bool" where
  "in_step R \<equiv> rel_sum (=) R"

abbreviation same_decoded :: "bool \<Rightarrow> decoded \<Rightarrow> decoded \<Rightarrow> bool" where
  "same_decoded t \<equiv> rel_prod (rel_prod same_value (=)) (same_state t)"

lemma bindr_in_step:
  "in_step A m m' \<Longrightarrow> (\<And>x x'. A x x' \<Longrightarrow> in_step B (f x) (f' x')) \<Longrightarrow> in_step B (bindr m f) (bindr m' f')"
  by (cases m; cases m') auto

lemma bindr_in_step_eq:
  "m = m' \<Longrightarrow> (\<And>x. m = Inr x \<Longrightarrow> in_step B (f x) (f' x)) \<Longrightarrow> in_step B (bindr m f) (bindr m' f')"
  by (cases m) auto

lemma if_in_step:
  "(b \<Longrightarrow> in_step B x x') \<Longrightarrow> (\<not> b \<Longrightarrow> in_step B y y') \<Longrightarrow> in_step B (if b then x else y) (if b then x' else y')"
  by simp

lemma same_refl [simp]: "same_value x x" "same_state t s s" "same_frame f f"
  by (simp_all add: same_value_def same_state_def same_frame_def)

lemma same_numeric: "same_value x y \<Longrightarrow> numeric_value x = numeric_value y"
  by (auto simp: same_value_def numeric_value_def split: field_value.splits)

lemma any_numericD:
  "any_numeric rs b = Some num \<Longrightarrow> (b \<longrightarrow> num) \<and> (\<forall>r \<in> set rs. \<exists>c. r = Some c \<and> (c \<longrightarrow> num))"
  by (induction rs arbitrary: b) (fastforce simp: bind_eq_Some_conv)+

subsection \<open>Callbacks\<close>

lemma unobserved:
  assumes "\<not> (\<exists>b \<in> set (callbacks_at (view_registry v) (node_path n)). observed_binding b)"
  shows "apply_normalizers (rv_context v) (node_path n) r x = Inr x"
    "should_include_array_element v n rest frame = Inr True"
proof -
  have n: "\<not> callback_is [''float.normalizer''] b" "\<not> callback_is [''array.should_include''] b"
    if "b \<in> set (callbacks_at (view_registry v) (node_path n))" for b
    using assms that by (auto simp: observed_binding_def callback_is_def)
  then have "filter (callback_is [''float.normalizer'']) (callbacks_at (view_registry v) (node_path n)) = []"
    by (auto simp: filter_empty_conv)
  then show "apply_normalizers (rv_context v) (node_path n) r x = Inr x"
    by (simp add: apply_normalizers_def)
  show "should_include_array_element v n rest frame = Inr True"
    using n(2) by (auto simp: should_include_array_element_def find_Some_iff split: option.split)
qed

text \<open>The view that drops what nothing observes.\<close>

definition discarding :: "bool \<Rightarrow> 'j record_view \<Rightarrow> 'j record_view" where
  "discarding t v = v\<lparr> rv_retention := Discard t \<rparr>"

lemma discarding_simps [simp]:
  "rv_context (discarding t v) = rv_context v" "rv_record (discarding t v) = rv_record v"
  "rv_localized (discarding t v) = rv_localized v" "rv_inline_codecs (discarding t v) = rv_inline_codecs v"
  "rv_retention (discarding t v) = Discard t" "\<not> materializes (Discard t)" "materializes RetainFull"
  "tracks_numeric (Discard t) \<longleftrightarrow> t" "tracks_numeric RetainFull"
  by (simp_all add: discarding_def materializes_def tracks_numeric_def)

lemma discarding_same [simp]:
  "node_applies (discarding t v) = node_applies v" "expression_index (discarding t v) = expression_index v"
  by (simp_all add: fun_eq_iff node_applies_def view_eval_def expression_index_def split: option.split)

lemma node_applies_same:
  "same_state t s u \<Longrightarrow> (node_condition n \<noteq> None \<Longrightarrow> t) \<Longrightarrow> node_applies v n pl (ds_values u) = node_applies v n pl (ds_values s)"
  by (cases "node_condition n") (auto simp: node_applies_def same_state_def)

subsection \<open>The kinds of node in step\<close>

lemma decode_primitive_node_in_step:
  assumes "same_frame fr gr" "same_state t s u"
  shows "in_step (rel_prod (=) (same_state t)) (decode_primitive_node lib v n p cur fr s) (decode_primitive_node lib (discarding t v) n p cur gr u)"
proof -
  have e: "explicit_codec (discarding t v) n gr = explicit_codec v n fr" "df_array_indices gr = df_array_indices fr"
    using assms(1) by (auto simp: explicit_codec_def same_frame_def)
  show ?thesis using assms(2) unfolding decode_primitive_node_def e discarding_simps
    by (intro bindr_in_step_eq refl)
       (auto simp: Let_def same_state_def split: prod.split option.split intro!: bindr_in_step_eq)
qed

lemma decode_fields_in_step:
  assumes v: "rv_retention v = RetainFull"
    and dec: "\<And>f c fr gr s u. f \<in> set fs \<Longrightarrow> length c \<le> length current \<Longrightarrow> same_frame fr gr \<Longrightarrow> same_state t s u \<Longrightarrow>
      in_step (same_decoded t) (D f c fr s) (D' f c gr u)"
    and cond: "\<And>f. f \<in> set fs \<Longrightarrow> node_condition f \<noteq> None \<Longrightarrow> t"
    and frame: "same_frame fr gr"
  shows "same_state t s u \<Longrightarrow> in_step (rel_prod (rel_prod (\<lambda>_ _. True) (=)) (same_state t))
    (decode_fields v pl current fr start (map (\<lambda>f. (f, D f)) fs) i cur absent vals s)
    (decode_fields (discarding t v) pl current gr start (map (\<lambda>f. (f, D' f)) fs) i cur absent vals' u)"
  using dec cond
proof (induction fs arbitrary: i cur absent vals vals' s u)
  case Nil
  then show ?case by simp
next
  case (Cons f fs)
  have IH: "in_step (rel_prod (rel_prod (\<lambda>_ _. True) (=)) (same_state t))
      (decode_fields v pl current fr start (map (\<lambda>f. (f, D f)) fs) i cur absent vals s)
      (decode_fields (discarding t v) pl current gr start (map (\<lambda>f. (f, D' f)) fs) i cur absent vals' u)"
    if "same_state t s u" for i cur absent vals vals' s u
    by (rule Cons.IH, rule that, (rule Cons.prems(2); simp), (rule Cons.prems(3); simp))
  have dec: "in_step (same_decoded t) (D f c fr' s) (D' f c gr' u)"
    if "length c \<le> length current" "same_frame fr' gr'" "same_state t s u" for c fr' gr' s u
    using Cons.prems(2) that by simp
  have applies: "node_applies v f pl (ds_values u) = node_applies v f pl (ds_values s)"
    by (rule node_applies_same [OF Cons.prems(1)]) (rule Cons.prems(3) [OF list.set_intros(1)])
  have frames: "same_frame (fr\<lparr> df_offset := o1, df_sibling_values := x \<rparr>) (gr\<lparr> df_offset := o1, df_sibling_values := y \<rparr>)" for o1 x y
    using frame by (simp add: same_frame_def)
  have here: "df_offset gr = df_offset fr" using frame by (simp add: same_frame_def)
  show ?case
    unfolding list.map decode_fields.simps discarding_same applies here Let_def
  proof (rule bindr_in_step_eq [OF refl], intro if_in_step, goal_cases)
    case 4
    show ?case
      by (rule bindr_in_step [OF dec [OF _ frames Cons.prems(1)]], simp, clarsimp,
          rule bindr_in_step_eq [OF refl], erule IH)
  qed (simp_all add: IH [OF Cons.prems(1)])
qed

lemma decode_elements_in_step:
  assumes v: "rv_retention v = RetainFull"
    and dec: "\<And>c fr gr s u. length c \<le> length current \<Longrightarrow> same_frame fr gr \<Longrightarrow> same_state t s u \<Longrightarrow>
      in_step (same_decoded t) (D c fr s) (D' c gr u)"
    and obs: "\<not> (\<exists>b \<in> set (callbacks_at (view_registry v) (node_path n)). observed_binding b)"
    and frame: "same_frame fr gr"
  shows "same_state t s u \<Longrightarrow> in_step (rel_prod (rel_prod (\<lambda>_ _. True) (=)) (same_state t))
    (decode_elements v n element D current fr limit k cur vals s)
    (decode_elements (discarding t v) n element D' current gr limit k cur vals' u)"
proof (induction "(limit, k, cur)" arbitrary: k cur vals vals' s u
    rule: wf_induct [OF wf_measures [of "[\<lambda>(limit, k, cur). case limit of None \<Rightarrow> 0 | Some c \<Rightarrow> c - k,
      \<lambda>(limit, k, cur). length current - cur]"]])
  case (1 k cur vals vals' s u)
  have inc: "should_include_array_element v n rest fr = Inr True" "should_include_array_element (discarding t v) n rest gr = Inr True" for rest
    using unobserved(2) [OF obs] by (simp_all add: should_include_array_element_def)
  let ?fr = "fr\<lparr> df_offset := df_offset fr + cur, df_array_indices := df_array_indices fr @ [k] \<rparr>"
  let ?gr = "gr\<lparr> df_offset := df_offset gr + cur, df_array_indices := df_array_indices gr @ [k] \<rparr>"
  have "same_frame ?fr ?gr" using frame by (simp add: same_frame_def)
  note d = dec [OF _ this 1(2), of "drop cur current", simplified]
  show ?case
  proof (cases "D (drop cur current) ?fr s")
    case (Inl e)
    then have "D' (drop cur current) ?gr u = Inl e" using d by (auto simp: rel_sum.simps)
    then show ?thesis using Inl
      by (subst (1 2) decode_elements.simps) (auto simp: inc 1(2))
  next
    case (Inr x)
    then obtain y where Inr': "D' (drop cur current) ?gr u = Inr y" and xy: "same_decoded t x y" using d by (auto simp: rel_sum.simps)
    obtain a m p s1 where x: "x = ((a, m, p), s1)" by (cases x) auto
    obtain a' u1 where y: "y = ((a', m, p), u1)" and st: "same_state t s1 u1"
      using xy by (cases y) (auto simp: x)
    show ?thesis
    proof (cases "(case limit of None \<Rightarrow> True | Some c \<Rightarrow> k < c) \<and> \<not> (cur = length current \<and> (limit = None \<or> info_fragment_limit n)) \<and>
        cur \<le> length current \<and> \<not> (m = 0 \<and> limit = None) \<and> cur + m \<le> length current")
      case True
      have "in_step (rel_prod (rel_prod (\<lambda>_ _. True) (=)) (same_state t))
        (decode_elements v n element D current fr limit (k + 1) (cur + m) (retained v vals a) s1)
        (decode_elements (discarding t v) n element D' current gr limit (k + 1) (cur + m) (retained (discarding t v) vals' a') u1)"
        by (rule 1(1) [rule_format, OF _ refl st]) (use True in \<open>auto split: option.splits\<close>)
      then show ?thesis using True
        by (subst (1 2) decode_elements.simps) (cases limit; auto simp: inc Inr Inr' x y)
    next
      case False
      then show ?thesis
        by (subst (1 2) decode_elements.simps) (auto simp: inc Inr Inr' x y 1(2))
    qed
  qed
qed

subsection \<open>Arrays that are not decoded\<close>

lemma sum_sizes_ge: "sum_sizes ss t = Some k \<Longrightarrow> t \<le> k"
  by (induction ss arbitrary: t) (force simp: bind_eq_Some_conv checked_add_Some)+

lemma decode_fields_total:
  assumes "\<And>f k c fr s. f \<in> set fs \<Longrightarrow> sz f = Some k \<Longrightarrow> k \<le> length c \<Longrightarrow> length c \<le> usize_max \<Longrightarrow>
      \<exists>x u. D f c fr s = Inr ((x, k, None), u)"
    and "\<And>f. f \<in> set fs \<Longrightarrow> sz f \<noteq> None \<Longrightarrow> node_condition f = None"
    and "length current \<le> usize_max"
  shows "sum_sizes (map sz fs) cur = Some k \<Longrightarrow> k \<le> length current \<Longrightarrow>
    \<exists>xs u. decode_fields v pl current fr None (map (\<lambda>f. (f, D f)) fs) i cur absent vals s = Inr ((xs, k), u)"
  using assms(1,2)
proof (induction fs arbitrary: i cur absent vals s)
  case Nil
  then show ?case by simp
next
  case (Cons f fs)
  from Cons.prems(1) obtain m where m: "sz f = Some m" "cur + m \<le> usize_max" "sum_sizes (map sz fs) (cur + m) = Some k"
    by (auto simp: bind_eq_Some_conv checked_add_Some)
  then have le: "cur + m \<le> length current" using sum_sizes_ge Cons.prems(2) by fastforce
  have "node_condition f = None" using Cons.prems(4) m(1) by simp
  moreover obtain x u where "D f (drop cur current) (fr\<lparr> df_offset := df_offset fr + cur, df_sibling_values := vals \<rparr>) s = Inr ((x, m, None), u)"
    using Cons.prems(3) [of f m "drop cur current"] m(1) le assms(3) by fastforce
  moreover have "\<exists>xs u. decode_fields v pl current fr None (map (\<lambda>f. (f, D f)) fs) (i + 1) (cur + m) absent vals' s' = Inr ((xs, k), u)" for vals' s'
    by (rule Cons.IH [OF m(3) Cons.prems(2)]) (use Cons.prems(3,4) in auto)
  ultimately show ?case using le m(2)
    by (simp add: Let_def node_applies_def checked_add_def)
qed

lemma decode_elements_total:
  assumes "\<And>c fr s. k \<le> length c \<Longrightarrow> length c \<le> usize_max \<Longrightarrow> \<exists>x u. D c fr s = Inr ((x, k, None), u)"
    and "\<not> (\<exists>b \<in> set (callbacks_at (view_registry v) (node_path n)). observed_binding b)"
    and "length current \<le> usize_max" and "\<not> info_fragment_limit n"
  shows "cur + k * m \<le> length current \<Longrightarrow> limit = Some (i + m) \<or> limit = None \<and> k \<noteq> 0 \<and> cur + k * m = length current \<Longrightarrow>
    \<exists>xs u. decode_elements v n element D current fr limit i cur vals s = Inr ((xs, cur + k * m), u)"
proof (induction m arbitrary: i cur vals s)
  case 0
  then show ?case by (subst decode_elements.simps) auto
next
  case (Suc m)
  note inc = unobserved(2) [OF assms(2)]
  let ?fr = "fr\<lparr> df_offset := df_offset fr + cur, df_array_indices := df_array_indices fr @ [i] \<rparr>"
  obtain x u where d: "D (drop cur current) ?fr s = Inr ((x, k, None), u)"
    using assms(1) [of "drop cur current"] Suc.prems(1) assms(3) by fastforce
  have "\<exists>xs u. decode_elements v n element D current fr limit (i + 1) (cur + k) vals' s' = Inr ((xs, (cur + k) + k * m), u)" for vals' s'
    by (rule Suc.IH) (use Suc.prems in auto)
  then show ?case using Suc.prems assms(3,4) d
    by (subst decode_elements.simps) (auto simp: inc algebra_simps split: option.splits)
qed

lemma analyze_unobserved:
  "analyze_retention reg n depth = Some num \<Longrightarrow> \<not> (\<exists>b \<in> set (callbacks_at reg (node_path n)). observed_binding b)"
  by (subst (asm) analyze_retention.simps) (auto split: if_splits)

lemma info_fragment_count: "info_fragment_limit n \<Longrightarrow> \<exists>e x. node_kind n = ArrayOf e (CExpression x)"
  by (auto simp: info_fragment_limit_def split: schema_node_kind.splits array_count.splits expression.splits)

lemma finish_node_total:
  assumes "rv_retention v = RetainFull" "\<not> (\<exists>b \<in> set (callbacks_at (view_registry v) (node_path n)). observed_binding b)"
    and "\<And>w b sc dg. node_kind n \<noteq> Primitive (PFloat w b sc dg)"
  shows "\<exists>u. finish_node lib v n ((x, k, eff), s) = Inr ((x, k, eff), u)"
  using assms by (auto simp: finish_node_def unobserved(1) apply_float_read_semantics_def
    split: schema_node_kind.splits primitive_type.splits)

lemma unconstrained_node:
  assumes "unconstrained_size n depth = Some k"
  shows "node_condition n = None"
    "(\<exists>i. node_kind n = Primitive (PInteger i) \<and> it_width i \<in> {1, 2, 4, 8} \<and> k = unat (it_width i)) \<or>
     (\<exists>l. node_kind n = Primitive (PBytes (Some l)) \<and> k = unat l) \<or>
     (\<exists>fs. node_kind n = Struct fs \<and> sum_sizes (map (\<lambda>f. unconstrained_size f (depth + 1)) fs) 0 = Some k) \<or>
     (\<exists>e c m. node_kind n = ArrayOf e (CFixed c) \<and> unconstrained_size e (depth + 1) = Some m \<and> k = m * unat c)"
  using assms by (auto simp: unconstrained_size.simps [of n] bind_eq_Some_conv checked_mul_def
    split: if_splits schema_node_kind.splits primitive_type.splits array_count.splits option.splits)

lemma decode_integer_total:
  "it_width i \<in> {1, 2, 4, 8} \<Longrightarrow> length data = unat (it_width i) \<Longrightarrow> \<exists>x. decode_integer i data path = Inr x"
  by (auto simp: decode_integer_def integer_as_i64_def integer_as_u64_def Let_def)

lemma decode_primitive_node_total:
  assumes kind: "node_kind n = Primitive p" and k: "k \<le> length cur"
    and p: "p = PInteger i \<and> it_width i \<in> {1, 2, 4, 8} \<and> k = unat (it_width i) \<or> p = PBytes (Some l) \<and> k = unat l"
  shows "\<exists>x u. decode_primitive_node lib v n p cur fr st = Inr ((x, k, None), u)"
proof -
  have size: "node_data_size n cur loc = Inr k" for loc
    using p by (auto simp: node_data_size_def node_data_size_with_resolver.simps [of _ _ n] kind primitive_data_size_def primitive_node_size_def)
  have range: "get_range (0, k) cur = Some (take k cur)" using k by (simp add: get_range_def slice_def)
  have "\<exists>x. decode_primitive (lib_text lib) (lib_widen lib) p (take k cur) (rv_localized v) e (node_path n) = (Inr x, None)" for e
    using p
  proof (elim disjE conjE)
    assume "p = PInteger i" "it_width i \<in> {1, 2, 4, 8}" "k = unat (it_width i)"
    then show ?thesis using k decode_integer_total [of i "take k cur" "node_path n"] by (auto simp: decode_primitive_def)
  next
    assume "p = PBytes (Some l)" "k = unat l"
    then show ?thesis using k by (simp add: decode_primitive_def)
  qed
  from this [of "case explicit_codec v n fr of Some c \<Rightarrow> Some (isc_encoding c) | None \<Rightarrow> sc_inline (rv_context v)"]
  show ?thesis by (auto simp: decode_primitive_node_def size range Let_def)
qed

lemma unconstrained_decodes:
  assumes v: "rv_retention v = RetainFull"
  shows "unconstrained_size n depth = Some k \<Longrightarrow> analyze_retention (view_registry v) n d = Some num \<Longrightarrow>
    k \<le> length cur \<Longrightarrow> length cur \<le> usize_max \<Longrightarrow> \<exists>x u. decode_node lib v n pl cur fr st = Inr ((x, k, None), u)"
proof (induction n arbitrary: depth k d num cur fr st rule: measure_induct_rule [of size])
  case (less n)
  note obs = analyze_unobserved [OF less.prems(2)]
  note cond = unconstrained_node(1) [OF less.prems(1)]
  have fin: "\<exists>u. finish_node lib v n ((x, k, None), s) = Inr ((x, k, None), u)" if "\<And>w b sc dg. node_kind n \<noteq> Primitive (PFloat w b sc dg)" for x k s
    by (rule finish_node_total [OF v obs that])
  from unconstrained_node(2) [OF less.prems(1)] show ?case
  proof (elim disjE exE conjE)
    fix i assume kind: "node_kind n = Primitive (PInteger i)" and w: "it_width i \<in> {1, 2, 4, 8}" "k = unat (it_width i)"
    obtain x u where "decode_primitive_node lib v n (PInteger i) cur fr st = Inr ((x, k, None), u)"
      using decode_primitive_node_total [OF kind less.prems(3)] w by blast
    then show ?thesis using fin [of x k u]
      by (subst decode_node.simps) (auto simp: kind node_applies_def cond)
  next
    fix l assume kind: "node_kind n = Primitive (PBytes (Some l))" and w: "k = unat l"
    obtain x u where "decode_primitive_node lib v n (PBytes (Some l)) cur fr st = Inr ((x, k, None), u)"
      using decode_primitive_node_total [OF kind less.prems(3)] w by blast
    then show ?thesis using fin [of x k u]
      by (subst decode_node.simps) (auto simp: kind node_applies_def cond)
  next
    fix fs assume kind: "node_kind n = Struct fs" and sum: "sum_sizes (map (\<lambda>f. unconstrained_size f (depth + 1)) fs) 0 = Some k"
    have sub: "size f < size n \<and> (\<exists>c. analyze_retention (view_registry v) f (d + 1) = Some c)" if "f \<in> set fs" for f
    proof -
      have "any_numeric (map (\<lambda>f. analyze_retention (view_registry v) f (d + 1)) fs) (node_condition n \<noteq> None) = Some num"
        using less.prems(2) by (subst (asm) analyze_retention.simps) (simp add: kind split: if_splits)
      from any_numericD [OF this] that show ?thesis
        by (auto simp: kind children_def intro!: children_size [of f n])
    qed
    have dec: "\<exists>x u. decode_node lib v f pl c fr s = Inr ((x, m, None), u)"
      if "f \<in> set fs" "unconstrained_size f (depth + 1) = Some m" "m \<le> length c" "length c \<le> usize_max" for f m c fr s
      using sub [OF that(1)] less.IH that by blast
    have none: "node_condition f = None" if "unconstrained_size f (depth + 1) \<noteq> None" for f
      using that unconstrained_node(1) by blast
    obtain xs u where "decode_fields v pl cur fr None (map (\<lambda>f. (f, \<lambda>c fr s. decode_node lib v f pl c fr s)) fs) 0 0 False [] st = Inr ((xs, k), u)"
      using decode_fields_total [where sz = "\<lambda>f. unconstrained_size f (depth + 1)" and D = "\<lambda>f c fr s. decode_node lib v f pl c fr s"
        and vals = "[]" and absent = False and i = 0 and fr = fr and s = st and v = v and pl = pl, OF dec none less.prems(4) sum less.prems(3)] by blast
    then show ?thesis using fin [of "FStruct xs" k u]
      by (subst decode_node.simps) (auto simp: kind node_applies_def cond decode_struct_def container_value_def v)
  next
    fix e c m assume kind: "node_kind n = ArrayOf e (CFixed c)" and m: "unconstrained_size e (depth + 1) = Some m" "k = m * unat c"
    obtain b where b: "analyze_retention (view_registry v) e (d + 1) = Some b"
      using less.prems(2) by (subst (asm) analyze_retention.simps) (auto simp: kind bind_eq_Some_conv split: if_splits)
    have e: "size e < size n" by (rule children_size) (simp add: children_def kind)
    obtain xs u where "decode_elements v n e (\<lambda>c fr s. decode_node lib v e pl c fr s) cur fr (Some (unat c)) 0 0 [] st = Inr ((xs, 0 + m * unat c), u)"
      using decode_elements_total [where D = "\<lambda>c fr s. decode_node lib v e pl c fr s" and k = m and m = "unat c" and cur = 0 and i = 0
          and limit = "Some (unat c)", OF less.IH [OF e m(1) b] obs less.prems(4)] info_fragment_count [of n] kind less.prems(3) m(2) by fastforce
    then show ?thesis using fin [of "FArray xs" k u]
      by (subst decode_node.simps)
         (auto simp: kind node_applies_def cond decode_array_def array_prefix_def array_bytes_def container_value_def v m(2))
  qed
qed

subsection \<open>Nodes in step\<close>

lemma finish_node_in_step:
  assumes v: "rv_retention v = RetainFull" and obs: "\<not> (\<exists>b \<in> set (callbacks_at (view_registry v) (node_path n)). observed_binding b)"
    and d: "same_decoded t x y" and float: "\<And>w b sc dg. node_kind n = Primitive (PFloat w b sc dg) \<Longrightarrow> fst (fst x) = fst (fst y)"
  shows "in_step (same_decoded t) (finish_node lib v n x) (finish_node lib (discarding t v) n y)"
proof -
  obtain a m p s where x: "x = ((a, m, p), s)" by (cases x) auto
  obtain a' u where y: "y = ((a', m, p), u)" and a: "same_value a a'" and st: "same_state t s u"
    using d by (cases y) (auto simp: x)
  have float': "(\<exists>w b sc dg. node_kind n = Primitive (PFloat w b sc dg)) \<Longrightarrow> a' = a" using float by (auto simp: x y)
  have "in_step same_value (apply_float_read_semantics lib n a) (apply_float_read_semantics lib n a')"
    using float' a by (auto simp: apply_float_read_semantics_def split: schema_node_kind.split primitive_type.split field_value.split)
  then show ?thesis unfolding x y finish_node_def split discarding_simps unobserved(1) [OF obs] v if_cancel bindr_simps
    by (rule bindr_in_step) (use st in \<open>auto simp: same_numeric same_state_def split: option.split\<close>)
qed

lemma decode_union_in_step:
  assumes "\<And>w. w \<in> set ws \<Longrightarrow> in_step (same_decoded t) (D w s) (D' w u)" "same_frame fr gr"
  shows "in_step (same_decoded t) (decode_union n fr (map (\<lambda>w. (w, D w)) ws) i s) (decode_union n gr (map (\<lambda>w. (w, D' w)) ws) i u)"
proof (cases "i < length ws")
  case True
  then show ?thesis using assms(2)
    by (auto simp: decode_union_def same_frame_def same_state_def intro!: bindr_in_step [OF assms(1)])
qed (simp add: decode_union_def)

lemma decode_array_in_step:
  assumes v: "rv_retention v = RetainFull"
    and dec: "\<And>c fr gr s u. length c \<le> length cur \<Longrightarrow> same_frame fr gr \<Longrightarrow> same_state t s u \<Longrightarrow>
      in_step (same_decoded t) (D c fr s) (D' c gr u)"
    and total: "\<And>k c fr s. unconstrained_size element 0 = Some k \<Longrightarrow> k \<le> length c \<Longrightarrow> length c \<le> usize_max \<Longrightarrow>
      \<exists>x u. D c fr s = Inr ((x, k, None), u)"
    and kind: "node_kind n = ArrayOf element count" "\<And>cb. count \<noteq> CCallback cb" "\<And>e. count = CExpression e \<Longrightarrow> t"
    and obs: "\<not> (\<exists>b \<in> set (callbacks_at (view_registry v) (node_path n)). observed_binding b)"
    and frame: "same_frame fr gr" and st: "same_state t s u" and len: "length cur \<le> usize_max"
  shows "in_step (same_decoded t) (decode_array v n element count D pl cur fr s) (decode_array (discarding t v) n element count D' pl cur gr u)"
proof -
  have count: "(case array_prefix count cur (node_path n) of Some r \<Rightarrow> r
       | None \<Rightarrow> bindr (resolve_array_count v n count pl (ds_values s) fr) (\<lambda>c. Inr (0, Some c))) =
     (case array_prefix count cur (node_path n) of Some r \<Rightarrow> r
       | None \<Rightarrow> bindr (resolve_array_count (discarding t v) n count pl (ds_values u) gr) (\<lambda>c. Inr (0, Some c)))"
    using kind(2,3) st by (cases count) (auto simp: array_prefix_def resolve_array_count_def same_state_def)
  have info: "\<not> info_fragment_limit n" if "\<not> t"
    using info_fragment_count [of n] kind(1,3) that by auto
  show ?thesis unfolding decode_array_def
  proof (rule bindr_in_step_eq [OF count], clarsimp split del: if_split, intro if_in_step, goal_cases)
    case (2 prefix limit)
    let ?full = "decode_elements v n element D cur fr limit 0 prefix [] s"
    have steps: "in_step (rel_prod (rel_prod (\<lambda>_ _. True) (=)) (same_state t)) ?full
        (decode_elements (discarding t v) n element D' cur gr limit 0 prefix [] u)"
      by (rule decode_elements_in_step [OF v dec obs frame st])
    show ?case
    proof (cases "array_bytes (Discard t) element limit (length cur - prefix)")
      case None
      have full: "array_bytes RetainFull element limit (length cur - prefix) = None" by (simp add: array_bytes_def)
      show ?thesis unfolding discarding_simps v None full option.case
        by (rule bindr_in_step [OF steps]) (auto simp: container_value_def v same_value_def)
    next
      case (Some consumed)
      then obtain k m where t: "\<not> t" and k: "unconstrained_size element 0 = Some k" "consumed = k * m" "k * m \<le> length cur - prefix"
        and m: "limit = Some m \<or> limit = None \<and> k \<noteq> 0 \<and> k * m = length cur - prefix"
        by (auto simp: array_bytes_def bind_eq_Some_conv checked_mul_def split: if_splits option.splits)
      then obtain xs u' where "?full = Inr ((xs, prefix + k * m), u')"
        using decode_elements_total [where D = D and k = k and m = m and cur = prefix and i = 0 and limit = limit, OF total [OF k(1)] obs len info [OF t]] 2 by fastforce
      then show ?thesis using Some t k(2)
        by (simp add: v array_bytes_def [of RetainFull] container_value_def same_value_def same_state_def)
    qed
  qed simp
qed

lemma analyze_child:
  assumes a: "analyze_retention reg n d = Some num" and c: "c \<in> set (children n)"
  shows "\<exists>b. analyze_retention reg c (d + 1) = Some b \<and> (b \<longrightarrow> num)"
  using a c unfolding children_def
  by (subst (asm) analyze_retention.simps)
     (cases "node_kind n"; auto simp: Let_def bind_eq_Some_conv dest!: any_numericD
       split: if_splits array_count.splits union_selector.splits)

lemma analyze_kinds:
  assumes a: "analyze_retention reg n d = Some num"
  shows "node_condition n \<noteq> None \<Longrightarrow> num"
    "(\<exists>p. node_kind n = Primitive p) \<or> (\<exists>fs. node_kind n = Struct fs) \<or> (\<exists>fs i. node_kind n = OptionalStruct fs i) \<or>
     (\<exists>e c. node_kind n = ArrayOf e c \<and> (\<forall>cb. c \<noteq> CCallback cb) \<and> ((\<exists>x. c = CExpression x) \<longrightarrow> num)) \<or>
     (\<exists>e ws. node_kind n = UnionOf (SelExpression e) ws \<and> num) \<or> (\<exists>b c. node_kind n = Terminated b c)"
proof -
  show "node_condition n \<noteq> None \<Longrightarrow> num" using a
    by (subst (asm) analyze_retention.simps)
       (cases "node_kind n"; auto simp: Let_def bind_eq_Some_conv dest!: any_numericD split: if_splits array_count.splits union_selector.splits)
  show "(\<exists>p. node_kind n = Primitive p) \<or> (\<exists>fs. node_kind n = Struct fs) \<or> (\<exists>fs i. node_kind n = OptionalStruct fs i) \<or>
     (\<exists>e c. node_kind n = ArrayOf e c \<and> (\<forall>cb. c \<noteq> CCallback cb) \<and> ((\<exists>x. c = CExpression x) \<longrightarrow> num)) \<or>
     (\<exists>e ws. node_kind n = UnionOf (SelExpression e) ws \<and> num) \<or> (\<exists>b c. node_kind n = Terminated b c)" using a
    by (subst (asm) analyze_retention.simps)
       (cases "node_kind n"; auto simp: Let_def bind_eq_Some_conv dest!: any_numericD split: if_splits array_count.splits union_selector.splits)
qed

lemma decode_node_in_step:
  assumes v: "rv_retention v = RetainFull"
  shows "analyze_retention (view_registry v) n d = Some num \<Longrightarrow> (num \<Longrightarrow> t) \<Longrightarrow> length cur \<le> usize_max \<Longrightarrow>
    same_frame fr gr \<Longrightarrow> same_state t s u \<Longrightarrow>
    in_step (same_decoded t) (decode_node lib v n pl cur fr s) (decode_node lib (discarding t v) n pl cur gr u)"
proof (induction n arbitrary: d num cur fr gr s u rule: measure_induct_rule [of size])
  case (less n)
  note obs = analyze_unobserved [OF less.prems(1)] and frame = less.prems(4) and st = less.prems(5) and len = less.prems(3)
  have dec: "in_step (same_decoded t) (decode_node lib v c pl cur' fr' s') (decode_node lib (discarding t v) c pl cur' gr' u')"
    if "c \<in> set (children n)" "length cur' \<le> length cur" "same_frame fr' gr'" "same_state t s' u'" for c cur' fr' gr' s' u'
  proof -
    from analyze_child [OF less.prems(1) that(1)]
    obtain b where b: "analyze_retention (view_registry v) c (d + 1) = Some b" "b \<longrightarrow> num" by blast
    show ?thesis by (rule less.IH [OF children_size [OF that(1)] b(1) _ _ that(3,4)]) (use b(2) less.prems(2) that(2) len in auto)
  qed
  have cond: "t" if "c \<in> set (children n)" "node_condition c \<noteq> None" for c
    using analyze_child [OF less.prems(1) that(1)] analyze_kinds(1) that(2) less.prems(2) by blast
  have fin: "in_step (same_decoded t) (bindr m (finish_node lib v n)) (bindr m' (finish_node lib (discarding t v) n))"
    if "in_step (same_decoded t) m m'" "\<And>p. node_kind n \<noteq> Primitive p" for m m'
    by (rule bindr_in_step [OF that(1)], rule finish_node_in_step [OF v obs]) (use that(2) in auto)
  have applies: "node_applies v n pl (ds_values u) = node_applies v n pl (ds_values s)"
    by (rule node_applies_same [OF st]) (use analyze_kinds(1) [OF less.prems(1)] less.prems(2) in blast)
  show ?case
    unfolding decode_node.simps [of lib _ n pl] discarding_same applies
  proof (rule bindr_in_step_eq [OF refl], rule if_in_step, goal_cases)
    case (2 applies)
    from analyze_kinds(2) [OF less.prems(1)] show ?case
    proof (elim disjE exE conjE)
      fix p assume kind: "node_kind n = Primitive p"
      show ?thesis unfolding kind schema_node_kind.case
        by (rule bindr_in_step [OF decode_primitive_node_in_step [OF frame st]], rule finish_node_in_step [OF v obs]) auto
    next
      fix fs assume kind: "node_kind n = Struct fs"
      show ?thesis unfolding kind schema_node_kind.case decode_struct_def
        by (rule fin, rule bindr_in_step [OF decode_fields_in_step [OF v dec cond frame st]])
           (auto simp: kind children_def container_value_def v same_value_def)
    next
      fix fs i assume kind: "node_kind n = OptionalStruct fs i"
      show ?thesis unfolding kind schema_node_kind.case decode_struct_def
        by (rule fin, rule bindr_in_step [OF decode_fields_in_step [OF v dec cond frame st]])
           (auto simp: kind children_def container_value_def v same_value_def)
    next
      fix e c assume kind: "node_kind n = ArrayOf e c" "\<forall>cb. c \<noteq> CCallback cb" "(\<exists>x. c = CExpression x) \<longrightarrow> num"
      have e: "e \<in> set (children n)" by (simp add: children_def kind)
      obtain b where b: "analyze_retention (view_registry v) e (d + 1) = Some b"
        using analyze_child [OF less.prems(1) e] by blast
      show ?thesis unfolding kind(1) schema_node_kind.case
        by (rule fin, rule decode_array_in_step [OF v dec [OF e] unconstrained_decodes [OF v _ b] kind(1) _ _ obs frame st len])
           (use kind less.prems(2) in auto)
    next
      fix e ws assume kind: "node_kind n = UnionOf (SelExpression e) ws" "num"
      then have "ds_values u = ds_values s" using st less.prems(2) by (simp add: same_state_def)
      then have sel: "select_union_index v n (SelExpression e) pl cur (ds_values s) fr =
          select_union_index (discarding t v) n (SelExpression e) pl cur (ds_values u) gr"
        by (simp add: select_union_index_def)
      show ?thesis unfolding kind(1) schema_node_kind.case
        by (rule fin, rule bindr_in_step_eq [OF sel], rule decode_union_in_step [OF _ frame],
            rule dec [OF _ order_refl frame st])
           (simp_all add: kind(1) children_def)
    next
      fix b c assume kind: "node_kind n = Terminated b c"
      have c: "c \<in> set (children n)" by (simp add: children_def kind)
      show ?thesis unfolding kind schema_node_kind.case
        by (rule fin, rule bindr_in_step [OF dec [OF c order_refl frame st]])
           (auto simp: kind finish_terminated_def intro!: bindr_in_step_eq)
    qed
  qed (simp add: st)
qed

subsection \<open>Records\<close>

lemma steps_in_step:
  "(\<And>x s u. x \<in> set xs \<Longrightarrow> R s u \<Longrightarrow> in_step R (f x s) (g x u)) \<Longrightarrow> R s u \<Longrightarrow> in_step R (steps f xs s) (steps g xs u)"
proof (induction xs arbitrary: s u)
  case (Cons a xs)
  show ?case unfolding steps.simps
    by (rule bindr_in_step [OF Cons.prems(1)]) (use Cons in auto)
qed simp

lemma payload_node_in_step:
  assumes "length cur \<le> usize_max"
  shows "in_step (rel_prod (rel_prod (\<lambda>_ _. True) (=)) (\<lambda>_ _. True))
    (decode_node lib (payload_view False v n) n pl cur fr s) (decode_node lib (payload_view True v n) n pl cur fr s)"
proof (cases "analyze_retention (view_registry v) n 0")
  case None
  then show ?thesis by (auto simp: payload_view_def for_payload_def intro!: sum.rel_refl prod.rel_refl)
next
  case (Some t)
  let ?v = "v\<lparr> rv_retention := RetainFull \<rparr>"
  have "in_step (same_decoded t) (decode_node lib ?v n pl cur fr s) (decode_node lib (discarding t ?v) n pl cur fr s)"
    by (rule decode_node_in_step) (use Some assms in auto)
  then show ?thesis using Some
    by (auto simp: payload_view_def for_payload_def discarding_def elim!: sum.rel_mono_strong prod.rel_mono_strong)
qed

lemma decode_subrecord_in_step:
  assumes "length (sr_bytes s) \<le> usize_max"
  shows "in_step (\<lambda>_ _. True) (decode_subrecord lib v False i s n pn) (decode_subrecord lib v True i s n pn)"
  unfolding decode_subrecord_def Let_def
proof (rule bindr_in_step)
  show "in_step (rel_prod (rel_prod (\<lambda>_ _. True) (=)) (\<lambda>_ _. True))
     (if sr_bytes s = [] \<and> (is_model_info_payload v n pn \<or> empty_unused_form_id (view_signature v) (sr_signature s) pn)
      then Inr ((FAbsent, 0, None), decode_start)
      else decode_node lib (payload_view False v pn) pn (if fixed_string_terminator pn (sr_bytes s) then butlast (sr_bytes s) else sr_bytes s)
        (if fixed_string_terminator pn (sr_bytes s) then butlast (sr_bytes s) else sr_bytes s) (payload_frame i) decode_start)
     (if sr_bytes s = [] \<and> (is_model_info_payload v n pn \<or> empty_unused_form_id (view_signature v) (sr_signature s) pn)
      then Inr ((FAbsent, 0, None), decode_start)
      else decode_node lib (payload_view True v pn) pn (if fixed_string_terminator pn (sr_bytes s) then butlast (sr_bytes s) else sr_bytes s)
        (if fixed_string_terminator pn (sr_bytes s) then butlast (sr_bytes s) else sr_bytes s) (payload_frame i) decode_start)"
    by (intro if_in_step payload_node_in_step) (use assms in auto)
qed auto

text \<open>
  C31: the check that a record can be decoded, which keeps no containers, skips arrays
  of plain integers and bytes, and forgets numbers that no expression reads, returns an error exactly when
  decoding all fields does, and the same one. A payload is no longer than an address can be.
\<close>

theorem check_decodable_agrees:
  assumes "\<And>subs s. subrecs inflate (rv_record v) = Inr subs \<Longrightarrow> s \<in> set subs \<Longrightarrow> length (sr_bytes s) \<le> usize_max"
  shows "check_decodable lib inflate v = bindr (view_fields lib inflate v) (\<lambda>_. Inr ())"
proof -
  let ?R = "rel_prod (=) (rel_prod (=) (\<lambda>_ _. True)) :: fields_state \<Rightarrow> fields_state \<Rightarrow> bool"
  have add: "in_step ?R (add_field lib v False g x a) (add_field lib v True g x b)"
    if "subrecs inflate (rv_record v) = Inr subs" "x \<in> set (enumerate 0 subs)" "?R a b" for g x a b subs
  proof -
    note sub = that
    from sub(2) have "snd x \<in> set subs" unfolding in_set_enumerate_eq by (metis diff_zero in_set_conv_nth add_0_right)
    then obtain i s where x: "x = (i, s)" "s \<in> set subs" by (cases x) auto
    obtain sg ps o1 o2 where ab: "a = (sg, ps, o1)" "b = (sg, ps, o2)" using sub(3) by (cases a; cases b) auto
    show ?thesis
      by (auto simp: add_field_def x ab Let_def split: option.split schema_node_kind.split
          intro!: bindr_in_step [OF decode_subrecord_in_step [OF assms [OF sub(1) x(2)]]])
  qed
  have "in_step (\<lambda>_ _. True) (view_fields lib inflate v) (fields_impl lib inflate v True)"
    unfolding view_fields_def fields_impl_def
  proof (rule bindr_in_step_eq [OF refl], rule bindr_in_step_eq [OF refl], rule bindr_in_step [where A = ?R], goal_cases)
    case (1 subs g)
    then show ?case by (intro steps_in_step add) simp_all
  qed auto
  then show ?thesis unfolding check_decodable_def by (auto simp: rel_sum.simps)
qed

subsection \<open>An example\<close>

text \<open>A record whose one subrecord is a count and that many bytes.\<close>

definition sample_payload_grammar :: "unit schema_node" where
  "sample_payload_grammar = sample_node 9 (ascii ''TEST'') (Sequence [sample_node 8 (ascii ''TEST/0'') (Subrecord (sig_lit ''DATA'') sample_root)])"

definition sample_view :: "unit record_view" where
  "sample_view =
     \<lparr> rv_context = \<lparr> sc_registry = registry_new (package_of sample_package []), sc_decoders = builtin_decoders,
         sc_handlers = \<lparr> hreg_handlers = Map.empty, hreg_table = None, json_null = (), json_phase = (\<lambda>_. None) \<rparr>, sc_inline = None \<rparr>,
       rv_record = \<lparr> rec_header = \<lparr> rh_signature = sig_lit ''TEST'', rh_data_size = 9, rh_flags = 0, rh_form_id = FormId 0,
           rh_version_control = 0, rh_form_version = 44, rh_unknown = 0 \<rparr>,
         rec_source_range = None, rec_data = Raw [],
         rec_parsed = Some [\<lparr> sr_signature = sig_lit ''DATA'', sr_data = Owned [2, 7, 9] \<rparr>] \<rparr>,
       rv_schema = sample_schema_record\<lparr> srec_root := sample_payload_grammar \<rparr>, rv_localized = False, rv_inline_codecs = None, rv_retention = RetainFull \<rparr>"

definition sample_library :: library_ops where
  "sample_library = \<lparr> lib_text = \<lparr> tc_for_label = (\<lambda>_. None), tc_decode = (\<lambda>_ b. (b, False)), tc_encode = (\<lambda>_ b. (b, False)) \<rparr>,
     lib_widen = ucast, lib_narrow = ucast, lib_times = (\<lambda>a _. a), lib_over = (\<lambda>a _. a), lib_powi10 = ucast,
     lib_round_even = id, lib_uppercase = id \<rparr>"

theorem check_decodable_agrees_witness:
  "subrecs (\<lambda>_. Inl []) (rv_record sample_view) = Inr [\<lparr> sr_signature = sig_lit ''DATA'', sr_data = Owned [2, 7, 9] \<rparr>] \<and>
   check_decodable sample_library (\<lambda>_. Inl []) sample_view = bindr (view_fields sample_library (\<lambda>_. Inl []) sample_view) (\<lambda>_. Inr ())"
proof -
  have subs: "subrecs (\<lambda>_. Inl []) (rv_record sample_view) = Inr [\<lparr> sr_signature = sig_lit ''DATA'', sr_data = Owned [2, 7, 9] \<rparr>]"
    by (simp add: sample_view_def subrecords_def)
  have "check_decodable sample_library (\<lambda>_. Inl []) sample_view = bindr (view_fields sample_library (\<lambda>_. Inl []) sample_view) (\<lambda>_. Inr ())"
    by (rule check_decodable_agrees) (use subs in \<open>auto simp: sr_bytes_def usize_max_def\<close>)
  with subs show ?thesis ..
qed

end
