(* ===== verification/DecodeBounds.thy ===== *)
theory DecodeBounds
  imports DecodeLaws
begin

text \<open>
  A decode stays inside its payload: the bytes a node consumes, and the spans of the fields of a struct.
\<close>

unbundle bit_operations_syntax

definition decodes_within :: "node_decoder \<Rightarrow> bool" where
  "decodes_within dec \<longleftrightarrow> (\<forall>c fr s x k p u. dec c fr s = Inr ((x, k, p), u) \<longrightarrow> k \<le> length c)"

lemma decodes_withinD: "decodes_within dec \<Longrightarrow> dec c fr s = Inr ((x, k, p), u) \<Longrightarrow> k \<le> length c"
  unfolding decodes_within_def by blast

lemma decode_fields_bound:
  "(\<And>f. f \<in> set fs \<Longrightarrow> decodes_within (snd f)) \<Longrightarrow> cur \<le> length current \<Longrightarrow>
   decode_fields v pl current fr start fs i cur absent vals s = Inr ((xs, k), u) \<Longrightarrow> k \<le> length current"
proof (induction fs arbitrary: i cur absent vals s)
  case (Cons f fs)
  obtain n dec where f: "f = (n, dec)" by (cases f)
  have dec: "decodes_within dec" using Cons.prems(1) [of f] by (simp add: f)
  have IH: "k \<le> length current"
    if "decode_fields v pl current fr start fs i' cur' absent' vals' s' = Inr ((xs, k), u)" "cur' \<le> length current" for i' cur' absent' vals' s'
    by (rule Cons.IH [OF _ that(2,1)], rule Cons.prems(1), simp)
  have step: "k \<le> length current"
    if "decode_fields v pl current fr start fs i' (cur + m) absent' vals' s' = Inr ((xs, k), u)"
      "dec (drop cur current) fr' s1 = Inr ((x, m, p), u1)" for i' absent' vals' s' m fr' s1 x p u1
    using IH [OF that(1)] decodes_withinD [OF dec that(2)] Cons.prems(2) by simp
  show ?case using Cons.prems(2,3) unfolding f decode_fields.simps
    by (auto simp: Let_def checked_add_Some not_less elim!: bindr_InrE split: if_splits)
       ((erule (1) step | erule IH; simp)+)
qed simp

lemma decode_elements_bound:
  "decode_elements v n element dec current fr limit i cur vals s = Inr ((xs, k), u) \<Longrightarrow> cur \<le> length current \<Longrightarrow> k \<le> length current"
proof (induction v n element dec current fr limit i cur vals s arbitrary: xs k u rule: decode_elements.induct)
  case (1 v n element dec current fr limit i cur vals s)
  then show ?case
    by (subst (asm) (2) decode_elements.simps) (force split: if_splits sum.splits bool.splits)
qed

lemma decode_primitive_node_bound:
  assumes "decode_primitive_node lib v n q current fr st = Inr ((x, k, p), u)"
  shows "k \<le> length current"
proof -
  obtain m data where m: "node_data_size n current (rv_localized v) = Inr m" "get_range (0, m) current = Some data"
    using assms by (auto simp: decode_primitive_node_def bindr_eq_Inr simp del: prod.case)
  obtain r sel where "decode_primitive (lib_text lib) (lib_widen lib) q data (rv_localized v)
      (case explicit_codec v n fr of Some c \<Rightarrow> Some (isc_encoding c) | None \<Rightarrow> sc_inline (rv_context v)) (node_path n) = (r, sel)"
    by fastforce
  then have "k = m" using assms by (auto simp: decode_primitive_node_def m Let_def bindr_eq_Inr)
  then show ?thesis using m(2) by (simp add: get_range_def split: if_splits)
qed

lemma decode_struct_bound:
  assumes "\<And>f. f \<in> set fs \<Longrightarrow> decodes_within (snd f)" "decode_struct v pl current fr start fs st = Inr ((x, k, p), u)"
  shows "k \<le> length current"
  using assms(2) decode_fields_bound [OF assms(1) le0] unfolding decode_struct_def
  by (auto elim!: bindr_InrE split: prod.splits)

lemma decode_array_bound:
  "decode_array v n element count dec pl current fr st = Inr ((x, k, p), u) \<Longrightarrow> k \<le> length current"
  by (auto simp: decode_array_def bindr_eq_Inr array_bytes_def bind_eq_Some_conv not_less
      split: if_splits option.splits dest: decode_elements_bound)

text \<open>
  C32: a node that is decoded consumes no more than the bytes it is given, whatever its
  kind, its conditions, the callbacks and the custom decoders.
\<close>

theorem decoded_within_payload:
  "decode_node lib v n pl current fr st = Inr ((x, k, p), u) \<Longrightarrow> k \<le> length current"
proof (induction n arbitrary: current fr st x k p u rule: measure_induct_rule [of size])
  case (less n)
  have dec: "decodes_within (\<lambda>c fr s. decode_node lib v f pl c fr s)" if "f \<in> set (children n)" for f
    unfolding decodes_within_def using less.IH [OF children_size [OF that]] by blast
  have fields_within: "decodes_within (snd f)"
    if "f \<in> set (map (\<lambda>f. (f, \<lambda>c fr s. decode_node lib v f pl c fr s)) (children n))" for f
    using that dec by auto
  have child: "k \<le> length current" if "f \<in> set (children n)" "decode_node lib v f pl current fr st = Inr ((x, k, p), u)" for f x k p u
    using less.IH [OF children_size [OF that(1)] that(2)] .
  have fin: "\<exists>x1 s1. m = Inr ((x1, k, p), s1)" if "bindr m (finish_node lib v n) = Inr ((x, k, p), u)" for m
    using that by (auto simp: bindr_eq_Inr finish_node_def)
  show ?case
  proof (cases "node_applies v n pl (ds_values st) = Inr True")
    case True
    note body = less.prems [unfolded decode_node.simps [of lib v n] True, simplified, THEN fin]
    show ?thesis
    proof (cases "node_kind n")
      case (Primitive q)
      then show ?thesis using body by (auto intro: decode_primitive_node_bound)
    next
      case (Struct fs)
      then have "fs = children n" by (simp add: children_def)
      then show ?thesis using Struct body decode_struct_bound [OF fields_within] by fastforce
    next
      case (OptionalStruct fs i)
      then have "fs = children n" by (simp add: children_def)
      then show ?thesis using OptionalStruct body decode_struct_bound [OF fields_within] by fastforce
    next
      case (ArrayOf e c)
      then show ?thesis using body by (auto intro: decode_array_bound)
    next
      case (UnionOf sel ws)
      then show ?thesis using body
        by (auto simp: decode_union_def bindr_eq_Inr children_def split: if_splits intro!: child)
    next
      case (Custom d j)
      then show ?thesis using body by (auto simp: decode_custom_def bindr_eq_Inr split: if_splits)
    next
      case (Terminated b c)
      then show ?thesis using body
        by (auto simp: finish_terminated_def bindr_eq_Inr checked_add_Some split: if_splits)
    qed (use body in auto)
  next
    case False
    then show ?thesis using less.prems by (subst (asm) decode_node.simps) (auto simp: bindr_eq_Inr)
  qed
qed

text \<open>The decoder on the count of the example.\<close>

lemma sample_count_decodes:
  assumes "c \<noteq> []"
  shows "\<exists>u. decode_node lib sample_view sample_count pl c fr st = Inr ((FUInt (ucast (hd c)), 1, None), u)"
proof -
  have kind: "node_kind sample_count = Primitive (PInteger u8_type)" "node_condition sample_count = None"
    by (simp_all add: sample_defs)
  have size: "node_data_size sample_count c loc = Inr 1" for loc
    by (simp add: node_data_size_def node_data_size_with_resolver.simps [of _ _ sample_count] kind primitive_data_size_def
        primitive_node_size_def u8_type_def)
  have range: "get_range (0, 1) c = Some [hd c]" using assms by (cases c) (simp_all add: get_range_def slice_def)
  have prim: "decode_primitive tc w (PInteger u8_type) [hd c] loc e path = (Inr (FUInt (ucast (hd c))), None)" for tc w loc e path
    by (simp add: decode_primitive_def decode_integer_def integer_as_u64_def u8_type_def in_order_def)
  have obs: "\<not> (\<exists>b \<in> set (callbacks_at (view_registry sample_view) path). observed_binding b)" for path
    by (simp add: sample_view_def callbacks_at_exact package_of_def sample_package_def)
  have body: "decode_primitive_node lib sample_view sample_count (PInteger u8_type) c fr st = Inr ((FUInt (ucast (hd c)), 1, None), st)"
    unfolding decode_primitive_node_def size
    by (simp add: range [simplified] prim Let_def explicit_codec_def sample_view_def)
  have "\<exists>u. finish_node lib sample_view sample_count ((FUInt (ucast (hd c)), 1, None), st) = Inr ((FUInt (ucast (hd c)), 1, None), u)"
    by (rule finish_node_total [OF _ obs]) (simp_all add: kind sample_view_def)
  then show ?thesis
    by (subst decode_node.simps) (simp add: kind node_applies_def body)
qed

theorem decoded_within_payload_witness:
  "\<exists>u. decode_node sample_library sample_view sample_count [2, 7, 9] [2, 7, 9] (payload_frame 0) decode_start =
     Inr ((FUInt 2, 1, None), u) \<and> 1 \<le> length [2 :: u8, 7, 9]"
proof -
  obtain u where u: "decode_node sample_library sample_view sample_count [2, 7, 9] [2, 7, 9] (payload_frame 0) decode_start =
     Inr ((FUInt 2, 1, None), u)"
    using sample_count_decodes [of "[2, 7, 9]"] by fastforce
  show ?thesis using u decoded_within_payload [OF u] by blast
qed

end
