(* ===== verification/CodecLaws.thy ===== *)
theory CodecLaws
  imports FieldCodec
begin

text \<open>
  What the primitive codecs of \<open>FieldCodec\<close> promise: a value that is encoded is decoded again, which
  signed values are not, and the square counts of matrices.
\<close>

unbundle bit_operations_syntax

subsection \<open>Truncated words\<close>

lemma le_word_le_bytes_truncates:
  "le_word (le_bytes n (w :: 'a::len word)) = (take_bit (8 * n) w :: 'a word)"
proof (rule bit_word_eqI)
  fix k assume k: "k < LENGTH('a)"
  have "8 * (k div 8) + k mod 8 = k" by simp
  moreover have "k div 8 < n \<longleftrightarrow> k < 8 * n" by (simp add: less_mult_imp_div_less div_less_iff_less_mult mult.commute)
  ultimately show "bit (le_word (le_bytes n w) :: 'a word) k \<longleftrightarrow> bit (take_bit (8 * n) w) k"
    using k by (simp add: bit_le_word le_bytes_def bit_ucast_iff bit_drop_bit_eq bit_take_bit_iff cong: conj_cong)
qed

lemma take_le_bytes [simp]: "n \<le> m \<Longrightarrow> take n (le_bytes m w) = le_bytes n w"
  by (simp add: le_bytes_def take_map)

lemma le_bytes_ucast:
  "8 * n \<le> LENGTH('b) \<Longrightarrow> le_bytes n (ucast w :: 'b::len word) = le_bytes n (w :: 'a::len word)"
proof (rule nth_equalityI)
  fix k assume n: "8 * n \<le> LENGTH('b)" and k: "k < length (le_bytes n (ucast w :: 'b word))"
  then have "8 * k + j < LENGTH('b)" if "j < 8" for j using that by simp
  then show "le_bytes n (ucast w :: 'b word) ! k = le_bytes n w ! k"
    using k by (intro bit_word_eqI) (simp add: le_bytes_def bit_ucast_iff bit_drop_bit_eq)
qed simp

lemma take_bit_small: "unat (w :: 'a::len word) < 2 ^ k \<Longrightarrow> take_bit k w = w"
  by (simp add: unsigned_take_bit_eq take_bit_nat_eq_self flip: unsigned_word_eqI [where ?'a = nat])

lemma truncated_word:
  "unat (w :: 'a::len word) < 2 ^ (8 * n) \<Longrightarrow> le_word (le_bytes n w) = w"
  by (simp add: le_word_le_bytes_truncates take_bit_small)

subsection \<open>Integers\<close>

text \<open>The bytes of an encoded integer: the low bytes of the value, in the order of the type.\<close>

lemma encode_integer_bytes:
  assumes "encode_integer i w path = Inr bs"
  shows "it_width i \<in> {1, 2, 4, 8}" "unat w < 2 ^ (8 * unat (it_width i))"
    "in_order (it_byte_order i) bs = le_bytes (unat (it_width i)) w" "length bs = unat (it_width i)"
proof -
  have part: "(case it_byte_order i of LittleEndian \<Rightarrow> take n (in_order (it_byte_order i) (le_bytes 8 w))
      | BigEndian \<Rightarrow> drop (8 - n) (in_order (it_byte_order i) (le_bytes 8 w))) = in_order (it_byte_order i) (le_bytes n w)"
    if "n \<le> 8" for n
    using that by (simp add: in_order_def drop_rev split: byte_order.split)
  have one: "[ucast w] = in_order (it_byte_order i) (le_bytes 1 w)"
    by (simp add: le_bytes_def in_order_def split: byte_order.split)
  have bound: "unat w < 2 ^ 64" using unsigned_less [of w, where ?'a = nat] by simp
  have "it_width i = 1 \<and> bs = in_order (it_byte_order i) (le_bytes 1 w) \<and> unat w < 2 ^ 8 \<or>
    it_width i = 2 \<and> bs = in_order (it_byte_order i) (le_bytes 2 w) \<and> unat w < 2 ^ 16 \<or>
    it_width i = 4 \<and> bs = in_order (it_byte_order i) (le_bytes 4 w) \<and> unat w < 2 ^ 32 \<or>
    it_width i = 8 \<and> bs = in_order (it_byte_order i) (le_bytes 8 w) \<and> unat w < 2 ^ 64"
    using assms bound
    by (auto simp: encode_integer_def Let_def part [simplified] one [simplified] word_le_nat_alt split: if_splits)
  then show "it_width i \<in> {1, 2, 4, 8}" "unat w < 2 ^ (8 * unat (it_width i))"
    "in_order (it_byte_order i) bs = le_bytes (unat (it_width i)) w" "length bs = unat (it_width i)"
    by auto
qed

lemma encode_integer_u64: "encode_integer i w path = Inr bs \<Longrightarrow> integer_as_u64 i bs path' = Inr w"
  using encode_integer_bytes [of i w path bs] by (auto simp: integer_as_u64_def truncated_word)

lemma unat_less_bits: "unat (w :: 'a::len word) < 2 ^ m \<longleftrightarrow> (\<forall>k. m \<le> k \<longrightarrow> \<not> bit w k)"
proof -
  have "unat w < 2 ^ m \<longleftrightarrow> take_bit m w = w"
    by (metis take_bit_nat_eq_self_iff unsigned_take_bit_eq unsigned_word_eqI)
  also have "\<dots> \<longleftrightarrow> (\<forall>k. m \<le> k \<longrightarrow> \<not> bit w k)"
    by (auto simp: bit_eq_iff bit_take_bit_iff not_le) (metis bit_imp_le_length not_le)
  finally show ?thesis .
qed

lemma sign_extension:
  assumes w: "unat (w :: 64 word) < 2 ^ LENGTH('a)" and a: "LENGTH('a) < 64"
  shows "scast (ucast w :: 'a::len word) = w \<longleftrightarrow> unat w < 2 ^ (LENGTH('a) - 1)"
proof -
  have high: "\<not> bit w k" if "LENGTH('a) \<le> k" for k using w that by (simp add: unat_less_bits)
  have "scast (ucast w :: 'a word) = w \<longleftrightarrow> (\<forall>k < 64. bit w (min (LENGTH('a) - 1) k) = bit w k)"
    using a by (auto simp: bit_eq_iff bit_signed_iff bit_ucast_iff min_def)
  also have "\<dots> \<longleftrightarrow> \<not> bit w (LENGTH('a) - 1)"
  proof
    assume "\<forall>k < 64. bit w (min (LENGTH('a) - 1) k) = bit w k"
    from this [rule_format, of "LENGTH('a)"] a high [of "LENGTH('a)"] show "\<not> bit w (LENGTH('a) - 1)" by simp
  next
    assume n: "\<not> bit w (LENGTH('a) - 1)"
    have "bit w (min (LENGTH('a) - 1) k) = bit w k" for k
      by (cases k "LENGTH('a) - 1" rule: linorder_cases) (use n high [of k] in \<open>simp_all add: min_def\<close>)
    then show "\<forall>k < 64. bit w (min (LENGTH('a) - 1) k) = bit w k" by blast
  qed
  also have "\<dots> \<longleftrightarrow> unat w < 2 ^ (LENGTH('a) - 1)"
  proof
    assume n: "\<not> bit w (LENGTH('a) - 1)"
    have "\<not> bit w k" if "LENGTH('a) - 1 \<le> k" for k
      by (cases "k = LENGTH('a) - 1") (use n high [of k] that in \<open>simp_all\<close>)
    then show "unat w < 2 ^ (LENGTH('a) - 1)" by (simp add: unat_less_bits)
  qed (simp add: unat_less_bits)
  finally show ?thesis .
qed

lemma encode_integer_i64:
  assumes e: "encode_integer i w path = Inr bs" and s: "it_signed i"
  shows "integer_as_i64 i bs path' = Inr w \<longleftrightarrow> it_width i = 8 \<or> unat w < 2 ^ (8 * unat (it_width i) - 1)"
proof -
  note b = encode_integer_bytes [OF e]
  have narrow: "(le_word (le_bytes 1 w) :: u8) = ucast w" "(le_word (le_bytes 2 w) :: u16) = ucast w" "(le_word (le_bytes 4 w) :: u32) = ucast w"
    using le_word_le_bytes [of 1 "ucast w :: u8"] le_word_le_bytes [of 2 "ucast w :: u16"] le_word_le_bytes [of 4 "ucast w :: u32"]
    by (simp_all add: le_bytes_ucast)
  have ext: "scast (ucast w :: u8) = w \<longleftrightarrow> unat w < 2 ^ 7" if "unat w < 2 ^ 8"
    using sign_extension [where 'a = 8, of w] that by simp
  have ext2: "scast (ucast w :: u16) = w \<longleftrightarrow> unat w < 2 ^ 15" if "unat w < 2 ^ 16"
    using sign_extension [where 'a = 16, of w] that by simp
  have ext4: "scast (ucast w :: u32) = w \<longleftrightarrow> unat w < 2 ^ 31" if "unat w < 2 ^ 32"
    using sign_extension [where 'a = 32, of w] that by simp
  show ?thesis using b s ext ext2 ext4
    by (auto simp: integer_as_i64_def Let_def narrow [simplified])
qed

subsection \<open>Packed integers and counts\<close>

lemma packed_raw:
  assumes "unat (w :: u64) < 2 ^ 30" "unat (s :: u64) < 4"
  shows "unat (push_bit 2 w + s) = 4 * unat w + unat s" "drop_bit 2 (push_bit 2 w + s) = w"
    "ucast (push_bit 2 w + s) AND 3 = (ucast s :: u8)"
proof -
  show raw: "unat (push_bit 2 w + s) = 4 * unat w + unat s"
    using assms by (simp add: push_bit_eq_mult unat_word_ariths)
  show "drop_bit 2 (push_bit 2 w + s) = w"
  proof (rule unsigned_word_eqI [where ?'a = nat])
    show "unat (drop_bit 2 (push_bit 2 w + s)) = unat w"
      using assms unfolding unsigned_drop_bit_eq raw by (simp add: drop_bit_eq_div take_bit_eq_mod)
  qed
  have three: "(3 :: u8) = mask 2" by (simp add: mask_eq_exp_minus_1)
  have "unat (ucast (push_bit 2 w + s) AND (3 :: u8)) = unat (push_bit 2 w + s) mod 4"
    unfolding three take_bit_eq_mask [symmetric] unsigned_take_bit_eq unsigned_ucast_eq
    by (simp add: take_bit_eq_mod mod_mod_cancel)
  also have "\<dots> = unat (ucast s :: u8)"
    using assms by (simp add: raw unsigned_ucast_eq take_bit_eq_mod)
  finally show "ucast (push_bit 2 w + s) AND 3 = (ucast s :: u8)" by (rule unsigned_word_eqI)
qed

lemma hd_le_bytes: "0 < n \<Longrightarrow> hd (le_bytes n w) = ucast w"
  by (simp add: le_bytes_def hd_map)

lemma packed_prefix:
  assumes "unat (w :: u64) < 2 ^ 30" "s \<in> {0, 1, 2}" "n = (if s = (1 :: u64) then 2 else if s = 2 then 4 else 1)" "4 * unat w + 3 < 2 ^ (8 * n)"
  shows "decode_packed_unsigned (le_bytes n (push_bit 2 w + s) @ rest) path = Inr (w, n)"
proof -
  have s: "unat s < 4" using assms(2) by auto
  note raw = packed_raw [OF assms(1) s]
  have n: "0 < n" using assms(2,3) by (auto split: if_splits)
  have "hd (le_bytes n (push_bit 2 w + s) @ rest) = ucast (push_bit 2 w + s)"
    using n by (metis hd_append2 hd_le_bytes length_0_conv length_le_bytes less_numeral_extra(3))
  then have sel: "hd (le_bytes n (push_bit 2 w + s) @ rest) AND 3 = ucast s" using raw(3) by simp
  have w: "le_word (le_bytes n (push_bit 2 w + s)) = push_bit 2 w + s"
    using assms(4) s by (intro truncated_word) (simp add: raw(1))
  have width: "(if ucast s = (1 :: u8) then 2 else if ucast s = (2 :: u8) then 4 else 1) = n" using assms(2,3) by auto
  have "get_range (0, n) (le_bytes n (push_bit 2 w + s) @ rest) = Some (le_bytes n (push_bit 2 w + s))"
    by (simp add: get_range_def slice_def)
  moreover have "le_bytes n (push_bit 2 w + s) @ rest \<noteq> []" using n by (auto simp flip: length_0_conv)
  ultimately show ?thesis
    by (simp add: decode_packed_unsigned_def Let_def sel width w raw(2) del: append_is_Nil_conv)
qed

lemma packed_roundtrip:
  assumes "encode_packed_unsigned w path = Inr bs"
  shows "decode_packed_unsigned (bs @ rest) path' = Inr (w, length bs)"
  using assms packed_prefix [of w 0 1 rest path'] packed_prefix [of w 1 2 rest path'] packed_prefix [of w 2 4 rest path']
  by (auto simp: encode_packed_unsigned_def word_le_nat_alt split: if_splits)

lemma matrix_root_bounds:
  "low * low \<le> len \<Longrightarrow> len < high * high \<Longrightarrow> low < high \<Longrightarrow>
   matrix_root len low high * matrix_root len low high \<le> len \<and> len < (matrix_root len low high + 1) * (matrix_root len low high + 1)"
proof (induction len low high rule: matrix_root.induct)
  case (1 len low high)
  show ?case
  proof (cases "low + 1 < high")
    case True
    define m where "m = low + (high - low) div 2"
    have m: "low < m" "m < high" using True by (auto simp: m_def)
    have "m \<le> len div m \<longleftrightarrow> m * m \<le> len" using m(1) by (simp add: less_eq_div_iff_mult_less_eq)
    moreover have "max m 1 = m" using m(1) by simp
    ultimately show ?thesis using 1(1,2) [OF True m_def] 1(3,4) True m
      unfolding matrix_root.simps [of len low high] by (simp add: Let_def m_def [symmetric] not_le)
  next
    case False
    then have "high = low + 1" using 1(5) by simp
    then show ?thesis using 1(3,4) unfolding matrix_root.simps [of len low high] by simp
  qed
qed

text \<open>
  C35: the bisection that computes the count stored before a square matrix finds the exact
  square root: it accepts an array of \<open>n\<close> elements with count \<open>k\<close> exactly when \<open>k\<close> squared is \<open>n\<close>, for every
  length a 64-bit target can have, without overflow.
\<close>

theorem matrix_count_exact:
  assumes "n < 2 ^ 64"
  shows "array_prefix_count n True path = Inr k \<longleftrightarrow> unat k * unat k = n"
proof -
  let ?h = "min n 0xFFFFFFFF + 1"
  let ?r = "matrix_root n 0 ?h"
  have "n < ?h * ?h" using assms by (auto simp: min_def)
  then have r: "?r * ?r \<le> n" "n < (?r + 1) * (?r + 1)" using matrix_root_bounds [of 0 n ?h] by auto
  have root: "j * j = n \<Longrightarrow> j = ?r" for j
  proof -
    assume j: "j * j = n"
    have "\<not> j < ?r" using r(1) j by (metis less_le_not_le mult_strict_mono' le0 not_less)
    moreover have "\<not> ?r < j" using r(2) j by (metis Suc_eq_plus1 Suc_leI leD mult_le_mono)
    ultimately show ?thesis by simp
  qed
  have "?r < 2 ^ 32"
  proof (rule ccontr)
    assume "\<not> ?r < 2 ^ 32"
    then have "2 ^ 32 * 2 ^ 32 \<le> ?r * ?r" by (intro mult_le_mono) auto
    then show False using r(1) assms by simp
  qed
  then have unat: "unat (of_nat ?r :: u64) = ?r" by (simp add: unat_of_nat take_bit_eq_mod)
  show ?thesis
  proof
    assume "array_prefix_count n True path = Inr k"
    then show "unat k * unat k = n" using unat by (auto simp: array_prefix_count_def Let_def split: if_splits)
  next
    assume k: "unat k * unat k = n"
    then have "unat k = ?r" using root by blast
    then have "k = of_nat ?r" by (intro unsigned_word_eqI [where ?'a = nat]) (use unat in simp)
    then show "array_prefix_count n True path = Inr k" using k unat assms by (simp add: array_prefix_count_def Let_def)
  qed
qed

theorem matrix_count_exact_witness: "array_prefix_count 144 True [] = Inr 12"
  using matrix_count_exact [of 144 "[]" 12] by simp

subsection \<open>Strings\<close>

lemma read_prefix:
  assumes "n < 2 ^ (8 * unat w)" "w \<in> {1, 2, 4}"
  shows "read_string_length w (le_bytes (unat w) (of_nat n :: u64) @ rest) path = Inr n"
proof -
  have n: "unat (of_nat n :: u64) = n" using assms by (auto simp: unat_of_nat take_bit_eq_mod)
  have c: "(ucast (of_nat n :: u64) :: u8) = of_nat n" "(ucast (of_nat n :: u64) :: u16) = of_nat n" "(ucast (of_nat n :: u64) :: u32) = of_nat n"
    by (rule unsigned_word_eqI [where ?'a = nat]; simp add: unsigned_of_nat)+
  have h: "le_bytes (Suc 0) (of_nat n :: u64) = [of_nat n]" by (simp add: le_bytes_def c(1))
  have e: "le_bytes 2 (of_nat n :: u64) = le_bytes 2 (of_nat n :: u16)" "le_bytes 4 (of_nat n :: u64) = le_bytes 4 (of_nat n :: u32)"
    using le_bytes_ucast [of 2 "of_nat n :: u64", where 'b = 16] le_bytes_ucast [of 4 "of_nat n :: u64", where 'b = 32]
    by (simp_all add: c)
  have l: "(le_word (le_bytes 2 (of_nat n :: u64)) :: u16) = of_nat n" "(le_word (le_bytes 4 (of_nat n :: u64)) :: u32) = of_nat n"
    by (simp_all add: e)
  show ?thesis using assms n
    by (auto simp: read_string_length_def h l unat_of_nat take_bit_eq_mod)
qed

text \<open>
  The bytes the decoder hands to the codec of a text that was encoded to \<open>raw\<close>: up to the first
  terminator of a terminated string, with the padding of a string of fixed length that has none.
\<close>

definition stored_text :: "string_type \<Rightarrow> bytes \<Rightarrow> bytes" where
  "stored_text st raw =
     (if st_zero_terminated st then takeWhile (\<lambda>b. b \<noteq> 0) raw
      else case st_fixed_length st of None \<Rightarrow> raw | Some l \<Rightarrow> raw @ replicate (unat l - length raw) 0)"

lemma takeWhile_stop: "takeWhile (\<lambda>b. b \<noteq> x) (xs @ x # ys) = takeWhile (\<lambda>b. b \<noteq> x) xs"
  by (induction xs) auto

lemma string_body_roundtrip:
  assumes f: "finish_string_encoding st bs path = Inr out"
  shows "\<exists>body. string_body st out path' = Inr body \<and>
    (if st_zero_terminated st then takeWhile (\<lambda>b. b \<noteq> 0) body else body) = stored_text st bs"
proof -
  let ?z = "if st_zero_terminated st then bs @ [0] else bs"
  obtain body where body: "(case st_fixed_length st of None \<Rightarrow> Inr ?z | Some l \<Rightarrow>
        if length ?z > unat l then Inl (EncodeError path StringExceedsFixedLength) else Inr (?z @ replicate (unat l - length ?z) 0)) = Inr body"
    using f by (auto simp: finish_string_encoding_def Let_def elim!: bindr_InrE)
  have fixed: "length body = unat k" if "st_fixed_length st = Some k" for k
    using body that by (auto split: if_splits)
  have whole: "(if st_zero_terminated st then takeWhile (\<lambda>b. b \<noteq> 0) body else body) = stored_text st bs"
    using body by (auto simp: takeWhile_stop stored_text_def split: if_splits option.splits)
  obtain framed where framed: "(case st_length_prefix st of None \<Rightarrow> Inr body | Some prefix \<Rightarrow>
        let width = lp_width prefix; offset = unat (lp_offset prefix); len = length body in
        if width = 1 \<and> len \<le> 0xFF \<or> width = 2 \<and> len \<le> 0xFFFF \<or> width = 4 \<and> len \<le> 0xFFFFFFFF then
          if offset < unat width then Inl codec_panic
          else Inr (le_bytes (unat width) (of_nat len :: u64) @ replicate (offset - unat width) 0 @ body)
        else if width \<in> {1, 2, 4} then Inl (EncodeError path StringExceedsPrefix)
        else Inl (EncodeError path (PrefixWidthUnsupported width))) = Inr framed"
    and out: "out = (case st_trailing_terminator st of None \<Rightarrow> framed | Some t \<Rightarrow> framed @ [t])"
    using f body by (auto simp: finish_string_encoding_def Let_def elim!: bindr_InrE)
  have rep: "(case st_trailing_terminator st of None \<Rightarrow> Inr out | Some t \<Rightarrow>
      if out = [] then Inl (DecodeError path' TerminatorAbsent)
      else if last out \<noteq> t then Inl (DecodeError path' (TerminatorDiffers t (last out))) else Inr (butlast out)) = Inr framed"
    by (simp add: out split: option.split)
  have "string_body st out path' = Inr body"
  proof (cases "st_length_prefix st")
    case None
    then show ?thesis using framed fixed by (simp add: string_body_def rep split: option.split)
  next
    case (Some prefix)
    let ?w = "lp_width prefix" and ?o = "unat (lp_offset prefix)"
    have w: "?w \<in> {1, 2, 4}" "length body < 2 ^ (8 * unat ?w)" "\<not> ?o < unat ?w"
      and fr: "framed = le_bytes (unat ?w) (of_nat (length body) :: u64) @ replicate (?o - unat ?w) 0 @ body"
      using framed by (auto simp: Some Let_def split: if_splits)
    have len: "length framed = ?o + length body" using w(3) by (simp add: fr)
    have "?o < 256" using unsigned_less [of "lp_offset prefix", where ?'a = nat] by simp
    moreover have "length body < 2 ^ 32" using w(1,2) by auto
    ultimately have add: "checked_add ?o (length body) = Some (?o + length body)" by (simp add: checked_add_def usize_max_def)
    have slice: "slice ?o (?o + length body) framed = body" using w(3) by (simp add: fr slice_def)
    show ?thesis
      using read_prefix [OF w(2,1)] w(3) by (simp add: string_body_def rep Some Let_def len fr add slice [unfolded fr])
  qed
  then show ?thesis using whole by blast
qed

subsection \<open>Primitives\<close>

text \<open>
  The values that survive being written and read again. A signed integer narrower than eight bytes
  must be below the sign bit, which excludes the negative ones; an integer must have the signedness of
  its type, an enumeration value of an unsigned type must not be negative; a float that is stored as
  \<open>f32\<close> must be one; a text must be what its codec makes of the stored bytes. Every other value survives.
\<close>

definition fits_signed :: "integer_type \<Rightarrow> i64 \<Rightarrow> bool" where
  "fits_signed i w \<longleftrightarrow> it_width i = 8 \<or> unat w < 2 ^ (8 * unat (it_width i) - 1)"

definition inline_codec :: "string_type \<Rightarrow> inline_string_encoding option \<Rightarrow> rstring" where
  "inline_codec st inline = (case (if is_localized_string st then inline else None) of Some q \<Rightarrow> schema_name q | None \<Rightarrow> text_encoding st)"

definition text_survives :: "text_codecs \<Rightarrow> string_type \<Rightarrow> inline_string_encoding option \<Rightarrow> rstring \<Rightarrow> bool" where
  "text_survives tc st inline s \<longleftrightarrow> (\<exists>raw. encode_text tc (inline_codec st inline) s [] = Inr raw \<and>
     decode_text tc (inline_codec st inline) False (stored_text st raw) [] = Inr s)"

definition survives ::
  "text_codecs \<Rightarrow> (u32 \<Rightarrow> f64) \<Rightarrow> (f64 \<Rightarrow> u32) \<Rightarrow> primitive_type \<Rightarrow> owned_field_value \<Rightarrow> inline_string_encoding option \<Rightarrow> bool" where
  "survives tc widen narrow p value inline = (case (p, value) of
      (PInteger i, OInt w) \<Rightarrow> it_signed i \<and> fits_signed i w
    | (PInteger i, OUInt _) \<Rightarrow> \<not> it_signed i
    | (PEnumeration i _, OInt w) \<Rightarrow> if it_signed i then fits_signed i w else 0 \<le> sint w
    | (PFloat width _ _ _, OFloat f) \<Rightarrow> width = 4 \<longrightarrow> widen (narrow f) = f
    | (PString st, OString s) \<Rightarrow> text_survives tc st inline s
    | _ \<Rightarrow> True)"

lemma sint_nonneg: "0 \<le> sint (w :: 64 word) \<longleftrightarrow> unat w < 2 ^ 63"
proof -
  have "0 \<le> sint w \<longleftrightarrow> \<not> bit w 63"
    by (simp add: sint_uint signed_take_bit_nonnegative_iff bit_uint_iff)
  also have "\<dots> \<longleftrightarrow> unat w < 2 ^ 63"
  proof
    assume n: "\<not> bit w 63"
    have "\<not> bit w k" if "63 \<le> k" for k
      using n that bit_imp_le_length [of w k] by (cases "k = 63") auto
    then show "unat w < 2 ^ 63" unfolding unat_less_bits by blast
  next
    assume "unat w < 2 ^ 63"
    then show "\<not> bit w 63" unfolding unat_less_bits by simp
  qed
  finally show ?thesis .
qed

text \<open>The path is only reported; whether a codec accepts does not depend on it.\<close>

lemma text_path:
  "encode_text tc enc s path = Inr raw \<longleftrightarrow> encode_text tc enc s [] = Inr raw"
  "decode_text tc enc q bs path = Inr t \<longleftrightarrow> decode_text tc enc q bs [] = Inr t"
  by (auto simp: encode_text_def decode_text_def Let_def bindr_eq_Inr ok_or_def split: option.splits prod.splits if_splits)

lemma prefer_is_no_label: "tc_for_label tc (ascii ''prefer_utf8'') = None \<Longrightarrow> encode_text tc (ascii ''prefer_utf8'') s path \<noteq> Inr raw"
  by (simp add: encode_text_def ascii_def)

lemma text_roundtrip:
  assumes labels: "tc_for_label tc (ascii ''prefer_utf8'') = None"
    and e: "encode_text tc (inline_codec st inline) s path = Inr raw" "finish_string_encoding st raw path = Inr bs"
    and n: "\<not> (is_localized_string st \<and> localized)"
  shows "(\<exists>v sel. decode_string_selected tc st bs localized inline path' = (Inr v, sel) \<and> handler_to_owned_value v = OString s)
    \<longleftrightarrow> text_survives tc st inline s"
proof -
  let ?raw = "stored_text st raw"
  obtain body where body: "string_body st bs path' = Inr body" "(if st_zero_terminated st then takeWhile (\<lambda>b. b \<noteq> 0) body else body) = ?raw"
    using string_body_roundtrip [OF e(2)] by blast
  have concrete: "\<not> prefers_utf8 q" if "is_localized_string st" "inline = Some q" for q
    using that e(1) prefer_is_no_label [OF labels] by (cases q) (auto simp: inline_codec_def)
  have preferred: "((case inline of Some p \<Rightarrow> prefers_utf8 p | None \<Rightarrow> False) \<and> is_localized_string st \<and> utf8_valid ?raw) = False"
    using concrete by (auto split: option.split)
  have preserve: "(is_localized_string st \<and> \<not> False \<and> preserve ?raw inline) = False"
    using concrete by (auto simp: preserve_def split: option.splits inline_string_encoding.splits)
  have enc: "fst (string_encoding tc st ?raw inline False) = inline_codec st inline"
    using concrete by (auto simp: string_encoding_def inline_codec_def Let_def split: option.split)
  have dec: "fst (decode_string_selected tc st bs localized inline path') =
      (case decode_text tc (inline_codec st inline) False ?raw path' of
         Inr s \<Rightarrow> Inr (FString s) | Inl e \<Rightarrow> if preserves_text inline then Inr (FBytes ?raw) else Inl e)"
    using enc
    unfolding decode_string_selected_def if_not_P [OF n] body sum.case Let_def preferred preserve
    by (cases "string_encoding tc st ?raw inline False") simp
  have "(\<exists>v sel. decode_string_selected tc st bs localized inline path' = (Inr v, sel) \<and> handler_to_owned_value v = OString s)
      \<longleftrightarrow> (\<exists>v. fst (decode_string_selected tc st bs localized inline path') = Inr v \<and> handler_to_owned_value v = OString s)"
    by (cases "decode_string_selected tc st bs localized inline path'") auto
  also have "\<dots> \<longleftrightarrow> decode_text tc (inline_codec st inline) False ?raw path' = Inr s"
    unfolding dec by (auto split: sum.splits)
  also have "\<dots> \<longleftrightarrow> text_survives tc st inline s"
    using e(1) [THEN text_path(1) [THEN iffD1]] text_path(2) [of tc "inline_codec st inline" False ?raw path' s]
    by (simp add: text_survives_def)
  finally show ?thesis .
qed

lemma integer_i64_survives:
  assumes "encode_integer i w path = Inr bs"
  shows "integer_as_i64 i bs path' = Inr w \<longleftrightarrow> (if it_signed i then fits_signed i w else 0 \<le> sint w)"
proof (cases "it_signed i")
  case True
  then show ?thesis using encode_integer_i64 [OF assms True] by (simp add: fits_signed_def)
next
  case False
  then show ?thesis using encode_integer_u64 [OF assms] by (simp add: integer_as_i64_def sint_nonneg)
qed

lemma in_order_inverse: "in_order order (in_order order bs) = bs"
  by simp

text \<open>
  C33: which values the editor can write. A value of any primitive type that the encoder
  accepts is read back by the decoder under the same policy, in its owned form, if and only if it survives:
  the exceptions are the integers at or above the sign bit of a narrow signed type, the integers given in
  the other signedness than their type, the enumeration values of an unsigned type above the signed range,
  the numbers a four-byte float rounds, and the texts their codec does not read back from the stored bytes
  (with a terminator inside, with padding nothing ends, with characters the codec maps elsewhere). A policy
  that prefers UTF-8 names no codec, so a localized text is never accepted under it.
\<close>

theorem primitive_roundtrip:
  assumes labels: "tc_for_label tc (ascii ''prefer_utf8'') = None"
    and e: "encode_primitive tc narrow p ov localized inline path = Inr bs"
  shows "(\<exists>v sel. decode_primitive tc widen p bs localized inline path' = (Inr v, sel) \<and> handler_to_owned_value v = ov)
    \<longleftrightarrow> survives tc widen narrow p ov inline"
proof (cases p)
  case (PInteger i)
  show ?thesis
  proof (cases ov)
    case (OInt w)
    then have "encode_integer i w path = Inr bs" using e by (simp add: PInteger encode_primitive_def)
    then show ?thesis using integer_i64_survives [of i w path bs path'] encode_integer_u64 [of i w path bs path']
      by (cases "it_signed i") (auto simp: OInt PInteger survives_def decode_primitive_def decode_integer_def bindr_eq_Inr)
  next
    case (OUInt w)
    then have "encode_integer i w path = Inr bs" using e by (simp add: PInteger encode_primitive_def)
    then show ?thesis using encode_integer_u64 [of i w path bs path']
      by (cases "it_signed i") (auto simp: OUInt PInteger survives_def decode_primitive_def decode_integer_def bindr_eq_Inr)
  qed (insert e, simp_all add: PInteger encode_primitive_def Let_def)
next
  case PackedUnsigned
  then show ?thesis using e packed_roundtrip [of _ path bs "[]" path']
    by (cases ov) (auto simp: encode_primitive_def decode_primitive_def survives_def)
next
  case (PFloat w order sc dg)
  show ?thesis
  proof (cases ov)
    case (OFloat f)
    then show ?thesis using e
      by (auto simp: PFloat encode_primitive_def survives_def decode_primitive_def decode_float_def split: if_splits)
  qed (insert e, simp_all add: PFloat encode_primitive_def Let_def)
next
  case (PString st)
  show ?thesis
  proof (cases ov)
    case (OUInt w)
    have "ucast (ucast w :: u32) = w" if "w \<le> 0xFFFFFFFF"
      using that by (intro unsigned_word_eqI [where ?'a = nat]) (simp add: word_le_nat_alt unsigned_ucast_eq take_bit_nat_eq_self take_bit_small)
    then show ?thesis using e
      by (auto simp: OUInt PString encode_primitive_def decode_primitive_def decode_string_selected_def survives_def split: if_splits)
  next
    case (OString t)
    then obtain raw where raw: "encode_text tc (inline_codec st inline) t path = Inr raw" "finish_string_encoding st raw path = Inr bs"
      "\<not> (is_localized_string st \<and> localized)"
      using e by (auto simp: PString encode_primitive_def inline_codec_def bindr_eq_Inr split: if_splits)
    then show ?thesis using text_roundtrip [OF labels raw]
      by (simp add: OString PString survives_def decode_primitive_def)
  qed (insert e, simp_all add: PString encode_primitive_def Let_def)
next
  case (PBytes l)
  then show ?thesis using e
    by (cases ov) (auto simp: encode_primitive_def decode_primitive_def survives_def split: option.splits if_splits)
next
  case (PFormId targets)
  then show ?thesis using e
    by (cases ov) (auto simp: encode_primitive_def decode_primitive_def survives_def)
next
  case (PEnumeration i vs)
  show ?thesis
  proof (cases ov)
    case (OInt w)
    then have "encode_integer i w path = Inr bs" using e by (simp add: PEnumeration encode_primitive_def)
    then show ?thesis using integer_i64_survives [of i w path bs path']
      by (auto simp: OInt PEnumeration survives_def decode_primitive_def bindr_eq_Inr)
  qed (insert e, simp_all add: PEnumeration encode_primitive_def Let_def)
next
  case (PFlags i vs)
  then show ?thesis using e encode_integer_u64 [of i _ path bs path']
    by (cases ov) (auto simp: encode_primitive_def decode_primitive_def survives_def)
next
  case (PUnused l)
  then show ?thesis using e
    by (cases ov) (auto simp: encode_primitive_def decode_primitive_def survives_def split: if_splits)
qed

lemma sint_range: "k \<le> 63 \<Longrightarrow> 0 \<le> sint (w :: 64 word) \<and> sint w < 2 ^ k \<longleftrightarrow> unat w < 2 ^ k"
proof -
  assume k: "k \<le> 63"
  have eq: "sint w = int (unat w)" if "unat w < 2 ^ 63"
  proof -
    have "\<not> bit w 63" using that unfolding unat_less_bits by simp
    then have "sint w = take_bit 63 (uint w)" by (simp add: sint_uint signed_take_bit_eq_if_positive bit_uint_iff)
    also have "\<dots> = uint w"
    proof -
      have "int (unat w) < int (2 ^ 63)" using that by (simp only: of_nat_less_iff)
      then show ?thesis by (simp add: take_bit_int_eq_self_iff)
    qed
    finally show ?thesis by simp
  qed
  have "(2 :: nat) ^ k \<le> 2 ^ 63" using k by (intro power_increasing) auto
  moreover have "int (unat w) < 2 ^ k \<longleftrightarrow> unat w < 2 ^ k"
    by (metis of_nat_less_iff of_nat_numeral of_nat_power)
  ultimately show ?thesis
    using eq sint_nonneg [of w] by (cases "unat w < 2 ^ 63") auto
qed

text \<open>
  C34: the decoder reads a signed integer of one, two or four bytes as a signed value,
  but the encoder compares the value, taken as unsigned, with the unsigned range of the width. A value comes
  back only when it is neither negative nor above the signed maximum; negative values are refused.
\<close>

theorem narrow_signed_integers:
  assumes "it_signed i" "it_width i \<in> {1, 2, 4}"
  shows "(bindr (encode_primitive tc narrow (PInteger i) (OInt w) localized inline path)
      (\<lambda>bs. fst (decode_primitive tc widen (PInteger i) bs localized inline path)) = Inr (FInt w) \<longleftrightarrow>
      0 \<le> sint w \<and> sint w < 2 ^ (8 * unat (it_width i) - 1)) \<and>
    (sint w < 0 \<longrightarrow> encode_primitive tc narrow (PInteger i) (OInt w) localized inline path = Inl (EncodeError path IntegerDoesNotFit))"
proof -
  have enc: "encode_primitive tc narrow (PInteger i) (OInt w) localized inline path = encode_integer i w path"
    by (simp add: encode_primitive_def)
  have range: "0 \<le> sint w \<and> sint w < 2 ^ (8 * unat (it_width i) - 1) \<longleftrightarrow> unat w < 2 ^ (8 * unat (it_width i) - 1)"
    using assms(2) by (intro sint_range) auto
  have neg: "sint w < 0 \<longrightarrow> encode_integer i w path = Inl (EncodeError path IntegerDoesNotFit)"
    using assms(2) sint_nonneg [of w] by (auto simp: encode_integer_def Let_def word_le_nat_alt)
  have "bindr (encode_integer i w path) (\<lambda>bs. fst (decode_primitive tc widen (PInteger i) bs localized inline path)) = Inr (FInt w) \<longleftrightarrow>
      unat w < 2 ^ (8 * unat (it_width i) - 1)"
  proof (cases "encode_integer i w path")
    case (Inl e)
    then have "\<not> unat w < 2 ^ (8 * unat (it_width i) - 1)"
      using assms(2) by (auto simp: encode_integer_def Let_def word_le_nat_alt split: if_splits)
    then show ?thesis by (simp add: Inl)
  next
    case (Inr bs)
    then show ?thesis using encode_integer_i64 [OF Inr assms(1)] assms
      by (auto simp: decode_primitive_def decode_integer_def bindr_eq_Inr)
  qed
  then show ?thesis using enc neg range by simp
qed

text \<open>The decoder does produce those values.\<close>

lemma negative_decodes:
  "decode_integer \<lparr> it_width = 2, it_signed = True, it_byte_order = LittleEndian \<rparr> [0xFF, 0xFF] path = Inr (FInt (- 1))"
  by (simp add: decode_integer_def integer_as_i64_def in_order_def)

definition sample_text :: text_codecs where
  "sample_text = \<lparr> tc_for_label = (\<lambda>_. None), tc_decode = (\<lambda>_ b. (b, False)), tc_encode = (\<lambda>_ b. (b, False)) \<rparr>"

theorem narrow_signed_integers_witness:
  "encode_primitive sample_text ucast (PInteger \<lparr> it_width = 2, it_signed = True, it_byte_order = LittleEndian \<rparr>) (OInt (- 1)) False None [] =
     Inl (EncodeError [] IntegerDoesNotFit)"
  using narrow_signed_integers [of "\<lparr> it_width = 2, it_signed = True, it_byte_order = LittleEndian \<rparr>" sample_text ucast "- 1" False None "[]"]
  by simp

definition sample_string :: string_type where
  "sample_string = \<lparr> st_encoding = ascii ''utf8'', st_localized = False, st_zero_terminated = True, st_fixed_length = Some 6,
     st_length_prefix = Some \<lparr> lp_width = 2, lp_offset = 2 \<rparr>, st_trailing_terminator = Some 0x7C, st_allowed_values = [] \<rparr>"

text \<open>A terminated string of a fixed length, which keeps a short text and loses what follows a NUL.\<close>

theorem primitive_roundtrip_witness:
  "encode_primitive sample_text ucast (PString sample_string) (OString [0x48, 0x69]) False None [] =
     Inr [6, 0, 0x48, 0x69, 0, 0, 0, 0, 0x7C] \<and>
   (\<exists>v sel. decode_primitive sample_text ucast (PString sample_string) [6, 0, 0x48, 0x69, 0, 0, 0, 0, 0x7C] False None [] = (Inr v, sel) \<and>
     handler_to_owned_value v = OString [0x48, 0x69]) \<and>
   (\<nexists>v sel. decode_primitive sample_text ucast (PString sample_string) [6, 0, 0x48, 0, 0x69, 0, 0, 0, 0x7C] False None [] = (Inr v, sel) \<and>
     handler_to_owned_value v = OString [0x48, 0, 0x69])"
proof -
  have l: "tc_for_label sample_text (ascii ''prefer_utf8'') = None" by (simp add: sample_text_def)
  have e: "encode_primitive sample_text ucast (PString sample_string) (OString [0x48, 0x69]) False None [] =
      Inr [6, 0, 0x48, 0x69, 0, 0, 0, 0, 0x7C]"
    "encode_primitive sample_text ucast (PString sample_string) (OString [0x48, 0, 0x69]) False None [] =
      Inr [6, 0, 0x48, 0, 0x69, 0, 0, 0, 0x7C]"
    by (simp_all add: encode_primitive_def sample_string_def is_localized_string_def text_encoding_def encode_text_def
        finish_string_encoding_def ascii_def le_bytes_unroll numeral_3_eq_3)
  have u: "utf8_error [0x48, 0x69] 0 = None" "utf8_error [0x48] 0 = None" by (simp_all add: utf8_error_None)
  have "survives sample_text ucast ucast (PString sample_string) (OString [0x48, 0x69]) None"
    "\<not> survives sample_text ucast ucast (PString sample_string) (OString [0x48, 0, 0x69]) None"
    by (simp_all add: survives_def text_survives_def stored_text_def inline_codec_def sample_string_def text_encoding_def
        encode_text_def decode_text_def ascii_def u)
  then show ?thesis
    using e primitive_roundtrip [OF l e(1), of ucast "[]"] primitive_roundtrip [OF l e(2), of ucast "[]"] by blast
qed

end
