(* ===== verification/Spec2Isabelle.thy ===== *)
theory Spec2Isabelle
  imports WriterLaws PluginCache Localized CodePages Implicits PatcherLaws Archives SchemaCatalog InfoSort DecodeBounds CodecLaws
begin

text \<open>
  A verification library for bethkit, a Rust workspace that reads, edits and writes the plugin files
  (ESM, ESP, ESL), string tables and archives (BSA, BA2) of the Bethesda games, and interprets their
  records by schema packages. The theories follow the crates under \<open>src/crates\<close>.

  \<^bold>\<open>Conventions.\<close> \<open>Prelude\<close> holds them: integers are words of their width, \<open>usize\<close> is a natural number
  with the bound of 64 bits written out where the code checks it; a \<open>Result\<close> is a sum, sequenced by
  \<open>bindr\<close>; a \<open>String\<close> is its UTF-8 bytes; a float is its bit pattern. Where the source adds, subtracts
  or shifts without a check, the model wraps as a release build does. A panic of the source is an error
  value of its own (\<open>BsaPanic\<close>, \<open>IndexPanic\<close>), so that a theorem can exclude it.

  \<^bold>\<open>bethkit-io.\<close> \<open>Cursor\<close> (\<open>cursor.rs\<close>, \<open>compression.rs\<close>): the bounds-checked cursor, with locales for its
  fixed-width reads. The zlib and LZ4 decoders are parameters named \<open>inflate\<close>, the encoders \<open>deflate\<close>.

  \<^bold>\<open>bethkit-core.\<close>
  \<^item> \<open>CoreTypes\<close>, \<open>Records\<close>, \<open>RecordTree\<close>, \<open>GroupBlocks\<close>, \<open>PluginFile\<close> (\<open>types.rs\<close>, \<open>record.rs\<close>, \<open>group.rs\<close>,
    \<open>plugin.rs\<close>): parsing. A group is a tree \<open>grp\<close> over records; the lazy caches of a record are fields
    that the operations return updated. The recursive parser accepts exactly the layouts of the group
    grammar (\<open>parse_children_iff_layout\<close>).
  \<^item> \<open>PluginWriter\<close>, \<open>WriterRoundTrip\<close>, \<open>WriterLaws\<close> (\<open>writer.rs\<close>): building, serialising, the ESL
    conversion. Writing and parsing is the identity up to caches (\<open>plugin_roundtrip\<close>), oversized
    subrecords with their XXXX override included.
  \<^item> \<open>LoadOrder\<close>, \<open>PluginCache\<close> (\<open>load_order.rs\<close>, \<open>cache.rs\<close>): index and slot allocation, FormID
    resolution, winning overrides and the two indices, as invariants of all reachable states.
  \<^item> \<open>OrderedMaps\<close>, \<open>StringTables\<close>, \<open>Localized\<close>, \<open>CodePages\<close>, \<open>Implicits\<close> (\<open>strings.rs\<close>, \<open>localized.rs\<close>,
    \<open>encoding.rs\<close>, \<open>implicits.rs\<close>): string tables, the three tables of a localized plugin, the walk over
    its strings. \<open>ordered_map\<close> is the interface of \<open>BTreeMap\<close>, interpreted on sorted association lists.
  \<^item> \<open>Patcher\<close>, \<open>PatcherLaws\<close> (\<open>patcher.rs\<close>, \<open>patcher_header.rs\<close>): sparse edits of a parsed file. Copying
    untouched groups implements rebuilding all of them; a registered order moves exactly its records.

  \<^bold>\<open>bethkit-bsa.\<close> \<open>ArchiveHash\<close>, \<open>ArchiveCore\<close>, \<open>Tes3Archive\<close>, \<open>Tes4Archive\<close>, \<open>Tes4RoundTrip\<close>, \<open>BsaArchive\<close>,
  \<open>Ba2Core\<close>, \<open>Ba2Gnrl\<close>, \<open>Dds\<close>, \<open>Ba2Dx10\<close>, \<open>Archives\<close> (\<open>hash.rs\<close>, \<open>archive.rs\<close>, \<open>bsa/\<close>, \<open>ba2/\<close>, \<open>write/\<close>): the hashes,
  readers and writers of all formats. A written archive opens and gives back the files added last under
  each path, where the format can hold them: \<open>bsa_fits\<close> and \<open>ba2_fits\<close> say when, and the writers do not check
  it. The round trips share the locale \<open>archive_codec\<close> and assume that decoding undoes encoding.

  \<^bold>\<open>bethkit-schema.\<close>
  \<^item> \<open>SchemaExpressions\<close> (\<open>expression.rs\<close>): the evaluator with its operation budget; typing, and its
    agreement with an evaluation that counts operations without limiting them (\<open>meaning\<close>, \<open>operations\<close>).
  \<^item> \<open>SchemaModel\<close>, \<open>SchemaPackages\<close>, \<open>SchemaLaws\<close> (\<open>model.rs\<close>, \<open>package.rs\<close>): the node tree, validation, and
    what it guarantees: unique names, bounds, and exactly the scopes of the fields that expressions read
    (\<open>in_scope\<close>). Recursion over the tree ends by the size of the node.
  \<^item> \<open>SchemaIndex\<close>, \<open>SchemaRegistry\<close>, \<open>SchemaCatalog\<close> (\<open>node_index.rs\<close>, \<open>registry.rs\<close>, \<open>package.rs\<close>): lookup
    by path, the package and bundle frames, the catalog. CBOR and SHA-256 are parameters; the law of the
    CBOR codec, \<open>codec_ok\<close>, has the recursion limit of its reader, beyond which a package does not load.

  \<^bold>\<open>bethkit-semantic.\<close>
  \<^item> \<open>SemanticCore\<close> (\<open>error.rs\<close>, \<open>value.rs\<close>, the named plugins of \<open>analysis.rs\<close>): errors and decoded values.
  \<^item> \<open>Grammar\<close>, \<open>GrammarLaws\<close> (\<open>grammar.rs\<close>): the match of a record's subrecords against its schema. The loops
    over children take the children's matchers; the locale \<open>matcher_contract\<close> is what a matcher keeps.
    \<open>Repeat\<close> has fuel \<open>length subs + 1\<close>, enough because every pass assigns a subrecord; the walk along the
    history has fuel \<open>length h\<close>, enough because the theorems show that it is never exhausted.
  \<^item> \<open>InfoOrder\<close>, \<open>InfoSort\<close> (\<open>info_sort.rs\<close>): the ordering of INFO records by their PNAM links and the plan for
    a topic group. Rust's Unicode lower-casing is the parameter \<open>lower\<close>.

  \<^item> \<open>TextEncoding\<close>, \<open>FieldCodec\<close> (\<open>text_encoding.rs\<close>, \<open>opaque_text.rs\<close>, the codecs of \<open>view.rs\<close> and \<open>editor.rs\<close>):
    inline encodings and the values of one primitive field. The text codecs of \<open>encoding_rs\<close> are the
    record \<open>text_codecs\<close>, the float conversions are parameters. \<open>CodecLaws\<close>: which encoded values decode to
    themselves (\<open>survives\<close>); that narrow signed integers mostly do not.
  \<^item> \<open>Handlers\<close>, \<open>SemanticContexts\<close> (\<open>decoder.rs\<close>, \<open>handler.rs\<close>, \<open>context.rs\<close>): the registries of decoders and
    handlers, which are values of trait objects (a record of their functions), and the operations of a
    context that select bindings and invoke them. Access to JSON is a field of the registry.
  \<^item> \<open>LegacyPayload\<close>, \<open>PayloadDecoder\<close>, \<open>RecordFields\<close> (\<open>legacy_payload.rs\<close>, \<open>decode_retention.rs\<close>, \<open>view.rs\<close>):
    sizes, the recursive decoder of a payload, the fields of a record. \<open>DecodeLaws\<close> relates decoding with
    and without retention by a simulation (\<open>in_step\<close>); \<open>DecodeBounds\<close> bounds what a node consumes. The
    recursion ends by the size of the node; the array loop by its count or the rest of the payload.

  \<^bold>\<open>Not modelled.\<close> Opening paths, memory mapping and streams (operating-system I/O; errors of an output
  stream are left out of the writers); zlib, LZ4, CBOR, SHA-256, JSON and the text codecs (third-party
  packages); in \<open>bethkit-semantic\<close>, the library of built-in handlers (a handler is a parameter of the
  registry), the transactions of the record editor, validation reports, conflict analysis and
  encoding detection, which rests on a third-party detector; \<open>bethkit-ffi\<close>, the C bindings, which hold
  raw pointers and no logic of their own.
\<close>

end
